(* ===== verification/Odin_Prelude.thy ===== *)
theory Odin_Prelude
  imports Main "HOL-Library.Word" "HOL-Library.Multiset"
begin

text \<open>
  Shared vocabulary of the development: named collections of simplification facts, generic lemmas
  on lists and permutations, and the arithmetic helpers of \<^verbatim>\<open>src/common.cpp\<close> and
  \<^verbatim>\<open>src/common_memory.cpp\<close> that several components call (\<open>align_formula\<close>, \<open>next_pow2\<close>).

  Signed 64-bit quantities (\<^verbatim>\<open>i64\<close>, \<^verbatim>\<open>isize\<close>) that stay far from their bounds are \<open>int\<close>;
  array indices and counts, which are never negative, are \<open>nat\<close>; bytes, hashes and pointers
  are words of their width.
\<close>

unbundle bit_operations_syntax

named_theorems swap_simps \<open>facts about exchanging two array elements\<close>
named_theorems layout_simps \<open>facts about alignment arithmetic\<close>

type_synonym byte = "8 word"
type_synonym u32 = "32 word"
type_synonym ptr = "64 word"

subsection \<open>Exchanging two elements of an array\<close>

definition swap_at :: "'a list \<Rightarrow> nat \<Rightarrow> nat \<Rightarrow> 'a list" where
  "swap_at xs i j = xs[i := xs ! j, j := xs ! i]"

lemma length_swap_at [simp, swap_simps]: "length (swap_at xs i j) = length xs"
  by (simp add: swap_at_def)

lemma nth_swap_at [swap_simps]:
  "i < length xs \<Longrightarrow> j < length xs \<Longrightarrow> k < length xs \<Longrightarrow>
   swap_at xs i j ! k = xs ! (if k = i then j else if k = j then i else k)"
  by (auto simp: swap_at_def nth_list_update)

lemma mset_swap_at [swap_simps]:
  "i < length xs \<Longrightarrow> j < length xs \<Longrightarrow> mset (swap_at xs i j) = mset xs"
  by (simp add: swap_at_def mset_swap)

lemma set_swap_at [swap_simps]:
  "i < length xs \<Longrightarrow> j < length xs \<Longrightarrow> set (swap_at xs i j) = set xs"
  by (metis mset_swap_at set_mset_mset)

lemma distinct_swap_at [swap_simps]:
  "i < length xs \<Longrightarrow> j < length xs \<Longrightarrow> distinct (swap_at xs i j) = distinct xs"
  by (metis mset_swap_at mset_eq_imp_distinct_iff)

subsection \<open>Loops that may stop the compiler\<close>

text \<open>A \<^verbatim>\<open>for\<close> loop over a list whose body may fail an assertion (\<open>None\<close>).\<close>

primrec fold_opt :: "('a \<Rightarrow> 's \<Rightarrow> 's option) \<Rightarrow> 'a list \<Rightarrow> 's \<Rightarrow> 's option" where
  "fold_opt f [] s = Some s"
| "fold_opt f (x # xs) s = Option.bind (f x s) (fold_opt f xs)"

lemma fold_opt_total:
  assumes "\<And>x s. x \<in> set xs \<Longrightarrow> I s \<Longrightarrow> \<exists>s'. f x s = Some s' \<and> I s'" and "I s"
  shows "\<exists>s'. fold_opt f xs s = Some s' \<and> I s'"
  using assms
proof (induction xs arbitrary: s)
  case (Cons x xs)
  then obtain s1 where "f x s = Some s1" "I s1" by (meson list.set_intros(1))
  with Cons show ?case by simp
qed simp

text \<open>The same with an invariant that speaks of the elements already visited.\<close>

lemma fold_opt_total_prefix:
  assumes "\<And>x ys s. I ys s \<Longrightarrow> x \<in> set xs \<Longrightarrow> length ys < length zs + length xs \<Longrightarrow> \<exists>s'. f x s = Some s' \<and> I (ys @ [x]) s'" and "I zs s"
  shows "\<exists>s'. fold_opt f xs s = Some s' \<and> I (zs @ xs) s'"
  using assms
proof (induction xs arbitrary: s zs)
  case (Cons x xs)
  then obtain s1 where s1: "f x s = Some s1" "I (zs @ [x]) s1" by fastforce
  have "\<exists>s'. fold_opt f xs s1 = Some s' \<and> I ((zs @ [x]) @ xs) s'"
    by (rule Cons.IH) (use Cons.prems(1) s1 in auto)
  with s1(1) show ?case by simp
qed simp

lemma fold_opt_prefixes:
  assumes "\<And>ys x rest s. zs @ xs = ys @ x # rest \<Longrightarrow> I ys s \<Longrightarrow> \<exists>s'. f x s = Some s' \<and> I (ys @ [x]) s'"
    and "I zs s"
  shows "\<exists>s'. fold_opt f xs s = Some s' \<and> I (zs @ xs) s'"
  using assms
proof (induction xs arbitrary: s zs)
  case (Cons x xs)
  then obtain s1 where s1: "f x s = Some s1" "I (zs @ [x]) s1" by blast
  have "\<exists>s'. fold_opt f xs s1 = Some s' \<and> I ((zs @ [x]) @ xs) s'"
    by (rule Cons.IH) (use Cons.prems(1) s1 in auto)
  with s1(1) show ?case by simp
qed simp

lemma fold_opt_append: "fold_opt f (xs @ ys) s = Option.bind (fold_opt f xs s) (fold_opt f ys)"
  by (induction xs arbitrary: s) (auto split: bind_split)

subsection \<open>Results\<close>

text \<open>
  A computation that may stop with an error returns \<open>Inl\<close> of the error or \<open>Inr\<close> of its value;
  \<open>fold_res\<close> is a loop whose body may stop it.
\<close>

definition bind_res :: "'e + 'a \<Rightarrow> ('a \<Rightarrow> 'e + 'b) \<Rightarrow> 'e + 'b" where
  "bind_res r f = (case r of Inl e \<Rightarrow> Inl e | Inr x \<Rightarrow> f x)"

lemma bind_res_simps [simp]: "bind_res (Inl e) f = Inl e" "bind_res (Inr x) f = f x"
  by (simp_all add: bind_res_def)

definition or_fail :: "'e \<Rightarrow> 'a option \<Rightarrow> 'e + 'a" where
  "or_fail e r = (case r of None \<Rightarrow> Inl e | Some x \<Rightarrow> Inr x)"

lemma or_fail_simps [simp]: "or_fail e None = Inl e" "or_fail e (Some x) = Inr x"
  by (simp_all add: or_fail_def)

primrec fold_res :: "('a \<Rightarrow> 's \<Rightarrow> 'e + 's) \<Rightarrow> 'a list \<Rightarrow> 's \<Rightarrow> 'e + 's" where
  "fold_res f [] s = Inr s"
| "fold_res f (x # xs) s = bind_res (f x s) (fold_res f xs)"

lemma bind_res_assoc: "bind_res (bind_res r f) g = bind_res r (\<lambda>x. bind_res (f x) g)"
  by (cases r) simp_all

lemma fold_res_append: "fold_res f (xs @ ys) s = bind_res (fold_res f xs s) (fold_res f ys)"
  by (induction xs arbitrary: s) (simp_all add: bind_res_def split: sum.split)

lemma fold_res_concat: "fold_res f (concat xss) s = fold_res (fold_res f) xss s"
  by (induction xss arbitrary: s) (simp_all add: fold_res_append bind_res_def split: sum.split)

lemma fold_res_cong [fundef_cong]:
  "xs = ys \<Longrightarrow> s = t \<Longrightarrow> (\<And>x u. x \<in> set ys \<Longrightarrow> f x u = g x u) \<Longrightarrow> fold_res f xs s = fold_res g ys t"
proof (induction ys arbitrary: xs s t)
  case (Cons y ys)
  then show ?case by (cases "g y t") simp_all
qed simp

lemma fold_res_map: "fold_res f (map h xs) s = fold_res (\<lambda>x. f (h x)) xs s"
proof (induction xs arbitrary: s)
  case (Cons x xs)
  then show ?case by (cases "f (h x) s") simp_all
qed simp

text \<open>A loop whose body never fails, with an invariant that speaks of the elements visited.\<close>

lemma fold_res_prefixes:
  assumes "\<And>ys x rest s. zs @ xs = ys @ x # rest \<Longrightarrow> I ys s \<Longrightarrow> \<exists>s'. f x s = Inr s' \<and> I (ys @ [x]) s'"
    and "I zs s"
  shows "\<exists>s'. fold_res f xs s = Inr s' \<and> I (zs @ xs) s'"
  using assms
proof (induction xs arbitrary: s zs)
  case (Cons x xs)
  then obtain s1 where s1: "f x s = Inr s1" "I (zs @ [x]) s1" by blast
  have "\<exists>s'. fold_res f xs s1 = Inr s' \<and> I ((zs @ [x]) @ xs) s'"
    by (rule Cons.IH) (use Cons.prems(1) s1 in auto)
  with s1(1) show ?case by simp
qed simp

subsection \<open>Alignment\<close>

text \<open>
  \<open>align_formula\<close> rounds a size up to a multiple of the alignment. The code reduces the
  non-negative sum \<open>size + align - 1\<close> modulo \<open>align\<close> as unsigned numbers.
\<close>

definition align_formula :: "int \<Rightarrow> int \<Rightarrow> int" where
  "align_formula sz align =
     (let result = sz + align - 1 in result - result mod align)"

lemma align_formula_dvd [layout_simps, intro]: "align dvd align_formula sz align"
  by (simp add: align_formula_def Let_def minus_mod_eq_mult_div)

lemma align_formula_ge [layout_simps, intro]:
  assumes "0 < align"
  shows "sz \<le> align_formula sz align"
proof -
  have "(sz + align - 1) mod align \<le> align - 1"
    using pos_mod_bound [OF assms, of "sz + align - 1"] by linarith
  then show ?thesis by (simp add: align_formula_def Let_def)
qed

lemma align_formula_less [layout_simps]:
  assumes "0 < align"
  shows "align_formula sz align < sz + align"
proof -
  have "0 \<le> (sz + align - 1) mod align"
    using assms by (rule pos_mod_sign)
  then show ?thesis unfolding align_formula_def Let_def by linarith
qed

lemma align_formula_least:
  assumes "0 < align" and "align dvd m" and "sz \<le> m"
  shows "align_formula sz align \<le> m"
proof (rule ccontr)
  assume "\<not> align_formula sz align \<le> m"
  moreover have "align dvd align_formula sz align - m"
    using assms(2) align_formula_dvd by (rule dvd_diff [rotated])
  ultimately have "align \<le> align_formula sz align - m"
    by (intro zdvd_imp_le) auto
  with align_formula_less [OF assms(1), of sz] assms(3) show False by linarith
qed

lemma align_formula_id:
  assumes "0 < align" and "align dvd sz"
  shows "align_formula sz align = sz"
  by (rule antisym) (use assms align_formula_least align_formula_ge in auto)

lemma align_formula_1 [simp]: "align_formula sz 1 = sz"
  by (simp add: align_formula_def)

lemma align_formula_nonneg: "0 < align \<Longrightarrow> 0 \<le> sz \<Longrightarrow> 0 \<le> align_formula sz align"
  using align_formula_ge [of align sz] by linarith

subsection \<open>Powers of two\<close>

text \<open>
  \<open>next_pow2\<close> smears the highest set bit of \<open>n - 1\<close> over all lower positions with six
  shift-and-or steps, which reach 64 positions, and adds one. The 64-bit versions
  (\<^verbatim>\<open>i64\<close>, \<^verbatim>\<open>isize\<close>) have the same text. Arguments above \<open>2 ^ 62\<close>, whose result does not fit in
  64 signed bits, do not occur: they are element counts and type sizes.
\<close>

definition next_pow2 :: "int \<Rightarrow> int" where
  "next_pow2 n =
     (if n \<le> 0 then 0
      else
        let n = n - 1;
            n = n OR drop_bit 1 n;
            n = n OR drop_bit 2 n;
            n = n OR drop_bit 4 n;
            n = n OR drop_bit 8 n;
            n = n OR drop_bit 16 n;
            n = n OR drop_bit 32 n
        in n + 1)"

lemma bit_smear_step:
  fixes m x :: int
  assumes "\<And>i. bit x i \<longleftrightarrow> (\<exists>d<w. bit m (i + d))"
  shows "bit (x OR drop_bit w x) i \<longleftrightarrow> (\<exists>d<2 * w. bit m (i + d))"
proof -
  have "bit (x OR drop_bit w x) i \<longleftrightarrow> (\<exists>d<w. bit m (i + d)) \<or> (\<exists>d<w. bit m (w + i + d))"
    by (simp add: bit_or_iff bit_drop_bit_eq assms)
  also have "\<dots> \<longleftrightarrow> (\<exists>d<2 * w. bit m (i + d))"
  proof (intro iffI)
    assume "(\<exists>d<w. bit m (i + d)) \<or> (\<exists>d<w. bit m (w + i + d))"
    then show "\<exists>d<2 * w. bit m (i + d)"
    proof (elim disjE exE conjE)
      fix d assume "d < w" "bit m (i + d)"
      then show ?thesis by (intro exI [of _ d]) auto
    next
      fix d assume "d < w" "bit m (w + i + d)"
      then show ?thesis by (intro exI [of _ "w + d"]) (auto simp: ac_simps)
    qed
  next
    assume "\<exists>d<2 * w. bit m (i + d)"
    then obtain d where d: "d < 2 * w" "bit m (i + d)" by blast
    show "(\<exists>d<w. bit m (i + d)) \<or> (\<exists>d<w. bit m (w + i + d))"
    proof (cases "d < w")
      case False
      with d have "d - w < w \<and> bit m (w + i + (d - w))" by (simp add: ac_simps)
      then show ?thesis by blast
    qed (use d in blast)
  qed
  finally show ?thesis .
qed

definition smear :: "int \<Rightarrow> int" where
  "smear n =
     (let n = n OR drop_bit 1 n;
          n = n OR drop_bit 2 n;
          n = n OR drop_bit 4 n;
          n = n OR drop_bit 8 n;
          n = n OR drop_bit 16 n
      in n OR drop_bit 32 n)"

lemma bit_smear: "bit (smear m) i \<longleftrightarrow> (\<exists>d<64. bit m (i + d))"
proof -
  have 1: "\<And>i. bit m i \<longleftrightarrow> (\<exists>d<1. bit m (i + d))" by simp
  note 2 = bit_smear_step [OF 1, simplified]
  note 4 = bit_smear_step [OF 2, simplified]
  note 8 = bit_smear_step [OF 4, simplified]
  note 16 = bit_smear_step [OF 8, simplified]
  note 32 = bit_smear_step [OF 16, simplified]
  note 64 = bit_smear_step [OF 32, simplified]
  show ?thesis using 64 by (simp add: smear_def Let_def)
qed

lemma next_pow2_smear: "0 < n \<Longrightarrow> next_pow2 n = smear (n - 1) + 1"
  by (simp add: next_pow2_def smear_def Let_def)

lemma smear_mask:
  assumes "2 ^ k \<le> m" and "m < 2 ^ Suc k" and "k < 64"
  shows "smear m = 2 ^ Suc k - 1"
proof -
  have "smear m = mask (Suc k)"
  proof (rule bit_eqI)
    fix i
    have m: "take_bit (Suc k) m = m"
      using assms by (intro take_bit_int_eq_self) auto
    have high: "bit m j \<Longrightarrow> j < Suc k" for j
      using m by (metis bit_take_bit_iff)
    have "m div 2 ^ k = 1"
      using assms(1,2) by (intro int_div_pos_eq [of _ _ _ "m - 2 ^ k"]) auto
    then have "bit m k" by (simp add: bit_iff_odd)
    then have "i \<le> k \<Longrightarrow> bit m (i + (k - i)) \<and> k - i < 64"
      using assms(3) by auto
    with high [of "i + d" for d] show "bit (smear m) i \<longleftrightarrow> bit (mask (Suc k) :: int) i"
      by (fastforce simp: bit_smear bit_mask_iff less_Suc_eq_le)
  qed
  then show ?thesis by (simp add: mask_eq_exp_minus_1)
qed

lemma next_pow2_exp:
  assumes "0 < n" and "n \<le> 2 ^ 64"
  obtains k where "next_pow2 n = 2 ^ k" and "n \<le> 2 ^ k" and "2 ^ k < 2 * n"
proof (cases "n = 1")
  case True
  then have "next_pow2 n = 2 ^ 0" by (simp add: next_pow2_def)
  with True show ?thesis by (intro that [of 0]) auto
next
  case False
  with assms(1) have "1 \<le> nat (n - 1)" by linarith
  then obtain k where k': "2 ^ k \<le> nat (n - 1)" "nat (n - 1) < 2 ^ (k + 1)"
    using ex_power_ivl1 [of 2 "nat (n - 1)"] by auto
  have k: "2 ^ k \<le> n - 1" using k'(1) assms(1) by (simp add: le_nat_iff)
  have k2: "n - 1 < 2 ^ Suc k" using k'(2) assms(1) by (simp add: nat_less_iff)
  note k = k k2
  then have "(2::int) ^ k < 2 ^ 64" using assms by linarith
  then have "k < 64" by (rule power_less_imp_less_exp [rotated]) simp
  with k have "next_pow2 n = 2 ^ Suc k" using assms(1) by (simp add: next_pow2_smear smear_mask)
  moreover have "n \<le> 2 ^ Suc k" "2 ^ Suc k < 2 * n" using k by auto
  ultimately show ?thesis by (rule that)
qed

lemma next_pow2_id:
  assumes "k < 64"
  shows "next_pow2 (2 ^ k) = 2 ^ k"
proof -
  have "(2::int) ^ k \<le> 2 ^ 64" using assms by (intro power_increasing) auto
  then obtain j where j: "next_pow2 (2 ^ k) = 2 ^ j" "(2::int) ^ k \<le> 2 ^ j" "(2::int) ^ j < 2 * 2 ^ k"
    using next_pow2_exp [of "2 ^ k"] by auto
  then have "j < Suc k" "k \<le> j"
    using power_less_imp_less_exp [of "2::int" j "Suc k"] power_le_imp_le_exp [of "2::int" k j] by auto
  with j(1) show ?thesis by (simp add: le_antisym)
qed

end
