(* ===== verification/Priority_Queue.thy ===== *)
theory Priority_Queue
  imports Odin_Prelude
begin

text \<open>
  The binary heap of \<^verbatim>\<open>src/priority_queue.cpp\<close>, which drives the orders in which packages and
  global variables are processed. The C++ template takes two function pointers, \<open>cmp\<close> and
  \<open>swap\<close>; both are parameters here. Swapping two elements also writes to the elements (their
  back-reference \<open>index\<close>), so the state is the array together with the memory it points to.

  Indices are \<open>nat\<close>: no caller passes a negative one, and \<^verbatim>\<open>(j-1)/2\<close> is 0 for \<open>j = 0\<close> both in C
  and with truncated subtraction.
\<close>

record ('a, 'h) priority_queue =
  queue :: "'a list"
  mem :: 'h

type_synonym ('a, 'h) pq_cmp = "('a, 'h) priority_queue \<Rightarrow> nat \<Rightarrow> nat \<Rightarrow> int"
type_synonym ('a, 'h) pq_swap = "('a, 'h) priority_queue \<Rightarrow> nat \<Rightarrow> nat \<Rightarrow> ('a, 'h) priority_queue"

subsection \<open>Operations\<close>

function shift_down_loop ::
  "('a, 'h) pq_cmp \<Rightarrow> ('a, 'h) pq_swap \<Rightarrow> ('a, 'h) priority_queue \<Rightarrow> nat \<Rightarrow> nat
     \<Rightarrow> ('a, 'h) priority_queue \<times> nat" where
  "shift_down_loop cmp swap pq i n =
     (let j1 = 2 * i + 1 in
      if j1 \<ge> n then (pq, i)
      else
        let j2 = j1 + 1;
            j = (if j2 < n \<and> cmp pq j2 j1 < 0 then j2 else j1)
        in if cmp pq j i \<ge> 0 then (pq, i)
           else shift_down_loop cmp swap (swap pq i j) j n)"
  by pat_completeness auto
termination
  by (relation "measure (\<lambda>(cmp, swap, pq, i, n). n - i)") (auto split: if_splits)

declare shift_down_loop.simps [simp del]

definition priority_queue_shift_down ::
  "('a, 'h) pq_cmp \<Rightarrow> ('a, 'h) pq_swap \<Rightarrow> ('a, 'h) priority_queue \<Rightarrow> nat \<Rightarrow> nat
     \<Rightarrow> ('a, 'h) priority_queue \<times> bool" where
  "priority_queue_shift_down cmp swap pq i0 n =
     (if i0 > n then (pq, False)
      else let (pq', i) = shift_down_loop cmp swap pq i0 n in (pq', i > i0))"

function priority_queue_shift_up ::
  "('a, 'h) pq_cmp \<Rightarrow> ('a, 'h) pq_swap \<Rightarrow> ('a, 'h) priority_queue \<Rightarrow> nat
     \<Rightarrow> ('a, 'h) priority_queue" where
  "priority_queue_shift_up cmp swap pq j =
     (if j < length (queue pq) then
        let i = (j - 1) div 2 in
        if i = j \<or> cmp pq j i \<ge> 0 then pq
        else priority_queue_shift_up cmp swap (swap pq i j) i
      else pq)"
  by pat_completeness auto
termination
  by (relation "measure (\<lambda>(cmp, swap, pq, j). j)") auto

declare priority_queue_shift_up.simps [simp del]

definition priority_queue_fix ::
  "('a, 'h) pq_cmp \<Rightarrow> ('a, 'h) pq_swap \<Rightarrow> ('a, 'h) priority_queue \<Rightarrow> nat
     \<Rightarrow> ('a, 'h) priority_queue" where
  "priority_queue_fix cmp swap pq i =
     (let (pq', moved) = priority_queue_shift_down cmp swap pq i (length (queue pq))
      in if \<not> moved then priority_queue_shift_up cmp swap pq' i else pq')"

definition priority_queue_push ::
  "('a, 'h) pq_cmp \<Rightarrow> ('a, 'h) pq_swap \<Rightarrow> ('a, 'h) priority_queue \<Rightarrow> 'a
     \<Rightarrow> ('a, 'h) priority_queue" where
  "priority_queue_push cmp swap pq value =
     (let pq' = pq\<lparr>queue := queue pq @ [value]\<rparr>
      in priority_queue_shift_up cmp swap pq' (length (queue pq') - 1))"

definition pq_array_pop :: "('a, 'h) priority_queue \<Rightarrow> ('a, 'h) priority_queue \<times> 'a" where
  "pq_array_pop pq = (pq\<lparr>queue := butlast (queue pq)\<rparr>, last (queue pq))"

text \<open>A failed \<^verbatim>\<open>GB_ASSERT\<close> stops the compiler: \<open>None\<close>.\<close>

definition priority_queue_pop ::
  "('a, 'h) pq_cmp \<Rightarrow> ('a, 'h) pq_swap \<Rightarrow> ('a, 'h) priority_queue
     \<Rightarrow> (('a, 'h) priority_queue \<times> 'a) option" where
  "priority_queue_pop cmp swap pq =
     (if length (queue pq) > 0 then
        let n = length (queue pq) - 1;
            pq1 = swap pq 0 n;
            (pq2, _) = priority_queue_shift_down cmp swap pq1 0 n
        in Some (pq_array_pop pq2)
      else None)"

definition priority_queue_remove ::
  "('a, 'h) pq_cmp \<Rightarrow> ('a, 'h) pq_swap \<Rightarrow> ('a, 'h) priority_queue \<Rightarrow> nat
     \<Rightarrow> (('a, 'h) priority_queue \<times> 'a) option" where
  "priority_queue_remove cmp swap pq i =
     (if i < length (queue pq) then
        let n = length (queue pq) - 1 in
        if n \<noteq> i then
          let pq1 = swap pq i n;
              (pq2, _) = priority_queue_shift_down cmp swap pq1 i n;
              pq3 = priority_queue_shift_up cmp swap pq2 i
          in Some (pq_array_pop pq3)
        else Some (pq_array_pop pq)
      else None)"

fun create_loop ::
  "('a, 'h) pq_cmp \<Rightarrow> ('a, 'h) pq_swap \<Rightarrow> ('a, 'h) priority_queue \<Rightarrow> nat \<Rightarrow> nat
     \<Rightarrow> ('a, 'h) priority_queue" where
  "create_loop cmp swap pq 0 n = pq"
| "create_loop cmp swap pq (Suc i) n =
     create_loop cmp swap (fst (priority_queue_shift_down cmp swap pq i n)) i n"

text \<open>
  \<open>create_loop\<close> counts the remaining indices: \<^verbatim>\<open>for (i = n/2 - 1; i >= 0; i--)\<close> visits
  \<open>n/2 - 1, \<dots>, 0\<close>.
\<close>

definition priority_queue_create ::
  "('a, 'h) pq_cmp \<Rightarrow> ('a, 'h) pq_swap \<Rightarrow> 'a list \<Rightarrow> 'h \<Rightarrow> ('a, 'h) priority_queue" where
  "priority_queue_create cmp swap q h =
     (let pq = \<lparr>queue = q, mem = h\<rparr>; n = length q
      in create_loop cmp swap pq (n div 2) n)"

subsection \<open>Facts that every exchange keeps\<close>

text \<open>
  The heap operations change the queue by exchanges of valid positions only. Whatever such
  exchanges keep, the operations keep: contents, length, ranks, back-references.
\<close>

definition swap_closed :: "('a, 'h) pq_swap \<Rightarrow> (('a, 'h) priority_queue \<Rightarrow> bool) \<Rightarrow> bool" where
  "swap_closed swap Q \<longleftrightarrow>
     (\<forall>pq i j. i < length (queue pq) \<and> j < length (queue pq) \<and> Q pq \<longrightarrow> Q (swap pq i j))"

lemma swap_closedD:
  "swap_closed swap Q \<Longrightarrow> i < length (queue pq) \<Longrightarrow> j < length (queue pq) \<Longrightarrow> Q pq \<Longrightarrow> Q (swap pq i j)"
  by (auto simp: swap_closed_def)

locale pq_client =
  fixes cmp :: "('a, 'h) pq_cmp"
    and swap :: "('a, 'h) pq_swap"
    and rank :: "'h \<Rightarrow> 'a \<Rightarrow> 'k :: linorder"
  assumes cmp_less:
      "i < length (queue pq) \<Longrightarrow> j < length (queue pq) \<Longrightarrow> i \<noteq> j \<Longrightarrow>
       cmp pq i j < 0 \<longleftrightarrow> rank (mem pq) (queue pq ! i) < rank (mem pq) (queue pq ! j)"
    and swap_queue:
      "i < length (queue pq) \<Longrightarrow> j < length (queue pq) \<Longrightarrow>
       queue (swap pq i j) = swap_at (queue pq) i j"
    and swap_rank:
      "i < length (queue pq) \<Longrightarrow> j < length (queue pq) \<Longrightarrow> rank (mem (swap pq i j)) x = rank (mem pq) x"
begin

definition rk :: "('a, 'h) priority_queue \<Rightarrow> nat \<Rightarrow> 'k" where
  "rk pq i = rank (mem pq) (queue pq ! i)"

text \<open>Every parent at position \<open>lo\<close> or later is no larger than its children below \<open>n\<close>.\<close>

definition heap_above :: "nat \<Rightarrow> nat \<Rightarrow> ('a, 'h) priority_queue \<Rightarrow> bool" where
  "heap_above lo n pq \<longleftrightarrow>
     (\<forall>k. 0 < k \<and> k < n \<and> lo \<le> (k - 1) div 2 \<longrightarrow> rk pq ((k - 1) div 2) \<le> rk pq k)"

text \<open>The same, but for the pairs whose parent is \<open>i\<close>; the parent of \<open>i\<close> is below \<open>i\<close>'s children.\<close>

definition heap_but_down :: "nat \<Rightarrow> nat \<Rightarrow> nat \<Rightarrow> ('a, 'h) priority_queue \<Rightarrow> bool" where
  "heap_but_down lo n i pq \<longleftrightarrow>
     (\<forall>k. 0 < k \<and> k < n \<and> lo \<le> (k - 1) div 2 \<and> (k - 1) div 2 \<noteq> i \<longrightarrow>
        rk pq ((k - 1) div 2) \<le> rk pq k) \<and>
     (\<forall>k. 0 < i \<and> lo \<le> (i - 1) div 2 \<and> 0 < k \<and> k < n \<and> (k - 1) div 2 = i \<longrightarrow>
        rk pq ((i - 1) div 2) \<le> rk pq k)"

text \<open>The same, but for the pair \<open>i\<close> and its parent.\<close>

definition heap_but_up :: "nat \<Rightarrow> nat \<Rightarrow> ('a, 'h) priority_queue \<Rightarrow> bool" where
  "heap_but_up n i pq \<longleftrightarrow>
     (\<forall>k. 0 < k \<and> k < n \<and> k \<noteq> i \<longrightarrow> rk pq ((k - 1) div 2) \<le> rk pq k) \<and>
     (\<forall>k. 0 < i \<and> 0 < k \<and> k < n \<and> (k - 1) div 2 = i \<longrightarrow> rk pq ((i - 1) div 2) \<le> rk pq k)"

lemma length_swap [simp]:
  "i < length (queue pq) \<Longrightarrow> j < length (queue pq) \<Longrightarrow> length (queue (swap pq i j)) = length (queue pq)"
  by (simp add: swap_queue)

lemma rk_swap:
  "i < length (queue pq) \<Longrightarrow> j < length (queue pq) \<Longrightarrow> k < length (queue pq) \<Longrightarrow>
   rk (swap pq i j) k = rk pq (if k = i then j else if k = j then i else k)"
  by (simp add: rk_def swap_queue swap_rank nth_swap_at)

lemma cmp_rk:
  "i < length (queue pq) \<Longrightarrow> j < length (queue pq) \<Longrightarrow> i \<noteq> j \<Longrightarrow> cmp pq i j < 0 \<longleftrightarrow> rk pq i < rk pq j"
  by (simp add: rk_def cmp_less)

lemma cmp_rk_ge:
  "i < length (queue pq) \<Longrightarrow> j < length (queue pq) \<Longrightarrow> i \<noteq> j \<Longrightarrow> 0 \<le> cmp pq i j \<longleftrightarrow> rk pq j \<le> rk pq i"
  using cmp_rk [of i pq j] by (simp add: not_less flip: not_less)

lemma swap_closed_mset: "swap_closed swap (\<lambda>pq. mset (queue pq) = M)"
  by (auto simp: swap_closed_def swap_queue mset_swap_at)

lemma swap_closed_length: "swap_closed swap (\<lambda>pq. length (queue pq) = l)"
  by (auto simp: swap_closed_def)

lemma swap_closed_rank: "swap_closed swap (\<lambda>pq. \<forall>x. rank (mem pq) x = r x)"
  by (auto simp: swap_closed_def swap_rank)

subsubsection \<open>Sifting down\<close>

definition child :: "('a, 'h) priority_queue \<Rightarrow> nat \<Rightarrow> nat \<Rightarrow> nat" where
  "child pq i n = (if 2 * i + 2 < n \<and> cmp pq (2 * i + 2) (2 * i + 1) < 0 then 2 * i + 2 else 2 * i + 1)"

definition down_stops :: "('a, 'h) priority_queue \<Rightarrow> nat \<Rightarrow> nat \<Rightarrow> bool" where
  "down_stops pq i n \<longleftrightarrow> n \<le> 2 * i + 1 \<or> cmp pq (child pq i n) i \<ge> 0"

lemma shift_down_loop_unfold:
  "shift_down_loop cmp swap pq i n =
     (if down_stops pq i n then (pq, i)
      else shift_down_loop cmp swap (swap pq i (child pq i n)) (child pq i n) n)"
  by (subst shift_down_loop.simps) (simp add: down_stops_def child_def Let_def)

lemma shift_down_loop_stop: "down_stops pq i n \<Longrightarrow> shift_down_loop cmp swap pq i n = (pq, i)"
  by (subst shift_down_loop_unfold) simp

lemma child_bounds:
  "\<not> down_stops pq i n \<Longrightarrow> i < child pq i n \<and> child pq i n < n \<and> (child pq i n - 1) div 2 = i"
  by (auto simp: down_stops_def child_def)

text \<open>Induction along the path the element takes.\<close>

lemma shift_down_induct:
  assumes "n \<le> length (queue pq)"
    and stop: "\<And>pq i. n \<le> length (queue pq) \<Longrightarrow> down_stops pq i n \<Longrightarrow> P pq i (pq, i)"
    and step: "\<And>pq i r. n \<le> length (queue pq) \<Longrightarrow> \<not> down_stops pq i n \<Longrightarrow>
      P (swap pq i (child pq i n)) (child pq i n) r \<Longrightarrow> P pq i r"
  shows "P pq i (shift_down_loop cmp swap pq i n)"
  using assms(1)
proof (induction "n - i" arbitrary: pq i rule: less_induct)
  case less
  show ?case
  proof (cases "down_stops pq i n")
    case True
    with less.prems show ?thesis by (subst shift_down_loop_unfold) (simp add: stop)
  next
    case False
    note b = child_bounds [OF False]
    with less.prems have "n \<le> length (queue (swap pq i (child pq i n)))" by simp
    with less.hyps [of "child pq i n" "swap pq i (child pq i n)"] b
    have "P (swap pq i (child pq i n)) (child pq i n)
        (shift_down_loop cmp swap (swap pq i (child pq i n)) (child pq i n) n)"
      by fastforce
    with step [OF less.prems False] False show ?thesis
      by (subst shift_down_loop_unfold) simp
  qed
qed

lemma shift_down_loop_keeps:
  assumes "swap_closed swap Q" and "n \<le> length (queue pq)" and "Q pq"
  shows "Q (fst (shift_down_loop cmp swap pq i n))"
proof -
  have "Q pq \<longrightarrow> Q (fst (shift_down_loop cmp swap pq i n))"
    using assms(2)
  proof (rule shift_down_induct)
    fix pq i and r :: "('a, 'h) priority_queue \<times> nat"
    assume *: "n \<le> length (queue pq)" "\<not> down_stops pq i n"
      "Q (swap pq i (child pq i n)) \<longrightarrow> Q (fst r)"
    show "Q pq \<longrightarrow> Q (fst r)"
      using * child_bounds [OF *(2)] swap_closedD [OF assms(1), of i pq "child pq i n"] by auto
  qed simp
  with assms(3) show ?thesis by blast
qed

lemma shift_down_loop_beyond:
  assumes "n \<le> length (queue pq)"
  shows "\<forall>k\<ge>n. k < length (queue pq) \<longrightarrow>
     queue (fst (shift_down_loop cmp swap pq i n)) ! k = queue pq ! k"
  using assms
proof (rule shift_down_induct)
  fix pq i and r :: "('a, 'h) priority_queue \<times> nat"
  let ?j = "child pq i n"
  assume *: "n \<le> length (queue pq)" "\<not> down_stops pq i n"
    "\<forall>k\<ge>n. k < length (queue (swap pq i ?j)) \<longrightarrow> queue (fst r) ! k = queue (swap pq i ?j) ! k"
  show "\<forall>k\<ge>n. k < length (queue pq) \<longrightarrow> queue (fst r) ! k = queue pq ! k"
    using * child_bounds [OF *(2)] by (auto simp: swap_queue nth_swap_at)
qed simp

lemma heap_but_down_stop:
  assumes "heap_but_down lo n i pq" and "down_stops pq i n" and "n \<le> length (queue pq)"
  shows "heap_above lo n pq"
  unfolding heap_above_def
proof (intro allI impI)
  fix k assume k: "0 < k \<and> k < n \<and> lo \<le> (k - 1) div 2"
  show "rk pq ((k - 1) div 2) \<le> rk pq k"
  proof (cases "(k - 1) div 2 = i")
    case False
    with k assms(1) show ?thesis by (auto simp: heap_but_down_def)
  next
    case True
    with k have "k = 2 * i + 1 \<or> k = 2 * i + 2" by presburger
    with k assms(2,3) True show ?thesis
      using cmp_rk [of "2 * i + 2" pq "2 * i + 1"] cmp_rk_ge [of "2 * i + 1" pq i]
        cmp_rk_ge [of "2 * i + 2" pq i]
      by (auto simp: down_stops_def child_def split: if_splits)
  qed
qed

lemma heap_but_down_step:
  assumes "heap_but_down lo n i pq" and "\<not> down_stops pq i n" and "n \<le> length (queue pq)" and "lo \<le> i"
  shows "heap_but_down lo n (child pq i n) (swap pq i (child pq i n))"
proof -
  let ?j = "child pq i n"
  note b = child_bounds [OF assms(2)]
  have less: "rk pq ?j < rk pq i"
    using assms(2,3) b cmp_rk [of ?j pq i] by (auto simp: down_stops_def)
  have sib: "rk pq ?j \<le> rk pq k" if "0 < k" "k < n" "(k - 1) div 2 = i" for k
  proof -
    from that have "k = 2 * i + 1 \<or> k = 2 * i + 2" by presburger
    with that assms(3) show ?thesis
      using cmp_rk [of "2 * i + 2" pq "2 * i + 1"] by (auto simp: child_def)
  qed
  have edge: "rk pq ((k - 1) div 2) \<le> rk pq k"
    if "0 < k" "k < n" "lo \<le> (k - 1) div 2" "(k - 1) div 2 \<noteq> i" for k
    using assms(1) that by (auto simp: heap_but_down_def)
  have rks: "rk (swap pq i ?j) k = rk pq (if k = i then ?j else if k = ?j then i else k)"
    if "k < n" for k
    using b that assms(3) by (intro rk_swap) auto
  have up: "rk pq ((i - 1) div 2) \<le> rk pq ?j" if "0 < i" "lo \<le> (i - 1) div 2"
    using assms(1) that b by (auto simp: heap_but_down_def)
  have "rk (swap pq i ?j) ((k - 1) div 2) \<le> rk (swap pq i ?j) k"
    if k: "0 < k" "k < n" "lo \<le> (k - 1) div 2" "(k - 1) div 2 \<noteq> ?j" for k
  proof -
    have "(k - 1) div 2 < n" using k by auto
    with k b less sib [of k] edge [of k] up show ?thesis
      by (auto simp: rks less_imp_le)
  qed
  moreover have "rk (swap pq i ?j) ((?j - 1) div 2) \<le> rk (swap pq i ?j) k"
    if k: "0 < k" "k < n" "(k - 1) div 2 = ?j" for k
  proof -
    have "i < n" "k \<noteq> i" "k \<noteq> ?j" using k b by auto
    with k b edge [of k] assms(4) show ?thesis by (auto simp: rks)
  qed
  ultimately show ?thesis by (auto simp: heap_but_down_def)
qed

lemma shift_down_loop_heap:
  assumes "n \<le> length (queue pq)" and "heap_but_down lo n i pq" and "lo \<le> i"
  shows "heap_above lo n (fst (shift_down_loop cmp swap pq i n))"
proof -
  have "heap_but_down lo n i pq \<and> lo \<le> i \<longrightarrow> heap_above lo n (fst (shift_down_loop cmp swap pq i n))"
    using assms(1)
  proof (rule shift_down_induct)
    fix pq i and r :: "('a, 'h) priority_queue \<times> nat"
    assume *: "n \<le> length (queue pq)" "\<not> down_stops pq i n"
      "heap_but_down lo n (child pq i n) (swap pq i (child pq i n)) \<and> lo \<le> child pq i n \<longrightarrow>
       heap_above lo n (fst r)"
    show "heap_but_down lo n i pq \<and> lo \<le> i \<longrightarrow> heap_above lo n (fst r)"
      using * child_bounds [OF *(2)] heap_but_down_step [OF _ *(2,1)] by auto
  qed (auto intro: heap_but_down_stop)
  with assms show ?thesis by blast
qed

lemma shift_down_result:
  "priority_queue_shift_down cmp swap pq i n =
     (if i > n then (pq, False)
      else (fst (shift_down_loop cmp swap pq i n), snd (shift_down_loop cmp swap pq i n) > i))"
  by (simp add: priority_queue_shift_down_def split_beta)

lemma shift_down_keeps:
  "swap_closed swap Q \<Longrightarrow> n \<le> length (queue pq) \<Longrightarrow> Q pq \<Longrightarrow>
   Q (fst (priority_queue_shift_down cmp swap pq i n))"
  by (simp add: shift_down_result shift_down_loop_keeps)

lemma length_shift_down [simp]:
  "n \<le> length (queue pq) \<Longrightarrow>
   length (queue (fst (priority_queue_shift_down cmp swap pq i n))) = length (queue pq)"
  by (rule shift_down_keeps [OF swap_closed_length]) auto

lemma shift_down_heap:
  "n \<le> length (queue pq) \<Longrightarrow> heap_but_down lo n i pq \<Longrightarrow> lo \<le> i \<Longrightarrow> i \<le> n \<Longrightarrow>
   heap_above lo n (fst (priority_queue_shift_down cmp swap pq i n))"
  by (simp add: shift_down_result shift_down_loop_heap)

subsubsection \<open>Sifting up\<close>

lemma shift_up_induct:
  assumes stop: "\<And>pq j. \<not> (j < length (queue pq) \<and> 0 < j \<and> cmp pq j ((j - 1) div 2) < 0) \<Longrightarrow> P pq j pq"
    and step: "\<And>pq j r. j < length (queue pq) \<Longrightarrow> 0 < j \<Longrightarrow> cmp pq j ((j - 1) div 2) < 0 \<Longrightarrow>
      P (swap pq ((j - 1) div 2) j) ((j - 1) div 2) r \<Longrightarrow> P pq j r"
  shows "P pq j (priority_queue_shift_up cmp swap pq j)"
proof (induction j arbitrary: pq rule: less_induct)
  case (less j)
  show ?case
  proof (cases "j < length (queue pq) \<and> 0 < j \<and> cmp pq j ((j - 1) div 2) < 0")
    case True
    then have "(j - 1) div 2 < j" by auto
    with less True show ?thesis
      by (subst priority_queue_shift_up.simps) (auto simp: Let_def intro: step)
  next
    case False
    then show ?thesis
      by (subst priority_queue_shift_up.simps) (auto simp: Let_def intro!: stop)
  qed
qed

lemma shift_up_keeps:
  assumes "swap_closed swap Q" and "Q pq"
  shows "Q (priority_queue_shift_up cmp swap pq j)"
proof -
  have "Q pq \<longrightarrow> Q (priority_queue_shift_up cmp swap pq j)"
  proof (rule shift_up_induct [where P = "\<lambda>pq j r. Q pq \<longrightarrow> Q r"])
    fix pq j and r :: "('a, 'h) priority_queue"
    assume *: "j < length (queue pq)" "0 < j" "Q (swap pq ((j - 1) div 2) j) \<longrightarrow> Q r"
    then show "Q pq \<longrightarrow> Q r"
      using swap_closedD [OF assms(1), of "(j - 1) div 2" pq j] by auto
  qed simp
  with assms(2) show ?thesis by blast
qed

lemma length_shift_up [simp]:
  "length (queue (priority_queue_shift_up cmp swap pq j)) = length (queue pq)"
  by (rule shift_up_keeps [OF swap_closed_length]) auto

lemma heap_but_up_step:
  assumes "heap_but_up n j pq" and "0 < j" and "j < n" and "n \<le> length (queue pq)"
    and "cmp pq j ((j - 1) div 2) < 0"
  shows "heap_but_up n ((j - 1) div 2) (swap pq ((j - 1) div 2) j)"
proof -
  define i where "i = (j - 1) div 2"
  have ij: "i < j" using assms(2) by (auto simp: i_def)
  have less: "rk pq j < rk pq i"
    using assms ij cmp_rk [of j pq i] by (auto simp: i_def)
  have edge: "rk pq ((k - 1) div 2) \<le> rk pq k" if "0 < k" "k < n" "k \<noteq> j" for k
    using assms(1) that by (auto simp: heap_but_up_def)
  have down: "rk pq i \<le> rk pq k" if "0 < k" "k < n" "(k - 1) div 2 = j" for k
    using assms(1,2) that by (auto simp: heap_but_up_def i_def)
  have rks: "rk (swap pq i j) k = rk pq (if k = i then j else if k = j then i else k)"
    if "k < n" for k
    using ij that assms(3,4) by (intro rk_swap) auto
  have "rk (swap pq i j) ((k - 1) div 2) \<le> rk (swap pq i j) k"
    if k: "0 < k" "k < n" "k \<noteq> i" for k
  proof -
    have "(k - 1) div 2 < n" using k by auto
    moreover have "k = j \<Longrightarrow> (k - 1) div 2 = i" by (simp add: i_def)
    ultimately show ?thesis
      using k ij less edge [of k] down [of k] by (auto simp: rks less_imp_le)
  qed
  moreover have "rk (swap pq i j) ((i - 1) div 2) \<le> rk (swap pq i j) k"
    if k: "0 < i" "0 < k" "k < n" "(k - 1) div 2 = i" for k
  proof -
    have "(i - 1) div 2 < i" using k by auto
    moreover have "rk pq ((i - 1) div 2) \<le> rk pq i" using edge [of i] k ij assms(3) by auto
    ultimately show ?thesis
      using k ij assms(3) edge [of k] by (auto simp: rks)
  qed
  ultimately show ?thesis by (auto simp: heap_but_up_def i_def)
qed

lemma shift_up_heap:
  assumes "heap_but_up n j pq" and "j < n" and "n \<le> length (queue pq)"
  shows "heap_above 0 n (priority_queue_shift_up cmp swap pq j)"
proof -
  have "heap_but_up n j pq \<and> j < n \<and> n \<le> length (queue pq) \<longrightarrow>
      heap_above 0 n (priority_queue_shift_up cmp swap pq j)"
  proof (rule shift_up_induct [where P = "\<lambda>pq j r. heap_but_up n j pq \<and> j < n \<and> n \<le> length (queue pq) \<longrightarrow>
      heap_above 0 n r"])
    fix pq j
    assume stop: "\<not> (j < length (queue pq) \<and> 0 < j \<and> cmp pq j ((j - 1) div 2) < 0)"
    show "heap_but_up n j pq \<and> j < n \<and> n \<le> length (queue pq) \<longrightarrow> heap_above 0 n pq"
    proof
      assume *: "heap_but_up n j pq \<and> j < n \<and> n \<le> length (queue pq)"
      then have "0 < j \<Longrightarrow> rk pq ((j - 1) div 2) \<le> rk pq j"
        using stop cmp_rk_ge [of j pq "(j - 1) div 2"] by (auto simp: not_less)
      with * show "heap_above 0 n pq"
        by (auto simp: heap_above_def heap_but_up_def)
    qed
  next
    fix pq j and r :: "('a, 'h) priority_queue"
    assume *: "j < length (queue pq)" "0 < j" "cmp pq j ((j - 1) div 2) < 0"
      "heap_but_up n ((j - 1) div 2) (swap pq ((j - 1) div 2) j) \<and> (j - 1) div 2 < n \<and>
       n \<le> length (queue (swap pq ((j - 1) div 2) j)) \<longrightarrow> heap_above 0 n r"
    then show "heap_but_up n j pq \<and> j < n \<and> n \<le> length (queue pq) \<longrightarrow> heap_above 0 n r"
      using heap_but_up_step [of n j pq] by auto
  qed
  with assms show ?thesis by blast
qed

lemma heap_imp_but_up:
  assumes "heap_above 0 n pq" and "i < n"
  shows "heap_but_up n i pq"
proof -
  have "rk pq ((i - 1) div 2) \<le> rk pq k" if "0 < i" "0 < k" "k < n" "(k - 1) div 2 = i" for k
    using assms that unfolding heap_above_def by (metis order_trans zero_le)
  with assms(1) show ?thesis by (auto simp: heap_above_def heap_but_up_def)
qed

lemma heap_imp_but_down:
  assumes "heap_above 0 n pq" and "i < n"
  shows "heap_but_down 0 n i pq"
proof -
  have "rk pq ((i - 1) div 2) \<le> rk pq k" if "0 < i" "0 < k" "k < n" "(k - 1) div 2 = i" for k
    using assms that unfolding heap_above_def by (metis order_trans zero_le)
  with assms(1) show ?thesis by (auto simp: heap_above_def heap_but_down_def)
qed

subsubsection \<open>The operations keep the heap\<close>

definition is_heap :: "('a, 'h) priority_queue \<Rightarrow> bool" where
  "is_heap pq \<longleftrightarrow> heap_above 0 (length (queue pq)) pq"

lemma heap_root_least: "heap_above 0 n pq \<Longrightarrow> k < n \<Longrightarrow> rk pq 0 \<le> rk pq k"
proof (induction k rule: less_induct)
  case (less k)
  show ?case
  proof (cases "k = 0")
    case False
    then have "rk pq 0 \<le> rk pq ((k - 1) div 2)"
      using less by auto
    also have "\<dots> \<le> rk pq k"
      using less.prems False by (auto simp: heap_above_def)
    finally show ?thesis .
  qed simp
qed

lemma is_heap_least: "is_heap pq \<Longrightarrow> y \<in> set (queue pq) \<Longrightarrow> rank (mem pq) (queue pq ! 0) \<le> rank (mem pq) y"
  by (auto simp: is_heap_def in_set_conv_nth rk_def dest: heap_root_least)

text \<open>The heap depends on the ranks of the queued elements only.\<close>

lemma is_heap_cong:
  assumes "queue pq' = queue pq" and "\<forall>x\<in>set (queue pq). rank (mem pq') x = rank (mem pq) x" and "is_heap pq"
  shows "is_heap pq'"
proof -
  have "rk pq' k = rk pq k" if "k < length (queue pq)" for k
    using assms(1,2) that by (simp add: rk_def)
  moreover have "(k - 1) div 2 < length (queue pq)" if "k < length (queue pq)" for k using that by auto
  ultimately show ?thesis using assms(1,3) by (simp add: is_heap_def heap_above_def)
qed

lemma fix_keeps:
  "swap_closed swap Q \<Longrightarrow> Q pq \<Longrightarrow> Q (priority_queue_fix cmp swap pq i)"
  using shift_down_keeps [of Q "length (queue pq)" pq i]
    shift_up_keeps [of Q "fst (priority_queue_shift_down cmp swap pq i (length (queue pq)))" i]
  by (simp add: priority_queue_fix_def split_beta)

lemma length_fix [simp]: "length (queue (priority_queue_fix cmp swap pq i)) = length (queue pq)"
  by (rule fix_keeps [OF swap_closed_length]) simp

text \<open>A position outside the queue is left alone.\<close>

lemma fix_outside: "length (queue pq) \<le> i \<Longrightarrow> priority_queue_fix cmp swap pq i = pq"
  by (simp add: priority_queue_fix_def shift_down_result shift_down_loop_stop down_stops_def
      priority_queue_shift_up.simps [of cmp swap pq i])

text \<open>
  Repairing the heap at a position whose rank has changed: every pair that does not involve
  \<open>i\<close> is in order, and so are \<open>i\<close>'s parent and children.
\<close>

definition heap_but_at :: "nat \<Rightarrow> ('a, 'h) priority_queue \<Rightarrow> bool" where
  "heap_but_at i pq \<longleftrightarrow>
     (\<forall>k. 0 < k \<and> k < length (queue pq) \<and> k \<noteq> i \<and> (k - 1) div 2 \<noteq> i \<longrightarrow>
        rk pq ((k - 1) div 2) \<le> rk pq k) \<and>
     (\<forall>k. 0 < i \<and> 0 < k \<and> k < length (queue pq) \<and> (k - 1) div 2 = i \<longrightarrow>
        rk pq ((i - 1) div 2) \<le> rk pq k)"

lemma heap_but_at_parent:
  assumes "heap_but_at i pq" and "0 < i \<and> rk pq i < rk pq ((i - 1) div 2)"
  shows "\<forall>k. 0 < k \<and> k < length (queue pq) \<and> k \<noteq> i \<longrightarrow> rk pq ((k - 1) div 2) \<le> rk pq k"
proof (intro allI impI)
  fix k assume k: "0 < k \<and> k < length (queue pq) \<and> k \<noteq> i"
  show "rk pq ((k - 1) div 2) \<le> rk pq k"
  proof (cases "(k - 1) div 2 = i")
    case True
    with k assms have "rk pq ((i - 1) div 2) \<le> rk pq k" by (simp add: heap_but_at_def)
    with assms(2) have "rk pq i \<le> rk pq k" by (meson less_imp_le order_trans)
    with True show ?thesis by simp
  next
    case False
    with k assms(1) show ?thesis by (simp add: heap_but_at_def)
  qed
qed

lemma shift_up_is_heap:
  "is_heap pq \<Longrightarrow> is_heap (priority_queue_shift_up cmp swap pq i)"
proof (cases "i < length (queue pq)")
  case True
  moreover assume "is_heap pq"
  ultimately show ?thesis
    using shift_up_heap [of "length (queue pq)" i pq] heap_imp_but_up
    by (auto simp: is_heap_def)
next
  case False
  moreover assume "is_heap pq"
  ultimately show ?thesis by (simp add: priority_queue_shift_up.simps [of cmp swap pq i])
qed

theorem fix_heap:
  assumes "heap_but_at i pq" and "i < length (queue pq)"
  shows "is_heap (priority_queue_fix cmp swap pq i)"
proof (cases "0 < i \<and> rk pq i < rk pq ((i - 1) div 2)")
  case False
  then have "heap_but_down 0 (length (queue pq)) i pq"
    using assms by (auto simp: heap_but_at_def heap_but_down_def not_less)
  then have "heap_above 0 (length (queue pq))
      (fst (priority_queue_shift_down cmp swap pq i (length (queue pq))))"
    using assms(2) by (intro shift_down_heap) auto
  then have "is_heap (fst (priority_queue_shift_down cmp swap pq i (length (queue pq))))"
    by (simp add: is_heap_def)
  then show ?thesis
    by (simp add: priority_queue_fix_def split_beta shift_up_is_heap)
next
  case True
  then have "down_stops pq i (length (queue pq))"
  proof -
    let ?j = "child pq i (length (queue pq))"
    have "rk pq i \<le> rk pq ?j \<and> ?j < length (queue pq) \<and> ?j \<noteq> i" if j: "2 * i + 1 < length (queue pq)"
    proof -
      have "?j < length (queue pq)" "0 < ?j" "(?j - 1) div 2 = i" using j by (auto simp: child_def)
      moreover from this assms(1) True have "rk pq ((i - 1) div 2) \<le> rk pq ?j"
        by (simp add: heap_but_at_def)
      ultimately show ?thesis using True by auto
    qed
    then have "0 \<le> cmp pq ?j i" if "2 * i + 1 < length (queue pq)"
      using that cmp_rk_ge [of ?j pq i] assms(2) by blast
    then show ?thesis by (cases "2 * i + 1 < length (queue pq)") (simp_all add: down_stops_def)
  qed
  moreover have "heap_but_up (length (queue pq)) i pq"
    using assms(1) heap_but_at_parent [OF assms(1)] True
    by (simp add: heap_but_at_def heap_but_up_def)
  ultimately show ?thesis
    using shift_up_heap [of "length (queue pq)" i pq] assms(2)
    by (auto simp: priority_queue_fix_def shift_down_result shift_down_loop_stop is_heap_def)
qed

lemma is_heap_but_at: "is_heap pq \<Longrightarrow> i < length (queue pq) \<Longrightarrow> heap_but_at i pq"
  using heap_imp_but_up [of "length (queue pq)" pq i] heap_imp_but_down [of "length (queue pq)" pq i]
  by (auto simp: is_heap_def heap_but_at_def heap_but_up_def heap_but_down_def)

text \<open>Repairing at any index, stale or not, keeps a heap.\<close>

lemma fix_is_heap: "is_heap pq \<Longrightarrow> is_heap (priority_queue_fix cmp swap pq i)"
  by (cases "i < length (queue pq)") (auto simp: fix_outside is_heap_but_at fix_heap)

subsubsection \<open>Push, pop, remove, create\<close>

lemma push_keeps:
  "swap_closed swap Q \<Longrightarrow> Q (pq\<lparr>queue := queue pq @ [v]\<rparr>) \<Longrightarrow> Q (priority_queue_push cmp swap pq v)"
  by (simp add: priority_queue_push_def shift_up_keeps)

theorem push_correct:
  assumes "is_heap pq"
  shows "is_heap (priority_queue_push cmp swap pq v)"
    and "mset (queue (priority_queue_push cmp swap pq v)) = add_mset v (mset (queue pq))"
proof -
  let ?pq = "pq\<lparr>queue := queue pq @ [v]\<rparr>" and ?n = "length (queue pq)"
  have rk: "k < ?n \<Longrightarrow> rk ?pq k = rk pq k" for k by (simp add: rk_def nth_append)
  have "heap_but_up (Suc ?n) ?n ?pq"
    unfolding heap_but_up_def
  proof (intro conjI allI impI)
    fix k assume k: "0 < k \<and> k < Suc ?n \<and> k \<noteq> ?n"
    then have "(k - 1) div 2 < ?n" "k < ?n" by auto
    with k assms show "rk ?pq ((k - 1) div 2) \<le> rk ?pq k"
      by (auto simp: rk is_heap_def heap_above_def)
  next
    fix k assume k: "0 < ?n \<and> 0 < k \<and> k < Suc ?n \<and> (k - 1) div 2 = ?n"
    then have False by auto
    then show "rk ?pq ((?n - 1) div 2) \<le> rk ?pq k" ..
  qed
  then show "is_heap (priority_queue_push cmp swap pq v)"
    using shift_up_heap [of "Suc ?n" ?n ?pq] by (simp add: priority_queue_push_def is_heap_def)
  show "mset (queue (priority_queue_push cmp swap pq v)) = add_mset v (mset (queue pq))"
    by (rule push_keeps [OF swap_closed_mset]) simp
qed

lemma heap_above_butlast:
  "heap_above 0 n pq \<Longrightarrow> length (queue pq) = Suc n \<Longrightarrow> is_heap (pq\<lparr>queue := butlast (queue pq)\<rparr>)"
proof -
  assume *: "heap_above 0 n pq" "length (queue pq) = Suc n"
  have "k < n \<Longrightarrow> rk (pq\<lparr>queue := butlast (queue pq)\<rparr>) k = rk pq k" for k
    using *(2) by (simp add: rk_def nth_butlast)
  moreover have "0 < k \<Longrightarrow> k < n \<Longrightarrow> (k - 1) div 2 < n" for k by auto
  ultimately show ?thesis using * by (simp add: is_heap_def heap_above_def)
qed

text \<open>The state just before the last element is taken off by \<open>pop\<close>.\<close>

definition pop_state :: "('a, 'h) priority_queue \<Rightarrow> ('a, 'h) priority_queue" where
  "pop_state pq =
     fst (priority_queue_shift_down cmp swap (swap pq 0 (length (queue pq) - 1)) 0 (length (queue pq) - 1))"

lemma pop_eq:
  "queue pq \<noteq> [] \<Longrightarrow> priority_queue_pop cmp swap pq = Some (pq_array_pop (pop_state pq))"
  by (simp add: priority_queue_pop_def pop_state_def split_beta Let_def)

lemma pop_state_keeps:
  "queue pq \<noteq> [] \<Longrightarrow> swap_closed swap Q \<Longrightarrow> Q pq \<Longrightarrow> Q (pop_state pq)"
  using swap_closedD [of swap Q 0 pq "length (queue pq) - 1"]
    shift_down_keeps [of Q "length (queue pq) - 1" "swap pq 0 (length (queue pq) - 1)" 0]
  by (simp add: pop_state_def)

lemma pop_state_heap:
  assumes "is_heap pq" and "queue pq \<noteq> []"
  shows "heap_above 0 (length (queue pq) - 1) (pop_state pq)"
    and "last (queue (pop_state pq)) = queue pq ! 0"
proof -
  define n where "n = length (queue pq) - 1"
  have n: "n < length (queue pq)" "length (queue pq) = Suc n" using assms(2) by (auto simp: n_def)
  have "heap_but_down 0 n 0 (swap pq 0 n)"
    unfolding heap_but_down_def
  proof (intro conjI allI impI)
    fix k assume k: "0 < k \<and> k < n \<and> 0 \<le> (k - 1) div 2 \<and> (k - 1) div 2 \<noteq> 0"
    then have "(k - 1) div 2 < n" by auto
    with k n assms(1) show "rk (swap pq 0 n) ((k - 1) div 2) \<le> rk (swap pq 0 n) k"
      by (auto simp: rk_swap is_heap_def heap_above_def)
  qed simp
  with n show "heap_above 0 (length (queue pq) - 1) (pop_state pq)"
    by (auto simp: pop_state_def intro!: shift_down_heap)
  have "queue (pop_state pq) ! n = queue (swap pq 0 n) ! n"
    using shift_down_loop_beyond [of n "swap pq 0 n" 0] n by (auto simp: pop_state_def shift_down_result)
  also have "\<dots> = queue pq ! 0" using n by (auto simp: swap_queue nth_swap_at)
  moreover have "length (queue (pop_state pq)) = Suc n"
    using pop_state_keeps [OF assms(2) swap_closed_length] n by blast
  ultimately show "last (queue (pop_state pq)) = queue pq ! 0"
    by (simp add: last_conv_nth flip: length_greater_0_conv)
qed

text \<open>\<open>pop\<close> returns an element of least rank and keeps the rest, as a heap.\<close>

theorem pop_correct:
  assumes "is_heap pq" and "queue pq \<noteq> []"
  obtains pq' x where "priority_queue_pop cmp swap pq = Some (pq', x)"
    and "mset (queue pq) = add_mset x (mset (queue pq'))"
    and "is_heap pq'"
    and "\<forall>y. rank (mem pq') y = rank (mem pq) y"
    and "\<forall>y\<in>set (queue pq). rank (mem pq) x \<le> rank (mem pq) y"
    and "mem pq' = mem (pop_state pq)" and "queue pq' = butlast (queue (pop_state pq))"
proof
  let ?p = "pop_state pq"
  have len: "length (queue ?p) = length (queue pq)"
    by (rule pop_state_keeps [OF assms(2) swap_closed_length]) simp
  with assms(2) have ne: "queue ?p \<noteq> []" by auto
  show "priority_queue_pop cmp swap pq = Some (?p\<lparr>queue := butlast (queue ?p)\<rparr>, last (queue ?p))"
    using assms(2) by (simp add: pop_eq pq_array_pop_def)
  have "mset (queue pq) = mset (queue ?p)"
    by (rule pop_state_keeps [OF assms(2) swap_closed_mset, symmetric]) simp
  also have "\<dots> = add_mset (last (queue ?p)) (mset (butlast (queue ?p)))"
    using ne by (metis append_butlast_last_id mset.simps mset_append union_mset_add_mset_right add.right_neutral)
  finally show "mset (queue pq) = add_mset (last (queue ?p)) (mset (queue (?p\<lparr>queue := butlast (queue ?p)\<rparr>)))"
    by simp
  show "is_heap (?p\<lparr>queue := butlast (queue ?p)\<rparr>)"
    using pop_state_heap(1) [OF assms] len assms(2) by (intro heap_above_butlast) auto
  show "\<forall>y. rank (mem (?p\<lparr>queue := butlast (queue ?p)\<rparr>)) y = rank (mem pq) y"
    using pop_state_keeps [OF assms(2) swap_closed_rank [of "rank (mem pq)"]] by simp
  show "\<forall>y\<in>set (queue pq). rank (mem pq) (last (queue ?p)) \<le> rank (mem pq) y"
    using is_heap_least [OF assms(1)] pop_state_heap(2) [OF assms] by simp
qed simp_all

subsubsection \<open>Removing at a position\<close>

text \<open>
  \<open>heap_but_at\<close> for the first \<open>n\<close> positions: what an exchange with the last element leaves.
\<close>

definition heap_but_at_below :: "nat \<Rightarrow> nat \<Rightarrow> ('a, 'h) priority_queue \<Rightarrow> bool" where
  "heap_but_at_below n i pq \<longleftrightarrow>
     (\<forall>k. 0 < k \<and> k < n \<and> k \<noteq> i \<and> (k - 1) div 2 \<noteq> i \<longrightarrow> rk pq ((k - 1) div 2) \<le> rk pq k) \<and>
     (\<forall>k. 0 < i \<and> 0 < k \<and> k < n \<and> (k - 1) div 2 = i \<longrightarrow> rk pq ((i - 1) div 2) \<le> rk pq k)"

lemma repair_below:
  assumes at: "heap_but_at_below n i pq" and i: "i < n" and n: "n \<le> length (queue pq)"
  shows "heap_above 0 n (priority_queue_shift_up cmp swap (fst (priority_queue_shift_down cmp swap pq i n)) i)"
proof (cases "0 < i \<and> rk pq i < rk pq ((i - 1) div 2)")
  case False
  then have "heap_but_down 0 n i pq"
    using at by (auto simp: heap_but_at_below_def heap_but_down_def not_less)
  then have "heap_above 0 n (fst (priority_queue_shift_down cmp swap pq i n))"
    using i n by (intro shift_down_heap) auto
  then show ?thesis using i n by (intro shift_up_heap heap_imp_but_up) auto
next
  case True
  have below: "rk pq i \<le> rk pq k" if "0 < k" "k < n" "(k - 1) div 2 = i" for k
  proof -
    have "rk pq ((i - 1) div 2) \<le> rk pq k" using at that True by (auto simp: heap_but_at_below_def)
    with True show ?thesis by (meson less_imp_le order_trans)
  qed
  have "down_stops pq i n"
  proof (cases "n \<le> 2 * i + 1")
    case False
    then have "child pq i n < n" "0 < child pq i n" "(child pq i n - 1) div 2 = i" "child pq i n \<noteq> i"
      by (auto simp: child_def)
    with below [of "child pq i n"] cmp_rk_ge [of "child pq i n" pq i] i n show ?thesis
      by (simp add: down_stops_def)
  qed (simp add: down_stops_def)
  moreover have "heap_but_up n i pq"
    unfolding heap_but_up_def
  proof (intro conjI allI impI)
    fix k assume "0 < k \<and> k < n \<and> k \<noteq> i"
    then show "rk pq ((k - 1) div 2) \<le> rk pq k"
      using below [of k] at by (cases "(k - 1) div 2 = i") (auto simp: heap_but_at_below_def)
  qed (use at in \<open>auto simp: heap_but_at_below_def\<close>)
  ultimately show ?thesis
    using shift_up_heap [OF _ i n] i by (simp add: shift_down_result shift_down_loop_stop)
qed

lemma shift_up_beyond:
  "j < k \<Longrightarrow> k < length (queue pq) \<Longrightarrow>
   queue (priority_queue_shift_up cmp swap pq j) ! k = queue pq ! k"
proof -
  have "j < k \<and> k < length (queue pq) \<longrightarrow> queue (priority_queue_shift_up cmp swap pq j) ! k = queue pq ! k"
  proof (rule shift_up_induct [where P = "\<lambda>pq j r. j < k \<and> k < length (queue pq) \<longrightarrow> queue r ! k = queue pq ! k"])
    fix pq j and r :: "('a, 'h) priority_queue"
    assume *: "j < length (queue pq)" "0 < j"
      "(j - 1) div 2 < k \<and> k < length (queue (swap pq ((j - 1) div 2) j)) \<longrightarrow>
       queue r ! k = queue (swap pq ((j - 1) div 2) j) ! k"
    have "(j - 1) div 2 < j" using *(2) by auto
    with * show "j < k \<and> k < length (queue pq) \<longrightarrow> queue r ! k = queue pq ! k"
      by (auto simp: swap_queue nth_swap_at)
  qed simp
  then show "j < k \<Longrightarrow> k < length (queue pq) \<Longrightarrow> queue (priority_queue_shift_up cmp swap pq j) ! k = queue pq ! k"
    by blast
qed

text \<open>The state just before the last element is taken off by \<open>remove\<close>.\<close>

definition remove_state :: "('a, 'h) priority_queue \<Rightarrow> nat \<Rightarrow> ('a, 'h) priority_queue" where
  "remove_state pq i =
     (let n = length (queue pq) - 1 in
      if n \<noteq> i then
        priority_queue_shift_up cmp swap (fst (priority_queue_shift_down cmp swap (swap pq i n) i n)) i
      else pq)"

lemma remove_eq:
  "i < length (queue pq) \<Longrightarrow> priority_queue_remove cmp swap pq i = Some (pq_array_pop (remove_state pq i))"
  by (simp add: priority_queue_remove_def remove_state_def split_beta Let_def)

lemma remove_state_keeps:
  "i < length (queue pq) \<Longrightarrow> swap_closed swap Q \<Longrightarrow> Q pq \<Longrightarrow> Q (remove_state pq i)"
  using swap_closedD [of swap Q i pq "length (queue pq) - 1"]
    shift_down_keeps [of Q "length (queue pq) - 1" "swap pq i (length (queue pq) - 1)" i]
  by (simp add: remove_state_def Let_def shift_up_keeps)

lemma remove_state_heap:
  assumes heap: "is_heap pq" and i: "i < length (queue pq)"
  shows "heap_above 0 (length (queue pq) - 1) (remove_state pq i)"
    and "last (queue (remove_state pq i)) = queue pq ! i"
proof -
  define n where "n = length (queue pq) - 1"
  have n: "n < length (queue pq)" "i \<le> n" using i by (auto simp: n_def)
  have rs: "remove_state pq i =
      (if n \<noteq> i then priority_queue_shift_up cmp swap (fst (priority_queue_shift_down cmp swap (swap pq i n) i n)) i
       else pq)"
    by (simp add: remove_state_def n_def Let_def)
  have edge: "rk pq ((k - 1) div 2) \<le> rk pq k" if "0 < k" "k < length (queue pq)" for k
    using heap that by (auto simp: is_heap_def heap_above_def)
  have "heap_above 0 n (remove_state pq i) \<and> queue (remove_state pq i) ! n = queue pq ! i"
  proof (cases "n = i")
    case True
    with edge n show ?thesis by (auto simp: rs heap_above_def)
  next
    case False
    then have lt: "i < n" using n by simp
    let ?s = "swap pq i n"
    have rks: "rk ?s k = rk pq (if k = i then n else if k = n then i else k)" if "k \<le> n" for k
      using n that by (intro rk_swap) auto
    have "heap_but_at_below n i ?s"
      unfolding heap_but_at_below_def
    proof (intro conjI allI impI)
      fix k assume k: "0 < k \<and> k < n \<and> k \<noteq> i \<and> (k - 1) div 2 \<noteq> i"
      then have "(k - 1) div 2 < n" by auto
      with k n edge [of k] show "rk ?s ((k - 1) div 2) \<le> rk ?s k" by (simp add: rks)
    next
      fix k assume k: "0 < i \<and> 0 < k \<and> k < n \<and> (k - 1) div 2 = i"
      then have "0 < i" "i < k" by auto
      then have "(i - 1) div 2 < i" "i \<noteq> k" by (auto simp: less_mult_imp_div_less)
      moreover have "rk pq ((i - 1) div 2) \<le> rk pq i" "rk pq i \<le> rk pq k" using edge [of i] edge [of k] k n by auto
      ultimately show "rk ?s ((i - 1) div 2) \<le> rk ?s k" using k n by (auto simp: rks)
    qed
    then have "heap_above 0 n (remove_state pq i)"
      using repair_below [of n i ?s] lt n i False by (simp add: rs)
    moreover have "queue (remove_state pq i) ! n = queue ?s ! n"
      using shift_down_loop_beyond [of n ?s i] shift_up_beyond [OF lt] lt n i False
        shift_down_loop_keeps [OF swap_closed_length, of n ?s "length (queue ?s)" i]
      by (simp add: rs shift_down_result)
    moreover have "queue ?s ! n = queue pq ! i" using n i False by (simp add: swap_queue nth_swap_at)
    ultimately show ?thesis by simp
  qed
  moreover have "length (queue (remove_state pq i)) = Suc n"
    using remove_state_keeps [OF i swap_closed_length] n by (metis Suc_diff_1 gr_implies_not_zero n_def not_gr_zero)
  ultimately show "heap_above 0 (length (queue pq) - 1) (remove_state pq i)"
    "last (queue (remove_state pq i)) = queue pq ! i"
    by (simp_all add: n_def last_conv_nth flip: length_greater_0_conv)
qed

theorem remove_correct:
  assumes "is_heap pq" and "i < length (queue pq)"
  obtains pq' where "priority_queue_remove cmp swap pq i = Some (pq', queue pq ! i)" and "is_heap pq'"
    and "mset (queue pq) = add_mset (queue pq ! i) (mset (queue pq'))"
    and "\<forall>y. rank (mem pq') y = rank (mem pq) y"
proof
  let ?p = "remove_state pq i"
  have len: "length (queue ?p) = length (queue pq)"
    by (rule remove_state_keeps [OF assms(2) swap_closed_length]) simp
  with assms(2) have ne: "queue ?p \<noteq> []" by auto
  show "priority_queue_remove cmp swap pq i = Some (?p\<lparr>queue := butlast (queue ?p)\<rparr>, queue pq ! i)"
    using remove_state_heap(2) [OF assms] by (simp add: remove_eq [OF assms(2)] pq_array_pop_def)
  show "is_heap (?p\<lparr>queue := butlast (queue ?p)\<rparr>)"
    using remove_state_heap(1) [OF assms] len assms(2) by (intro heap_above_butlast) auto
  have "mset (queue pq) = mset (queue ?p)"
    by (rule remove_state_keeps [OF assms(2) swap_closed_mset, symmetric]) simp
  also have "\<dots> = add_mset (last (queue ?p)) (mset (butlast (queue ?p)))"
    using ne by (metis append_butlast_last_id mset.simps mset_append union_mset_add_mset_right add.right_neutral)
  finally show "mset (queue pq) = add_mset (queue pq ! i) (mset (queue (?p\<lparr>queue := butlast (queue ?p)\<rparr>)))"
    using remove_state_heap(2) [OF assms] by simp
  show "\<forall>y. rank (mem (?p\<lparr>queue := butlast (queue ?p)\<rparr>)) y = rank (mem pq) y"
    using remove_state_keeps [OF assms(2) swap_closed_rank [of "rank (mem pq)"]] by simp
qed

theorem create_heap:
  shows "is_heap (priority_queue_create cmp swap q h)"
    and "mset (queue (priority_queue_create cmp swap q h)) = mset q"
    and "swap_closed swap Q \<Longrightarrow> Q \<lparr>queue = q, mem = h\<rparr> \<Longrightarrow> Q (priority_queue_create cmp swap q h)"
proof -
  have loop: "length (queue pq) = n \<Longrightarrow> k \<le> n \<Longrightarrow> heap_above k n pq \<Longrightarrow>
      length (queue (create_loop cmp swap pq k n)) = n \<and> heap_above 0 n (create_loop cmp swap pq k n)"
    for pq k n
  proof (induction k arbitrary: pq)
    case (Suc k)
    have "heap_but_down k n k pq"
      using Suc.prems(3) unfolding heap_but_down_def heap_above_def by (auto simp: Suc_le_eq)
    then have "heap_above k n (fst (priority_queue_shift_down cmp swap pq k n))"
      using Suc.prems by (intro shift_down_heap) auto
    with Suc.prems Suc.IH [of "fst (priority_queue_shift_down cmp swap pq k n)"] show ?case by simp
  qed simp
  have keeps: "swap_closed swap Q \<Longrightarrow> length (queue pq) = n \<Longrightarrow> Q pq \<Longrightarrow> Q (create_loop cmp swap pq k n)"
    for Q pq k n
  proof (induction k arbitrary: pq)
    case (Suc k)
    then have "Q (fst (priority_queue_shift_down cmp swap pq k n))" by (simp add: shift_down_keeps)
    with Suc show ?case by simp
  qed simp
  have "heap_above (length q div 2) (length q) \<lparr>queue = q, mem = h\<rparr>"
    unfolding heap_above_def by (intro allI impI) linarith
  with loop [of "\<lparr>queue = q, mem = h\<rparr>" "length q" "length q div 2"]
  show "is_heap (priority_queue_create cmp swap q h)"
    by (simp add: priority_queue_create_def is_heap_def Let_def)
  show "mset (queue (priority_queue_create cmp swap q h)) = mset q"
    using keeps [OF swap_closed_mset] by (simp add: priority_queue_create_def Let_def)
  show "swap_closed swap Q \<Longrightarrow> Q \<lparr>queue = q, mem = h\<rparr> \<Longrightarrow> Q (priority_queue_create cmp swap q h)"
    unfolding priority_queue_create_def Let_def by (rule keeps) simp_all
qed

subsubsection \<open>Comparisons that agree on the queues in use\<close>

text \<open>
  A comparison \<open>c\<close> that is lawful only on the queues of a swap-closed set \<open>Q\<close> makes the operations
  do on these queues what the lawful one makes them do.
\<close>

definition agrees :: "(('a, 'h) priority_queue \<Rightarrow> bool) \<Rightarrow> ('a, 'h) pq_cmp \<Rightarrow> bool" where
  "agrees Q c \<longleftrightarrow>
     swap_closed swap Q \<and>
     (\<forall>pq i j. Q pq \<and> i < length (queue pq) \<and> j < length (queue pq) \<and> i \<noteq> j \<longrightarrow> c pq i j = cmp pq i j)"

lemma agreesD:
  "agrees Q c \<Longrightarrow> Q pq \<Longrightarrow> i < length (queue pq) \<Longrightarrow> j < length (queue pq) \<Longrightarrow> i \<noteq> j \<Longrightarrow> c pq i j = cmp pq i j"
  by (auto simp: agrees_def)

lemma agrees_swap:
  "agrees Q c \<Longrightarrow> Q pq \<Longrightarrow> i < length (queue pq) \<Longrightarrow> j < length (queue pq) \<Longrightarrow> Q (swap pq i j)"
  by (auto simp: agrees_def swap_closed_def)

lemma shift_down_loop_agrees:
  assumes "agrees Q c" and "Q pq" and "n \<le> length (queue pq)"
  shows "shift_down_loop c swap pq i n = shift_down_loop cmp swap pq i n"
  using assms(2,3)
proof (induction "n - i" arbitrary: pq i rule: less_induct)
  case less
  let ?j = "child pq i n"
  show ?case
  proof (cases "2 * i + 1 < n")
    case True
    have "?j < n" "i < ?j" using True by (auto simp: child_def)
    then have j: "?j < length (queue pq)" "i < length (queue pq)" "?j \<noteq> i" "i < n" using less.prems by auto
    have c: "(if 2 * i + 1 + 1 < n \<and> c pq (2 * i + 1 + 1) (2 * i + 1) < 0 then 2 * i + 1 + 1 else 2 * i + 1) = ?j"
    proof (cases "2 * i + 2 < n")
      case right: True
      with less.prems(2) have "2 * i + 2 < length (queue pq)" "2 * i + 1 < length (queue pq)" by auto
      from agreesD [OF assms(1) less.prems(1) this] show ?thesis by (simp add: child_def)
    qed (simp add: child_def)
    have "shift_down_loop c swap (swap pq i ?j) ?j n = shift_down_loop cmp swap (swap pq i ?j) ?j n"
      using \<open>i < ?j\<close> j less.prems agrees_swap [OF assms(1) less.prems(1) j(2) j(1)] by (intro less.hyps) auto
    moreover have "c pq ?j i = cmp pq ?j i" by (rule agreesD [OF assms(1) less.prems(1) j(1,2,3)])
    moreover have "shift_down_loop c swap pq i n =
        (if 0 \<le> c pq ?j i then (pq, i) else shift_down_loop c swap (swap pq i ?j) ?j n)"
      by (subst shift_down_loop.simps, unfold Let_def c) (use True in simp)
    moreover have "shift_down_loop cmp swap pq i n =
        (if 0 \<le> cmp pq ?j i then (pq, i) else shift_down_loop cmp swap (swap pq i ?j) ?j n)"
      by (subst shift_down_loop_unfold) (use True in \<open>simp add: down_stops_def\<close>)
    ultimately show ?thesis by simp
  next
    case False
    then have "shift_down_loop c swap pq i n = (pq, i)" "shift_down_loop cmp swap pq i n = (pq, i)"
      by (subst shift_down_loop.simps, simp)+
    then show ?thesis by simp
  qed
qed

lemma shift_up_agrees:
  assumes "agrees Q c" and "Q pq"
  shows "priority_queue_shift_up c swap pq i = priority_queue_shift_up cmp swap pq i"
  using assms(2)
proof (induction i arbitrary: pq rule: less_induct)
  case (less i)
  let ?p = "(i - 1) div 2"
  show ?case
  proof (cases "i < length (queue pq) \<and> ?p \<noteq> i")
    case True
    then have *: "?p < length (queue pq)" "i < length (queue pq)" "i \<noteq> ?p" "?p < i" by auto
    have "priority_queue_shift_up c swap (swap pq ?p i) ?p = priority_queue_shift_up cmp swap (swap pq ?p i) ?p"
      using less.IH [OF *(4) agrees_swap [OF assms(1) less.prems *(1,2)]] .
    moreover have "c pq i ?p = cmp pq i ?p" by (rule agreesD [OF assms(1) less.prems *(2,1,3)])
    moreover have "priority_queue_shift_up d swap pq i =
        (if d pq i ?p \<ge> 0 then pq else priority_queue_shift_up d swap (swap pq ?p i) ?p)" for d
      by (subst priority_queue_shift_up.simps) (use True in \<open>simp add: Let_def\<close>)
    ultimately show ?thesis by simp
  next
    case False
    have "priority_queue_shift_up d swap pq i = pq" for d
      by (subst priority_queue_shift_up.simps) (use False in \<open>auto simp: Let_def\<close>)
    then show ?thesis by simp
  qed
qed

lemma shift_down_agrees:
  assumes "agrees Q c" and "Q pq" and "n \<le> length (queue pq)"
  shows "priority_queue_shift_down c swap pq i n = priority_queue_shift_down cmp swap pq i n"
  using shift_down_loop_agrees [OF assms] by (simp add: priority_queue_shift_down_def)

lemma fix_agrees:
  assumes "agrees Q c" and "Q pq"
  shows "priority_queue_fix c swap pq i = priority_queue_fix cmp swap pq i"
proof (cases "i < length (queue pq)")
  case True
  have "swap_closed swap Q" using assms(1) by (simp add: agrees_def)
  then have "Q (fst (priority_queue_shift_down cmp swap pq i (length (queue pq))))"
    by (rule shift_down_keeps [where Q = Q]) (simp_all add: assms(2))
  then show ?thesis
    using shift_up_agrees [OF assms(1)] shift_down_agrees [OF assms] by (simp add: priority_queue_fix_def split_beta)
next
  case False
  have "priority_queue_fix d swap pq i = pq" for d
  proof -
    have "shift_down_loop d swap pq i (length (queue pq)) = (pq, i)"
      by (subst shift_down_loop.simps) (use False in simp)
    moreover have "priority_queue_shift_up d swap pq i = pq"
      by (subst priority_queue_shift_up.simps) (use False in simp)
    ultimately show ?thesis by (simp add: priority_queue_fix_def priority_queue_shift_down_def)
  qed
  then show ?thesis by simp
qed

lemma pop_agrees:
  assumes "agrees Q c" and "Q pq"
  shows "priority_queue_pop c swap pq = priority_queue_pop cmp swap pq"
proof (cases "queue pq = []")
  case False
  let ?n = "length (queue pq) - 1"
  have *: "0 < length (queue pq)" "?n < length (queue pq)" using False by simp_all
  have "Q (swap pq 0 ?n)" by (rule agrees_swap [OF assms *])
  then show ?thesis
    using shift_down_agrees [OF assms(1), of "swap pq 0 ?n" ?n 0] * by (simp add: priority_queue_pop_def Let_def)
qed (simp add: priority_queue_pop_def)

lemma create_agrees:
  assumes "agrees Q c" and "Q \<lparr>queue = q, mem = h\<rparr>"
  shows "priority_queue_create c swap q h = priority_queue_create cmp swap q h"
proof -
  have "create_loop c swap pq k n = create_loop cmp swap pq k n" if "Q pq" "length (queue pq) = n" "k \<le> n" for pq k n
    using that
  proof (induction k arbitrary: pq)
    case (Suc k)
    have "Q (fst (priority_queue_shift_down cmp swap pq k n))"
      by (rule shift_down_keeps [where Q = Q]) (use Suc.prems assms(1) in \<open>simp_all add: agrees_def\<close>)
    with Suc shift_down_agrees [OF assms(1) Suc.prems(1), of n k] show ?case by simp
  qed simp
  from this [of "\<lparr>queue = q, mem = h\<rparr>" "length q" "length q div 2"] assms(2) show ?thesis
    by (simp add: priority_queue_create_def Let_def)
qed

end

end
