(* ===== verification/Hash_Probe.thy ===== *)
theory Hash_Probe
  imports Odin_Prelude
begin

text \<open>
  What the open-addressing tables of the compiler (\<^verbatim>\<open>src/ptr_set.cpp\<close>, \<^verbatim>\<open>src/ptr_map.cpp\<close>)
  share: the pointer hash, the two reserved key values, and linear probing over a power-of-two
  number of slots. The tables differ in what a slot holds; here a table is the list of its keys.
\<close>

subsection \<open>Reserved keys and the hash\<close>

text \<open>A slot never used holds the null pointer; a slot whose key was removed holds all ones.\<close>

definition TOMBSTONE :: ptr where
  "TOMBSTONE = NOT 0"

definition live :: "ptr \<Rightarrow> bool" where
  "live p \<longleftrightarrow> p \<noteq> 0 \<and> p \<noteq> TOMBSTONE"

lemma live_simps [simp]: "\<not> live 0" "\<not> live TOMBSTONE" "TOMBSTONE \<noteq> 0" "0 \<noteq> TOMBSTONE"
  by (simp_all add: live_def TOMBSTONE_def)

lemma live_nonzero: "live p \<Longrightarrow> p \<noteq> 0"
  by (simp add: live_def)

text \<open>The 64-bit branch of \<open>ptr_map_hash_key\<close>; every operation wraps at 64 bits.\<close>

definition ptr_map_hash_key :: "ptr \<Rightarrow> u32" where
  "ptr_map_hash_key key =
     (let key = (NOT key) + push_bit 21 key;
          key = key XOR drop_bit 24 key;
          key = (key + push_bit 3 key) + push_bit 8 key;
          key = key XOR drop_bit 14 key;
          key = (key + push_bit 2 key) + push_bit 4 key;
          key = key XOR push_bit 28 key
      in ucast key)"

text \<open>Indices are reduced with \<open>mask = capacity - 1\<close>.\<close>

definition home :: "nat \<Rightarrow> ptr \<Rightarrow> nat" where
  "home cap p = unat (ptr_map_hash_key p) AND (cap - 1)"

definition next_index :: "nat \<Rightarrow> nat \<Rightarrow> nat" where
  "next_index cap i = (i + 1) AND (cap - 1)"

lemma and_pow2_minus_1: "n AND (2 ^ k - 1) = n mod (2 ^ k :: nat)"
  by (metis mask_eq_exp_minus_1 take_bit_eq_mask take_bit_eq_mod)

lemma home_less: "cap = 2 ^ k \<Longrightarrow> home cap p < cap"
  by (simp only: home_def and_pow2_minus_1) simp

lemma next_index_mod: "cap = 2 ^ k \<Longrightarrow> next_index cap i = Suc i mod cap"
  by (simp only: next_index_def and_pow2_minus_1 add.commute [of i] plus_1_eq_Suc)

lemma next_index_less: "cap = 2 ^ k \<Longrightarrow> next_index cap i < cap"
  by (simp add: next_index_mod)

subsection \<open>Probe sequences\<close>

definition probe :: "nat \<Rightarrow> nat \<Rightarrow> nat \<Rightarrow> nat" where
  "probe cap h t = (h + t) mod cap"

lemma probe_0 [simp]: "h < cap \<Longrightarrow> probe cap h 0 = h"
  by (simp add: probe_def)

lemma probe_less [simp]: "0 < cap \<Longrightarrow> probe cap h t < cap"
  by (simp add: probe_def)

lemma probe_Suc: "cap = 2 ^ k \<Longrightarrow> probe cap (next_index cap h) t = probe cap h (Suc t)"
  by (simp add: probe_def next_index_mod mod_simps)

lemma probe_onto:
  assumes "h < cap" and "j < cap"
  obtains t where "t < cap" and "probe cap h t = j"
proof (cases "h \<le> j")
  case True
  with assms show ?thesis by (intro that [of "j - h"]) (auto simp: probe_def)
next
  case False
  with assms show ?thesis by (intro that [of "cap + j - h"]) (auto simp: probe_def)
qed

text \<open>The first step at which the probe sequence meets a slot that satisfies \<open>P\<close>.\<close>

lemma first_probe:
  assumes "P (ks ! probe cap h t)" and "t < cap"
  obtains s where "s \<le> t" and "P (ks ! probe cap h s)" and "\<forall>u < s. \<not> P (ks ! probe cap h u)"
proof -
  define s where "s = (LEAST s. P (ks ! probe cap h s))"
  have "P (ks ! probe cap h s)" and "s \<le> t" and "\<forall>u < s. \<not> P (ks ! probe cap h u)"
    unfolding s_def using assms(1) by (auto intro: LeastI Least_le dest: not_less_Least)
  then show ?thesis using that by blast
qed

subsection \<open>The two searches\<close>

text \<open>
  \<open>find_index\<close> looks for a key until it meets it, meets a never-used slot, or has seen every
  slot; \<open>None\<close> stands for the C result -1. \<open>find_free\<close> looks for a slot that can take a new key.
  The first argument counts the iterations left.
\<close>

fun find_index :: "nat \<Rightarrow> ptr list \<Rightarrow> ptr \<Rightarrow> nat \<Rightarrow> nat option" where
  "find_index 0 ks p i = None"
| "find_index (Suc left) ks p i =
     (if ks ! i = p then Some i
      else if ks ! i = 0 then None
      else find_index left ks p (next_index (length ks) i))"

fun find_free :: "nat \<Rightarrow> ptr list \<Rightarrow> nat \<Rightarrow> nat option" where
  "find_free 0 ks i = None"
| "find_free (Suc left) ks i =
     (if ks ! i = TOMBSTONE \<or> ks ! i = 0 then Some i
      else find_free left ks (next_index (length ks) i))"

lemma find_index_Some: "find_index left ks p i = Some j \<Longrightarrow> ks ! j = p"
  by (induction left ks p i rule: find_index.induct) (auto split: if_splits)

lemma find_index_less:
  "find_index left ks p i = Some j \<Longrightarrow> length ks = 2 ^ k \<Longrightarrow> i < length ks \<Longrightarrow> j < length ks"
  by (induction left ks p i rule: find_index.induct)
     (auto split: if_splits simp: next_index_less)

lemma find_index_hit:
  assumes "length ks = 2 ^ k" and "h < length ks" and "t < left"
    and "ks ! probe (length ks) h t = p"
    and "\<forall>u<t. ks ! probe (length ks) h u \<noteq> p \<and> ks ! probe (length ks) h u \<noteq> 0"
  shows "find_index left ks p h = Some (probe (length ks) h t)"
  using assms
proof (induction left arbitrary: h t)
  case (Suc left)
  show ?case
  proof (cases t)
    case 0
    with Suc.prems show ?thesis by simp
  next
    case (Suc s)
    have "find_index left ks p (next_index (length ks) h)
        = Some (probe (length ks) (next_index (length ks) h) s)"
      using Suc.prems \<open>t = Suc s\<close>
      by (intro Suc.IH) (auto simp: probe_Suc next_index_less)
    moreover have "ks ! h \<noteq> p \<and> ks ! h \<noteq> 0"
      using Suc.prems(5) Suc.prems(2) \<open>t = Suc s\<close> by (auto dest: spec [of _ 0])
    ultimately show ?thesis
      using Suc.prems(1) \<open>t = Suc s\<close> by (simp add: probe_Suc)
  qed
qed simp

lemma find_free_hit:
  assumes "length ks = 2 ^ k" and "h < length ks" and "t < left"
    and "\<not> live (ks ! probe (length ks) h t)"
    and "\<forall>u<t. live (ks ! probe (length ks) h u)"
  shows "find_free left ks h = Some (probe (length ks) h t)"
  using assms
proof (induction left arbitrary: h t)
  case (Suc left)
  show ?case
  proof (cases t)
    case 0
    with Suc.prems show ?thesis by (auto simp: live_def)
  next
    case (Suc s)
    have "find_free left ks (next_index (length ks) h)
        = Some (probe (length ks) (next_index (length ks) h) s)"
      using Suc.prems \<open>t = Suc s\<close>
      by (intro Suc.IH) (auto simp: probe_Suc next_index_less)
    moreover have "live (ks ! h)"
      using Suc.prems(5) Suc.prems(2) \<open>t = Suc s\<close> by (auto dest: spec [of _ 0])
    ultimately show ?thesis
      using Suc.prems(1) \<open>t = Suc s\<close> by (auto simp: probe_Suc live_def)
  qed
qed simp

subsection \<open>Well-formed key arrays\<close>

text \<open>
  A key is reachable when the search that starts at its home slot gets to it before it meets a
  never-used slot. Live keys are distinct and reachable.
\<close>

definition reachable :: "ptr list \<Rightarrow> ptr \<Rightarrow> bool" where
  "reachable ks p \<longleftrightarrow>
     (\<exists>t<length ks. ks ! probe (length ks) (home (length ks) p) t = p \<and>
        (\<forall>u<t. ks ! probe (length ks) (home (length ks) p) u \<noteq> 0))"

definition live_keys :: "ptr list \<Rightarrow> ptr list" where
  "live_keys ks = filter live ks"

definition table_ok :: "ptr list \<Rightarrow> bool" where
  "table_ok ks \<longleftrightarrow>
     (\<exists>k. length ks = 2 ^ k) \<and> distinct (live_keys ks) \<and> (\<forall>p\<in>set (live_keys ks). reachable ks p)"

lemma live_keys_update:
  assumes "j < length ks" and "\<not> live (ks ! j)"
  shows "mset (live_keys (ks[j := p])) = (if live p then add_mset p (mset (live_keys ks)) else mset (live_keys ks))"
proof -
  have ks: "ks = take j ks @ ks ! j # drop (Suc j) ks" using assms(1) by (rule id_take_nth_drop)
  have "live_keys ks = live_keys (take j ks) @ live_keys (drop (Suc j) ks)"
    using assms(2) by (subst ks) (simp add: live_keys_def)
  then show ?thesis
    using assms(1) by (simp add: live_keys_def upd_conv_take_nth_drop)
qed

lemma live_keys_remove:
  assumes "j < length ks" and "live (ks ! j)"
  shows "mset (live_keys ks) = add_mset (ks ! j) (mset (live_keys (ks[j := TOMBSTONE])))"
proof -
  have ks: "ks = take j ks @ ks ! j # drop (Suc j) ks" using assms(1) by (rule id_take_nth_drop)
  have "mset (live_keys ks) = add_mset (ks ! j) (mset (live_keys (take j ks) @ live_keys (drop (Suc j) ks)))"
    using assms(2) by (subst ks) (simp add: live_keys_def)
  then show ?thesis
    using assms(1) by (simp add: live_keys_def upd_conv_take_nth_drop)
qed

lemma live_keys_replicate [simp]: "live_keys (replicate n 0) = []"
  by (simp add: live_keys_def)

lemma table_ok_replicate [simp]: "table_ok (replicate (2 ^ k) 0)"
  by (auto simp: table_ok_def)

lemma find_index_correct:
  assumes "table_ok ks" and "live p"
  shows "find_index (length ks) ks p (home (length ks) p) =
     (if p \<in> set (live_keys ks) then find_index (length ks) ks p (home (length ks) p) else None)"
    and "p \<in> set (live_keys ks) \<Longrightarrow>
     \<exists>j<length ks. find_index (length ks) ks p (home (length ks) p) = Some j \<and> ks ! j = p"
proof -
  let ?n = "length ks" and ?h = "home (length ks) p"
  obtain k where k: "?n = 2 ^ k" using assms(1) by (auto simp: table_ok_def)
  then have h: "?h < ?n" using home_less by blast
  show "p \<in> set (live_keys ks) \<Longrightarrow> \<exists>j<?n. find_index ?n ks p ?h = Some j \<and> ks ! j = p"
  proof -
    assume "p \<in> set (live_keys ks)"
    with assms(1) obtain t where t: "t < ?n" "ks ! probe ?n ?h t = p" "\<forall>u<t. ks ! probe ?n ?h u \<noteq> 0"
      by (auto simp: table_ok_def reachable_def)
    obtain s where s: "s \<le> t" "ks ! probe ?n ?h s = p" "\<forall>u < s. ks ! probe ?n ?h u \<noteq> p"
      using first_probe [where P = "\<lambda>q. q = p", OF t(2,1)] by blast
    have "find_index ?n ks p ?h = Some (probe ?n ?h s)"
      using s t by (intro find_index_hit [OF k h]) auto
    moreover have "probe ?n ?h s < ?n" using h by (intro probe_less) auto
    ultimately show ?thesis using s(2) by blast
  qed
  show "find_index ?n ks p ?h = (if p \<in> set (live_keys ks) then find_index ?n ks p ?h else None)"
  proof (cases "find_index ?n ks p ?h")
    case (Some j)
    then have "ks ! j = p" "j < ?n"
      using find_index_Some find_index_less [OF _ k h] by auto
    with assms(2) have "p \<in> set (live_keys ks)" by (auto simp: live_keys_def)
    then show ?thesis by simp
  qed simp
qed

lemma find_index_None_iff:
  "table_ok ks \<Longrightarrow> live p \<Longrightarrow>
   find_index (length ks) ks p (home (length ks) p) = None \<longleftrightarrow> p \<notin> set (live_keys ks)"
  using find_index_correct [of ks p] by (metis option.distinct(1))

lemma find_index_SomeD:
  assumes "table_ok ks" and "find_index (length ks) ks p (home (length ks) p) = Some j"
  shows "j < length ks" and "ks ! j = p"
proof -
  obtain k where k: "length ks = 2 ^ k" using assms(1) by (auto simp: table_ok_def)
  show "j < length ks" using find_index_less [OF assms(2) k home_less [OF k]] .
  show "ks ! j = p" using find_index_Some [OF assms(2)] .
qed

lemma find_free_exists:
  assumes "table_ok ks" and "length (live_keys ks) < length ks"
  obtains t where "t < length ks"
    and "find_free (length ks) ks (home (length ks) p) = Some (probe (length ks) (home (length ks) p) t)"
    and "\<not> live (ks ! probe (length ks) (home (length ks) p) t)"
    and "\<forall>u<t. live (ks ! probe (length ks) (home (length ks) p) u)"
proof -
  let ?n = "length ks" and ?h = "home (length ks) p"
  obtain k where k: "?n = 2 ^ k" using assms(1) by (auto simp: table_ok_def)
  then have h: "?h < ?n" using home_less by blast
  have "\<exists>j<?n. \<not> live (ks ! j)"
  proof (rule ccontr)
    assume "\<not> ?thesis"
    then have "live_keys ks = ks" by (auto simp: live_keys_def in_set_conv_nth intro!: filter_True)
    with assms(2) show False by simp
  qed
  then obtain j where "j < ?n" "\<not> live (ks ! j)" by blast
  moreover from this obtain t where "t < ?n" "probe ?n ?h t = j" using probe_onto [OF h] by blast
  ultimately have t: "t < ?n" "\<not> live (ks ! probe ?n ?h t)" by auto
  obtain s where s: "s \<le> t" "\<not> live (ks ! probe ?n ?h s)" "\<forall>u < s. \<not> \<not> live (ks ! probe ?n ?h u)"
    using first_probe [where P = "\<lambda>q. \<not> live q", OF t(2,1)] by blast
  then show ?thesis
    using that [of s] t find_free_hit [OF k h, of s ?n] by auto
qed

text \<open>Writing a new key into the slot that \<open>find_free\<close> returns keeps the table well formed.\<close>

lemma table_ok_insert:
  assumes "table_ok ks" and "live p" and "p \<notin> set (live_keys ks)"
    and "find_free (length ks) ks (home (length ks) p) = Some j"
    and "length (live_keys ks) < length ks"
  shows "table_ok (ks[j := p])" and "j < length ks"
    and "mset (live_keys (ks[j := p])) = add_mset p (mset (live_keys ks))"
proof -
  let ?n = "length ks" and ?h = "home (length ks) p"
  obtain k where k: "?n = 2 ^ k" using assms(1) by (auto simp: table_ok_def)
  obtain t where t: "t < ?n" "j = probe ?n ?h t" "\<not> live (ks ! j)" "\<forall>u<t. live (ks ! probe ?n ?h u)"
    using find_free_exists [OF assms(1,5), of p] assms(4) by auto
  show j: "j < ?n" unfolding t(2) using k by (intro probe_less) simp
  show m: "mset (live_keys (ks[j := p])) = add_mset p (mset (live_keys ks))"
    using live_keys_update [OF j t(3)] assms(2) by simp
  then have set: "set (live_keys (ks[j := p])) = insert p (set (live_keys ks))"
    by (metis set_mset_add_mset_insert set_mset_mset)
  have "reachable (ks[j := p]) q" if q: "q \<in> set (live_keys ks)" for q
  proof -
    obtain t where "t < ?n" "ks ! probe ?n (home ?n q) t = q" "\<forall>u<t. ks ! probe ?n (home ?n q) u \<noteq> 0"
      using assms(1) q by (auto simp: table_ok_def reachable_def)
    moreover from this have "probe ?n (home ?n q) t \<noteq> j"
      using q t(3) by (auto simp: live_keys_def)
    moreover have "p \<noteq> 0" using assms(2) by (rule live_nonzero)
    ultimately show ?thesis
      unfolding reachable_def using j by (intro exI [of _ t]) (auto simp: nth_list_update)
  qed
  moreover have "reachable (ks[j := p]) p"
    unfolding reachable_def using t j live_nonzero assms(2)
    by (intro exI [of _ t]) (auto simp: nth_list_update)
  moreover have "distinct (live_keys (ks[j := p]))"
  proof -
    have "distinct (p # live_keys ks)" using assms(1,3) by (simp add: table_ok_def)
    moreover have "mset (p # live_keys ks) = mset (live_keys (ks[j := p]))" using m by simp
    ultimately show ?thesis by (metis mset_eq_imp_distinct_iff)
  qed
  ultimately show "table_ok (ks[j := p])"
    using k set by (auto simp: table_ok_def)
qed

text \<open>Replacing a key by a tombstone keeps every other key reachable.\<close>

lemma table_ok_remove:
  assumes "table_ok ks" and "j < length ks" and "live (ks ! j)"
  shows "table_ok (ks[j := TOMBSTONE])"
    and "set (live_keys (ks[j := TOMBSTONE])) = set (live_keys ks) - {ks ! j}"
proof -
  let ?n = "length ks"
  note m = live_keys_remove [OF assms(2,3)]
  have "distinct (live_keys ks)" using assms(1) by (simp add: table_ok_def)
  moreover have "mset (ks ! j # live_keys (ks[j := TOMBSTONE])) = mset (live_keys ks)" using m by simp
  ultimately have d: "distinct (ks ! j # live_keys (ks[j := TOMBSTONE]))"
    by (metis mset_eq_imp_distinct_iff)
  have "set (live_keys ks) = insert (ks ! j) (set (live_keys (ks[j := TOMBSTONE])))"
    using m by (metis set_mset_add_mset_insert set_mset_mset)
  with d show set: "set (live_keys (ks[j := TOMBSTONE])) = set (live_keys ks) - {ks ! j}" by auto
  have "reachable (ks[j := TOMBSTONE]) q" if q: "q \<in> set (live_keys ks)" "q \<noteq> ks ! j" for q
  proof -
    obtain t where "t < ?n" "ks ! probe ?n (home ?n q) t = q" "\<forall>u<t. ks ! probe ?n (home ?n q) u \<noteq> 0"
      using assms(1) q by (auto simp: table_ok_def reachable_def)
    moreover from this have "probe ?n (home ?n q) t \<noteq> j" using q by auto
    ultimately show ?thesis
      unfolding reachable_def using assms(2) by (intro exI [of _ t]) (auto simp: nth_list_update)
  qed
  with assms(1) d set show "table_ok (ks[j := TOMBSTONE])" by (auto simp: table_ok_def)
qed

end
