(* ===== verification/Ptr_Set.thy ===== *)
theory Ptr_Set
  imports Hash_Probe
begin

text \<open>
  The pointer set of \<^verbatim>\<open>src/ptr_set.cpp\<close>: open addressing with linear probing, tombstones for
  removed keys, and growth at three quarters. \<open>capacity\<close> is the length of the key array; the
  null array of a set that was never used is the empty list. Whether the array is the inline one
  or a heap block does not show in the results and is not modelled. A failed \<^verbatim>\<open>GB_ASSERT\<close> or
  \<^verbatim>\<open>GB_PANIC\<close> is \<open>None\<close>.
\<close>

record ptr_set =
  keys :: "ptr list"
  count :: nat

definition capacity :: "ptr_set \<Rightarrow> nat" where
  "capacity s = length (keys s)"

definition ptr_set_empty :: ptr_set where
  "ptr_set_empty = \<lparr>keys = [], count = 0\<rparr>"

definition PTR_SET_INLINE_CAP :: nat where
  "PTR_SET_INLINE_CAP = 16"

subsection \<open>Operations\<close>

definition ptr_set_init :: "nat \<Rightarrow> ptr_set" where
  "ptr_set_init cap =
     (let cap = (if cap \<noteq> 0 then nat (next_pow2 (int (max PTR_SET_INLINE_CAP cap))) else 0)
      in \<lparr>keys = replicate cap 0, count = 0\<rparr>)"

definition ptr_set_find :: "ptr_set \<Rightarrow> ptr \<Rightarrow> nat option" where
  "ptr_set_find s p =
     (if count s \<noteq> 0 then find_index (capacity s) (keys s) p (home (capacity s) p) else None)"

definition ptr_set_full :: "ptr_set \<Rightarrow> bool" where
  "ptr_set_full s = (count s \<ge> capacity s - (capacity s div 4))"

definition ptr_set_exists :: "ptr_set \<Rightarrow> ptr \<Rightarrow> bool" where
  "ptr_set_exists s p = (ptr_set_find s p \<noteq> None)"

text \<open>The elements in the order in which \<^verbatim>\<open>FOR_PTR_SET\<close> visits them.\<close>

definition ptr_set_elems :: "ptr_set \<Rightarrow> ptr list" where
  "ptr_set_elems s = live_keys (keys s)"

text \<open>The loop at the end of \<open>ptr_set_update\<close>.\<close>

definition ptr_set_insert_slot :: "ptr_set \<Rightarrow> ptr \<Rightarrow> ptr_set option" where
  "ptr_set_insert_slot s p =
     (if count s < capacity s then
        map_option (\<lambda>i. s\<lparr>keys := (keys s)[i := p], count := count s + 1\<rparr>)
          (find_free (capacity s) (keys s) (home (capacity s) p))
      else None)"

text \<open>
  \<open>ptr_set_update\<close> and \<open>ptr_set_grow\<close> call each other: growing re-inserts every key into a table
  of twice the size. The first argument bounds the depth of these calls; three levels are enough
  (\<open>ptr_set_update_total\<close> below).
\<close>

fun ptr_set_update_fuel :: "nat \<Rightarrow> ptr_set \<Rightarrow> ptr \<Rightarrow> (ptr_set \<times> bool) option"
  and ptr_set_grow_fuel :: "nat \<Rightarrow> ptr_set \<Rightarrow> ptr_set option"
  and ptr_set_reinsert_fuel :: "nat \<Rightarrow> ptr list \<Rightarrow> ptr_set \<Rightarrow> ptr_set option" where
  "ptr_set_update_fuel 0 s p = None"
| "ptr_set_update_fuel (Suc f) s p =
     (if p = 0 then None
      else if ptr_set_exists s p then Some (s, True)
      else
        case (if keys s = [] then Some (ptr_set_init 16)
              else if ptr_set_full s then ptr_set_grow_fuel f s
              else Some s) of
          None \<Rightarrow> None
        | Some s \<Rightarrow> map_option (\<lambda>s. (s, False)) (ptr_set_insert_slot s p))"
| "ptr_set_grow_fuel 0 s = None"
| "ptr_set_grow_fuel (Suc f) s =
     (if capacity s = 0 then Some (ptr_set_init 16)
      else
        case ptr_set_reinsert_fuel f (ptr_set_elems s) (ptr_set_init (max (capacity s * 2) 16)) of
          None \<Rightarrow> None
        | Some new_set \<Rightarrow> if count s = count new_set then Some new_set else None)"
| "ptr_set_reinsert_fuel f [] new_set = Some new_set"
| "ptr_set_reinsert_fuel 0 (p # ps) new_set = None"
| "ptr_set_reinsert_fuel (Suc f) (p # ps) new_set =
     (case ptr_set_update_fuel (Suc f) new_set p of
        None \<Rightarrow> None
      | Some (new_set, was_new) \<Rightarrow> if was_new then None else ptr_set_reinsert_fuel (Suc f) ps new_set)"

definition ptr_set_update :: "ptr_set \<Rightarrow> ptr \<Rightarrow> (ptr_set \<times> bool) option" where
  "ptr_set_update s p = ptr_set_update_fuel 3 s p"

definition ptr_set_add :: "ptr_set \<Rightarrow> ptr \<Rightarrow> ptr_set option" where
  "ptr_set_add s p = map_option fst (ptr_set_update s p)"

definition ptr_set_remove :: "ptr_set \<Rightarrow> ptr \<Rightarrow> ptr_set option" where
  "ptr_set_remove s p =
     (if p = 0 then None
      else
        case ptr_set_find s p of
          None \<Rightarrow> Some s
        | Some i \<Rightarrow>
            if count s > 0 then Some (s\<lparr>keys := (keys s)[i := TOMBSTONE], count := count s - 1\<rparr>)
            else None)"

definition ptr_set_clear :: "ptr_set \<Rightarrow> ptr_set" where
  "ptr_set_clear s = s\<lparr>count := 0, keys := replicate (capacity s) 0\<rparr>"

subsection \<open>The set a table stands for, and its invariant\<close>

text \<open>
  \<open>count\<close> and \<open>capacity\<close> are \<^verbatim>\<open>u32\<close> in the code. The invariant bounds the capacity of a set that
  never held more than \<open>2 ^ 32\<close> keys at once; the operations need room for the key they add.
\<close>

definition ptr_set_abs :: "ptr_set \<Rightarrow> ptr set" where
  "ptr_set_abs s = set (ptr_set_elems s)"

definition ptr_set_ok :: "ptr_set \<Rightarrow> bool" where
  "ptr_set_ok s \<longleftrightarrow>
     (keys s = [] \<or> table_ok (keys s) \<and> 16 \<le> capacity s) \<and>
     count s = length (ptr_set_elems s) \<and>
     count s \<le> capacity s - capacity s div 4 \<and>
     capacity s \<le> 16 + 3 * 2 ^ 32"

lemma ptr_set_ok_empty [simp]: "ptr_set_ok ptr_set_empty"
  by (simp add: ptr_set_ok_def ptr_set_empty_def ptr_set_elems_def live_keys_def capacity_def)

lemma ptr_set_abs_empty [simp]: "ptr_set_abs ptr_set_empty = {}"
  by (simp add: ptr_set_abs_def ptr_set_empty_def ptr_set_elems_def live_keys_def)

lemma finite_ptr_set_abs [simp]: "finite (ptr_set_abs s)"
  by (simp add: ptr_set_abs_def)

lemma ptr_set_abs_live: "p \<in> ptr_set_abs s \<Longrightarrow> live p"
  by (simp add: ptr_set_abs_def ptr_set_elems_def live_keys_def)

lemma ptr_set_elems_distinct: "ptr_set_ok s \<Longrightarrow> distinct (ptr_set_elems s)"
  by (auto simp: ptr_set_ok_def table_ok_def ptr_set_elems_def live_keys_def)

lemma ptr_set_count: "ptr_set_ok s \<Longrightarrow> count s = card (ptr_set_abs s)"
  using ptr_set_elems_distinct [of s] by (simp add: ptr_set_ok_def ptr_set_abs_def distinct_card)

lemma ptr_set_init_props:
  assumes "0 < cap" and "cap \<le> 2 ^ 60"
  shows "ptr_set_abs (ptr_set_init cap) = {}"
    and "count (ptr_set_init cap) = 0" and "cap \<le> capacity (ptr_set_init cap)"
    and "table_ok (keys (ptr_set_init cap))" and "16 \<le> capacity (ptr_set_init cap)"
    and "capacity (ptr_set_init cap) < 2 * max 16 cap"
proof -
  let ?m = "max 16 cap"
  have "0 < int ?m" "int ?m \<le> 2 ^ 64" using assms by auto
  then obtain k where k: "next_pow2 (int ?m) = 2 ^ k" "int ?m \<le> 2 ^ k" and kk: "2 ^ k < 2 * int ?m"
    using next_pow2_exp by blast
  then have n: "nat (next_pow2 (int ?m)) = 2 ^ k" by (simp add: nat_power_eq)
  have le: "?m \<le> 2 ^ k" using k(2) by (metis of_nat_le_iff of_nat_numeral of_nat_power)
  have eq: "ptr_set_init cap = \<lparr>keys = replicate (2 ^ k) 0, count = 0\<rparr>"
    using assms n by (simp add: ptr_set_init_def PTR_SET_INLINE_CAP_def)
  show "table_ok (keys (ptr_set_init cap))" "16 \<le> capacity (ptr_set_init cap)"
    "cap \<le> capacity (ptr_set_init cap)" "count (ptr_set_init cap) = 0"
    "ptr_set_abs (ptr_set_init cap) = {}"
    using le by (simp_all add: eq capacity_def ptr_set_abs_def ptr_set_elems_def)
  have "2 ^ k < 2 * int ?m" using kk by simp
  then have "2 ^ k < 2 * ?m" by (metis of_nat_less_iff of_nat_mult of_nat_numeral of_nat_power)
  then show "capacity (ptr_set_init cap) < 2 * max 16 cap" by (simp add: eq capacity_def)
qed

lemma ptr_set_init_ok:
  assumes "0 < cap" and "cap \<le> 8 + 2 ^ 32"
  shows "ptr_set_ok (ptr_set_init cap)"
proof -
  have "cap \<le> 2 ^ 60" using assms(2) by simp
  note i = ptr_set_init_props [OF assms(1) this]
  have "ptr_set_elems (ptr_set_init cap) = []"
    using i(1) by (simp add: ptr_set_abs_def)
  with i assms(2) show ?thesis by (auto simp: ptr_set_ok_def)
qed

lemma ptr_set_find_None:
  assumes "ptr_set_ok s" and "live p"
  shows "ptr_set_find s p = None \<longleftrightarrow> p \<notin> ptr_set_abs s"
proof (cases "count s = 0")
  case True
  with assms(1) show ?thesis by (simp add: ptr_set_find_def ptr_set_ok_def ptr_set_abs_def)
next
  case False
  with assms(1) have "table_ok (keys s)"
    by (auto simp: ptr_set_ok_def ptr_set_elems_def live_keys_def)
  with False assms(2) show ?thesis
    by (simp add: ptr_set_find_def capacity_def ptr_set_abs_def ptr_set_elems_def find_index_None_iff)
qed

lemma ptr_set_exists_iff: "ptr_set_ok s \<Longrightarrow> live p \<Longrightarrow> ptr_set_exists s p \<longleftrightarrow> p \<in> ptr_set_abs s"
  using ptr_set_find_None [of s p] by (auto simp: ptr_set_exists_def)

lemma ptr_set_find_SomeD:
  "ptr_set_ok s \<Longrightarrow> ptr_set_find s p = Some i \<Longrightarrow> i < length (keys s) \<and> keys s ! i = p \<and> table_ok (keys s)"
  by (cases "keys s = []")
     (auto simp: ptr_set_find_def ptr_set_ok_def capacity_def split: if_splits dest: find_index_SomeD)

lemma ptr_set_insert_slot_ok:
  assumes "ptr_set_ok s" and "keys s \<noteq> []" and "\<not> ptr_set_full s"
    and "live p" and "p \<notin> ptr_set_abs s"
  obtains s' where "ptr_set_insert_slot s p = Some s'" and "ptr_set_ok s'"
    and "ptr_set_abs s' = insert p (ptr_set_abs s)" and "count s' = Suc (count s)"
    and "capacity s' = capacity s"
proof -
  have t: "table_ok (keys s)" and c: "count s = length (live_keys (keys s))"
    and cap: "16 \<le> length (keys s)" and bound: "length (keys s) \<le> 16 + 3 * 2 ^ 32"
    using assms(1,2) by (auto simp: ptr_set_ok_def ptr_set_elems_def capacity_def)
  have less: "count s < length (keys s)"
    using assms(3) by (auto simp: ptr_set_full_def capacity_def)
  then have less': "length (live_keys (keys s)) < length (keys s)" using c by simp
  obtain i where i: "find_free (length (keys s)) (keys s) (home (length (keys s)) p) = Some i"
    using find_free_exists [OF t less', of p] by metis
  have notin: "p \<notin> set (live_keys (keys s))"
    using assms(5) by (simp add: ptr_set_abs_def ptr_set_elems_def)
  note ins = table_ok_insert [OF t assms(4) notin i less']
  define s' where "s' = s\<lparr>keys := (keys s)[i := p], count := count s + 1\<rparr>"
  have "set (live_keys ((keys s)[i := p])) = insert p (set (live_keys (keys s)))"
    using ins(3) by (metis set_mset_add_mset_insert set_mset_mset)
  then have abs: "ptr_set_abs s' = insert p (ptr_set_abs s)"
    by (simp add: s'_def ptr_set_abs_def ptr_set_elems_def)
  have "length (live_keys ((keys s)[i := p])) = Suc (length (live_keys (keys s)))"
    using ins(3) by (metis size_mset size_add_mset)
  then have "ptr_set_ok s'"
    using ins(1) c cap assms(3) bound
    by (auto simp: s'_def ptr_set_ok_def capacity_def ptr_set_elems_def ptr_set_full_def)
  moreover have "ptr_set_insert_slot s p = Some s'"
    using i less by (simp add: ptr_set_insert_slot_def capacity_def s'_def)
  ultimately show ?thesis
    using abs by (intro that [of s']) (auto simp: s'_def capacity_def)
qed


lemma ptr_set_update_room:
  assumes "ptr_set_ok s" and "keys s \<noteq> []" and "\<not> ptr_set_full s" and "live p"
  obtains s' where "ptr_set_update_fuel (Suc f) s p = Some (s', p \<in> ptr_set_abs s)" and "ptr_set_ok s'"
    and "ptr_set_abs s' = insert p (ptr_set_abs s)" and "capacity s' = capacity s"
    and "p \<notin> ptr_set_abs s \<Longrightarrow> count s' = Suc (count s)" and "keys s' \<noteq> []"
proof (cases "p \<in> ptr_set_abs s")
  case True
  with assms show ?thesis
    by (intro that [of s]) (auto simp: ptr_set_exists_iff live_nonzero)
next
  case False
  obtain s' where s': "ptr_set_insert_slot s p = Some s'" "ptr_set_ok s'"
    "ptr_set_abs s' = insert p (ptr_set_abs s)" "count s' = Suc (count s)" "capacity s' = capacity s"
    using ptr_set_insert_slot_ok [OF assms False] .
  have "keys s' \<noteq> []" using s'(5) assms(2) by (auto simp: capacity_def)
  with s' False assms show ?thesis
    by (intro that [of s']) (auto simp: ptr_set_exists_iff live_nonzero)
qed

text \<open>Growing re-inserts the keys without a second growth.\<close>

lemma ptr_set_reinsert_ok:
  assumes "ptr_set_ok s" and "keys s \<noteq> []" and "distinct ps" and "\<forall>p\<in>set ps. live p"
    and "set ps \<inter> ptr_set_abs s = {}" and "count s + length ps \<le> capacity s - capacity s div 4"
  shows "\<exists>s'. ptr_set_reinsert_fuel (Suc f) ps s = Some s' \<and> ptr_set_ok s' \<and> keys s' \<noteq> [] \<and>
    ptr_set_abs s' = set ps \<union> ptr_set_abs s \<and> count s' = count s + length ps \<and> capacity s' = capacity s"
  using assms
proof (induction ps arbitrary: s)
  case (Cons p ps)
  have "\<not> ptr_set_full s" using Cons.prems(6) by (simp add: ptr_set_full_def)
  moreover have p: "live p" "p \<notin> ptr_set_abs s" using Cons.prems(4,5) by auto
  ultimately obtain s' where s': "ptr_set_update_fuel (Suc f) s p = Some (s', p \<in> ptr_set_abs s)"
    "ptr_set_ok s'" "ptr_set_abs s' = insert p (ptr_set_abs s)" "capacity s' = capacity s"
    "count s' = Suc (count s)" "keys s' \<noteq> []"
    using ptr_set_update_room [OF Cons.prems(1,2)] by metis
  have "\<exists>s''. ptr_set_reinsert_fuel (Suc f) ps s' = Some s'' \<and> ptr_set_ok s'' \<and> keys s'' \<noteq> [] \<and>
    ptr_set_abs s'' = set ps \<union> ptr_set_abs s' \<and> count s'' = count s' + length ps \<and> capacity s'' = capacity s'"
    using Cons.prems s' by (intro Cons.IH) auto
  with s' p show ?case by auto
qed auto

lemma ptr_set_grow_ok:
  assumes "ptr_set_ok s" and "keys s \<noteq> []" and "ptr_set_full s" and "count s < 2 ^ 32"
  obtains s' where "ptr_set_grow_fuel (Suc (Suc f)) s = Some s'" and "ptr_set_ok s'"
    and "keys s' \<noteq> []" and "ptr_set_abs s' = ptr_set_abs s" and "\<not> ptr_set_full s'"
proof -
  have cap: "16 \<le> capacity s" "count s \<le> capacity s - capacity s div 4" "count s = length (ptr_set_elems s)"
    using assms(1,2) by (auto simp: ptr_set_ok_def)
  have full: "capacity s - capacity s div 4 \<le> count s" using assms(3) by (simp add: ptr_set_full_def)
  define m where "m = max (capacity s * 2) 16"
  have m: "m = capacity s * 2" using cap(1) by (simp add: m_def)
  have pos: "0 < m" "m \<le> 2 ^ 60" using cap full assms(4) m by auto
  note i = ptr_set_init_props [OF pos]
  let ?n = "ptr_set_init m"
  have ok: "ptr_set_ok ?n"
  proof -
    have "capacity ?n = m"
    proof -
      obtain k where k: "capacity s = 2 ^ k"
        using assms(1,2) by (auto simp: ptr_set_ok_def table_ok_def capacity_def)
      have "k < 63"
      proof (rule ccontr)
        assume "\<not> k < 63"
        then have "(2::nat) ^ 63 \<le> 2 ^ k" by (intro power_increasing) auto
        with cap full assms(4) k show False by simp
      qed
      then have "next_pow2 (2 ^ Suc k) = 2 ^ Suc k" by (intro next_pow2_id) simp
      moreover have "int (max PTR_SET_INLINE_CAP m) = 2 ^ Suc k"
        using cap(1) m k by (simp add: PTR_SET_INLINE_CAP_def)
      ultimately have "nat (next_pow2 (int (max PTR_SET_INLINE_CAP m))) = 2 ^ Suc k"
        using nat_power_eq [of 2 "Suc k"] by simp
      also have "\<dots> = m" using m k by simp
      finally show ?thesis using pos(1) by (simp add: ptr_set_init_def capacity_def)
    qed
    moreover have "m \<le> 16 + 3 * 2 ^ 32" using full assms(4) m by linarith
    moreover have "ptr_set_elems ?n = []" using i(1) by (simp add: ptr_set_abs_def)
    ultimately show ?thesis using i by (simp add: ptr_set_ok_def)
  qed
  have room: "count s < capacity ?n - capacity ?n div 4"
    using cap(1,2) i(3) m by linarith
  have ne: "keys ?n \<noteq> []" using i(5) by (auto simp: capacity_def)
  obtain s' where s': "ptr_set_reinsert_fuel (Suc f) (ptr_set_elems s) ?n = Some s'" "ptr_set_ok s'"
    "keys s' \<noteq> []" "ptr_set_abs s' = set (ptr_set_elems s) \<union> ptr_set_abs ?n"
    "count s' = count ?n + length (ptr_set_elems s)" "capacity s' = capacity ?n"
    using ptr_set_reinsert_ok [OF ok ne ptr_set_elems_distinct [OF assms(1)], of f] i(1,2) room cap(3)
    by (auto simp: ptr_set_elems_def live_keys_def)
  have "ptr_set_grow_fuel (Suc (Suc f)) s = Some s'"
    using s' i(2) cap by (simp add: m_def)
  with s' i(1,2) room cap(3) show ?thesis
    by (intro that [of s']) (auto simp: ptr_set_abs_def ptr_set_full_def)
qed

text \<open>
  \<open>ptr_set_update\<close> never fails when there is room for one more key: it returns whether the key
  was present and a table for the set with the key added.
\<close>

lemma ptr_set_update_total:
  assumes "ptr_set_ok s" and "live p" and "card (insert p (ptr_set_abs s)) \<le> 2 ^ 32"
  obtains s' where "ptr_set_update s p = Some (s', p \<in> ptr_set_abs s)" and "ptr_set_ok s'"
    and "ptr_set_abs s' = insert p (ptr_set_abs s)"
proof (cases "p \<in> ptr_set_abs s")
  case True
  have "ptr_set_update_fuel (Suc 2) s p = Some (s, True)"
    unfolding ptr_set_update_fuel.simps using assms(1,2) True
    by (simp add: ptr_set_exists_iff live_nonzero)
  then have "ptr_set_update s p = Some (s, True)"
    by (simp add: ptr_set_update_def numeral_3_eq_3 numeral_2_eq_2)
  with True assms(1) show ?thesis by (intro that [of s]) auto
next
  case False
  have "card (insert p (ptr_set_abs s)) = Suc (card (ptr_set_abs s))" using False by simp
  with assms(1,3) have less: "count s < 2 ^ 32" by (simp add: ptr_set_count)
  have "\<exists>s1. (if keys s = [] then Some (ptr_set_init 16)
              else if ptr_set_full s then ptr_set_grow_fuel 2 s else Some s) = Some s1 \<and>
      ptr_set_ok s1 \<and> keys s1 \<noteq> [] \<and> ptr_set_abs s1 = ptr_set_abs s \<and> \<not> ptr_set_full s1"
  proof (cases "keys s = []")
    case True
    have "ptr_set_ok (ptr_set_init 16)" by (rule ptr_set_init_ok) auto
    moreover note i = ptr_set_init_props [of 16]
    moreover have "keys (ptr_set_init 16) \<noteq> []" using i(5) by (auto simp: capacity_def)
    moreover have "\<not> ptr_set_full (ptr_set_init 16)"
      using i(2,5) unfolding ptr_set_full_def by simp
    moreover have "ptr_set_abs s = {}"
      using True by (simp add: ptr_set_abs_def ptr_set_elems_def live_keys_def)
    ultimately show ?thesis using True by simp
  next
    case ne: False
    show ?thesis
    proof (cases "ptr_set_full s")
      case True
      obtain s1 where "ptr_set_grow_fuel (Suc (Suc 0)) s = Some s1" "ptr_set_ok s1"
        "keys s1 \<noteq> []" "ptr_set_abs s1 = ptr_set_abs s" "\<not> ptr_set_full s1"
        using ptr_set_grow_ok [OF assms(1) ne True less] .
      then show ?thesis using ne True by (simp add: numeral_2_eq_2 del: ptr_set_grow_fuel.simps)
    next
      case False
      with ne assms(1) show ?thesis by (simp del: ptr_set_grow_fuel.simps)
    qed
  qed
  then obtain s1 where s1: "(if keys s = [] then Some (ptr_set_init 16)
              else if ptr_set_full s then ptr_set_grow_fuel 2 s else Some s) = Some s1"
    and s1': "ptr_set_ok s1" "keys s1 \<noteq> []" "ptr_set_abs s1 = ptr_set_abs s" "\<not> ptr_set_full s1"
    by blast
  have new: "p \<notin> ptr_set_abs s1" using False s1'(3) by simp
  obtain s' where s': "ptr_set_insert_slot s1 p = Some s'" "ptr_set_ok s'"
    "ptr_set_abs s' = insert p (ptr_set_abs s1)"
    using ptr_set_insert_slot_ok [OF s1'(1,2,4) assms(2) new] .
  have "\<not> ptr_set_exists s p" "p \<noteq> 0"
    using False assms(1,2) by (simp_all add: ptr_set_exists_iff live_nonzero)
  then have "ptr_set_update_fuel (Suc 2) s p = Some (s', False)"
    unfolding ptr_set_update_fuel.simps s1 using s'(1) by simp
  then have "ptr_set_update s p = Some (s', False)"
    by (simp add: ptr_set_update_def numeral_3_eq_3 numeral_2_eq_2)
  with s' s1'(3) False show ?thesis by (intro that [of s']) simp_all
qed

lemma ptr_set_add_total:
  assumes "ptr_set_ok s" and "live p" and "card (insert p (ptr_set_abs s)) \<le> 2 ^ 32"
  shows "\<exists>s'. ptr_set_add s p = Some s' \<and> ptr_set_ok s' \<and> ptr_set_abs s' = insert p (ptr_set_abs s)"
proof -
  obtain s' where "ptr_set_update s p = Some (s', p \<in> ptr_set_abs s)" "ptr_set_ok s'"
    "ptr_set_abs s' = insert p (ptr_set_abs s)"
    using ptr_set_update_total [OF assms] .
  then show ?thesis by (simp add: ptr_set_add_def)
qed

lemma ptr_set_remove_total:
  assumes "ptr_set_ok s" and "live p"
  shows "\<exists>s'. ptr_set_remove s p = Some s' \<and> ptr_set_ok s' \<and> ptr_set_abs s' = ptr_set_abs s - {p}"
proof (cases "ptr_set_find s p")
  case None
  with assms have "p \<notin> ptr_set_abs s" by (simp add: ptr_set_find_None)
  moreover have "ptr_set_remove s p = Some s"
    using None assms(2) by (simp add: ptr_set_remove_def live_nonzero)
  ultimately show ?thesis using assms(1) by simp
next
  case (Some i)
  with assms have i: "i < length (keys s)" "keys s ! i = p" "table_ok (keys s)"
    using ptr_set_find_SomeD by blast+
  with assms(2) have l: "live (keys s ! i)" by simp
  note r = table_ok_remove [OF i(3,1) l] live_keys_remove [OF i(1) l]
  have "length (live_keys (keys s)) = Suc (length (live_keys ((keys s)[i := TOMBSTONE])))"
    using r(3) by (metis size_mset size_add_mset)
  with assms i r Some show ?thesis
    by (auto simp: ptr_set_remove_def live_nonzero ptr_set_ok_def ptr_set_elems_def capacity_def
        ptr_set_abs_def)
qed


lemma ptr_set_clear_ok: "ptr_set_ok s \<Longrightarrow> ptr_set_ok (ptr_set_clear s) \<and> ptr_set_abs (ptr_set_clear s) = {}"
  by (auto simp: ptr_set_clear_def ptr_set_ok_def ptr_set_elems_def ptr_set_abs_def capacity_def table_ok_def)

subsection \<open>The interface\<close>

text \<open>
  What the clients of the pointer set use: a finite set of live pointers with insertion, removal,
  membership and an enumeration, none of which fails while the set stays below \<open>2 ^ 32\<close> elements.
\<close>

locale pointer_set =
  fixes empty :: 's
    and add :: "'s \<Rightarrow> ptr \<Rightarrow> 's option"
    and remove :: "'s \<Rightarrow> ptr \<Rightarrow> 's option"
    and member :: "'s \<Rightarrow> ptr \<Rightarrow> bool"
    and elems :: "'s \<Rightarrow> ptr list"
    and size_of :: "'s \<Rightarrow> nat"
    and abs :: "'s \<Rightarrow> ptr set"
    and ok :: "'s \<Rightarrow> bool"
  assumes empty: "ok empty" "abs empty = {}"
    and add: "ok s \<Longrightarrow> live p \<Longrightarrow> card (insert p (abs s)) \<le> 2 ^ 32 \<Longrightarrow>
      \<exists>s'. add s p = Some s' \<and> ok s' \<and> abs s' = insert p (abs s)"
    and remove: "ok s \<Longrightarrow> live p \<Longrightarrow> \<exists>s'. remove s p = Some s' \<and> ok s' \<and> abs s' = abs s - {p}"
    and member: "ok s \<Longrightarrow> live p \<Longrightarrow> member s p \<longleftrightarrow> p \<in> abs s"
    and elems: "ok s \<Longrightarrow> distinct (elems s) \<and> set (elems s) = abs s"
    and size_of: "ok s \<Longrightarrow> size_of s = card (abs s)"
    and abs_live: "p \<in> abs s \<Longrightarrow> live p"
begin

text \<open>Adding all pointers of a list, stopping at the first failure.\<close>

fun add_all :: "'s \<Rightarrow> ptr list \<Rightarrow> 's option" where
  "add_all s [] = Some s"
| "add_all s (p # ps) = (case add s p of None \<Rightarrow> None | Some s' \<Rightarrow> add_all s' ps)"

lemma finite_abs: "ok s \<Longrightarrow> finite (abs s)"
  using elems by (metis List.finite_set)

lemma add_all_ok:
  assumes "ok s" and "\<forall>p\<in>set ps. live p" and "card (abs s) + length ps \<le> 2 ^ 32"
  shows "\<exists>s'. add_all s ps = Some s' \<and> ok s' \<and> abs s' = set ps \<union> abs s"
  using assms
proof (induction ps arbitrary: s)
  case (Cons p ps)
  have le: "card (insert p (abs s)) \<le> Suc (card (abs s))" by (rule card_insert_le_m1) auto
  with Cons.prems(3) have "card (insert p (abs s)) \<le> 2 ^ 32" by simp
  with Cons.prems obtain s1 where s1: "add s p = Some s1" "ok s1" "abs s1 = insert p (abs s)"
    using add [of s p] by auto
  with le Cons.prems(3) have "card (abs s1) + length ps \<le> 2 ^ 32" by simp
  with Cons.IH [of s1] Cons.prems(2) s1 show ?case by auto
qed simp

lemma size_remove_add:
  assumes "ok s" and "live p" and "p \<notin> abs s" and "Suc (size_of s) \<le> 2 ^ 32"
  obtains s1 s2 where "add s p = Some s1" and "remove s1 p = Some s2" and "ok s2" and "abs s2 = abs s"
proof -
  have "card (insert p (abs s)) \<le> 2 ^ 32"
    using assms finite_abs [OF assms(1)] by (simp add: size_of)
  with assms obtain s1 where s1: "add s p = Some s1" "ok s1" "abs s1 = insert p (abs s)"
    using add by blast
  with assms(2) obtain s2 where "remove s1 p = Some s2" "ok s2" "abs s2 = abs s1 - {p}"
    using remove by blast
  with s1 assms(3) show ?thesis by (intro that [of s1 s2]) auto
qed

end

interpretation ps: pointer_set ptr_set_empty ptr_set_add ptr_set_remove ptr_set_exists ptr_set_elems
    count ptr_set_abs ptr_set_ok
  by unfold_locales
     (auto simp: ptr_set_add_total ptr_set_remove_total ptr_set_exists_iff ptr_set_elems_distinct
       ptr_set_count ptr_set_abs_live simp flip: ptr_set_abs_def)

subsection \<open>Properties\<close>



text \<open>
  Removal and lookup agree. After a removal the removed pointer is not found and every
  other pointer is found exactly if it was before, although the slot only becomes a tombstone and the
  probe sequences of other keys run over it.
\<close>

theorem ptr_set_remove_exists:
  assumes "ptr_set_ok s" and "live p"
  shows "\<exists>s'. ptr_set_remove s p = Some s' \<and> ptr_set_ok s' \<and>
    (\<forall>q. live q \<longrightarrow> ptr_set_exists s' q = (q \<noteq> p \<and> ptr_set_exists s q))"
proof -
  obtain s' where s': "ptr_set_remove s p = Some s'" "ptr_set_ok s'" "ptr_set_abs s' = ptr_set_abs s - {p}"
    using ps.remove [OF assms] by blast
  then have "\<forall>q. live q \<longrightarrow> ptr_set_exists s' q = (q \<noteq> p \<and> ptr_set_exists s q)"
    using ps.member assms(1) by auto
  with s' show ?thesis by blast
qed

lemma ptr_set_add_8:
  obtains s where "ptr_set_add ptr_set_empty 8 = Some s" and "ptr_set_ok s" and "ptr_set_abs s = {8}"
proof -
  have "card (insert 8 (ptr_set_abs ptr_set_empty)) \<le> 2 ^ 32" "live 8"
    by (simp_all add: ps.empty live_def TOMBSTONE_def)
  with ps.add [OF ps.empty(1)] that show ?thesis by (metis ps.empty(2))
qed

theorem ptr_set_remove_exists_witness:
  "\<exists>s s'. ptr_set_add ptr_set_empty 8 = Some s \<and> ptr_set_remove s 8 = Some s' \<and> \<not> ptr_set_exists s' 8"
proof -
  obtain s where s: "ptr_set_add ptr_set_empty 8 = Some s" "ptr_set_ok s" by (rule ptr_set_add_8)
  have l: "live 8" by (simp add: live_def TOMBSTONE_def)
  from ptr_set_remove_exists [OF s(2) l] s(1) l show ?thesis by blast
qed

end
