(* ===== verification/Ptr_Map.thy ===== *)
theory Ptr_Map
  imports Hash_Probe
begin

text \<open>
  The pointer map of \<^verbatim>\<open>src/ptr_map.cpp\<close>: the same probing scheme as the set, with a value beside
  each key. A table is the list of its entries. A failed \<^verbatim>\<open>GB_ASSERT\<close> or \<^verbatim>\<open>GB_PANIC\<close> is the outer
  \<open>None\<close>; a lookup that finds nothing (the null result of \<^verbatim>\<open>map_get\<close>) is \<open>Some None\<close>.
\<close>

record 'v ptr_map =
  entries :: "(ptr \<times> 'v) list"
  mcount :: nat

definition mcapacity :: "'v ptr_map \<Rightarrow> nat" where
  "mcapacity h = length (entries h)"

definition ptr_map_empty :: "'v ptr_map" where
  "ptr_map_empty = \<lparr>entries = [], mcount = 0\<rparr>"

subsection \<open>Operations\<close>

text \<open>
  \<^verbatim>\<open>0.75f * capacity <= count\<close>; the product is exact in single precision for every power of two.
\<close>

definition map_full :: "'v ptr_map \<Rightarrow> bool" where
  "map_full h = (3 * mcapacity h \<le> 4 * mcount h)"

text \<open>
  The search loop of \<open>map_get\<close> and \<open>map_try_get\<close>: \<^verbatim>\<open>do ... while (original_index != index)\<close>
  visits each of the \<open>capacity\<close> slots once.
\<close>

definition map_find :: "'v ptr_map \<Rightarrow> ptr \<Rightarrow> nat option" where
  "map_find h key = find_index (mcapacity h) (map fst (entries h)) key (home (mcapacity h) key)"

definition map_get :: "'v ptr_map \<Rightarrow> ptr \<Rightarrow> 'v option option" where
  "map_get h key =
     (if mcount h = 0 then Some None
      else if key = 0 then None
      else Some (map_option (\<lambda>i. snd (entries h ! i)) (map_find h key)))"

definition map_must_get :: "'v ptr_map \<Rightarrow> ptr \<Rightarrow> 'v option" where
  "map_must_get h key = (case map_get h key of Some (Some v) \<Rightarrow> Some v | _ \<Rightarrow> None)"

definition map_put_slot :: "'v ptr_map \<Rightarrow> ptr \<Rightarrow> 'v \<Rightarrow> 'v ptr_map option" where
  "map_put_slot h key value =
     map_option (\<lambda>i. h\<lparr>entries := (entries h)[i := (key, value)], mcount := mcount h + 1\<rparr>)
       (find_free (mcapacity h) (map fst (entries h)) (home (mcapacity h) key))"

text \<open>
  The entries in slot order, as \<^verbatim>\<open>for (auto const &entry : map)\<close> visits them.
\<close>

definition map_entries :: "'v ptr_map \<Rightarrow> (ptr \<times> 'v) list" where
  "map_entries h = (if mcount h = 0 then [] else filter (\<lambda>e. live (fst e)) (entries h))"

text \<open>
  Fresh memory is zeroed: null keys, and \<open>zv\<close>, the value that is all zero bytes.

  \<open>map__insert\<close>, \<open>map_grow\<close> and \<open>map_reserve\<close> call each other; the first argument bounds the depth
  of the calls, and three levels are enough (\<open>map_set_total\<close> below).
\<close>

fun map_insert_fuel :: "nat \<Rightarrow> 'v \<Rightarrow> 'v ptr_map \<Rightarrow> ptr \<Rightarrow> 'v \<Rightarrow> 'v ptr_map option"
  and map_reserve_fuel :: "nat \<Rightarrow> 'v \<Rightarrow> 'v ptr_map \<Rightarrow> nat \<Rightarrow> 'v ptr_map option"
  and map_reinsert_fuel :: "nat \<Rightarrow> 'v \<Rightarrow> (ptr \<times> 'v) list \<Rightarrow> 'v ptr_map \<Rightarrow> 'v ptr_map option" where
  "map_insert_fuel 0 zv h key value = None"
| "map_insert_fuel (Suc f) zv h key value =
     (case (if mcount h + 1 \<ge> mcapacity h then map_reserve_fuel f zv h (max (mcapacity h * 2) 16)
            else Some h) of
        None \<Rightarrow> None
      | Some h \<Rightarrow> map_put_slot h key value)"
| "map_reserve_fuel 0 zv h cap = None"
| "map_reserve_fuel (Suc f) zv h cap =
     (if cap < mcapacity h then Some h
      else
        let cap = nat (next_pow2 (int cap));
            new_h = \<lparr>entries = replicate cap (0, zv), mcount = 0\<rparr>
        in if mcount h \<noteq> 0 then map_reinsert_fuel f zv (map_entries h) new_h else Some new_h)"
| "map_reinsert_fuel f zv [] new_h = Some new_h"
| "map_reinsert_fuel 0 zv (e # es) new_h = None"
| "map_reinsert_fuel (Suc f) zv (e # es) new_h =
     (case map_insert_fuel (Suc f) zv new_h (fst e) (snd e) of
        None \<Rightarrow> None
      | Some new_h \<Rightarrow> map_reinsert_fuel (Suc f) zv es new_h)"

definition map_reserve :: "'v \<Rightarrow> 'v ptr_map \<Rightarrow> nat \<Rightarrow> 'v ptr_map option" where
  "map_reserve zv h cap = map_reserve_fuel 2 zv h cap"

definition map_init :: "'v \<Rightarrow> nat \<Rightarrow> 'v ptr_map option" where
  "map_init zv cap = map_reserve zv ptr_map_empty (nat (next_pow2 (int cap)))"

definition map_insert :: "'v \<Rightarrow> 'v ptr_map \<Rightarrow> ptr \<Rightarrow> 'v \<Rightarrow> 'v ptr_map option" where
  "map_insert zv h key value = map_insert_fuel 3 zv h key value"

definition map_grow :: "'v \<Rightarrow> 'v ptr_map \<Rightarrow> 'v ptr_map option" where
  "map_grow zv h = map_reserve zv h (max (mcapacity h * 2) 16)"

definition try_map_grow :: "'v \<Rightarrow> 'v ptr_map \<Rightarrow> 'v ptr_map option" where
  "try_map_grow zv h = (if mcapacity h = 0 \<or> map_full h then map_grow zv h else Some h)"

definition map_set :: "'v \<Rightarrow> 'v ptr_map \<Rightarrow> ptr \<Rightarrow> 'v \<Rightarrow> 'v ptr_map option" where
  "map_set zv h key value =
     (if key = 0 then None
      else
        case try_map_grow zv h of
          None \<Rightarrow> None
        | Some h \<Rightarrow>
            (case map_get h key of
               None \<Rightarrow> None
             | Some None \<Rightarrow> map_insert zv h key value
             | Some (Some _) \<Rightarrow>
                 (case map_find h key of
                    None \<Rightarrow> None
                  | Some i \<Rightarrow> Some (h\<lparr>entries := (entries h)[i := (key, value)]\<rparr>))))"

text \<open>Removal leaves the value in place and replaces the key by a tombstone.\<close>

definition map_remove :: "'v ptr_map \<Rightarrow> ptr \<Rightarrow> 'v ptr_map option" where
  "map_remove h key =
     (if mcount h = 0 then Some h
      else if key = 0 then None
      else
        case map_find h key of
          None \<Rightarrow> Some h
        | Some i \<Rightarrow>
            Some (h\<lparr>entries := (entries h)[i := (TOMBSTONE, snd (entries h ! i))], mcount := mcount h - 1\<rparr>))"

definition map_clear :: "'v \<Rightarrow> 'v ptr_map \<Rightarrow> 'v ptr_map" where
  "map_clear zv h = h\<lparr>mcount := 0, entries := replicate (mcapacity h) (0, zv)\<rparr>"

subsection \<open>The map a table stands for, and its invariant\<close>

lemma filter_nth_distinct:
  assumes "distinct (filter P xs)" and "i < length xs" and "j < length xs" and "i \<noteq> j" and "P (xs ! i)"
  shows "xs ! i \<noteq> xs ! j"
proof
  assume eq: "xs ! i = xs ! j"
  have "2 \<le> count (mset xs) (xs ! i)"
  proof -
    have "{i, j} \<subseteq> {k. k < length xs \<and> xs ! k = xs ! i}" using assms(2,3) eq by auto
    moreover have "finite {k. k < length xs \<and> xs ! k = xs ! i}" by simp
    ultimately have "card {i, j} \<le> card {k. k < length xs \<and> xs ! k = xs ! i}" by (rule card_mono [rotated])
    with assms(4) show ?thesis by (simp add: count_mset length_filter_conv_card count_list_eq_length_filter eq_commute)
  qed
  moreover have "count (mset (filter P xs)) (xs ! i) = count (mset xs) (xs ! i)" using assms(5) by simp
  moreover have "count (mset (filter P xs)) (xs ! i) \<le> 1"
    using assms(1) by (simp add: distinct_count_atmost_1)
  ultimately show False by linarith
qed

lemma list_update_key_set:
  assumes "i < length es" and "fst (es ! i) = k" and "\<And>j. j < length es \<Longrightarrow> fst (es ! j) = k \<Longrightarrow> j = i"
  shows "set (es[i := (k, v)]) = insert (k, v) {e \<in> set es. fst e \<noteq> k}"
proof (intro set_eqI iffI)
  fix e assume "e \<in> set (es[i := (k, v)])"
  then obtain j where j: "j < length es" "es[i := (k, v)] ! j = e" by (auto simp: in_set_conv_nth)
  show "e \<in> insert (k, v) {e \<in> set es. fst e \<noteq> k}"
  proof (cases "j = i")
    case False
    with j have "e = es ! j" by simp
    moreover from this False j(1) assms(3) have "fst e \<noteq> k" by blast
    ultimately show ?thesis using j(1) by simp
  qed (use j in simp)
next
  fix e assume "e \<in> insert (k, v) {e \<in> set es. fst e \<noteq> k}"
  then consider "e = (k, v)" | j where "j < length es" "es ! j = e" "fst e \<noteq> k"
    by (auto simp: in_set_conv_nth)
  then show "e \<in> set (es[i := (k, v)])"
  proof cases
    case 1
    with assms(1) show ?thesis by (simp add: set_update_memI)
  next
    case 2
    with assms(2) have "j \<noteq> i" by auto
    with 2 show ?thesis by (metis length_list_update nth_list_update_neq nth_mem)
  qed
qed

definition map_keys :: "'v ptr_map \<Rightarrow> ptr list" where
  "map_keys h = map fst (entries h)"

definition map_abs :: "'v ptr_map \<Rightarrow> ptr \<rightharpoonup> 'v" where
  "map_abs h = map_of (filter (\<lambda>e. live (fst e)) (entries h))"

definition map_ok :: "'v ptr_map \<Rightarrow> bool" where
  "map_ok h \<longleftrightarrow>
     (entries h = [] \<or> table_ok (map_keys h)) \<and>
     mcount h = length (live_keys (map_keys h)) \<and>
     (entries h \<noteq> [] \<longrightarrow> mcount h < mcapacity h) \<and>
     mcapacity h \<le> 16 + 3 * 2 ^ 32"

lemma live_entries_keys: "map fst (filter (\<lambda>e. live (fst e)) es) = live_keys (map fst es)"
  by (simp add: live_keys_def filter_map comp_def)

lemma map_keys_update: "map_keys (h\<lparr>entries := (entries h)[i := (k, v)], mcount := c\<rparr>) = (map_keys h)[i := k]"
  by (simp add: map_keys_def map_update)

lemma map_keys_length: "length (map_keys h) = mcapacity h"
  by (simp add: map_keys_def mcapacity_def)

lemma map_abs_iff:
  assumes "map_ok h"
  shows "map_abs h k = Some v \<longleftrightarrow> (k, v) \<in> set (entries h) \<and> live k"
proof -
  have "distinct (map fst (filter (\<lambda>e. live (fst e)) (entries h)))"
    using assms by (auto simp: live_entries_keys map_ok_def table_ok_def map_keys_def live_keys_def)
  then show ?thesis by (auto simp: map_abs_def)
qed

lemma map_abs_eqI:
  assumes "map_ok h" and "\<And>k v. m k = Some v \<longleftrightarrow> (k, v) \<in> set (entries h) \<and> live k"
  shows "map_abs h = m"
proof
  fix k
  have "map_abs h k = Some v \<longleftrightarrow> m k = Some v" for v
    using assms(2) [of k v] map_abs_iff [OF assms(1), of k v] by blast
  then show "map_abs h k = m k" by (metis option.exhaust)
qed

lemma map_dom: "dom (map_abs h) = set (live_keys (map_keys h))"
  by (simp add: map_abs_def dom_map_of_conv_image_fst map_keys_def flip: live_entries_keys)

lemma map_keys_distinct: "map_ok h \<Longrightarrow> distinct (live_keys (map_keys h))"
  by (cases "entries h = []") (simp_all add: map_ok_def table_ok_def map_keys_def live_keys_def)

lemma map_mcount: "map_ok h \<Longrightarrow> mcount h = card (dom (map_abs h))"
  by (simp add: map_dom distinct_card map_keys_distinct) (simp add: map_ok_def)

lemma map_entries_set: "map_ok h \<Longrightarrow> set (map_entries h) = {(k, v). map_abs h k = Some v}"
proof (cases "mcount h = 0")
  case True
  moreover assume "map_ok h"
  ultimately have "map_abs h = Map.empty" by (simp add: map_mcount [symmetric] map_dom map_ok_def flip: dom_eq_empty_conv)
  with True show ?thesis by (simp add: map_entries_def)
next
  case False
  moreover assume "map_ok h"
  ultimately show ?thesis by (auto simp: map_entries_def map_abs_iff)
qed

lemma map_entries_distinct: "map_ok h \<Longrightarrow> distinct (map fst (map_entries h))"
  using map_keys_distinct [of h] by (simp add: map_entries_def live_entries_keys map_keys_def)

lemma map_find_None:
  assumes "map_ok h" and "live k"
  shows "map_find h k = None \<longleftrightarrow> k \<notin> dom (map_abs h)"
proof (cases "entries h = []")
  case True
  then show ?thesis by (simp add: map_find_def mcapacity_def map_abs_def)
next
  case False
  with assms(1) have "table_ok (map_keys h)" by (simp add: map_ok_def)
  from find_index_None_iff [OF this assms(2)] show ?thesis
    by (simp add: map_find_def map_dom map_keys_def mcapacity_def)
qed

lemma map_find_SomeD:
  assumes "map_ok h" and "map_find h k = Some i"
  shows "i < mcapacity h" and "fst (entries h ! i) = k" and "table_ok (map_keys h)"
proof -
  show t: "table_ok (map_keys h)"
    using assms by (auto simp: map_ok_def map_find_def mcapacity_def)
  have "find_index (length (map_keys h)) (map_keys h) k (home (length (map_keys h)) k) = Some i"
    using assms(2) by (simp add: map_find_def map_keys_def mcapacity_def)
  from find_index_SomeD [OF t this] show "i < mcapacity h" "fst (entries h ! i) = k"
    by (auto simp: map_keys_def mcapacity_def)
qed

lemma map_get_correct:
  assumes "map_ok h" and "live k"
  shows "map_get h k = Some (map_abs h k)"
proof (cases "map_find h k")
  case None
  with assms have "map_abs h k = None" using map_find_None by blast
  with None assms(2) show ?thesis by (simp add: map_get_def live_nonzero)
next
  case (Some i)
  note i = map_find_SomeD [OF assms(1) Some]
  have "(k, snd (entries h ! i)) \<in> set (entries h)"
    using i by (metis mcapacity_def nth_mem prod.collapse)
  then have "map_abs h k = Some (snd (entries h ! i))" using assms by (simp add: map_abs_iff)
  moreover from this have "mcount h \<noteq> 0" using assms(1) map_dom [of h] by (auto simp: map_ok_def)
  ultimately show ?thesis using Some assms(2) by (simp add: map_get_def live_nonzero)
qed

lemma map_put_slot_ok:
  assumes "map_ok h" and "mcount h + 1 < mcapacity h" and "live k" and "k \<notin> dom (map_abs h)"
  obtains h' where "map_put_slot h k v = Some h'" and "map_ok h'" and "map_abs h' = (map_abs h)(k \<mapsto> v)"
    and "mcapacity h' = mcapacity h" and "mcount h' = Suc (mcount h)"
proof -
  have t: "table_ok (map_keys h)" and c: "mcount h = length (live_keys (map_keys h))"
    using assms(1,2) by (auto simp: map_ok_def mcapacity_def)
  have less: "length (live_keys (map_keys h)) < length (map_keys h)"
    using assms(2) c by (simp add: map_keys_length)
  obtain i where i: "find_free (length (map_keys h)) (map_keys h) (home (length (map_keys h)) k) = Some i"
    and dead: "\<not> live (map_keys h ! i)"
    using find_free_exists [OF t less, of k] by metis
  have notin: "k \<notin> set (live_keys (map_keys h))" using assms(1,4) by (simp add: map_dom)
  note ins = table_ok_insert [OF t assms(3) notin i less]
  define h' where "h' = h\<lparr>entries := (entries h)[i := (k, v)], mcount := mcount h + 1\<rparr>"
  have il: "i < length (entries h)" using ins(2) by (simp add: map_keys_def)
  have keys: "map_keys h' = (map_keys h)[i := k]" by (simp add: h'_def map_keys_update)
  have "length (live_keys ((map_keys h)[i := k])) = Suc (length (live_keys (map_keys h)))"
    using ins(3) by (metis size_mset size_add_mset)
  then have ok: "map_ok h'"
    using ins(1) c assms(1,2) keys by (auto simp: map_ok_def h'_def mcapacity_def)
  have abs: "map_abs h' = (map_abs h)(k \<mapsto> v)"
  proof (rule map_abs_eqI [OF ok])
    fix q w
    have dead': "\<not> live (fst (entries h ! i))" using dead il by (simp add: map_keys_def)
    have "(q, w) \<in> set (entries h') \<and> live q \<longleftrightarrow> live q \<and> ((q, w) = (k, v) \<or> (q, w) \<in> set (entries h))"
      using dead' il assms(3)
      by (auto simp: h'_def in_set_conv_nth nth_list_update split: if_splits) (metis fst_conv)+
    also have "\<dots> \<longleftrightarrow> ((map_abs h)(k \<mapsto> v)) q = Some w"
      using assms(1,3,4) by (auto simp: map_abs_iff)
    finally show "((map_abs h)(k \<mapsto> v)) q = Some w \<longleftrightarrow> (q, w) \<in> set (entries h') \<and> live q" by blast
  qed
  have "map_put_slot h k v = Some h'"
    using i by (simp add: map_put_slot_def h'_def map_keys_def mcapacity_def)
  with ok abs show ?thesis by (intro that [of h']) (auto simp: h'_def mcapacity_def)
qed


lemma replicate_map_ok:
  assumes "(2::nat) ^ k \<le> 16 + 3 * 2 ^ 32"
  shows "map_ok \<lparr>entries = replicate (2 ^ k) (0, zv), mcount = 0\<rparr>"
    and "map_abs \<lparr>entries = replicate (2 ^ k) (0, zv), mcount = 0\<rparr> = Map.empty"
  using assms by (simp_all add: map_ok_def map_keys_def map_replicate mcapacity_def map_abs_def)

lemma map_insert_room:
  assumes "map_ok h" and "mcount h + 1 < mcapacity h" and "live k" and "k \<notin> dom (map_abs h)"
  obtains h' where "map_insert_fuel (Suc f) zv h k v = Some h'" and "map_ok h'"
    and "map_abs h' = (map_abs h)(k \<mapsto> v)" and "mcapacity h' = mcapacity h" and "mcount h' = Suc (mcount h)"
proof -
  obtain h' where "map_put_slot h k v = Some h'" "map_ok h'" "map_abs h' = (map_abs h)(k \<mapsto> v)"
    "mcapacity h' = mcapacity h" "mcount h' = Suc (mcount h)"
    using map_put_slot_ok [OF assms] .
  with assms(2) show ?thesis by (intro that [of h']) simp_all
qed

lemma map_reinsert_ok:
  assumes "map_ok h" and "distinct (map fst es)" and "\<forall>e\<in>set es. live (fst e) \<and> fst e \<notin> dom (map_abs h)"
    and "mcount h + length es < mcapacity h"
  shows "\<exists>h'. map_reinsert_fuel (Suc f) zv es h = Some h' \<and> map_ok h' \<and>
    map_abs h' = map_abs h ++ map_of es \<and> mcapacity h' = mcapacity h \<and> mcount h' = mcount h + length es"
  using assms
proof (induction es arbitrary: h)
  case (Cons e es)
  obtain h1 where h1: "map_insert_fuel (Suc f) zv h (fst e) (snd e) = Some h1" "map_ok h1"
    "map_abs h1 = (map_abs h)(fst e \<mapsto> snd e)" "mcapacity h1 = mcapacity h" "mcount h1 = Suc (mcount h)"
    using map_insert_room [OF Cons.prems(1), of "fst e" f zv "snd e"] Cons.prems by auto
  have "\<exists>h'. map_reinsert_fuel (Suc f) zv es h1 = Some h' \<and> map_ok h' \<and>
    map_abs h' = map_abs h1 ++ map_of es \<and> mcapacity h' = mcapacity h1 \<and> mcount h' = mcount h1 + length es"
  proof (rule Cons.IH)
    show "\<forall>d\<in>set es. live (fst d) \<and> fst d \<notin> dom (map_abs h1)"
      using Cons.prems(2,3) h1(3) by (simp, metis imageI)
  qed (use Cons.prems h1 in auto)
  moreover have "map_abs h1 ++ map_of es = map_abs h ++ map_of (e # es)"
  proof -
    have "fst e \<notin> dom (map_of es)" using Cons.prems(2) by (simp add: dom_map_of_conv_image_fst)
    then show ?thesis by (auto simp: h1(3) map_add_def fun_eq_iff split: option.splits prod.splits)
  qed
  ultimately have "\<exists>h'. map_reinsert_fuel (Suc f) zv es h1 = Some h' \<and> map_ok h' \<and>
    map_abs h' = map_abs h ++ map_of (e # es) \<and> mcapacity h' = mcapacity h \<and>
    mcount h' = mcount h + length (e # es)"
    by (simp only: h1(4,5)) (simp del: map_of.simps)
  then show ?case by (simp only: map_reinsert_fuel.simps h1(1) option.case)
qed auto

lemma map_reserve_ok:
  assumes "map_ok h" and "mcapacity h \<le> cap" and "mcount h < cap \<or> mcount h = 0 \<and> mcapacity h = 0"
    and "2 * cap \<le> 16 + 3 * 2 ^ 32 \<or> (\<exists>k<40. cap = 2 ^ k \<and> cap \<le> 16 + 3 * 2 ^ 32)"
  obtains h' where "map_reserve_fuel (Suc (Suc f)) zv h cap = Some h'" and "map_ok h'"
    and "map_abs h' = map_abs h" and "cap \<le> mcapacity h'" and "mcount h' = mcount h"
proof -
  let ?n = "nat (next_pow2 (int cap))"
  define new where "new = \<lparr>entries = replicate ?n (0, zv), mcount = 0\<rparr>"
  have new: "map_ok new \<and> map_abs new = Map.empty \<and> cap \<le> mcapacity new \<and> mcount new = 0"
  proof (cases "cap = 0")
    case True
    then show ?thesis
      by (simp add: new_def next_pow2_def map_ok_def mcapacity_def map_keys_def live_keys_def map_abs_def)
  next
    case False
    then have "0 < int cap" "int cap \<le> 2 ^ 64" using assms(4) by auto
    then obtain k where k: "next_pow2 (int cap) = 2 ^ k" "int cap \<le> 2 ^ k" "2 ^ k < 2 * int cap"
      using next_pow2_exp by blast
    then have n: "?n = 2 ^ k" "cap \<le> 2 ^ k" "2 ^ k < 2 * cap"
    proof -
      show "?n = 2 ^ k" using k(1) nat_power_eq [of 2 k] by simp
      show "cap \<le> 2 ^ k" using k(2) by (metis of_nat_le_iff of_nat_numeral of_nat_power)
      show "2 ^ k < 2 * cap" using k(3) by (metis of_nat_less_iff of_nat_mult of_nat_numeral of_nat_power)
    qed
    have "(2::nat) ^ k \<le> 16 + 3 * 2 ^ 32"
      using assms(4)
    proof
      assume "\<exists>k<40. cap = 2 ^ k \<and> cap \<le> 16 + 3 * 2 ^ 32"
      then obtain j where "j < 40" "cap = 2 ^ j" "cap \<le> 16 + 3 * 2 ^ 32" by blast
      moreover from this have "next_pow2 (2 ^ j) = 2 ^ j" by (intro next_pow2_id) simp
      moreover have "nat (2 ^ j) = 2 ^ j" using nat_power_eq [of 2 j] by simp
      ultimately show ?thesis using n(1) by simp
    qed (use n in linarith)
    from replicate_map_ok [OF this, of zv] n show ?thesis
      unfolding new_def n(1) by (simp add: mcapacity_def)
  qed
  show ?thesis
  proof (cases "mcount h = 0")
    case True
    then have "map_abs h = Map.empty"
      using map_dom [of h] assms(1) by (simp add: map_ok_def flip: dom_eq_empty_conv)
    moreover have "map_reserve_fuel (Suc (Suc f)) zv h cap = Some new"
      using True assms(2) by (simp add: new_def)
    ultimately show ?thesis using that new True by simp
  next
    case False
    have len: "length (map_entries h) = mcount h"
      using False assms(1) by (simp add: map_entries_def map_ok_def map_keys_def flip: live_entries_keys)
    have abs: "map_of (map_entries h) = map_abs h" using False by (simp add: map_entries_def map_abs_def)
    have "\<exists>h'. map_reinsert_fuel (Suc f) zv (map_entries h) new = Some h' \<and> map_ok h' \<and>
      map_abs h' = map_abs new ++ map_of (map_entries h) \<and> mcapacity h' = mcapacity new \<and>
      mcount h' = mcount new + length (map_entries h)"
      using new len False assms(3) map_entries_distinct [OF assms(1)]
      by (intro map_reinsert_ok) (auto simp: map_entries_def)
    then obtain h' where h': "map_reinsert_fuel (Suc f) zv (map_entries h) new = Some h'" "map_ok h'"
      "map_abs h' = map_abs h" "cap \<le> mcapacity h'" "mcount h' = mcount h"
      using new abs len by auto
    moreover have "map_reserve_fuel (Suc (Suc f)) zv h cap = Some h'"
      using False assms(2) h'(1) by (simp add: new_def)
    ultimately show ?thesis using that by blast
  qed
qed


text \<open>Doubling a table that is nearly full stays within the capacity bound.\<close>

lemma map_double_ok:
  assumes "map_ok h" and "3 * mcapacity h \<le> 4 * mcount h \<or> mcapacity h \<le> mcount h + 1"
    and "mcount h < 2 ^ 32"
  obtains h' where "map_reserve_fuel (Suc (Suc f)) zv h (max (mcapacity h * 2) 16) = Some h'"
    and "map_ok h'" and "map_abs h' = map_abs h" and "mcount h' = mcount h" and "mcount h' + 1 < mcapacity h'"
    and "\<not> 3 * mcapacity h' \<le> 4 * mcount h'"
proof -
  let ?cap = "max (mcapacity h * 2) 16"
  have c: "mcount h < mcapacity h \<or> mcount h = 0 \<and> mcapacity h = 0"
    using assms(1) by (cases "entries h = []") (auto simp: map_ok_def mcapacity_def map_keys_def live_keys_def)
  have "2 * ?cap \<le> 16 + 3 * 2 ^ 32 \<or> (\<exists>k<40. ?cap = 2 ^ k \<and> ?cap \<le> 16 + 3 * 2 ^ 32)"
  proof (cases "mcapacity h \<le> 8")
    case False
    then have "table_ok (map_keys h)" using assms(1) by (auto simp: map_ok_def mcapacity_def)
    then obtain k where k: "mcapacity h = 2 ^ k" by (auto simp: table_ok_def map_keys_length)
    have le: "?cap \<le> 16 + 3 * 2 ^ 32" using assms(2,3) by auto
    have "k < 39"
    proof (rule ccontr)
      assume "\<not> k < 39"
      then have "(2::nat) ^ 39 \<le> 2 ^ k" by (intro power_increasing) auto
      with le k show False by simp
    qed
    with k le False show ?thesis by (intro disjI2 exI [of _ "Suc k"]) auto
  qed auto
  note bound = this
  have "mcapacity h \<le> ?cap" "mcount h < ?cap \<or> mcount h = 0 \<and> mcapacity h = 0" using c by auto
  then obtain h' where h': "map_reserve_fuel (Suc (Suc f)) zv h ?cap = Some h'" "map_ok h'"
    "map_abs h' = map_abs h" "?cap \<le> mcapacity h'" "mcount h' = mcount h"
    using map_reserve_ok [OF assms(1) _ _ bound] by metis
  with c show ?thesis by (intro that [of h']) auto
qed

lemma map_insert_total:
  assumes "map_ok h" and "live k" and "k \<notin> dom (map_abs h)" and "mcount h < 2 ^ 32"
  obtains h' where "map_insert zv h k v = Some h'" and "map_ok h'" and "map_abs h' = (map_abs h)(k \<mapsto> v)"
proof -
  obtain h1 where h1: "(if mcount h + 1 \<ge> mcapacity h then map_reserve_fuel 2 zv h (max (mcapacity h * 2) 16)
      else Some h) = Some h1" "map_ok h1" "map_abs h1 = map_abs h" "mcount h1 + 1 < mcapacity h1"
  proof (cases "mcount h + 1 \<ge> mcapacity h")
    case True
    then have "3 * mcapacity h \<le> 4 * mcount h \<or> mcapacity h \<le> mcount h + 1" by simp
    from map_double_ok [OF assms(1) this assms(4), of 0 zv] True that show ?thesis
      by (metis numeral_2_eq_2)
  qed (use assms(1) that in auto)
  have new: "k \<notin> dom (map_abs h1)" using assms(3) h1(3) by simp
  obtain h' where h': "map_put_slot h1 k v = Some h'" "map_ok h'" "map_abs h' = (map_abs h1)(k \<mapsto> v)"
    using map_put_slot_ok [OF h1(2,4) assms(2) new] by metis
  have "map_insert_fuel (Suc 2) zv h k v = Some h'"
    unfolding map_insert_fuel.simps h1(1) using h'(1) by simp
  then have "map_insert zv h k v = Some h'"
    by (simp add: map_insert_def numeral_3_eq_3 numeral_2_eq_2)
  with h' h1(3) show ?thesis using that by simp
qed

lemma try_map_grow_ok:
  assumes "map_ok h" and "mcount h < 2 ^ 32"
  obtains h' where "try_map_grow zv h = Some h'" and "map_ok h'" and "map_abs h' = map_abs h" and "mcount h' = mcount h"
proof (cases "mcapacity h = 0 \<or> map_full h")
  case True
  then have "3 * mcapacity h \<le> 4 * mcount h \<or> mcapacity h \<le> mcount h + 1" by (auto simp: map_full_def)
  from map_double_ok [OF assms(1) this assms(2), of 0 zv] True that show ?thesis
    by (metis try_map_grow_def map_grow_def map_reserve_def numeral_2_eq_2)
next
  case False
  with assms(1) that show ?thesis by (simp add: try_map_grow_def)
qed

text \<open>\<open>map_set\<close> never fails below \<open>2 ^ 32\<close> entries, and its table stands for the updated map.\<close>

lemma map_set_total:
  assumes "map_ok h" and "live k" and "card (dom (map_abs h)) < 2 ^ 32"
  obtains h' where "map_set zv h k v = Some h'" and "map_ok h'" and "map_abs h' = (map_abs h)(k \<mapsto> v)"
proof -
  have "mcount h < 2 ^ 32" using assms(1,3) by (simp add: map_mcount)
  then obtain h1 where h1: "try_map_grow zv h = Some h1" "map_ok h1" "map_abs h1 = map_abs h" "mcount h1 = mcount h"
    using try_map_grow_ok [OF assms(1)] by blast
  note get = map_get_correct [OF h1(2) assms(2)]
  show ?thesis
  proof (cases "map_abs h1 k")
    case None
    then have "k \<notin> dom (map_abs h1)" by auto
    moreover have "mcount h1 < 2 ^ 32" using h1(4) \<open>mcount h < 2 ^ 32\<close> by simp
    ultimately obtain h' where "map_insert zv h1 k v = Some h'" "map_ok h'" "map_abs h' = (map_abs h1)(k \<mapsto> v)"
      using map_insert_total [OF h1(2) assms(2)] by blast
    with None h1 get assms(2) that show ?thesis by (simp add: map_set_def live_nonzero)
  next
    case (Some w)
    then have "k \<in> dom (map_abs h1)" by auto
    then obtain i where i: "map_find h1 k = Some i" using map_find_None [OF h1(2) assms(2)] by blast
    note f = map_find_SomeD [OF h1(2) i]
    define h' where "h' = h1\<lparr>entries := (entries h1)[i := (k, v)]\<rparr>"
    have il: "i < length (entries h1)" using f(1) by (simp add: mcapacity_def)
    have keys: "map_keys h' = map_keys h1"
    proof -
      have "map_keys h' = (map_keys h1)[i := k]" by (simp add: h'_def map_keys_def map_update)
      also have "\<dots> = map_keys h1" using f(2) il by (simp add: map_keys_def list_update_same_conv)
      finally show ?thesis .
    qed
    moreover have "entries h1 \<noteq> []" using il by auto
    ultimately have ok: "map_ok h'" using h1(2) by (auto simp: map_ok_def h'_def mcapacity_def)
    have abs: "map_abs h' = (map_abs h1)(k \<mapsto> v)"
    proof (rule map_abs_eqI [OF ok])
      fix q u
      have only: "j = i" if "j < length (entries h1)" "fst (entries h1 ! j) = k" for j
      proof (rule ccontr)
        assume "j \<noteq> i"
        have "map_keys h1 ! j = k" "map_keys h1 ! i = k" "i < length (map_keys h1)" "j < length (map_keys h1)"
          using that il f(2) by (simp_all add: map_keys_def)
        moreover have "distinct (filter live (map_keys h1))"
          using map_keys_distinct [OF h1(2)] by (simp add: live_keys_def)
        ultimately show False
          using \<open>j \<noteq> i\<close> assms(2) filter_nth_distinct [of live "map_keys h1" i j] by simp
      qed
      have "set (entries h') = insert (k, v) {e \<in> set (entries h1). fst e \<noteq> k}"
        unfolding h'_def using list_update_key_set [OF il f(2)] only by simp
      then show "((map_abs h1)(k \<mapsto> v)) q = Some u \<longleftrightarrow> (q, u) \<in> set (entries h') \<and> live q"
        using assms(2) by (auto simp: map_abs_iff [OF h1(2)])
    qed
    have "map_set zv h k v = Some h'"
      using h1(1) get Some i assms(2) by (simp add: map_set_def live_nonzero h'_def)
    with ok abs h1(3) that show ?thesis by simp
  qed
qed

lemma map_init_total:
  assumes "n \<le> 2 ^ 32"
  obtains h where "map_init zv n = Some h" and "map_ok h" and "map_abs h = Map.empty"
proof -
  have ok: "map_ok (ptr_map_empty :: 'a ptr_map)" and abs: "map_abs (ptr_map_empty :: 'a ptr_map) = Map.empty"
    by (simp_all add: ptr_map_empty_def map_ok_def mcapacity_def map_keys_def live_keys_def map_abs_def)
  let ?cap = "nat (next_pow2 (int n))"
  have le: "?cap \<le> 2 ^ 32"
  proof (cases "n = 0")
    case False
    then obtain k where k: "next_pow2 (int n) = 2 ^ k" "2 ^ k < 2 * int n"
      using next_pow2_exp [of "int n"] assms by auto
    have "int n \<le> 2 ^ 32" using assms by simp
    with k(2) have "(2::int) ^ k < 2 ^ 33" by simp
    then have "k < 33" by (rule power_less_imp_less_exp [rotated]) simp
    then have "(2::int) ^ k \<le> 2 ^ 32" by (intro power_increasing) auto
    with k(1) show ?thesis by (simp add: nat_le_iff)
  qed (simp add: next_pow2_def)
  then have "2 * ?cap \<le> 16 + 3 * 2 ^ 32 \<or> (\<exists>k<40. ?cap = 2 ^ k \<and> ?cap \<le> 16 + 3 * 2 ^ 32)" by simp
  moreover have "mcapacity (ptr_map_empty :: 'a ptr_map) \<le> ?cap" "mcapacity (ptr_map_empty :: 'a ptr_map) = 0"
    "mcount (ptr_map_empty :: 'a ptr_map) = 0"
    by (simp_all add: ptr_map_empty_def mcapacity_def)
  ultimately obtain h where "map_reserve_fuel (Suc (Suc 0)) zv ptr_map_empty ?cap = Some h" "map_ok h"
    "map_abs h = map_abs (ptr_map_empty :: 'a ptr_map)"
    using map_reserve_ok [OF ok] by blast
  with abs that show ?thesis
    by (simp add: map_init_def map_reserve_def numeral_2_eq_2 del: map_reserve_fuel.simps)
qed

subsection \<open>Removal and clearing\<close>

lemma map_remove_total:
  assumes "map_ok h" and "live k"
  obtains h' where "map_remove h k = Some h'" and "map_ok h'" and "map_abs h' = (map_abs h)(k := None)"
proof (cases "map_find h k")
  case None
  then have "map_abs h k = None" using assms map_find_None by blast
  then have "(map_abs h)(k := None) = map_abs h" by auto
  with None assms that [of h] show ?thesis by (auto simp: map_remove_def live_nonzero)
next
  case (Some i)
  note i = map_find_SomeD [OF assms(1) Some]
  have il: "i < length (entries h)" and key: "map_keys h ! i = k" using i by (simp_all add: mcapacity_def map_keys_def)
  define h' where "h' = h\<lparr>entries := (entries h)[i := (TOMBSTONE, snd (entries h ! i))], mcount := mcount h - 1\<rparr>"
  have keys: "map_keys h' = (map_keys h)[i := TOMBSTONE]" by (simp add: h'_def map_keys_update)
  have "i < length (map_keys h)" "live (map_keys h ! i)" using il key assms(2) by (simp_all add: map_keys_def)
  note rem = table_ok_remove [OF i(3) this] live_keys_remove [OF this]
  have "k \<in> set (live_keys (map_keys h))" using il key assms(2) by (auto simp: live_keys_def map_keys_def)
  then have pos: "mcount h \<noteq> 0" using assms(1) by (auto simp: map_ok_def)
  have "length (live_keys (map_keys h)) = Suc (length (live_keys (map_keys h')))"
    using rem(3) keys by (metis size_add_mset size_mset)
  then have ok: "map_ok h'"
    using assms(1) rem(1) keys il by (auto simp: map_ok_def h'_def mcapacity_def)
  have abs: "map_abs h' = (map_abs h)(k := None)"
  proof (rule map_abs_eqI [OF ok])
    fix q w
    have only: "j = i" if "j < length (entries h)" "fst (entries h ! j) = k" for j
    proof (rule ccontr)
      assume "j \<noteq> i"
      have "map_keys h ! j = k" "i < length (map_keys h)" "j < length (map_keys h)"
        using that il by (simp_all add: map_keys_def)
      moreover have "distinct (filter live (map_keys h))" using map_keys_distinct [OF assms(1)] by (simp add: live_keys_def)
      ultimately show False
        using \<open>j \<noteq> i\<close> assms(2) key filter_nth_distinct [of live "map_keys h" i j] by simp
    qed
    have upd: "set (entries h') = insert (TOMBSTONE, snd (entries h ! i)) {e \<in> set (entries h). fst e \<noteq> k}"
      if "\<forall>j<length (entries h). fst (entries h ! j) = k \<longrightarrow> j = i"
    proof (intro set_eqI iffI)
      fix e assume "e \<in> set (entries h')"
      then obtain j where "j < length (entries h)" "entries h' ! j = e" by (auto simp: h'_def in_set_conv_nth)
      then show "e \<in> insert (TOMBSTONE, snd (entries h ! i)) {e \<in> set (entries h). fst e \<noteq> k}"
        using that il by (cases "j = i") (auto simp: h'_def)
    next
      fix e assume "e \<in> insert (TOMBSTONE, snd (entries h ! i)) {e \<in> set (entries h). fst e \<noteq> k}"
      then consider "e = (TOMBSTONE, snd (entries h ! i))" | j where "j < length (entries h)" "entries h ! j = e" "fst e \<noteq> k"
        by (auto simp: in_set_conv_nth)
      then show "e \<in> set (entries h')"
      proof cases
        case 1
        with il show ?thesis by (simp add: h'_def set_update_memI)
      next
        case 2
        with i(2) have "j \<noteq> i" by auto
        with 2 show ?thesis by (metis h'_def length_list_update nth_list_update_neq nth_mem ptr_map.select_convs(1)
              ptr_map.surjective ptr_map.update_convs(1,2))
      qed
    qed
    then show "((map_abs h)(k := None)) q = Some w \<longleftrightarrow> (q, w) \<in> set (entries h') \<and> live q"
      using only assms(2) by (auto simp: map_abs_iff [OF assms(1)])
  qed
  have "map_remove h k = Some h'" using Some pos assms(2) by (simp add: map_remove_def live_nonzero h'_def)
  with ok abs that show ?thesis by blast
qed

subsection \<open>Properties\<close>


lemma map_ok_empty: "map_ok (ptr_map_empty :: 'v ptr_map)" "map_abs (ptr_map_empty :: 'v ptr_map) = Map.empty"
  by (simp_all add: ptr_map_empty_def map_ok_def map_keys_def live_keys_def mcapacity_def map_abs_def)


text \<open>
  Property C29. Removing a key from the pointer map: the key is no longer found, every other
  key keeps its value, and iteration over the map visits exactly the remaining entries, each key once.
\<close>

theorem map_remove_get:
  assumes "map_ok h" and "live k"
  shows "\<exists>h'. map_remove h k = Some h' \<and> map_ok h' \<and>
    (\<forall>q. live q \<longrightarrow> map_get h' q = (if q = k then Some None else map_get h q)) \<and>
    distinct (map fst (map_entries h')) \<and> set (map_entries h') = {e \<in> set (map_entries h). fst e \<noteq> k}"
proof -
  obtain h' where h': "map_remove h k = Some h'" "map_ok h'" "map_abs h' = (map_abs h)(k := None)"
    using map_remove_total [OF assms] .
  moreover have "set (map_entries h') = {e \<in> set (map_entries h). fst e \<noteq> k}"
    using map_entries_set [OF h'(2)] map_entries_set [OF assms(1)] h'(3) by (auto split: if_splits)
  ultimately show ?thesis
    using map_get_correct [OF h'(2)] map_get_correct [OF assms(1)] map_entries_distinct [OF h'(2)] by auto
qed

theorem map_remove_get_witness:
  "\<exists>h h'. map_set (0 :: nat) ptr_map_empty 8 42 = Some h \<and> map_remove h 8 = Some h' \<and>
    map_get h' 8 = Some None"
proof -
  have l: "live 8" by (simp add: live_def TOMBSTONE_def)
  have "card (dom (map_abs (ptr_map_empty :: nat ptr_map))) < 2 ^ 32" by (simp add: map_ok_empty)
  then obtain h where h: "map_set (0 :: nat) ptr_map_empty 8 42 = Some h" "map_ok h"
    by (rule map_set_total [OF map_ok_empty(1) l])
  obtain h' where "map_remove h 8 = Some h'" "\<forall>q. live q \<longrightarrow> map_get h' q = (if q = 8 then Some None else map_get h q)"
    using map_remove_get [OF h(2) l] by blast
  with h(1) l show ?thesis by auto
qed

end
