(* ===== verification/Entity.thy ===== *)
theory Entity
  imports Odin_Prelude
begin

text \<open>The kinds of an entity (\<^verbatim>\<open>src/entity.cpp\<close>), shared by the checker and the types.\<close>

datatype entity_kind =
  Entity_Invalid | Entity_Constant | Entity_Variable | Entity_TypeName | Entity_Procedure
  | Entity_ProcGroup | Entity_Builtin | Entity_ImportName | Entity_LibraryName | Entity_Nil
  | Entity_Label

end
