(* ===== verification/Dep_Graph.thy ===== *)
theory Dep_Graph
  imports Entity Ptr_Map Ptr_Set Priority_Queue
begin

text \<open>
  The dependency graph between entities of \<^verbatim>\<open>src/checker.cpp\<close> (\<open>generate_entity_dependency_graph\<close>).
  Entities, declarations and graph nodes are addressed by pointers. The checked program is
  read-only here (\<open>program\<close>); the nodes live in a memory \<open>nodes\<close> that maps an address to its
  node. Nodes come from an arena whose memory is zero; the address of the \<open>i\<close>-th allocation is a
  parameter \<open>alloc\<close>. A failed \<^verbatim>\<open>GB_ASSERT\<close> is \<open>None\<close>.
\<close>

subsection \<open>Data\<close>

text \<open>The parameter and result tuples of a procedure type: the tuple's variables, or no tuple.\<close>

record proc_type =
  params :: "ptr list option"
  results :: "ptr list option"

text \<open>
  The fields of \<open>Entity\<close> that the graph and the initialization order read. \<open>is_field\<close> is the flag
  \<open>EntityFlag_Field\<close>; \<open>proc_type\<close> is the base type of \<open>type\<close> when that is a procedure type.
\<close>

record entity =
  kind :: entity_kind
  is_field :: bool
  pkg :: ptr
  decl_info :: ptr
  order_in_src :: "64 word"
  proc_type_of :: "proc_type option"

record program =
  entity_at :: "ptr \<Rightarrow> entity"
  deps_at :: "ptr \<Rightarrow> ptr_set"

record entity_graph_node =
  entity :: ptr
  pred :: ptr_set
  succ :: ptr_set
  index :: nat
  dep_count :: int

type_synonym nodes = "ptr \<Rightarrow> entity_graph_node"

definition zero_node :: entity_graph_node where
  "zero_node = \<lparr>entity = 0, pred = ptr_set_empty, succ = ptr_set_empty, index = 0, dep_count = 0\<rparr>"

definition is_entity_a_dependency :: "entity \<Rightarrow> bool" where
  "is_entity_a_dependency e =
     (case kind e of
        Entity_Procedure \<Rightarrow> True
      | Entity_Constant \<Rightarrow> pkg e \<noteq> 0
      | Entity_Variable \<Rightarrow> pkg e \<noteq> 0
      | Entity_TypeName \<Rightarrow> False
      | _ \<Rightarrow> False)"

definition decl_info_of_entity :: "program \<Rightarrow> ptr \<Rightarrow> ptr" where
  "decl_info_of_entity P e = (if e \<noteq> 0 then decl_info (entity_at P e) else 0)"

subsection \<open>Edges\<close>

definition succ_add :: "ptr \<Rightarrow> ptr \<Rightarrow> nodes \<Rightarrow> nodes option" where
  "succ_add n m nodes = map_option (\<lambda>s. nodes(n := (nodes n)\<lparr>succ := s\<rparr>)) (ptr_set_add (succ (nodes n)) m)"

definition pred_add :: "ptr \<Rightarrow> ptr \<Rightarrow> nodes \<Rightarrow> nodes option" where
  "pred_add n m nodes = map_option (\<lambda>s. nodes(n := (nodes n)\<lparr>pred := s\<rparr>)) (ptr_set_add (pred (nodes n)) m)"

definition succ_remove :: "ptr \<Rightarrow> ptr \<Rightarrow> nodes \<Rightarrow> nodes option" where
  "succ_remove n m nodes = map_option (\<lambda>s. nodes(n := (nodes n)\<lparr>succ := s\<rparr>)) (ptr_set_remove (succ (nodes n)) m)"

definition pred_remove :: "ptr \<Rightarrow> ptr \<Rightarrow> nodes \<Rightarrow> nodes option" where
  "pred_remove n m nodes = map_option (\<lambda>s. nodes(n := (nodes n)\<lparr>pred := s\<rparr>)) (ptr_set_remove (pred (nodes n)) m)"

subsection \<open>The three maps from entities to nodes\<close>

record graph_state =
  M_procs :: "ptr ptr_map"
  M_vars :: "ptr ptr_map"
  M_other :: "ptr ptr_map"
  nodes_of :: nodes
  allocated :: nat

text \<open>The two switches on the kind of an entity, which select its map.\<close>

definition M_get :: "entity_kind \<Rightarrow> graph_state \<Rightarrow> ptr ptr_map" where
  "M_get k st = (case k of Entity_Procedure \<Rightarrow> M_procs st | Entity_Variable \<Rightarrow> M_vars st | _ \<Rightarrow> M_other st)"

definition M_put :: "entity_kind \<Rightarrow> ptr ptr_map \<Rightarrow> graph_state \<Rightarrow> graph_state" where
  "M_put k m st =
     (case k of
        Entity_Procedure \<Rightarrow> st\<lparr>M_procs := m\<rparr>
      | Entity_Variable \<Rightarrow> st\<lparr>M_vars := m\<rparr>
      | _ \<Rightarrow> st\<lparr>M_other := m\<rparr>)"

definition init_maps :: "nat \<Rightarrow> graph_state option" where
  "init_maps n =
     Option.bind (map_init 0 n) (\<lambda>mp. Option.bind (map_init 0 n) (\<lambda>mv. Option.bind (map_init 0 n) (\<lambda>mo.
       Some \<lparr>M_procs = mp, M_vars = mv, M_other = mo, nodes_of = (\<lambda>_. zero_node), allocated = 0\<rparr>)))"

definition add_node :: "program \<Rightarrow> (nat \<Rightarrow> ptr) \<Rightarrow> ptr \<Rightarrow> graph_state \<Rightarrow> graph_state option" where
  "add_node P alloc e st =
     (if e = 0 \<or> \<not> is_entity_a_dependency (entity_at P e) then Some st
      else
        let n = alloc (allocated st);
            st = st\<lparr>allocated := allocated st + 1, nodes_of := (nodes_of st)(n := zero_node\<lparr>entity := e\<rparr>)\<rparr>;
            k = kind (entity_at P e)
        in map_option (\<lambda>m. M_put k m st) (map_set 0 (M_get k st) e n))"

subsection \<open>Part 1: an edge for every dependency of a procedure\<close>

definition connect_dep :: "program \<Rightarrow> graph_state \<Rightarrow> ptr \<Rightarrow> ptr \<Rightarrow> nodes \<Rightarrow> nodes option" where
  "connect_dep P st n dep nodes =
     (if dep = 0 then None
      else if is_field (entity_at P dep) then Some nodes
      else if \<not> is_entity_a_dependency (entity_at P dep) then Some nodes
      else
        Option.bind (map_must_get (M_get (kind (entity_at P dep)) st) dep) (\<lambda>m.
        Option.bind (succ_add n m nodes) (\<lambda>nodes. pred_add m n nodes)))"

definition connect_proc :: "program \<Rightarrow> graph_state \<Rightarrow> ptr \<Rightarrow> nodes \<Rightarrow> nodes option" where
  "connect_proc P st n nodes =
     (let decl = decl_info_of_entity P (entity (nodes n))
      in if decl = 0 then None
         else fold_opt (connect_dep P st n) (ptr_set_elems (deps_at P decl)) nodes)"

subsection \<open>Part 2b: procedures are bridged over\<close>

definition is_proc_node :: "program \<Rightarrow> nodes \<Rightarrow> ptr \<Rightarrow> bool" where
  "is_proc_node P nodes n = (kind (entity_at P (entity (nodes n))) = Entity_Procedure)"

definition bridge :: "program \<Rightarrow> ptr \<Rightarrow> ptr \<Rightarrow> ptr \<Rightarrow> nodes \<Rightarrow> nodes option" where
  "bridge P n p s nodes =
     (if s = n then Some nodes
      else if is_proc_node P nodes p \<and> is_proc_node P nodes s then Some nodes
      else
        Option.bind (succ_add p s nodes) (\<lambda>nodes.
        Option.bind (pred_add s p nodes) (\<lambda>nodes. pred_remove s n nodes)))"

definition bridge_pred :: "program \<Rightarrow> ptr \<Rightarrow> ptr \<Rightarrow> nodes \<Rightarrow> nodes option" where
  "bridge_pred P n p nodes =
     (if p = n then Some nodes
      else
        Option.bind (fold_opt (bridge P n p) (ptr_set_elems (succ (nodes n))) nodes) (\<lambda>nodes.
        succ_remove p n nodes))"

definition bridge_proc :: "program \<Rightarrow> ptr \<Rightarrow> nodes \<Rightarrow> nodes option" where
  "bridge_proc P n nodes = fold_opt (bridge_pred P n) (ptr_set_elems (pred (nodes n))) nodes"

subsection \<open>Part 2c and the dependency counts\<close>

fun count_deps :: "nat \<Rightarrow> ptr list \<Rightarrow> nodes \<Rightarrow> nodes" where
  "count_deps i [] nodes = nodes"
| "count_deps i (n # G) nodes =
     count_deps (Suc i) G (nodes(n := (nodes n)\<lparr>index := i, dep_count := int (count (succ (nodes n)))\<rparr>))"

definition generate_entity_dependency_graph ::
  "program \<Rightarrow> (nat \<Rightarrow> ptr) \<Rightarrow> ptr list \<Rightarrow> (ptr list \<times> nodes) option" where
  "generate_entity_dependency_graph P alloc entities =
     Option.bind (init_maps (length entities)) (\<lambda>st.
     Option.bind (fold_opt (add_node P alloc) entities st) (\<lambda>st.
     let procs = map snd (map_entries (M_procs st)) in
     Option.bind (fold_opt (connect_proc P st) procs (nodes_of st)) (\<lambda>nodes.
     Option.bind (fold_opt (bridge_proc P) procs nodes) (\<lambda>nodes.
     let G = map snd (map_entries (M_vars st)) in
     Some (G, count_deps 0 G nodes)))))"

subsection \<open>What the graph needs of the program\<close>

text \<open>
  Node addresses are fresh and none of the two reserved key values; listed entities are not the
  reserved value; a procedure has a declaration, and each dependency that counts is a listed entity.
\<close>

definition well_linked :: "program \<Rightarrow> (nat \<Rightarrow> ptr) \<Rightarrow> ptr list \<Rightarrow> bool" where
  "well_linked P alloc entities \<longleftrightarrow>
     length entities \<le> 2 ^ 32 \<and>
     inj_on alloc {..<length entities} \<and> (\<forall>i<length entities. live (alloc i)) \<and>
     (\<forall>e\<in>set entities. e \<noteq> 0 \<longrightarrow> live e) \<and>
     (\<forall>e\<in>set entities. e \<noteq> 0 \<and> kind (entity_at P e) = Entity_Procedure \<longrightarrow>
        decl_info (entity_at P e) \<noteq> 0 \<and> ptr_set_ok (deps_at P (decl_info (entity_at P e))) \<and>
        (\<forall>dep\<in>ptr_set_abs (deps_at P (decl_info (entity_at P e))).
           \<not> is_field (entity_at P dep) \<and> is_entity_a_dependency (entity_at P dep) \<longrightarrow> dep \<in> set entities))"

definition same_map :: "entity_kind \<Rightarrow> entity_kind \<Rightarrow> bool" where
  "same_map k l \<longleftrightarrow>
     (k = Entity_Procedure) = (l = Entity_Procedure) \<and> (k = Entity_Variable) = (l = Entity_Variable)"

lemma M_get_put [simp]: "M_get k (M_put l m st) = (if same_map k l then m else M_get k st)"
  by (cases k; cases l) (simp_all add: M_get_def M_put_def same_map_def)

lemma M_put_other [simp]:
  "nodes_of (M_put k m st) = nodes_of st" "allocated (M_put k m st) = allocated st"
  by (cases k; simp add: M_put_def)+

lemma M_get_update [simp]: "M_get k (st\<lparr>allocated := a, nodes_of := ns\<rparr>) = M_get k st"
  by (cases k) (simp_all add: M_get_def)

lemma M_get_cong: "same_map k l \<Longrightarrow> M_get k st = M_get l st"
  by (cases k; cases l) (simp_all add: M_get_def same_map_def)

subsection \<open>The maps after the first loop\<close>

definition maps_inv :: "program \<Rightarrow> (nat \<Rightarrow> ptr) \<Rightarrow> ptr list \<Rightarrow> graph_state \<Rightarrow> bool" where
  "maps_inv P alloc es st \<longleftrightarrow>
     allocated st \<le> length es \<and> (\<forall>k. map_ok (M_get k st)) \<and>
     (\<forall>k e n. map_abs (M_get k st) e = Some n \<longrightarrow>
        e \<in> set es \<and> e \<noteq> 0 \<and> is_entity_a_dependency (entity_at P e) \<and> same_map (kind (entity_at P e)) k \<and>
        (\<exists>i<allocated st. n = alloc i \<and> nodes_of st n = zero_node\<lparr>entity := e\<rparr>)) \<and>
     (\<forall>e\<in>set es. e \<noteq> 0 \<and> is_entity_a_dependency (entity_at P e) \<longrightarrow>
        e \<in> dom (map_abs (M_get (kind (entity_at P e)) st)))"

lemma maps_invD:
  assumes "maps_inv P alloc es st" and "map_abs (M_get k st) e = Some n"
  shows "e \<in> set es \<and> e \<noteq> 0 \<and> is_entity_a_dependency (entity_at P e) \<and> same_map (kind (entity_at P e)) k \<and>
    (\<exists>i<allocated st. n = alloc i \<and> nodes_of st n = zero_node\<lparr>entity := e\<rparr>)"
  using assms(1) [unfolded maps_inv_def, THEN conjunct2, THEN conjunct2, THEN conjunct1, rule_format, OF assms(2)] .

lemma maps_domI:
  assumes "maps_inv P alloc es st" and "e \<in> set es" and "e \<noteq> 0" and "is_entity_a_dependency (entity_at P e)"
  shows "e \<in> dom (map_abs (M_get (kind (entity_at P e)) st))"
  using assms(1) [unfolded maps_inv_def, THEN conjunct2, THEN conjunct2, THEN conjunct2] assms(2-4) by blast

lemma maps_inv_add_node:
  assumes wl: "well_linked P alloc entities" and inv: "maps_inv P alloc es st"
    and e: "e \<in> set entities" and len: "length es < length entities"
  shows "\<exists>st'. add_node P alloc e st = Some st' \<and> maps_inv P alloc (es @ [e]) st'"
proof (cases "e = 0 \<or> \<not> is_entity_a_dependency (entity_at P e)")
  case True
  then show ?thesis using inv by (auto simp: add_node_def maps_inv_def)
next
  case False
  let ?k = "kind (entity_at P e)" and ?n = "alloc (allocated st)"
  have ok: "map_ok (M_get ?k st)" and le: "allocated st \<le> length es" using inv by (auto simp: maps_inv_def)
  have live: "live e" using wl e False by (auto simp: well_linked_def)
  have "dom (map_abs (M_get ?k st)) \<subseteq> set es" using inv by (auto simp: maps_inv_def)
  then have "card (dom (map_abs (M_get ?k st))) \<le> length es"
    by (meson List.finite_set card_length card_mono le_trans)
  then have "card (dom (map_abs (M_get ?k st))) < 2 ^ 32" using wl len by (simp add: well_linked_def)
  then obtain m where m: "map_set 0 (M_get ?k st) e ?n = Some m" "map_ok m"
      "map_abs m = (map_abs (M_get ?k st))(e \<mapsto> ?n)"
    using map_set_total [OF ok live] by blast
  have fresh: "alloc i \<noteq> ?n" if "i < allocated st" for i
  proof -
    have "inj_on alloc {..<length entities}" using wl by (simp add: well_linked_def)
    moreover have "i \<in> {..<length entities}" "allocated st \<in> {..<length entities}" using that le len by auto
    ultimately show ?thesis using that by (metis inj_onD less_irrefl)
  qed
  let ?st = "M_put ?k m (st\<lparr>allocated := Suc (allocated st),
    nodes_of := (nodes_of st)(?n := zero_node\<lparr>entity := e\<rparr>)\<rparr>)"
  have "add_node P alloc e st = Some ?st" using False m(1) by (simp add: add_node_def Let_def)
  moreover have "maps_inv P alloc (es @ [e]) ?st"
    unfolding maps_inv_def
  proof (intro conjI allI impI)
    show "allocated ?st \<le> length (es @ [e])" using le by simp
    show "map_ok (M_get l ?st)" for l using inv m(2) by (simp add: maps_inv_def)
    show "\<forall>d\<in>set (es @ [e]). d \<noteq> 0 \<and> is_entity_a_dependency (entity_at P d) \<longrightarrow>
        d \<in> dom (map_abs (M_get (kind (entity_at P d)) ?st))"
    proof (intro ballI impI)
      fix d assume d: "d \<in> set (es @ [e])" "d \<noteq> 0 \<and> is_entity_a_dependency (entity_at P d)"
      show "d \<in> dom (map_abs (M_get (kind (entity_at P d)) ?st))"
      proof (cases "d = e")
        case True
        then show ?thesis using m(3) by (simp add: same_map_def)
      next
        case neq: False
        then have "d \<in> dom (map_abs (M_get (kind (entity_at P d)) st))"
          using inv d by (auto simp: maps_inv_def)
        then show ?thesis using neq m(3) M_get_cong [of "kind (entity_at P d)" ?k st] by auto
      qed
    qed
  next
    fix l d n assume *: "map_abs (M_get l ?st) d = Some n"
    have "d \<in> set (es @ [e]) \<and> d \<noteq> 0 \<and> is_entity_a_dependency (entity_at P d) \<and>
      same_map (kind (entity_at P d)) l \<and>
      (\<exists>i<allocated ?st. n = alloc i \<and> nodes_of ?st n = zero_node\<lparr>entity := d\<rparr>)"
    proof (cases "d = e \<and> same_map ?k l")
      case True
      with * m(3) have "n = ?n" by (auto simp: same_map_def)
      with True False show ?thesis by auto
    next
      case nd: False
      have "map_abs (M_get l st) d = Some n"
        using * nd m(3) M_get_cong [of l ?k st] by (auto split: if_splits simp: same_map_def)
      from maps_invD [OF inv this] have d: "d \<in> set es" "d \<noteq> 0" "is_entity_a_dependency (entity_at P d)"
        "same_map (kind (entity_at P d)) l"
        and "\<exists>i<allocated st. n = alloc i \<and> nodes_of st n = zero_node\<lparr>entity := d\<rparr>" by blast+
      then obtain i where i: "i < allocated st" "n = alloc i" "nodes_of st n = zero_node\<lparr>entity := d\<rparr>"
        by blast
      have "n \<noteq> ?n" using fresh i by simp
      with i have "i < allocated ?st \<and> n = alloc i \<and> nodes_of ?st n = zero_node\<lparr>entity := d\<rparr>" by simp
      then have ex: "\<exists>i<allocated ?st. n = alloc i \<and> nodes_of ?st n = zero_node\<lparr>entity := d\<rparr>" by (rule exI)
      have "d \<in> set (es @ [e])" using d(1) by simp
      then show ?thesis using d(2-4) ex by blast
    qed
    then show "d \<in> set (es @ [e])" "d \<noteq> 0" "is_entity_a_dependency (entity_at P d)"
      "same_map (kind (entity_at P d)) l"
      "\<exists>i<allocated ?st. n = alloc i \<and> nodes_of ?st n = zero_node\<lparr>entity := d\<rparr>"
      by blast+
  qed
  ultimately show ?thesis by blast
qed

lemma init_maps_total:
  assumes "n \<le> 2 ^ 32"
  shows "\<exists>st. init_maps n = Some st \<and> maps_inv P alloc [] st"
proof -
  obtain h :: "ptr ptr_map" where h: "map_init 0 n = Some h" "map_ok h" "map_abs h = Map.empty"
    by (rule map_init_total [OF assms])
  let ?st = "\<lparr>M_procs = h, M_vars = h, M_other = h, nodes_of = (\<lambda>_. zero_node), allocated = 0\<rparr>"
  have "M_get k ?st = h" for k by (cases k) (simp_all add: M_get_def)
  with h show ?thesis by (simp add: init_maps_def maps_inv_def)
qed

lemma maps_total:
  assumes "well_linked P alloc entities"
  obtains st0 st where "init_maps (length entities) = Some st0"
    and "fold_opt (add_node P alloc) entities st0 = Some st" and "maps_inv P alloc entities st"
proof -
  obtain st0 where st0: "init_maps (length entities) = Some st0" "maps_inv P alloc [] st0"
    using assms init_maps_total by (metis well_linked_def)
  have "\<exists>st. fold_opt (add_node P alloc) entities st0 = Some st \<and> maps_inv P alloc ([] @ entities) st"
    by (rule fold_opt_total_prefix [where I = "maps_inv P alloc" and zs = "[]", OF _ st0(2)])
       (simp add: maps_inv_add_node [OF assms])
  with st0(1) that show ?thesis by auto
qed

subsection \<open>The graph invariant\<close>

text \<open>The nodes of the three maps, and those of the procedures.\<close>

definition node_set :: "graph_state \<Rightarrow> ptr set" where
  "node_set st = (\<Union>k. ran (map_abs (M_get k st)))"

definition proc_nodes :: "graph_state \<Rightarrow> ptr set" where
  "proc_nodes st = ran (map_abs (M_procs st))"

lemma maps_nodes:
  assumes wl: "well_linked P alloc entities" and inv: "maps_inv P alloc entities st"
  shows "finite (node_set st)" and "card (node_set st) \<le> 2 ^ 32" and "\<forall>n\<in>node_set st. live n"
    and "proc_nodes st \<subseteq> node_set st"
    and "\<And>k e n. map_abs (M_get k st) e = Some n \<Longrightarrow> entity (nodes_of st n) = e"
    and "\<And>n. n \<in> node_set st \<Longrightarrow>
      kind (entity_at P (entity (nodes_of st n))) = Entity_Procedure \<longleftrightarrow> n \<in> proc_nodes st"
proof -
  have sub: "node_set st \<subseteq> alloc ` {..<length entities}"
  proof
    fix n assume "n \<in> node_set st"
    then obtain k e where "map_abs (M_get k st) e = Some n" by (auto simp: node_set_def ran_def)
    from maps_invD [OF inv this] show "n \<in> alloc ` {..<length entities}"
      using inv by (auto simp: maps_inv_def)
  qed
  then show fin: "finite (node_set st)" by (rule finite_subset) simp
  have "card (node_set st) \<le> card {..<length entities}" using sub by (rule surj_card_le [rotated]) simp
  then show "card (node_set st) \<le> 2 ^ 32" using wl by (simp add: well_linked_def)
  show "\<forall>n\<in>node_set st. live n" using sub wl by (auto simp: well_linked_def)
  show "proc_nodes st \<subseteq> node_set st"
    unfolding proc_nodes_def node_set_def
    by (rule SUP_upper2 [of Entity_Procedure]) (simp_all add: M_get_def)
  show ent: "entity (nodes_of st n) = e" if "map_abs (M_get k st) e = Some n" for k e n
    using maps_invD [OF inv that] by auto
  fix n assume "n \<in> node_set st"
  then obtain k e where e: "map_abs (M_get k st) e = Some n" by (auto simp: node_set_def ran_def)
  note k = maps_invD [OF inv e, THEN conjunct2, THEN conjunct2, THEN conjunct2, THEN conjunct1]
  show "kind (entity_at P (entity (nodes_of st n))) = Entity_Procedure \<longleftrightarrow> n \<in> proc_nodes st"
  proof
    assume "kind (entity_at P (entity (nodes_of st n))) = Entity_Procedure"
    with ent [OF e] k have "k = Entity_Procedure" by (simp add: same_map_def)
    with e show "n \<in> proc_nodes st" by (auto simp: proc_nodes_def M_get_def ran_def)
  next
    assume "n \<in> proc_nodes st"
    then obtain d where d: "map_abs (M_get Entity_Procedure st) d = Some n"
      by (auto simp: proc_nodes_def M_get_def ran_def)
    with ent have "entity (nodes_of st n) = d" by blast
    moreover have "same_map (kind (entity_at P d)) Entity_Procedure" using maps_invD [OF inv d] by blast
    ultimately show "kind (entity_at P (entity (nodes_of st n))) = Entity_Procedure"
      by (simp add: same_map_def)
  qed
qed

definition node_ok :: "ptr set \<Rightarrow> ptr set \<Rightarrow> ptr \<Rightarrow> entity_graph_node \<Rightarrow> bool" where
  "node_ok U procs n node \<longleftrightarrow>
     ptr_set_ok (pred node) \<and> ptr_set_ok (succ node) \<and>
     ptr_set_abs (pred node) \<subseteq> procs \<and> ptr_set_abs (succ node) \<subseteq> U \<and>
     (n \<notin> procs \<longrightarrow> ptr_set_abs (succ node) = {} \<and> dep_count node = 0)"

text \<open>
  The procedures are the only nodes with successors or a dependency count, and the only ones that
  occur as predecessors.
\<close>

definition graph_inv :: "ptr set \<Rightarrow> ptr set \<Rightarrow> nodes \<Rightarrow> nodes \<Rightarrow> bool" where
  "graph_inv U procs nodes0 nodes \<longleftrightarrow>
     finite U \<and> card U \<le> 2 ^ 32 \<and> (\<forall>n\<in>U. live n) \<and> procs \<subseteq> U \<and>
     (\<forall>n. entity (nodes n) = entity (nodes0 n)) \<and> (\<forall>n\<in>U. node_ok U procs n (nodes n))"

lemma graph_inv_update:
  assumes "graph_inv U procs nodes0 nodes" and "entity node = entity (nodes n)" and "node_ok U procs n node"
  shows "graph_inv U procs nodes0 (nodes(n := node))"
  using assms by (auto simp: graph_inv_def)

lemma graph_inv_card:
  assumes "graph_inv U procs nodes0 nodes" and "S \<subseteq> U"
  shows "card S \<le> 2 ^ 32"
  using assms card_mono [of U S] by (simp add: graph_inv_def)

lemma graph_inv_node:
  "graph_inv U procs nodes0 nodes \<Longrightarrow> n \<in> U \<Longrightarrow> node_ok U procs n (nodes n)"
  by (simp add: graph_inv_def)

lemma succ_add_inv:
  assumes inv: "graph_inv U procs nodes0 nodes" and n: "n \<in> procs" and m: "m \<in> U"
  shows "\<exists>nodes'. succ_add n m nodes = Some nodes' \<and> graph_inv U procs nodes0 nodes'"
proof -
  have "n \<in> U" "live m" using inv n m by (auto simp: graph_inv_def)
  note ok = graph_inv_node [OF inv this(1)]
  then have sub: "insert m (ptr_set_abs (succ (nodes n))) \<subseteq> U" using m by (simp add: node_ok_def)
  obtain s where s: "ptr_set_add (succ (nodes n)) m = Some s" "ptr_set_ok s"
      "ptr_set_abs s = insert m (ptr_set_abs (succ (nodes n)))"
    using ps.add [OF _ \<open>live m\<close> graph_inv_card [OF inv sub]] ok by (auto simp: node_ok_def)
  have "node_ok U procs n ((nodes n)\<lparr>succ := s\<rparr>)" using ok s n sub by (simp add: node_ok_def)
  with s(1) show ?thesis by (simp add: succ_add_def graph_inv_update [OF inv])
qed

lemma pred_add_inv:
  assumes inv: "graph_inv U procs nodes0 nodes" and n: "n \<in> U" and m: "m \<in> procs"
  shows "\<exists>nodes'. pred_add n m nodes = Some nodes' \<and> graph_inv U procs nodes0 nodes'"
proof -
  have "procs \<subseteq> U" "live m" using inv m by (auto simp: graph_inv_def)
  note ok = graph_inv_node [OF inv n]
  then have "insert m (ptr_set_abs (pred (nodes n))) \<subseteq> procs" using m by (simp add: node_ok_def)
  with \<open>procs \<subseteq> U\<close> have sub: "insert m (ptr_set_abs (pred (nodes n))) \<subseteq> U" by blast
  obtain s where s: "ptr_set_add (pred (nodes n)) m = Some s" "ptr_set_ok s"
      "ptr_set_abs s = insert m (ptr_set_abs (pred (nodes n)))"
    using ps.add [OF _ \<open>live m\<close> graph_inv_card [OF inv sub]] ok by (auto simp: node_ok_def)
  have "node_ok U procs n ((nodes n)\<lparr>pred := s\<rparr>)" using ok s m by (simp add: node_ok_def)
  with s(1) show ?thesis by (simp add: pred_add_def graph_inv_update [OF inv])
qed

lemma succ_remove_inv:
  assumes inv: "graph_inv U procs nodes0 nodes" and n: "n \<in> U" and m: "m \<in> U"
  shows "\<exists>nodes'. succ_remove n m nodes = Some nodes' \<and> graph_inv U procs nodes0 nodes'"
proof -
  have "live m" using inv m by (auto simp: graph_inv_def)
  note ok = graph_inv_node [OF inv n]
  obtain s where s: "ptr_set_remove (succ (nodes n)) m = Some s" "ptr_set_ok s"
      "ptr_set_abs s = ptr_set_abs (succ (nodes n)) - {m}"
    using ps.remove [of "succ (nodes n)", OF _ \<open>live m\<close>] ok by (auto simp: node_ok_def)
  have "node_ok U procs n ((nodes n)\<lparr>succ := s\<rparr>)" using ok s by (auto simp: node_ok_def)
  with s(1) show ?thesis by (simp add: succ_remove_def graph_inv_update [OF inv])
qed

lemma pred_remove_inv:
  assumes inv: "graph_inv U procs nodes0 nodes" and n: "n \<in> U" and m: "m \<in> U"
  shows "\<exists>nodes'. pred_remove n m nodes = Some nodes' \<and> graph_inv U procs nodes0 nodes'"
proof -
  have "live m" using inv m by (auto simp: graph_inv_def)
  note ok = graph_inv_node [OF inv n]
  obtain s where s: "ptr_set_remove (pred (nodes n)) m = Some s" "ptr_set_ok s"
      "ptr_set_abs s = ptr_set_abs (pred (nodes n)) - {m}"
    using ps.remove [of "pred (nodes n)", OF _ \<open>live m\<close>] ok by (auto simp: node_ok_def)
  have "node_ok U procs n ((nodes n)\<lparr>pred := s\<rparr>)" using ok s by (auto simp: node_ok_def)
  with s(1) show ?thesis by (simp add: pred_remove_def graph_inv_update [OF inv])
qed

subsection \<open>The loops keep it\<close>

lemma graph_inv_start:
  assumes "well_linked P alloc entities" and "maps_inv P alloc entities st"
  shows "graph_inv (node_set st) (proc_nodes st) (nodes_of st) (nodes_of st)"
proof -
  have "node_ok (node_set st) (proc_nodes st) n (nodes_of st n)" if "n \<in> node_set st" for n
  proof -
    from that obtain k e where "map_abs (M_get k st) e = Some n" by (auto simp: node_set_def ran_def)
    from maps_invD [OF assms(2) this] have "nodes_of st n = zero_node\<lparr>entity := e\<rparr>" by blast
    then show ?thesis by (simp add: node_ok_def zero_node_def ps.empty)
  qed
  then show ?thesis using maps_nodes [OF assms] by (simp add: graph_inv_def)
qed

lemma connect_dep_inv:
  assumes inv: "graph_inv (node_set st) (proc_nodes st) nodes0 nodes" and n: "n \<in> proc_nodes st"
    and maps: "maps_inv P alloc entities st" and dep: "live dep"
    and listed: "\<not> is_field (entity_at P dep) \<and> is_entity_a_dependency (entity_at P dep) \<longrightarrow> dep \<in> set entities"
  shows "\<exists>nodes'. connect_dep P st n dep nodes = Some nodes' \<and>
    graph_inv (node_set st) (proc_nodes st) nodes0 nodes'"
proof (cases "is_field (entity_at P dep) \<or> \<not> is_entity_a_dependency (entity_at P dep)")
  case True
  with inv dep show ?thesis by (auto simp: connect_dep_def live_nonzero)
next
  case False
  let ?M = "M_get (kind (entity_at P dep)) st"
  have "dep \<in> dom (map_abs ?M)" and ok: "map_ok ?M"
    using maps False listed live_nonzero [OF dep] by (auto simp: maps_inv_def)
  then obtain m where m: "map_abs ?M dep = Some m" by blast
  then have get: "map_must_get ?M dep = Some m"
    by (simp add: map_must_get_def map_get_correct [OF ok dep])
  have mU: "m \<in> node_set st" using m by (auto simp: node_set_def ran_def)
  obtain nodes1 where n1: "succ_add n m nodes = Some nodes1"
      "graph_inv (node_set st) (proc_nodes st) nodes0 nodes1"
    using succ_add_inv [OF inv n mU] by blast
  moreover obtain nodes2 where "pred_add m n nodes1 = Some nodes2"
      "graph_inv (node_set st) (proc_nodes st) nodes0 nodes2"
    using pred_add_inv [OF n1(2) mU n] by blast
  ultimately show ?thesis using False dep get by (simp add: connect_dep_def live_nonzero)
qed

lemma connect_proc_inv:
  assumes inv: "graph_inv (node_set st) (proc_nodes st) (nodes_of st) nodes" and n: "n \<in> proc_nodes st"
    and wl: "well_linked P alloc entities" and maps: "maps_inv P alloc entities st"
  shows "\<exists>nodes'. connect_proc P st n nodes = Some nodes' \<and>
    graph_inv (node_set st) (proc_nodes st) (nodes_of st) nodes'"
proof -
  obtain e where e: "map_abs (M_get Entity_Procedure st) e = Some n"
    using n by (auto simp: proc_nodes_def M_get_def ran_def)
  from maps_invD [OF maps e] have ee: "e \<in> set entities" "e \<noteq> 0" "same_map (kind (entity_at P e)) Entity_Procedure"
    by blast+
  have ent: "entity (nodes n) = e"
    using inv maps_nodes(5) [OF wl maps e] by (simp add: graph_inv_def)
  let ?d = "decl_info (entity_at P e)"
  have d: "?d \<noteq> 0" "ptr_set_ok (deps_at P ?d)" "\<forall>dep\<in>ptr_set_abs (deps_at P ?d).
      \<not> is_field (entity_at P dep) \<and> is_entity_a_dependency (entity_at P dep) \<longrightarrow> dep \<in> set entities"
    using wl ee by (auto simp: well_linked_def same_map_def)
  have "\<exists>nodes'. fold_opt (connect_dep P st n) (ptr_set_elems (deps_at P ?d)) nodes = Some nodes' \<and>
    graph_inv (node_set st) (proc_nodes st) (nodes_of st) nodes'"
  proof (rule fold_opt_total [where I = "graph_inv (node_set st) (proc_nodes st) (nodes_of st)", OF _ inv])
    fix dep nodes assume *: "dep \<in> set (ptr_set_elems (deps_at P ?d))"
      "graph_inv (node_set st) (proc_nodes st) (nodes_of st) nodes"
    then have "dep \<in> ptr_set_abs (deps_at P ?d)" using ps.elems [OF d(2)] by simp
    with d(3) ps.abs_live show "\<exists>nodes'. connect_dep P st n dep nodes = Some nodes' \<and>
        graph_inv (node_set st) (proc_nodes st) (nodes_of st) nodes'"
      by (intro connect_dep_inv [OF *(2) n maps]) auto
  qed
  then show ?thesis using ent ee(2) d(1) by (simp add: connect_proc_def decl_info_of_entity_def)
qed

lemma bridge_inv:
  assumes inv: "graph_inv U procs nodes0 nodes" and "n \<in> procs" "p \<in> procs" "s \<in> U"
  shows "\<exists>nodes'. bridge P n p s nodes = Some nodes' \<and> graph_inv U procs nodes0 nodes'"
proof (cases "s = n \<or> is_proc_node P nodes p \<and> is_proc_node P nodes s")
  case True
  with inv show ?thesis by (auto simp: bridge_def)
next
  case False
  have n: "n \<in> U" using inv assms(2) by (auto simp: graph_inv_def)
  obtain nodes1 where n1: "succ_add p s nodes = Some nodes1" "graph_inv U procs nodes0 nodes1"
    using succ_add_inv [OF inv] assms by blast
  then obtain nodes2 where n2: "pred_add s p nodes1 = Some nodes2" "graph_inv U procs nodes0 nodes2"
    using pred_add_inv [OF n1(2)] assms by blast
  then obtain nodes3 where "pred_remove s n nodes2 = Some nodes3" "graph_inv U procs nodes0 nodes3"
    using pred_remove_inv [OF n2(2)] assms n by blast
  with False n1(1) n2(1) show ?thesis by (auto simp: bridge_def)
qed

lemma bridge_pred_inv:
  assumes inv: "graph_inv U procs nodes0 nodes" and n: "n \<in> procs" and p: "p \<in> procs"
  shows "\<exists>nodes'. bridge_pred P n p nodes = Some nodes' \<and> graph_inv U procs nodes0 nodes'"
proof (cases "p = n")
  case True
  with inv show ?thesis by (simp add: bridge_pred_def)
next
  case False
  have U: "n \<in> U" "p \<in> U" using inv n p by (auto simp: graph_inv_def)
  have "ptr_set_ok (succ (nodes n))" "ptr_set_abs (succ (nodes n)) \<subseteq> U"
    using graph_inv_node [OF inv U(1)] by (simp_all add: node_ok_def)
  then have elems: "set (ptr_set_elems (succ (nodes n))) \<subseteq> U" using ps.elems by simp
  have "\<exists>nodes'. fold_opt (bridge P n p) (ptr_set_elems (succ (nodes n))) nodes = Some nodes' \<and>
      graph_inv U procs nodes0 nodes'"
    using elems by (intro fold_opt_total [where I = "graph_inv U procs nodes0", OF _ inv] bridge_inv n p) auto
  then obtain nodes1 where n1: "fold_opt (bridge P n p) (ptr_set_elems (succ (nodes n))) nodes = Some nodes1"
    "graph_inv U procs nodes0 nodes1" by blast
  with succ_remove_inv [OF n1(2) U(2,1)] False show ?thesis by (auto simp: bridge_pred_def)
qed

lemma bridge_proc_inv:
  assumes inv: "graph_inv U procs nodes0 nodes" and n: "n \<in> procs"
  shows "\<exists>nodes'. bridge_proc P n nodes = Some nodes' \<and> graph_inv U procs nodes0 nodes'"
proof -
  have "n \<in> U" using inv n by (auto simp: graph_inv_def)
  then have "ptr_set_ok (pred (nodes n))" "ptr_set_abs (pred (nodes n)) \<subseteq> procs"
    using graph_inv_node [OF inv] by (simp_all add: node_ok_def)
  then have "set (ptr_set_elems (pred (nodes n))) \<subseteq> procs" using ps.elems by simp
  then show ?thesis
    unfolding bridge_proc_def by (intro fold_opt_total [where I = "graph_inv U procs nodes0", OF _ inv] bridge_pred_inv n) auto
qed

lemma count_deps_inv:
  assumes "graph_inv U procs nodes0 nodes" and "set G \<subseteq> U - procs"
  shows "graph_inv U procs nodes0 (count_deps i G nodes)"
  using assms
proof (induction G arbitrary: i nodes)
  case (Cons n G)
  let ?node = "(nodes n)\<lparr>index := i, dep_count := int (count (succ (nodes n)))\<rparr>"
  have n: "n \<in> U" "n \<notin> procs" using Cons.prems by auto
  note ok = graph_inv_node [OF Cons.prems(1) n(1)]
  have "count (succ (nodes n)) = 0" using ok n(2) ps.size_of [of "succ (nodes n)"] by (simp add: node_ok_def)
  with ok have "node_ok U procs n ?node" by (simp add: node_ok_def)
  then have "graph_inv U procs nodes0 (nodes(n := ?node))"
    by (intro graph_inv_update [OF Cons.prems(1)]) simp_all
  moreover have "set G \<subseteq> U - procs" using Cons.prems(2) by simp
  ultimately show ?case using Cons.IH unfolding count_deps.simps by blast
qed simp

subsection \<open>The generator\<close>

text \<open>The listed entities that are global variables.\<close>

definition is_global_var :: "program \<Rightarrow> ptr \<Rightarrow> bool" where
  "is_global_var P e \<longleftrightarrow> e \<noteq> 0 \<and> kind (entity_at P e) = Entity_Variable \<and> pkg (entity_at P e) \<noteq> 0"

lemma global_var_dependency:
  "kind (entity_at P e) = Entity_Variable \<Longrightarrow>
   is_entity_a_dependency (entity_at P e) \<longleftrightarrow> pkg (entity_at P e) \<noteq> 0"
  by (simp add: is_entity_a_dependency_def)

lemma vars_dom:
  assumes "maps_inv P alloc entities st"
  shows "dom (map_abs (M_vars st)) = {e \<in> set entities. is_global_var P e}"
proof -
  have M: "M_get Entity_Variable st = M_vars st" by (simp add: M_get_def)
  show ?thesis
  proof (intro set_eqI iffI)
    fix e assume "e \<in> dom (map_abs (M_vars st))"
    then obtain n where "map_abs (M_get Entity_Variable st) e = Some n" using M by auto
    from maps_invD [OF assms this] show "e \<in> {e \<in> set entities. is_global_var P e}"
      by (auto simp: is_global_var_def same_map_def global_var_dependency)
  next
    fix e assume "e \<in> {e \<in> set entities. is_global_var P e}"
    then have e: "e \<in> set entities" "e \<noteq> 0" "kind (entity_at P e) = Entity_Variable"
      "is_entity_a_dependency (entity_at P e)"
      by (auto simp: is_global_var_def global_var_dependency)
    then have "e \<in> dom (map_abs (M_get (kind (entity_at P e)) st))"
      using maps_domI [OF assms] by blast
    with e(3) M show "e \<in> dom (map_abs (M_vars st))" by simp
  qed
qed

lemma generate_total:
  assumes wl: "well_linked P alloc entities"
  obtains st G nodes where "generate_entity_dependency_graph P alloc entities = Some (G, nodes)"
    and "graph_inv (node_set st) (proc_nodes st) (nodes_of st) nodes"
    and "set G \<subseteq> node_set st - proc_nodes st"
    and "distinct (map (\<lambda>n. entity (nodes n)) G)"
    and "set (map (\<lambda>n. entity (nodes n)) G) = {e \<in> set entities. is_global_var P e}"
proof -
  obtain st0 st where st: "init_maps (length entities) = Some st0"
    "fold_opt (add_node P alloc) entities st0 = Some st" and inv: "maps_inv P alloc entities st"
    using maps_total [OF wl] .
  let ?I = "graph_inv (node_set st) (proc_nodes st) (nodes_of st)"
  have ok: "map_ok (M_procs st)" "map_ok (M_vars st)"
    using inv [unfolded maps_inv_def, THEN conjunct2, THEN conjunct1, THEN spec [of _ Entity_Procedure]]
      inv [unfolded maps_inv_def, THEN conjunct2, THEN conjunct1, THEN spec [of _ Entity_Variable]]
    by (simp_all add: M_get_def)
  define procs where "procs = map snd (map_entries (M_procs st))"
  define G where "G = map snd (map_entries (M_vars st))"
  have procs: "set procs = proc_nodes st"
    using map_entries_set [OF ok(1)] by (force simp: procs_def proc_nodes_def ran_def)
  obtain nodes1 where n1: "fold_opt (connect_proc P st) procs (nodes_of st) = Some nodes1" "?I nodes1"
    using fold_opt_total [where I = ?I and f = "connect_proc P st" and xs = procs, OF _ graph_inv_start [OF wl inv]]
      connect_proc_inv [OF _ _ wl inv] procs by blast
  obtain nodes2 where n2: "fold_opt (bridge_proc P) procs nodes1 = Some nodes2" "?I nodes2"
    using fold_opt_total [where I = ?I and f = "bridge_proc P" and xs = procs, OF _ n1(2)]
      bridge_proc_inv procs by blast
  have var: "map_abs (M_get Entity_Variable st) (fst d) = Some (snd d)" if "d \<in> set (map_entries (M_vars st))" for d
    using map_entries_set [OF ok(2)] that by (auto simp: M_get_def)
  note ent = maps_nodes(5) [OF wl inv var]
  have GU: "set G \<subseteq> node_set st - proc_nodes st"
  proof
    fix n assume "n \<in> set G"
    then obtain d where d: "d \<in> set (map_entries (M_vars st))" "n = snd d" by (auto simp: G_def)
    have nU: "n \<in> node_set st" using var [OF d(1)] d(2) by (auto simp: node_set_def ran_def)
    moreover have "same_map (kind (entity_at P (entity (nodes_of st n)))) Entity_Variable"
      using maps_invD [OF inv var [OF d(1)]] ent [OF d(1)] d(2) by simp
    then have "kind (entity_at P (entity (nodes_of st n))) \<noteq> Entity_Procedure" by (auto simp: same_map_def)
    ultimately show "n \<in> node_set st - proc_nodes st" using maps_nodes(6) [OF wl inv nU] by blast
  qed
  note final = count_deps_inv [OF n2(2) GU, of 0]
  have "map (\<lambda>n. entity (count_deps 0 G nodes2 n)) G = map fst (map_entries (M_vars st))"
    using final ent by (simp add: graph_inv_def G_def)
  moreover have "set (map fst (map_entries (M_vars st))) = dom (map_abs (M_vars st))"
    using map_entries_set [OF ok(2)] by (force simp: dom_def)
  moreover have "generate_entity_dependency_graph P alloc entities = Some (G, count_deps 0 G nodes2)"
    using st n1(1) n2(1)
    by (simp add: generate_entity_dependency_graph_def procs_def [symmetric] G_def [symmetric])
  ultimately show ?thesis
    using that [OF _ final GU] map_entries_distinct [OF ok(2)] vars_dom [OF inv] by simp
qed

end
