(* ===== verification/Init_Order.thy ===== *)
theory Init_Order
  imports Dep_Graph "HOL-Library.Product_Lexorder"
begin

text \<open>
  The order in which global variables are initialized (\<^verbatim>\<open>src/checker.cpp\<close>,
  \<open>calculate_global_init_order\<close>): the nodes of the dependency graph are taken from a priority
  queue ordered by the number of dependencies left and then by position in the source. The report
  of a cyclic initialization is the list of its diagnostics.
\<close>

subsection \<open>Comparing and exchanging graph nodes\<close>

type_synonym entity_queue = "(ptr, nodes) priority_queue"

definition entity_graph_node_cmp :: "program \<Rightarrow> entity_queue \<Rightarrow> nat \<Rightarrow> nat \<Rightarrow> int" where
  "entity_graph_node_cmp P pq i j =
     (let x = mem pq (queue pq ! i); y = mem pq (queue pq ! j);
          a = order_in_src (entity_at P (entity x)); b = order_in_src (entity_at P (entity y))
      in if dep_count x < dep_count y then -1
         else if dep_count x = dep_count y then if a < b then -1 else of_bool (b > a)
         else 1)"

definition entity_graph_node_swap :: "entity_queue \<Rightarrow> nat \<Rightarrow> nat \<Rightarrow> entity_queue" where
  "entity_graph_node_swap pq i j =
     (let x = queue pq ! i; y = queue pq ! j;
          m = (mem pq)(x := (mem pq x)\<lparr>index := j\<rparr>);
          m = m(y := (m y)\<lparr>index := i\<rparr>)
      in pq\<lparr>queue := (queue pq)[i := y, j := x], mem := m\<rparr>)"

text \<open>The key that the comparison orders by.\<close>

definition node_rank :: "program \<Rightarrow> nodes \<Rightarrow> ptr \<Rightarrow> int \<times> 64 word" where
  "node_rank P nodes n = (dep_count (nodes n), order_in_src (entity_at P (entity (nodes n))))"

interpretation eq: pq_client "entity_graph_node_cmp P" entity_graph_node_swap "node_rank P" for P
  by unfold_locales
     (auto simp: entity_graph_node_cmp_def entity_graph_node_swap_def node_rank_def Let_def swap_at_def
       less_prod_def')

subsection \<open>Looking for a cycle\<close>

text \<open>
  \<open>find_entity_path\<close> searches depth first for a chain of dependencies from \<open>start\<close> to \<open>end\<close>; it
  returns the chain backwards, empty if there is none, and marks the entities it has seen. For a
  procedure it follows the declarations of the variables in the parameter and result tuples. The
  first argument bounds the depth of the calls.
\<close>

fun find_entity_path :: "nat \<Rightarrow> program \<Rightarrow> ptr \<Rightarrow> ptr \<Rightarrow> ptr_set \<Rightarrow> (ptr list \<times> ptr_set) option"
  and find_entity_path_deps :: "nat \<Rightarrow> program \<Rightarrow> ptr list \<Rightarrow> ptr \<Rightarrow> ptr_set \<Rightarrow> (ptr list \<times> ptr_set) option"
  and find_entity_path_tuple :: "nat \<Rightarrow> program \<Rightarrow> ptr list \<Rightarrow> ptr \<Rightarrow> ptr_set \<Rightarrow> (ptr list \<times> ptr_set) option"
where
  "find_entity_path 0 P start target visited = None"
| "find_entity_path (Suc f) P start target visited =
     (case ptr_set_update visited start of
        None \<Rightarrow> None
      | Some (visited, seen) \<Rightarrow>
          if seen then Some ([], visited)
          else if decl_info (entity_at P start) = 0 then Some ([], visited)
          else if kind (entity_at P start) = Entity_Procedure then
            (case proc_type_of (entity_at P start) of
               None \<Rightarrow> None
             | Some t \<Rightarrow>
                 (case find_entity_path_tuple f P (case params t of None \<Rightarrow> [] | Some vs \<Rightarrow> vs) target visited of
                    None \<Rightarrow> None
                  | Some (path, visited) \<Rightarrow>
                      if path \<noteq> [] then Some (path, visited)
                      else find_entity_path_tuple f P (case results t of None \<Rightarrow> [] | Some vs \<Rightarrow> vs) target visited))
          else find_entity_path_deps f P (ptr_set_elems (deps_at P (decl_info (entity_at P start)))) target visited)"
| "find_entity_path_deps f P [] target visited = Some ([], visited)"
| "find_entity_path_deps f P (dep # deps) target visited =
     (if dep = target then Some ([dep], visited)
      else
        case find_entity_path f P dep target visited of
          None \<Rightarrow> None
        | Some (next_path, visited) \<Rightarrow>
            if next_path \<noteq> [] then Some (next_path @ [dep], visited)
            else find_entity_path_deps f P deps target visited)"
| "find_entity_path_tuple f P [] target visited = Some ([], visited)"
| "find_entity_path_tuple f P (var # vars) target visited =
     (let decl = decl_info (entity_at P var)
      in if decl = 0 then find_entity_path_tuple f P vars target visited
         else
           case find_entity_path_deps f P (ptr_set_elems (deps_at P decl)) target visited of
             None \<Rightarrow> None
           | Some (path, visited) \<Rightarrow>
               if path \<noteq> [] then Some (path, visited)
               else find_entity_path_tuple f P vars target visited)"

subsection \<open>The main loop\<close>

datatype init_error =
  Cyclic_initialization ptr \<comment> \<open>"Cyclic initialization of ..."\<close>
| Refers_to ptr \<comment> \<open>"... refers to"\<close>
| Cycle_end ptr

fun report_refers :: "ptr \<Rightarrow> ptr list \<Rightarrow> init_error list" where
  "report_refers e [] = [Cycle_end e]"
| "report_refers e (d # ds) = Refers_to e # report_refers d ds"

text \<open>The path is walked from its last element to its first.\<close>

definition report_cycle :: "ptr list \<Rightarrow> init_error list" where
  "report_cycle path =
     (if path = [] then []
      else Cyclic_initialization (hd path) # report_refers (hd path) (rev path))"

text \<open>One predecessor of the node just taken: its count goes down and its place is repaired.\<close>

definition release_pred :: "program \<Rightarrow> ptr \<Rightarrow> entity_queue \<Rightarrow> entity_queue" where
  "release_pred P p pq =
     (let m = (mem pq)(p := (mem pq p)\<lparr>dep_count := max (dep_count (mem pq p) - 1) 0\<rparr>)
      in priority_queue_fix (entity_graph_node_cmp P) entity_graph_node_swap (pq\<lparr>mem := m\<rparr>) (index (m p)))"

record init_state =
  pq :: entity_queue
  emitted :: ptr_set
  variable_init_order :: "ptr list"
  init_errors :: "init_error list"

definition init_errors_of :: "nat \<Rightarrow> program \<Rightarrow> nodes \<Rightarrow> ptr \<Rightarrow> init_error list option" where
  "init_errors_of f P nodes n =
     (if dep_count (nodes n) > 0 then
        map_option (\<lambda>(path, _). report_cycle path)
          (find_entity_path f P (entity (nodes n)) (entity (nodes n)) ptr_set_empty)
      else Some [])"

text \<open>The body of the loop; the first argument is the depth bound of the path search.\<close>

definition init_step :: "nat \<Rightarrow> program \<Rightarrow> init_state \<Rightarrow> init_state option" where
  "init_step f P s =
     (case priority_queue_pop (entity_graph_node_cmp P) entity_graph_node_swap (pq s) of
        None \<Rightarrow> None
      | Some (q, n) \<Rightarrow>
          Option.bind (init_errors_of f P (mem q) n) (\<lambda>errs.
          let e = entity (mem q n);
              q = fold (release_pred P) (ptr_set_elems (pred (mem q n))) q;
              d = decl_info_of_entity P e;
              s = s\<lparr>pq := q, init_errors := init_errors s @ errs\<rparr>
          in if kind (entity_at P e) \<noteq> Entity_Variable then Some s
             else
               case ptr_set_update (emitted s) d of
                 None \<Rightarrow> None
               | Some (em, True) \<Rightarrow> Some (s\<lparr>emitted := em\<rparr>)
               | Some (em, False) \<Rightarrow>
                   Some (s\<lparr>emitted := em, variable_init_order := variable_init_order s @ [d]\<rparr>)))"

text \<open>Every round takes one node off the queue, so as many rounds as there are nodes empty it.\<close>

fun init_loop :: "nat \<Rightarrow> nat \<Rightarrow> program \<Rightarrow> init_state \<Rightarrow> init_state option" where
  "init_loop rounds f P s =
     (if length (queue (pq s)) > 0 then
        (case rounds of
           0 \<Rightarrow> None
         | Suc r \<Rightarrow> Option.bind (init_step f P s) (init_loop r f P))
      else Some s)"

declare init_loop.simps [simp del]

definition calculate_global_init_order ::
  "nat \<Rightarrow> program \<Rightarrow> (nat \<Rightarrow> ptr) \<Rightarrow> ptr list \<Rightarrow> (ptr list \<times> init_error list) option" where
  "calculate_global_init_order f P alloc entities =
     Option.bind (generate_entity_dependency_graph P alloc entities) (\<lambda>(dep_graph, nodes).
     let q = priority_queue_create (entity_graph_node_cmp P) entity_graph_node_swap dep_graph nodes
     in map_option (\<lambda>s. (variable_init_order s, init_errors s))
          (init_loop (length dep_graph) f P
            \<lparr>pq = q, emitted = ptr_set_empty, variable_init_order = [], init_errors = []\<rparr>))"

subsection \<open>What each round keeps\<close>

text \<open>The elements of a list in the order of their first occurrence.\<close>

fun firsts :: "'a list \<Rightarrow> 'a list" where
  "firsts [] = []"
| "firsts (x # xs) = x # filter (\<lambda>y. y \<noteq> x) (firsts xs)"

definition queue_ok :: "program \<Rightarrow> ptr set \<Rightarrow> ptr set \<Rightarrow> nodes \<Rightarrow> entity_queue \<Rightarrow> bool" where
  "queue_ok P U procs nodes0 q \<longleftrightarrow>
     eq.is_heap P q \<and> graph_inv U procs nodes0 (mem q) \<and> set (queue q) \<subseteq> U - procs"

lemma graph_inv_index:
  "graph_inv U procs nodes0 nodes \<Longrightarrow> graph_inv U procs nodes0 (nodes(n := (nodes n)\<lparr>index := i\<rparr>))"
  by (auto simp: graph_inv_def node_ok_def)

lemma graph_inv_swap_closed: "swap_closed entity_graph_node_swap (\<lambda>q. graph_inv U procs nodes0 (mem q))"
proof -
  have "graph_inv U procs nodes0 (mem (entity_graph_node_swap q i j))" if "graph_inv U procs nodes0 (mem q)" for q i j
    using graph_inv_index [OF graph_inv_index [OF that, of "queue q ! i" j], of "queue q ! j" i]
    by (simp add: entity_graph_node_swap_def Let_def)
  then show ?thesis by (simp add: swap_closed_def)
qed

lemma queue_swap_closed: "swap_closed entity_graph_node_swap (\<lambda>q. mset (queue q) = M)"
  by (rule eq.swap_closed_mset)

lemma release_pred_ok:
  assumes q: "queue_ok P U procs nodes0 q" and p: "p \<in> procs"
  shows "queue_ok P U procs nodes0 (release_pred P p q)"
    and "mset (queue (release_pred P p q)) = mset (queue q)"
proof -
  define m where "m = (mem q)(p := (mem q p)\<lparr>dep_count := max (dep_count (mem q p) - 1) 0\<rparr>)"
  let ?r = "priority_queue_fix (entity_graph_node_cmp P) entity_graph_node_swap (q\<lparr>mem := m\<rparr>) (index (m p))"
  have r: "release_pred P p q = ?r" by (simp add: release_pred_def m_def Let_def)
  have calm: "graph_inv U procs nodes0 m"
    using q p by (auto simp: queue_ok_def graph_inv_def node_ok_def m_def)
  have "node_rank P m x = node_rank P (mem q) x" if "x \<in> set (queue q)" for x
    using q p that by (auto simp: queue_ok_def node_rank_def m_def)
  then have "eq.is_heap P (q\<lparr>mem := m\<rparr>)"
    using q by (intro eq.is_heap_cong [of "q\<lparr>mem := m\<rparr>" q]) (auto simp: queue_ok_def)
  then have heap: "eq.is_heap P ?r" by (rule eq.fix_is_heap)
  have calm': "graph_inv U procs nodes0 (mem ?r)"
    by (rule eq.fix_keeps [OF graph_inv_swap_closed]) (simp add: calm)
  have mset: "mset (queue ?r) = mset (queue q)"
    by (rule eq.fix_keeps [OF queue_swap_closed]) simp
  then have "set (queue ?r) = set (queue q)" by (rule mset_eq_setD)
  with heap calm' q show "queue_ok P U procs nodes0 (release_pred P p q)"
    by (simp add: r queue_ok_def)
  show "mset (queue (release_pred P p q)) = mset (queue q)" using mset r by simp
qed

lemma release_preds_ok:
  assumes "queue_ok P U procs nodes0 q" and "set ps \<subseteq> procs"
  shows "queue_ok P U procs nodes0 (fold (release_pred P) ps q) \<and>
    mset (queue (fold (release_pred P) ps q)) = mset (queue q)"
  using assms
proof (induction ps arbitrary: q)
  case (Cons p ps)
  then have p: "p \<in> procs" by simp
  with Cons.IH [OF release_pred_ok(1) [OF Cons.prems(1) p]] Cons.prems show ?case
    by (simp add: release_pred_ok(2) [OF Cons.prems(1) p])
qed simp

subsection \<open>One round, and all of them\<close>

text \<open>The declarations emitted so far are those in the order, and they are declarations of nodes.\<close>

definition decl_of :: "program \<Rightarrow> nodes \<Rightarrow> ptr \<Rightarrow> ptr" where
  "decl_of P nodes0 n = decl_info (entity_at P (entity (nodes0 n)))"

definition emitted_ok :: "program \<Rightarrow> ptr set \<Rightarrow> nodes \<Rightarrow> init_state \<Rightarrow> bool" where
  "emitted_ok P U nodes0 s \<longleftrightarrow>
     ptr_set_ok (emitted s) \<and> ptr_set_abs (emitted s) = set (variable_init_order s) \<and>
     set (variable_init_order s) \<subseteq> decl_of P nodes0 ` U"

text \<open>The nodes that are not procedures are variables with a declaration.\<close>

definition var_nodes_ok :: "program \<Rightarrow> nodes \<Rightarrow> ptr set \<Rightarrow> bool" where
  "var_nodes_ok P nodes0 V \<longleftrightarrow>
     (\<forall>n\<in>V. is_global_var P (entity (nodes0 n)) \<and> live (decl_of P nodes0 n))"

lemma init_step_total:
  assumes q: "queue_ok P U procs nodes0 (pq s)" and em: "emitted_ok P U nodes0 s"
    and vars: "var_nodes_ok P nodes0 (set (queue (pq s)))" and ne: "queue (pq s) \<noteq> []"
  obtains s' n where "init_step f P s = Some s'" and "mset (queue (pq s)) = add_mset n (mset (queue (pq s')))"
    and "queue_ok P U procs nodes0 (pq s')" and "emitted_ok P U nodes0 s'" and "init_errors s' = init_errors s"
    and "\<forall>m\<in>set (queue (pq s)).
      order_in_src (entity_at P (entity (nodes0 n))) \<le> order_in_src (entity_at P (entity (nodes0 m)))"
    and "variable_init_order s' = variable_init_order s @
      (if decl_of P nodes0 n \<in> set (variable_init_order s) then [] else [decl_of P nodes0 n])"
proof -
  have heap: "eq.is_heap P (pq s)" and calm: "graph_inv U procs nodes0 (mem (pq s))"
    and sub: "set (queue (pq s)) \<subseteq> U - procs"
    using q by (simp_all add: queue_ok_def)
  obtain q1 n where pop: "priority_queue_pop (entity_graph_node_cmp P) entity_graph_node_swap (pq s) = Some (q1, n)"
    and ms: "mset (queue (pq s)) = add_mset n (mset (queue q1))" and h1: "eq.is_heap P q1"
    and least: "\<forall>y\<in>set (queue (pq s)). node_rank P (mem (pq s)) n \<le> node_rank P (mem (pq s)) y"
    and m1: "mem q1 = mem (eq.pop_state P (pq s))"
    by (rule eq.pop_correct [OF heap ne])
  have calm1: "graph_inv U procs nodes0 (mem q1)"
    unfolding m1 by (rule eq.pop_state_keeps [OF ne graph_inv_swap_closed calm])
  have set1: "set (queue (pq s)) = insert n (set (queue q1))" using ms by (metis set_mset_add_mset_insert set_mset_mset)
  then have n: "n \<in> set (queue (pq s))" "n \<in> U" "n \<notin> procs" using sub by auto
  have q1: "queue_ok P U procs nodes0 q1" using h1 calm1 set1 sub by (simp add: queue_ok_def)
  have inv1: "graph_inv U procs nodes0 (mem q1)" and d0: "dep_count (mem q1 n) = 0"
    using calm1 n by (auto simp: graph_inv_def node_ok_def)
  have ent: "entity (mem q1 m) = entity (nodes0 m)" "entity (mem (pq s) m) = entity (nodes0 m)" for m
    using inv1 calm by (simp_all add: graph_inv_def)
  let ?ps = "ptr_set_elems (pred (mem q1 n))"
  have "set ?ps \<subseteq> procs"
    using graph_inv_node [OF inv1 n(2)] ps.elems by (simp add: node_ok_def)
  note rel = release_preds_ok [OF q1 this]
  let ?q = "fold (release_pred P) ?ps q1" and ?e = "entity (nodes0 n)" and ?d = "decl_of P nodes0 n"
  have var: "is_global_var P ?e" "live ?d" using vars n(1) by (auto simp: var_nodes_ok_def)
  have errs: "init_errors_of f P (mem q1) n = Some []" using d0 by (simp add: init_errors_of_def)
  have decl: "decl_info_of_entity P ?e = ?d" "kind (entity_at P ?e) = Entity_Variable"
    using var(1) by (simp_all add: decl_info_of_entity_def is_global_var_def decl_of_def)
  have "insert ?d (ptr_set_abs (emitted s)) \<subseteq> decl_of P nodes0 ` U" using em n(2) by (simp add: emitted_ok_def)
  then have "card (insert ?d (ptr_set_abs (emitted s))) \<le> card U"
    using inv1 by (intro surj_card_le) (auto simp: graph_inv_def)
  then have le: "card (insert ?d (ptr_set_abs (emitted s))) \<le> 2 ^ 32" using inv1 by (simp add: graph_inv_def)
  have okE: "ptr_set_ok (emitted s)" using em by (simp add: emitted_ok_def)
  obtain em' where em': "ptr_set_update (emitted s) ?d = Some (em', ?d \<in> ptr_set_abs (emitted s))"
    "ptr_set_ok em'" "ptr_set_abs em' = insert ?d (ptr_set_abs (emitted s))"
    using ptr_set_update_total [OF okE var(2) le] by blast
  let ?s = "s\<lparr>pq := ?q, emitted := em', variable_init_order := variable_init_order s @
    (if ?d \<in> set (variable_init_order s) then [] else [?d])\<rparr>"
  have abs: "ptr_set_abs (emitted s) = set (variable_init_order s)" using em by (simp add: emitted_ok_def)
  have "init_step f P s = Some ?s"
    using pop errs decl em'(1) abs by (cases "?d \<in> set (variable_init_order s)") (simp_all add: init_step_def ent)
  moreover have "emitted_ok P U nodes0 ?s" using em em' abs n(2) by (auto simp: emitted_ok_def)
  moreover have "\<forall>m\<in>set (queue (pq s)). order_in_src (entity_at P ?e) \<le> order_in_src (entity_at P (entity (nodes0 m)))"
  proof
    fix m assume m: "m \<in> set (queue (pq s))"
    then have "dep_count (mem (pq s) m) = 0" "dep_count (mem (pq s) n) = 0" using calm sub n(1)
      by (auto simp: graph_inv_def node_ok_def)
    with least m show "order_in_src (entity_at P ?e) \<le> order_in_src (entity_at P (entity (nodes0 m)))"
      by (auto simp: node_rank_def ent)
  qed
  ultimately show ?thesis using that [of ?s n] rel ms by simp
qed

lemma firsts_filter: "firsts (filter Q xs) = filter Q (firsts xs)"
proof (induction xs)
  case (Cons x xs)
  have "filter (\<lambda>y. y \<noteq> x) (filter Q (firsts xs)) = filter Q (filter (\<lambda>y. y \<noteq> x) (firsts xs))"
    by (simp add: conj_commute)
  moreover have "filter Q (filter (\<lambda>y. y \<noteq> x) (firsts xs)) = filter Q (firsts xs)" if "\<not> Q x"
    using that by (auto intro!: filter_cong)
  ultimately show ?case using Cons by auto
qed simp

lemma set_firsts [simp]: "set (firsts xs) = set xs"
  by (induction xs) auto

lemma distinct_firsts [simp]: "distinct (firsts xs)"
  by (induction xs) auto

text \<open>Appending the new ones of \<open>x # xs\<close>, one at a time.\<close>

lemma firsts_step:
  "order @ filter (\<lambda>y. y \<notin> set order) (firsts (x # xs)) =
   (let order' = order @ (if x \<in> set order then [] else [x])
    in order' @ filter (\<lambda>y. y \<notin> set order') (firsts xs))"
  by (auto simp: Let_def intro!: filter_cong)

lemma init_loop_total:
  assumes "queue_ok P U procs nodes0 (pq s)" and "emitted_ok P U nodes0 s"
    and "var_nodes_ok P nodes0 (set (queue (pq s)))" and "length (queue (pq s)) \<le> r"
  shows "\<exists>s' ns. init_loop r f P s = Some s' \<and> mset ns = mset (queue (pq s)) \<and>
    sorted (map (\<lambda>n. order_in_src (entity_at P (entity (nodes0 n)))) ns) \<and> init_errors s' = init_errors s \<and>
    variable_init_order s' = variable_init_order s @
      filter (\<lambda>d. d \<notin> set (variable_init_order s)) (firsts (map (decl_of P nodes0) ns))"
  using assms
proof (induction r arbitrary: s)
  case 0
  then have "queue (pq s) = []" by simp
  then show ?case by (intro exI [of _ s] exI [of _ "[]"]) (simp add: init_loop.simps)
next
  case (Suc r)
  show ?case
  proof (cases "queue (pq s) = []")
    case True
    then show ?thesis by (intro exI [of _ s] exI [of _ "[]"]) (simp add: init_loop.simps)
  next
    case False
    obtain s1 n where s1: "init_step f P s = Some s1" "mset (queue (pq s)) = add_mset n (mset (queue (pq s1)))"
      "queue_ok P U procs nodes0 (pq s1)" "emitted_ok P U nodes0 s1" "init_errors s1 = init_errors s"
      "\<forall>m\<in>set (queue (pq s)).
        order_in_src (entity_at P (entity (nodes0 n))) \<le> order_in_src (entity_at P (entity (nodes0 m)))"
      "variable_init_order s1 = variable_init_order s @
        (if decl_of P nodes0 n \<in> set (variable_init_order s) then [] else [decl_of P nodes0 n])"
      by (rule init_step_total [OF Suc.prems(1-3) False])
    have set: "set (queue (pq s)) = insert n (set (queue (pq s1)))"
      using s1(2) by (metis set_mset_add_mset_insert set_mset_mset)
    have "length (queue (pq s)) = Suc (length (queue (pq s1)))"
      using s1(2) by (metis size_mset size_add_mset)
    then have "length (queue (pq s1)) \<le> r" using Suc.prems(4) by simp
    moreover have "var_nodes_ok P nodes0 (set (queue (pq s1)))"
      using Suc.prems(3) set by (simp add: var_nodes_ok_def)
    ultimately obtain s' ns where ns: "init_loop r f P s1 = Some s'" "mset ns = mset (queue (pq s1))"
      "sorted (map (\<lambda>n. order_in_src (entity_at P (entity (nodes0 n)))) ns)" "init_errors s' = init_errors s1"
      "variable_init_order s' = variable_init_order s1 @
        filter (\<lambda>d. d \<notin> set (variable_init_order s1)) (firsts (map (decl_of P nodes0) ns))"
      using Suc.IH [OF s1(3,4)] by blast
    have "init_loop (Suc r) f P s = Some s'" using False s1(1) ns(1) by (simp add: init_loop.simps)
    moreover have "set ns = set (queue (pq s1))" using ns(2) by (rule mset_eq_setD)
    then have "sorted (map (\<lambda>n. order_in_src (entity_at P (entity (nodes0 n)))) (n # ns))"
      using ns(3) s1(6) set by simp
    moreover have "variable_init_order s' = variable_init_order s @
        filter (\<lambda>d. d \<notin> set (variable_init_order s)) (firsts (map (decl_of P nodes0) (n # ns)))"
      unfolding list.map firsts_step Let_def using ns(5) s1(7) by simp
    ultimately show ?thesis using s1(2,5) ns(2,4) by (intro exI [of _ s'] exI [of _ "n # ns"]) simp
  qed
qed


text \<open>
  A program of two variables and a procedure. The first variable (entity 1, declaration 11) is
  initialized with the second (entity 2, declaration 12); the procedure reads the first.
\<close>

definition demo_deps :: "ptr \<Rightarrow> ptr_set" where
  "demo_deps p = the (ptr_set_add ptr_set_empty p)"

definition demo_entity :: "entity_kind \<Rightarrow> ptr \<Rightarrow> 64 word \<Rightarrow> entity" where
  "demo_entity k d pos =
     \<lparr>kind = k, is_field = False, pkg = 100, decl_info = d, order_in_src = pos, proc_type_of = None\<rparr>"

definition demo_program :: program where
  "demo_program =
     \<lparr>entity_at = (\<lambda>e. if e = 1 then demo_entity Entity_Variable 11 1
                     else if e = 2 then demo_entity Entity_Variable 12 2
                     else demo_entity Entity_Procedure 13 3),
      deps_at = (\<lambda>d. if d = 11 then demo_deps 2 else if d = 13 then demo_deps 1 else ptr_set_empty)\<rparr>"

definition demo_alloc :: "nat \<Rightarrow> ptr" where
  "demo_alloc i = word_of_nat (4096 + i)"

lemma demo_deps_ok:
  assumes "live p"
  shows "ptr_set_ok (demo_deps p)" and "ptr_set_abs (demo_deps p) = {p}"
proof -
  have "card (insert p (ptr_set_abs ptr_set_empty)) \<le> 2 ^ 32" by (simp add: ps.empty(2))
  from ps.add [OF ps.empty(1) assms this] obtain s where s: "ptr_set_add ptr_set_empty p = Some s"
    "ptr_set_ok s" "ptr_set_abs s = insert p (ptr_set_abs ptr_set_empty)" by blast
  then show "ptr_set_ok (demo_deps p)" "ptr_set_abs (demo_deps p) = {p}"
    by (simp_all add: demo_deps_def ps.empty(2))
qed

lemma demo_live: "live 1" "live 2" "live 3" "live 11" "live 12"
  by (simp_all add: live_def TOMBSTONE_def)

lemma demo_alloc_ok: "inj_on demo_alloc {..<3}" "\<forall>i<3. live (demo_alloc i)"
proof -
  have "{..<3} = {0, 1, 2::nat}" by auto
  then show "inj_on demo_alloc {..<3}" by (simp add: demo_alloc_def)
  have "live (demo_alloc 0)" "live (demo_alloc 1)" "live (demo_alloc 2)"
    by (simp_all add: demo_alloc_def live_def TOMBSTONE_def)
  moreover have "i = 0 \<or> i = 1 \<or> i = 2" if "i < 3" for i :: nat using that by auto
  ultimately show "\<forall>i<3. live (demo_alloc i)" by auto
qed

lemma demo_well_linked: "well_linked demo_program demo_alloc [1, 2, 3]"
proof -
  have d: "deps_at demo_program (decl_info (entity_at demo_program 3)) = demo_deps 1"
    and k: "kind (entity_at demo_program 1) = Entity_Variable" "kind (entity_at demo_program 2) = Entity_Variable"
      "decl_info (entity_at demo_program 3) \<noteq> 0"
    by (simp_all add: demo_program_def demo_entity_def)
  show ?thesis
    using demo_alloc_ok demo_live
    by (simp add: well_linked_def k d demo_deps_ok [OF demo_live(1)] numeral_3_eq_3)
qed

lemma demo_vars: "{e \<in> set [1, 2, 3]. is_global_var demo_program e} = {1, 2}"
  by (auto simp: is_global_var_def demo_program_def demo_entity_def)


subsection \<open>Back-references into the queue\<close>

text \<open>
  Every queued node knows its position; \<open>priority_queue_fix\<close> is called with that position when the
  count of a node changes.
\<close>

definition indices_ok :: "entity_queue \<Rightarrow> bool" where
  "indices_ok q \<longleftrightarrow> distinct (queue q) \<and> (\<forall>i<length (queue q). index (mem q (queue q ! i)) = i)"

lemma indices_swap_closed: "swap_closed entity_graph_node_swap indices_ok"
  unfolding swap_closed_def
proof (intro allI impI, elim conjE)
  fix q :: entity_queue and i j
  assume ij: "i < length (queue q)" "j < length (queue q)" and ok: "indices_ok q"
  let ?q = "entity_graph_node_swap q i j"
  have queue: "queue ?q = swap_at (queue q) i j"
    by (simp add: entity_graph_node_swap_def Let_def swap_at_def)
  have "index (mem ?q (queue ?q ! k)) = k" if k: "k < length (queue q)" for k
  proof -
    have d: "distinct (queue q)" using ok by (simp add: indices_ok_def)
    have neq: "queue q ! a = queue q ! b \<longleftrightarrow> a = b" if "a < length (queue q)" "b < length (queue q)" for a b
      using d that by (simp add: nth_eq_iff_index_eq)
    have "queue ?q ! k = queue q ! (if k = i then j else if k = j then i else k)"
      using ij k by (simp add: queue nth_swap_at)
    then show ?thesis
      using ok ij k neq by (auto simp: entity_graph_node_swap_def Let_def indices_ok_def)
  qed
  with ij ok show "indices_ok ?q" by (simp add: indices_ok_def queue distinct_swap_at)
qed

lemma count_deps_index:
  "distinct G \<Longrightarrow> k < length G \<Longrightarrow> index (count_deps i G nodes (G ! k)) = i + k"
proof (induction G arbitrary: i k nodes)
  case (Cons n G)
  have keep: "m \<notin> set G \<Longrightarrow> count_deps j G ns m = ns m" for m j ns
    by (induction j G ns rule: count_deps.induct) auto
  show ?case
  proof (cases k)
    case 0
    with Cons.prems keep show ?thesis by simp
  next
    case (Suc k')
    with Cons show ?thesis by simp
  qed
qed simp

lemma indices_pop:
  assumes "eq.is_heap P q" and "indices_ok q" and "queue q \<noteq> []"
    and "priority_queue_pop (entity_graph_node_cmp P) entity_graph_node_swap q = Some (q', n)"
  shows "indices_ok q'"
proof -
  have "indices_ok (eq.pop_state P q)" by (rule eq.pop_state_keeps [OF assms(3) indices_swap_closed assms(2)])
  moreover have "q' = eq.pop_state P q\<lparr>queue := butlast (queue (eq.pop_state P q))\<rparr>"
    using assms(4) by (simp add: eq.pop_eq [OF assms(3)] pq_array_pop_def)
  ultimately show ?thesis by (simp add: indices_ok_def distinct_butlast nth_butlast)
qed

text \<open>
  The back-references of the queue. Starting from a graph whose nodes hold their
  position, building the heap, popping the least node and repairing the heap at any position all
  keep it so that every queued node holds its own position in the heap array, and the popped
  node is one of least key (dependency count, then position in the source).
\<close>

theorem entity_queue_positions:
  assumes "distinct G" and "\<forall>k<length G. index (nodes (G ! k)) = k" and "G \<noteq> []"
  shows "\<exists>q' n. priority_queue_pop (entity_graph_node_cmp P) entity_graph_node_swap
      (priority_queue_create (entity_graph_node_cmp P) entity_graph_node_swap G nodes) = Some (q', n) \<and>
    mset G = add_mset n (mset (queue q')) \<and> (\<forall>m\<in>set G. node_rank P nodes n \<le> node_rank P nodes m) \<and>
    indices_ok q' \<and> indices_ok (priority_queue_fix (entity_graph_node_cmp P) entity_graph_node_swap q' i)"
proof -
  let ?q = "priority_queue_create (entity_graph_node_cmp P) entity_graph_node_swap G nodes"
  have ok: "indices_ok ?q"
    by (rule eq.create_heap(3) [OF indices_swap_closed]) (use assms in \<open>simp add: indices_ok_def\<close>)
  have ms: "mset (queue ?q) = mset G" by (rule eq.create_heap(2))
  then have set: "set (queue ?q) = set G" by (rule mset_eq_setD)
  with assms(3) have ne: "queue ?q \<noteq> []" by auto
  have rank: "\<forall>m. node_rank P (mem ?q) m = node_rank P nodes m"
    by (rule eq.create_heap(3) [OF eq.swap_closed_rank]) simp
  obtain q' n where pop: "priority_queue_pop (entity_graph_node_cmp P) entity_graph_node_swap ?q = Some (q', n)"
    "mset (queue ?q) = add_mset n (mset (queue q'))"
    "\<forall>y\<in>set (queue ?q). node_rank P (mem ?q) n \<le> node_rank P (mem ?q) y"
    by (rule eq.pop_correct [OF eq.create_heap(1) ne])
  have "indices_ok q'" by (rule indices_pop [OF eq.create_heap(1) ok ne pop(1)])
  moreover have "indices_ok (priority_queue_fix (entity_graph_node_cmp P) entity_graph_node_swap q' i)"
    by (rule eq.fix_keeps [OF indices_swap_closed \<open>indices_ok q'\<close>])
  ultimately show ?thesis using pop ms set rank by auto
qed

theorem entity_queue_positions_witness:
  "\<exists>q' n. priority_queue_pop (entity_graph_node_cmp demo_program) entity_graph_node_swap
      (priority_queue_create (entity_graph_node_cmp demo_program) entity_graph_node_swap [16, 8]
        (\<lambda>p. zero_node\<lparr>index := (if p = 16 then 0 else 1)\<rparr>)) = Some (q', n) \<and> indices_ok q'"
proof -
  have "\<forall>k<length [16, 8 :: ptr]. index ((\<lambda>p :: ptr. zero_node\<lparr>index := (if p = 16 then 0 else 1)\<rparr>) ([16, 8 :: ptr] ! k)) = k"
  proof (intro allI impI)
    fix k assume "k < length [16, 8 :: ptr]"
    then have "k = 0 \<or> k = 1" by auto
    then show "index ((\<lambda>p :: ptr. zero_node\<lparr>index := (if p = 16 then 0 else 1)\<rparr>) ([16, 8 :: ptr] ! k)) = k" by auto
  qed
  from entity_queue_positions [OF _ this, of demo_program 0] show ?thesis by auto
qed

text \<open>
  Removing an arbitrary queued node: the node at the given position is returned, the
  others stay, and the array is a heap again.
\<close>

theorem entity_queue_remove:
  assumes "eq.is_heap P q" and "i < length (queue q)"
  shows "\<exists>q'. priority_queue_remove (entity_graph_node_cmp P) entity_graph_node_swap q i = Some (q', queue q ! i) \<and>
    eq.is_heap P q' \<and> mset (queue q) = add_mset (queue q ! i) (mset (queue q'))"
  using eq.remove_correct [OF assms] by metis

theorem entity_queue_remove_witness:
  "\<exists>q'. priority_queue_remove (entity_graph_node_cmp demo_program) entity_graph_node_swap
    (priority_queue_create (entity_graph_node_cmp demo_program) entity_graph_node_swap [16] (\<lambda>_. zero_node)) 0 =
      Some (q', 16) \<and> queue q' = []"
proof -
  let ?q = "priority_queue_create (entity_graph_node_cmp demo_program) entity_graph_node_swap [16] (\<lambda>_. zero_node)"
  have q: "mset (queue ?q) = {#16#}" using eq.create_heap(2) [of demo_program "[16]"] by simp
  then have "queue ?q = [16]" by simp
  with entity_queue_remove [OF eq.create_heap(1), of 0 demo_program "[16]" "\<lambda>_. zero_node"] show ?thesis by auto
qed

end
