(* ===== verification/Range_Cache.thy ===== *)
theory Range_Cache
  imports Odin_Prelude
begin

text \<open>
  The range cache of \<^verbatim>\<open>src/range_cache.cpp\<close>, with which the checker finds array elements that a
  compound literal sets twice. A cache is the list of its ranges; both bounds are inclusive. The
  bounds are only compared, so they are unbounded integers. A failed \<^verbatim>\<open>GB_ASSERT\<close> is \<open>None\<close>.
\<close>

record range_value =
  lo :: int
  hi :: int

type_synonym range_cache = "range_value list"

definition range_cache_make :: range_cache where
  "range_cache_make = []"

text \<open>The result says whether the index, or every index of the range, is new.\<close>

fun index_in_ranges :: "range_cache \<Rightarrow> int \<Rightarrow> bool" where
  "index_in_ranges [] index = False"
| "index_in_ranges (v # vs) index =
     (if lo v \<le> index \<and> index \<le> hi v then True else index_in_ranges vs index)"

definition range_cache_add_index :: "range_cache \<Rightarrow> int \<Rightarrow> range_cache \<times> bool" where
  "range_cache_add_index c index =
     (if index_in_ranges c index then (c, False)
      else (c @ [\<lparr>lo = index, hi = index\<rparr>], True))"

text \<open>The loop widens the first range that overlaps; \<open>None\<close> if there is none.\<close>

fun widen_first :: "range_cache \<Rightarrow> int \<Rightarrow> int \<Rightarrow> range_cache option" where
  "widen_first [] l h = None"
| "widen_first (v # vs) l h =
     (if h < lo v then map_option (\<lambda>vs. v # vs) (widen_first vs l h)
      else if l > hi v then map_option (\<lambda>vs. v # vs) (widen_first vs l h)
      else
        let v = (if hi v < h then v\<lparr>hi := h\<rparr> else v);
            v = (if l < lo v then v\<lparr>lo := l\<rparr> else v)
        in Some (v # vs))"

definition range_cache_add_range :: "range_cache \<Rightarrow> int \<Rightarrow> int \<Rightarrow> (range_cache \<times> bool) option" where
  "range_cache_add_range c l h =
     (if l \<le> h then
        case widen_first c l h of
          Some c' \<Rightarrow> Some (c', False)
        | None \<Rightarrow> Some (c @ [\<lparr>lo = l, hi = h\<rparr>], True)
      else None)"

subsection \<open>The set of indices a cache stands for\<close>

definition covered :: "range_cache \<Rightarrow> int set" where
  "covered c = (\<Union>v\<in>set c. {lo v..hi v})"

definition cache_ok :: "range_cache \<Rightarrow> bool" where
  "cache_ok c \<longleftrightarrow> (\<forall>v\<in>set c. lo v \<le> hi v)"

lemma covered_simps [simp]:
  "covered [] = {}" "covered (v # vs) = {lo v..hi v} \<union> covered vs"
  "covered (c @ d) = covered c \<union> covered d"
  by (auto simp: covered_def)

lemma cache_ok_simps [simp]:
  "cache_ok []" "cache_ok (v # vs) \<longleftrightarrow> lo v \<le> hi v \<and> cache_ok vs" "cache_ok (c @ d) \<longleftrightarrow> cache_ok c \<and> cache_ok d"
  by (auto simp: cache_ok_def)

lemma index_in_ranges: "index_in_ranges c i \<longleftrightarrow> i \<in> covered c"
  by (induction c i rule: index_in_ranges.induct) auto

lemma widen_first_None: "widen_first c l h = None \<longleftrightarrow> (\<forall>v\<in>set c. h < lo v \<or> hi v < l)"
  by (induction c l h rule: widen_first.induct) (auto simp: Let_def)

lemma disjoint_iff:
  assumes "cache_ok c" and "l \<le> h"
  shows "(\<forall>v\<in>set c. h < lo v \<or> hi v < l) \<longleftrightarrow> {l..h} \<inter> covered c = {}"
  using assms by (induction c) (auto simp: disjoint_iff not_less, smt (verit))

lemma widen_first_covered:
  assumes "widen_first c l h = Some c'" and "l \<le> h" and "cache_ok c"
  shows "covered c' = covered c \<union> {l..h}" and "cache_ok c'"
  using assms
  by (induction c l h arbitrary: c' rule: widen_first.induct) (auto simp: Let_def split: if_splits)

text \<open>
  Adding an index reports whether it is new, records exactly it, and keeps the ranges
  non-empty.
\<close>

theorem range_cache_add_index_correct:
  "snd (range_cache_add_index c i) = (i \<notin> covered c) \<and>
   covered (fst (range_cache_add_index c i)) = insert i (covered c) \<and>
   cache_ok (fst (range_cache_add_index c i)) = cache_ok c"
  by (auto simp: range_cache_add_index_def index_in_ranges)

text \<open>
  Property C30. The duplicate check for ranges. Adding a range never fails for a range that is not
  empty; it reports a new range exactly when no index of it is covered yet, and afterwards the
  cache stands for the union of the two, although a range that overlaps several recorded ones is
  merged into the first of them only.
\<close>

theorem range_cache_add_range_correct:
  assumes "cache_ok c" and "l \<le> h"
  shows "\<exists>c'. range_cache_add_range c l h = Some (c', {l..h} \<inter> covered c = {}) \<and>
    cache_ok c' \<and> covered c' = covered c \<union> {l..h}"
proof (cases "widen_first c l h")
  case None
  with assms have "{l..h} \<inter> covered c = {}" using disjoint_iff widen_first_None by blast
  with None assms show ?thesis by (simp add: range_cache_add_range_def)
next
  case (Some c')
  then have "widen_first c l h \<noteq> None" by simp
  then have "{l..h} \<inter> covered c \<noteq> {}" using assms disjoint_iff widen_first_None by metis
  with Some assms widen_first_covered [OF Some assms(2,1)] show ?thesis
    by (simp add: range_cache_add_range_def)
qed

theorem range_cache_add_range_correct_witness:
  "\<exists>c'. range_cache_add_range [\<lparr>lo = 0, hi = 3\<rparr>, \<lparr>lo = 6, hi = 9\<rparr>] 2 7 = Some (c', False) \<and>
    covered c' = {0..9}"
proof -
  have ok: "cache_ok [\<lparr>lo = 0, hi = 3\<rparr>, \<lparr>lo = 6, hi = 9\<rparr>]" "(2::int) \<le> 7" by simp_all
  have "{2..7} \<inter> covered [\<lparr>lo = 0, hi = 3\<rparr>, \<lparr>lo = 6, hi = 9\<rparr>] \<noteq> {}"
    by (simp add: set_eq_iff exI [of _ 2])
  moreover have "covered [\<lparr>lo = 0, hi = 3\<rparr>, \<lparr>lo = 6, hi = 9\<rparr>] \<union> {2..7} = {0..9}" by auto
  ultimately show ?thesis using range_cache_add_range_correct [OF ok] by auto
qed

end
