(* ===== verification/Utf8.thy ===== *)
theory Utf8
  imports Odin_Prelude
begin

text \<open>
  Decoding and encoding of UTF-8: \<open>utf8_decode\<close> and its two tables (\<^verbatim>\<open>src/unicode.cpp\<close>),
  \<open>gb_utf8_encode_rune\<close> (\<^verbatim>\<open>src/gb/gb.h\<close>) and the rune classes of the tokenizer. A rune is an \<open>int\<close>
  (the code's \<^verbatim>\<open>i32\<close>; the arithmetic stays below \<open>2 ^ 21\<close>). The Unicode general category, which the
  code takes from the vendored utf8proc tables, is a parameter.
\<close>

definition GB_RUNE_INVALID :: int where "GB_RUNE_INVALID = 0xfffd"
definition GB_RUNE_MAX :: int where "GB_RUNE_MAX = 0x10ffff"
definition GB_RUNE_BOM :: int where "GB_RUNE_BOM = 0xfeff"
definition GB_RUNE_EOF :: int where "GB_RUNE_EOF = -1"

subsection \<open>Decoding\<close>

text \<open>The rows of the table of first bytes, from 0x00, 0x80, 0xC0, 0xD0, 0xE0 and 0xF0.\<close>

definition global__utf8_first :: "byte list" where
  "global__utf8_first =
     replicate 128 0xf0 @ replicate 64 0xf1 @
     [0xf1, 0xf1] @ replicate 14 0x02 @
     replicate 16 0x02 @
     [0x13, 0x03, 0x03, 0x03, 0x03, 0x03, 0x03, 0x03, 0x03, 0x03, 0x03, 0x03, 0x03, 0x23, 0x03, 0x03] @
     [0x34, 0x04, 0x04, 0x04, 0x44, 0xf1, 0xf1, 0xf1, 0xf1, 0xf1, 0xf1, 0xf1, 0xf1, 0xf1, 0xf1, 0xf1]"

definition global__utf8_accept_ranges :: "(byte \<times> byte) list" where
  "global__utf8_accept_ranges = [(0x80, 0xbf), (0xa0, 0xbf), (0x80, 0x9f), (0x90, 0xbf), (0x80, 0x8f)]"

text \<open>The number of bytes taken and the code point.\<close>

definition utf8_decode :: "byte list \<Rightarrow> nat \<times> int" where
  "utf8_decode str =
     (if str = [] then (0, GB_RUNE_INVALID)
      else
        let s0 = str ! 0; x = global__utf8_first ! unat s0
        in if x \<ge> 0xf0 then
             let mask = - uint (x AND 1)
             in (1, (uint s0 AND NOT mask) OR (GB_RUNE_INVALID AND mask))
           else if s0 < 0x80 then (1, uint s0)
           else
             let sz = unat (x AND 7); accept = global__utf8_accept_ranges ! unat (drop_bit 4 x)
             in if length str < sz then (1, GB_RUNE_INVALID)
                else
                  let b1 = str ! 1
                  in if b1 < fst accept \<or> snd accept < b1 then (1, GB_RUNE_INVALID)
                     else if sz = 2 then
                       (2, push_bit 6 (uint s0 AND 0x1f) OR (uint b1 AND 0x3f))
                     else
                       let b2 = str ! 2
                       in if \<not> (0x80 \<le> b2 \<and> b2 \<le> 0xbf) then (1, GB_RUNE_INVALID)
                          else if sz = 3 then
                            (3, push_bit 12 (uint s0 AND 0x1f) OR push_bit 6 (uint b1 AND 0x3f) OR
                                (uint b2 AND 0x3f))
                          else
                            let b3 = str ! 3
                            in if \<not> (0x80 \<le> b3 \<and> b3 \<le> 0xbf) then (1, GB_RUNE_INVALID)
                               else (4, push_bit 18 (uint s0 AND 0x07) OR push_bit 12 (uint b1 AND 0x3f) OR
                                        push_bit 6 (uint b2 AND 0x3f) OR (uint b3 AND 0x3f)))"

subsection \<open>Encoding\<close>

text \<open>\<^verbatim>\<open>cast(u8)\<close> keeps the low eight bits; \<open>i\<close> is the rune as an unsigned 32-bit number.\<close>

definition gb_utf8_encode_rune :: "int \<Rightarrow> byte list" where
  "gb_utf8_encode_rune r =
     (let i = r mod 2 ^ 32;
          u8 = (\<lambda>x. word_of_int x :: byte); mask = 0x3f :: byte;
          three = (\<lambda>r. [0xe0 OR u8 (drop_bit 12 r), 0x80 OR (u8 (drop_bit 6 r) AND mask), 0x80 OR (u8 r AND mask)])
      in if i \<le> 2 ^ 7 - 1 then [u8 r]
         else if i \<le> 2 ^ 11 - 1 then [0xc0 OR u8 (drop_bit 6 r), 0x80 OR (u8 r AND mask)]
         else if i > GB_RUNE_MAX \<or> (0xd800 \<le> i \<and> i \<le> 0xdfff) then three GB_RUNE_INVALID
         else if i \<le> 2 ^ 16 - 1 then three r
         else [0xf0 OR u8 (drop_bit 18 r), 0x80 OR (u8 (drop_bit 12 r) AND mask),
               0x80 OR (u8 (drop_bit 6 r) AND mask), 0x80 OR (u8 r AND mask)])"

subsection \<open>Rune classes\<close>

datatype utf8proc_category = LU | LL | LT | LM | LO | ND | Other_category

text \<open>The unsigned 32-bit value of a rune; the ASCII tests subtract and compare modulo \<open>2 ^ 32\<close>.\<close>

definition ascii_letter :: "int \<Rightarrow> bool" where
  "ascii_letter r = (((word_of_int r :: u32) OR 0x20) - 0x61 < 26)"

definition ascii_digit :: "int \<Rightarrow> bool" where
  "ascii_digit r = ((word_of_int r :: u32) - 0x30 < 10)"

definition category_letter :: "utf8proc_category \<Rightarrow> bool" where
  "category_letter c = (case c of LU \<Rightarrow> True | LL \<Rightarrow> True | LT \<Rightarrow> True | LM \<Rightarrow> True | LO \<Rightarrow> True | _ \<Rightarrow> False)"

definition rune_is_letter :: "(int \<Rightarrow> utf8proc_category) \<Rightarrow> int \<Rightarrow> bool" where
  "rune_is_letter category r =
     (if r < 0x80 then if r = 0x5f then True else ascii_letter r
      else category_letter (category r))"

definition rune_is_digit :: "(int \<Rightarrow> utf8proc_category) \<Rightarrow> int \<Rightarrow> bool" where
  "rune_is_digit category r = (if r < 0x80 then ascii_digit r else category r = ND)"

definition rune_is_letter_or_digit :: "(int \<Rightarrow> utf8proc_category) \<Rightarrow> int \<Rightarrow> bool" where
  "rune_is_letter_or_digit category r =
     (if r < 0x80 then
        if r = 0x5f then True
        else if ascii_letter r then True
        else ascii_digit r
      else category_letter (category r) \<or> category r = ND)"

definition rune_is_whitespace :: "int \<Rightarrow> bool" where
  "rune_is_whitespace r = (r = 0x20 \<or> r = 0x09 \<or> r = 0x0a \<or> r = 0x0d)"

subsection \<open>Bytes by their numeric value\<close>

text \<open>Lead and continuation bytes: a constant plus the payload.\<close>

lemma or_disjoint:
  fixes a b :: int
  assumes "0 \<le> b" and "b < 2 ^ n"
  shows "push_bit n a OR b = a * 2 ^ n + b"
proof -
  have "b = take_bit n b" using assms by (simp add: take_bit_int_eq_self)
  then have "push_bit n a OR b = concat_bit n b a" by (simp add: concat_bit_def or.commute)
  also have "\<dots> = take_bit n b + push_bit n a" by (rule concat_bit_eq)
  finally show ?thesis using \<open>b = take_bit n b\<close> by (simp add: push_bit_eq_mult)
qed

lemma or_disjoint3:
  fixes a b c :: int
  assumes "0 \<le> b" "b < 64" "0 \<le> c" "c < 64"
  shows "push_bit 12 a OR push_bit 6 b OR c = a * 4096 + b * 64 + c"
proof -
  have ab: "push_bit 6 a OR b = a * 64 + b" using or_disjoint [of b 6 a] assms by simp
  have "push_bit 12 a OR push_bit 6 b OR c = push_bit 6 (push_bit 6 a OR b) OR c" by (simp add: or.assoc)
  also have "\<dots> = (a * 64 + b) * 64 + c" unfolding ab using or_disjoint [of c 6 "a * 64 + b"] assms by simp
  finally show ?thesis by simp
qed

lemma or_disjoint4:
  fixes a b c d :: int
  assumes "0 \<le> b" "b < 64" "0 \<le> c" "c < 64" "0 \<le> d" "d < 64"
  shows "push_bit 18 a OR push_bit 12 b OR push_bit 6 c OR d = a * 262144 + b * 4096 + c * 64 + d"
proof -
  have abc: "push_bit 12 a OR push_bit 6 b OR c = a * 4096 + b * 64 + c" using or_disjoint3 assms by simp
  have "push_bit 18 a OR push_bit 12 b OR push_bit 6 c OR d = push_bit 6 (push_bit 12 a OR push_bit 6 b OR c) OR d"
    by (simp add: or.assoc)
  also have "\<dots> = (a * 4096 + b * 64 + c) * 64 + d"
    unfolding abc using or_disjoint [of d 6 "a * 4096 + b * 64 + c"] assms by simp
  finally show ?thesis by simp
qed

lemma byte_or:
  assumes "0 \<le> (b :: int)" and "b < 2 ^ n" and "n \<le> 8"
  shows "(word_of_int (a * 2 ^ n) :: byte) OR word_of_int b = word_of_int (a * 2 ^ n + b)"
  using or_disjoint [OF assms(1,2), of a] by (metis of_int_or_eq push_bit_eq_mult)

lemma byte_and_mask: "(word_of_int x :: byte) AND 0x3f = word_of_int (x mod 64)"
proof -
  have "x AND 0x3f = x mod 64" using take_bit_eq_mask [of 6 x] by (simp add: take_bit_eq_mod mask_eq_exp_minus_1)
  then show ?thesis by (metis of_int_and_eq of_int_numeral)
qed

lemma byte_cont: "0x80 OR ((word_of_int x :: byte) AND 0x3f) = word_of_int (0x80 + x mod 64)"
  using byte_or [of "x mod 64" 6 2] by (simp add: byte_and_mask)

lemma byte_lead:
  "0 \<le> x \<Longrightarrow> x < 32 \<Longrightarrow> 0xc0 OR (word_of_int x :: byte) = word_of_int (0xc0 + x)"
  "0 \<le> x \<Longrightarrow> x < 16 \<Longrightarrow> 0xe0 OR (word_of_int x :: byte) = word_of_int (0xe0 + x)"
  "0 \<le> x \<Longrightarrow> x < 8 \<Longrightarrow> 0xf0 OR (word_of_int x :: byte) = word_of_int (0xf0 + x)"
  using byte_or [of x 5 6] byte_or [of x 4 14] byte_or [of x 3 30] by simp_all

lemma payload:
  "0 \<le> x \<Longrightarrow> x < 32 \<Longrightarrow> (0xc0 + x) AND 0x1f = (x :: int)"
  "0 \<le> x \<Longrightarrow> x < 16 \<Longrightarrow> (0xe0 + x) AND 0x1f = (x :: int)"
  "0 \<le> x \<Longrightarrow> x < 8 \<Longrightarrow> (0xf0 + x) AND 0x07 = (x :: int)"
  "0 \<le> x \<Longrightarrow> x < 64 \<Longrightarrow> (0x80 + x) AND 0x3f = (x :: int)"
proof -
  have *: "y AND 0x1f = y mod 32" "y AND 0x07 = y mod 8" "y AND 0x3f = y mod 64" for y :: int
    using take_bit_eq_mask [of 5 y] take_bit_eq_mask [of 3 y] take_bit_eq_mask [of 6 y]
    by (simp_all add: take_bit_eq_mod mask_eq_exp_minus_1)
  show "0 \<le> x \<Longrightarrow> x < 32 \<Longrightarrow> (0xc0 + x) AND 0x1f = (x :: int)"
    using mod_mult_self1 [of x 6 32] by (simp add: * add.commute)
  show "0 \<le> x \<Longrightarrow> x < 16 \<Longrightarrow> (0xe0 + x) AND 0x1f = (x :: int)"
    using mod_mult_self1 [of x 7 32] by (simp add: * add.commute)
  show "0 \<le> x \<Longrightarrow> x < 8 \<Longrightarrow> (0xf0 + x) AND 0x07 = (x :: int)"
    using mod_mult_self1 [of x 30 8] by (simp add: * add.commute)
  show "0 \<le> x \<Longrightarrow> x < 64 \<Longrightarrow> (0x80 + x) AND 0x3f = (x :: int)"
    using mod_mult_self1 [of x 2 64] by (simp add: * add.commute)
qed

text \<open>Reading the table of first bytes.\<close>

definition first_class :: "int \<Rightarrow> byte" where
  "first_class x =
     (if x < 0x80 then 0xf0 else if x < 0xc2 then 0xf1 else if x < 0xe0 then 0x02
      else if x = 0xe0 then 0x13 else if x = 0xed then 0x23 else if x < 0xf0 then 0x03
      else if x = 0xf0 then 0x34 else if x = 0xf4 then 0x44 else if x < 0xf4 then 0x04 else 0xf1)"

lemma first_table:
  assumes "0 \<le> x" and "x < 256"
  shows "global__utf8_first ! nat x = first_class x"
proof -
  have less: "nat x < n \<longleftrightarrow> x < int n" for n using assms(1) by linarith
  consider "x < 0xe0" | "x \<in> set [0xe0..0xff]" using assms by (simp only: set_upto atLeastAtMost_iff) linarith
  then show ?thesis
  proof cases
    case 1
    with assms show ?thesis
      by (simp add: global__utf8_first_def nth_append nth_Cons' less first_class_def) linarith
  next
    case 2
    then show ?thesis
      by (simp)
         (elim disjE; simp add: global__utf8_first_def nth_append first_class_def)
  qed
qed

subsection \<open>Decoding and encoding by payload\<close>

text \<open>A byte by its value, for values below 256.\<close>

definition byte_of :: "int \<Rightarrow> byte" where
  "byte_of x = word_of_int x"

lemma uint_byte: "0 \<le> x \<Longrightarrow> x < 256 \<Longrightarrow> uint (byte_of x) = x"
  by (simp add: byte_of_def uint_word_of_int)

lemma byte_of_uint: "byte_of (uint b) = b"
  by (simp add: byte_of_def)

lemma first_byte:
  assumes "0 \<le> x" and "x < 256"
  shows "global__utf8_first ! unat (byte_of x) = first_class x"
  using first_table [OF assms] by (simp add: uint_byte [OF assms] flip: nat_uint_eq)

lemma byte_order:
  assumes "0 \<le> x" and "x < 256" and "(numeral k :: int) < 256"
  shows "byte_of x < numeral k \<longleftrightarrow> x < numeral k" and "numeral k < byte_of x \<longleftrightarrow> numeral k < x"
    and "byte_of x \<le> numeral k \<longleftrightarrow> x \<le> numeral k" and "numeral k \<le> byte_of x \<longleftrightarrow> numeral k \<le> x"
proof -
  have "uint (numeral k :: byte) = numeral k"
    using uint_byte [of "numeral k"] assms(3) by (simp add: byte_of_def)
  then show "byte_of x < numeral k \<longleftrightarrow> x < numeral k" "numeral k < byte_of x \<longleftrightarrow> numeral k < x"
    "byte_of x \<le> numeral k \<longleftrightarrow> x \<le> numeral k" "numeral k \<le> byte_of x \<longleftrightarrow> numeral k \<le> x"
    using uint_byte [OF assms(1,2)] by (simp_all add: word_less_def word_le_def)
qed

lemma decode_ascii:
  assumes "0 \<le> a" and "a < 128"
  shows "utf8_decode (byte_of a # rest) = (1, a)"
  using assms by (simp add: utf8_decode_def Let_def first_byte first_class_def uint_byte)

lemma decode_bad_lead:
  assumes "128 \<le> a" and "a < 194 \<or> 245 \<le> a" and "a < 256"
  shows "utf8_decode (byte_of a # rest) = (1, GB_RUNE_INVALID)"
proof -
  have "first_class a = 0xf1" using assms by (auto simp: first_class_def)
  then have "global__utf8_first ! unat (byte_of a) = 0xf1" using assms by (simp add: first_byte)
  then show ?thesis by (simp add: utf8_decode_def GB_RUNE_INVALID_def)
qed

lemma decode2:
  assumes "2 \<le> a" and "a < 32" and "0 \<le> b" and "b < 64"
  shows "utf8_decode (byte_of (0xc0 + a) # byte_of (0x80 + b) # rest) = (2, a * 64 + b)"
proof -
  have "global__utf8_first ! unat (byte_of (0xc0 + a)) = 2"
    using assms by (simp add: first_byte first_class_def)
  moreover have "push_bit 6 a OR b = a * 64 + b" using or_disjoint [of b 6 a] assms by simp
  ultimately show ?thesis
    using assms
    by (simp add: utf8_decode_def global__utf8_accept_ranges_def byte_order uint_byte payload)
qed

text \<open>Three and four bytes, by the class of the first byte and the range of the second.\<close>

definition class_range :: "byte \<Rightarrow> byte \<Rightarrow> byte \<Rightarrow> bool" where
  "class_range sz x b1 \<longleftrightarrow>
     x AND 7 = sz \<and>
     (x = 0x13 \<and> 0xa0 \<le> b1 \<and> b1 \<le> 0xbf \<or> x = 0x23 \<and> 0x80 \<le> b1 \<and> b1 \<le> 0x9f \<or>
      x = 0x34 \<and> 0x90 \<le> b1 \<and> b1 \<le> 0xbf \<or> x = 0x44 \<and> 0x80 \<le> b1 \<and> b1 \<le> 0x8f \<or>
      (x = 0x03 \<or> x = 0x04) \<and> 0x80 \<le> b1 \<and> b1 \<le> 0xbf)"

lemma decode3_raw:
  assumes "global__utf8_first ! unat s0 = x" and "class_range 3 x b1" and "\<not> s0 < 0x80"
    and "0x80 \<le> b2" and "b2 \<le> 0xbf"
  shows "utf8_decode (s0 # b1 # b2 # rest) =
    (3, push_bit 12 (uint s0 AND 0x1f) OR push_bit 6 (uint b1 AND 0x3f) OR (uint b2 AND 0x3f))"
  using assms unfolding class_range_def
  by (elim disjE conjE) (simp_all add: utf8_decode_def global__utf8_accept_ranges_def not_less Let_def)

lemma decode4_raw:
  assumes "global__utf8_first ! unat s0 = x" and "class_range 4 x b1" and "\<not> s0 < 0x80"
    and "0x80 \<le> b2" and "b2 \<le> 0xbf" and "0x80 \<le> b3" and "b3 \<le> 0xbf"
  shows "utf8_decode (s0 # b1 # b2 # b3 # rest) =
    (4, push_bit 18 (uint s0 AND 0x07) OR push_bit 12 (uint b1 AND 0x3f) OR
        push_bit 6 (uint b2 AND 0x3f) OR (uint b3 AND 0x3f))"
  using assms unfolding class_range_def
  by (elim disjE conjE) (simp_all add: utf8_decode_def global__utf8_accept_ranges_def not_less Let_def)

lemma decode3:
  assumes "0 \<le> a" and "a < 16" and "0 \<le> b" and "b < 64" and "0 \<le> c" and "c < 64"
    and "a = 0 \<longrightarrow> 32 \<le> b" and "a = 13 \<longrightarrow> b < 32"
  shows "utf8_decode (byte_of (0xe0 + a) # byte_of (0x80 + b) # byte_of (0x80 + c) # rest) =
    (3, a * 4096 + b * 64 + c)"
proof -
  have "global__utf8_first ! unat (byte_of (0xe0 + a)) = first_class (0xe0 + a)"
    using assms by (intro first_byte) auto
  moreover have "class_range 3 (first_class (0xe0 + a)) (byte_of (0x80 + b))"
    using assms by (simp add: class_range_def first_class_def byte_order) linarith
  ultimately have "utf8_decode (byte_of (0xe0 + a) # byte_of (0x80 + b) # byte_of (0x80 + c) # rest) =
      (3, push_bit 12 a OR push_bit 6 b OR c)"
    using assms decode3_raw [of "byte_of (0xe0 + a)" "first_class (0xe0 + a)" "byte_of (0x80 + b)" "byte_of (0x80 + c)" rest]
    by (simp add: byte_order uint_byte payload)
  then show ?thesis using or_disjoint3 [of b c a] assms by simp
qed

lemma decode4:
  assumes "0 \<le> a" and "a < 5" and "0 \<le> b" and "b < 64" and "0 \<le> c" and "c < 64" and "0 \<le> d" and "d < 64"
    and "a = 0 \<longrightarrow> 16 \<le> b" and "a = 4 \<longrightarrow> b < 16"
  shows "utf8_decode (byte_of (0xf0 + a) # byte_of (0x80 + b) # byte_of (0x80 + c) # byte_of (0x80 + d) # rest) =
    (4, a * 262144 + b * 4096 + c * 64 + d)"
proof -
  have "global__utf8_first ! unat (byte_of (0xf0 + a)) = first_class (0xf0 + a)"
    using assms by (intro first_byte) auto
  moreover have "class_range 4 (first_class (0xf0 + a)) (byte_of (0x80 + b))"
    using assms by (simp add: class_range_def first_class_def byte_order) linarith
  ultimately have "utf8_decode (byte_of (0xf0 + a) # byte_of (0x80 + b) # byte_of (0x80 + c) # byte_of (0x80 + d) # rest) =
      (4, push_bit 18 a OR push_bit 12 b OR push_bit 6 c OR d)"
    using assms decode4_raw [of "byte_of (0xf0 + a)" "first_class (0xf0 + a)" "byte_of (0x80 + b)"
        "byte_of (0x80 + c)" "byte_of (0x80 + d)" rest]
    by (simp add: byte_order uint_byte payload)
  then show ?thesis using or_disjoint4 [of b c d a] assms by simp
qed

text \<open>The runes that UTF-8 can carry: up to U+10FFFF, without the surrogates.\<close>

definition scalar_value :: "int \<Rightarrow> bool" where
  "scalar_value r \<longleftrightarrow> 0 \<le> r \<and> r \<le> GB_RUNE_MAX \<and> \<not> (0xd800 \<le> r \<and> r \<le> 0xdfff)"

lemma scalar_unsigned: "scalar_value r \<Longrightarrow> r mod 2 ^ 32 = r"
  by (simp add: scalar_value_def GB_RUNE_MAX_def)

lemma drop_bits: "drop_bit 6 (r :: int) = r div 64" "drop_bit 12 r = r div 4096" "drop_bit 18 r = r div 262144"
  by (simp_all add: drop_bit_eq_div)

lemma encode1:
  assumes "0 \<le> r" and "r < 128"
  shows "gb_utf8_encode_rune r = [byte_of r]"
  using assms by (simp add: gb_utf8_encode_rune_def byte_of_def)

lemma encode2:
  assumes "128 \<le> r" and "r < 2048"
  shows "gb_utf8_encode_rune r = [byte_of (0xc0 + r div 64), byte_of (0x80 + r mod 64)]"
proof -
  have "0 \<le> r div 64" "r div 64 < 32" using assms by linarith+
  with assms show ?thesis
    unfolding gb_utf8_encode_rune_def Let_def drop_bits byte_cont byte_of_def by (simp add: byte_lead)
qed

lemma encode3:
  assumes "2048 \<le> r" and "r < 65536" and "scalar_value r"
  shows "gb_utf8_encode_rune r =
    [byte_of (0xe0 + r div 4096), byte_of (0x80 + r div 64 mod 64), byte_of (0x80 + r mod 64)]"
proof -
  have "0 \<le> r div 4096" "r div 4096 < 16" using assms by linarith+
  with assms show ?thesis
    unfolding gb_utf8_encode_rune_def Let_def drop_bits byte_cont byte_of_def scalar_unsigned [OF assms(3)]
    by (auto simp: byte_lead scalar_value_def GB_RUNE_MAX_def)
qed

lemma encode4:
  assumes "65536 \<le> r" and "r \<le> GB_RUNE_MAX"
  shows "gb_utf8_encode_rune r =
    [byte_of (0xf0 + r div 262144), byte_of (0x80 + r div 4096 mod 64), byte_of (0x80 + r div 64 mod 64),
     byte_of (0x80 + r mod 64)]"
proof -
  have "0 \<le> r div 262144" "r div 262144 < 8" using assms by (auto simp: GB_RUNE_MAX_def)
  moreover have "scalar_value r" using assms by (simp add: scalar_value_def)
  ultimately show ?thesis
    using assms unfolding gb_utf8_encode_rune_def Let_def drop_bits byte_cont byte_of_def
    by (simp add: byte_lead GB_RUNE_MAX_def scalar_unsigned)
qed

lemma digits64:
  fixes r :: int
  shows "r div 64 * 64 + r mod 64 = r" and "r div 4096 * 4096 + r div 64 mod 64 * 64 + r mod 64 = r"
    and "r div 262144 * 262144 + r div 4096 mod 64 * 4096 + r div 64 mod 64 * 64 + r mod 64 = r"
proof -
  have *: "r div 4096 = r div 64 div 64" "r div 262144 = r div 64 div 64 div 64"
    by (simp_all add: zdiv_zmult2_eq [symmetric])
  have "r div 64 * 64 + r mod 64 = r" "r div 64 div 64 * 64 + r div 64 mod 64 = r div 64"
    "r div 64 div 64 div 64 * 64 + r div 64 div 64 mod 64 = r div 64 div 64"
    by simp_all
  then show "r div 64 * 64 + r mod 64 = r" "r div 4096 * 4096 + r div 64 mod 64 * 64 + r mod 64 = r"
    "r div 262144 * 262144 + r div 4096 mod 64 * 4096 + r div 64 mod 64 * 64 + r mod 64 = r"
    unfolding * by linarith+
qed

text \<open>
  Property C25. Decoding undoes encoding. For every rune that UTF-8 can carry, encoding it and decoding the
  bytes, whatever follows them, gives the rune back and takes exactly the bytes written.
\<close>

theorem utf8_decode_encode:
  assumes "scalar_value r"
  shows "utf8_decode (gb_utf8_encode_rune r @ rest) = (length (gb_utf8_encode_rune r), r)"
proof -
  have r: "0 \<le> r" "r \<le> 0x10ffff" "\<not> (0xd800 \<le> r \<and> r \<le> 0xdfff)"
    using assms by (simp_all add: scalar_value_def GB_RUNE_MAX_def)
  consider "r < 128" | "128 \<le> r" "r < 2048" | "2048 \<le> r" "r < 65536" | "65536 \<le> r" by linarith
  then show ?thesis
  proof cases
    case 1
    with r(1) show ?thesis by (simp add: encode1 decode_ascii)
  next
    case 2
    then have "2 \<le> r div 64" "r div 64 < 32" by linarith+
    then show ?thesis
      using decode2 [of "r div 64" "r mod 64" rest] digits64(1) [of r] by (simp add: encode2 [OF 2])
  next
    case 3
    define a b c where abc: "a = r div 4096" "b = r div 64 mod 64" "c = r mod 64"
    have eq: "a * 4096 + b * 64 + c = r" using digits64(2) [of r] by (simp add: abc)
    have bd: "0 \<le> b" "b < 64" "0 \<le> c" "c < 64" by (simp_all add: abc)
    have "0 \<le> a" "a < 16" using eq bd 3 by linarith+
    moreover have "a = 0 \<longrightarrow> 32 \<le> b" "a = 13 \<longrightarrow> b < 32" using eq bd 3 r(3) by linarith+
    ultimately have "utf8_decode (byte_of (0xe0 + a) # byte_of (0x80 + b) # byte_of (0x80 + c) # rest) = (3, r)"
      using decode3 [of a b c rest] bd eq by simp
    then show ?thesis by (simp add: encode3 [OF 3 assms] flip: abc)
  next
    case 4
    define a b c d where abcd: "a = r div 262144" "b = r div 4096 mod 64" "c = r div 64 mod 64" "d = r mod 64"
    have eq: "a * 262144 + b * 4096 + c * 64 + d = r" using digits64(3) [of r] by (simp add: abcd)
    have bd: "0 \<le> b" "b < 64" "0 \<le> c" "c < 64" "0 \<le> d" "d < 64" by (simp_all add: abcd)
    have "0 \<le> a" "a < 5" using eq bd 4 r(2) by linarith+
    moreover have "a = 0 \<longrightarrow> 16 \<le> b" "a = 4 \<longrightarrow> b < 16" using eq bd 4 r(2) by linarith+
    ultimately show ?thesis
      using decode4 [of a b c d rest] bd eq 4 r(2)
      by (simp add: encode4 GB_RUNE_MAX_def flip: abcd)
  qed
qed

theorem utf8_decode_encode_witness:
  "utf8_decode (gb_utf8_encode_rune 0x20ac @ [0x41]) = (3, 0x20ac)"
proof -
  have "scalar_value 0x20ac" by (simp add: scalar_value_def GB_RUNE_MAX_def)
  moreover have "length (gb_utf8_encode_rune 0x20ac) = 3"
    by (simp add: gb_utf8_encode_rune_def GB_RUNE_MAX_def Let_def)
  ultimately show ?thesis using utf8_decode_encode [of "0x20ac" "[0x41]"] by simp
qed

text \<open>What a decoding has read that is not the replacement of a bad byte.\<close>

lemma decode_lead2:
  assumes "194 \<le> x" and "x < 224"
  shows "utf8_decode (byte_of x # t) = (1, GB_RUNE_INVALID) \<or> (\<exists>b1 u. t = b1 # u \<and> 0x80 \<le> b1 \<and> b1 \<le> 0xbf)"
proof -
  have "global__utf8_first ! unat (byte_of x) = 2" "\<not> byte_of x < 0x80"
    using assms by (simp_all add: first_byte first_class_def byte_order)
  then show ?thesis
    by (cases t) (auto simp: utf8_decode_def Let_def global__utf8_accept_ranges_def not_less)
qed

lemma decode_lead3:
  assumes "224 \<le> x" and "x < 240"
  shows "utf8_decode (byte_of x # t) = (1, GB_RUNE_INVALID) \<or>
    (\<exists>b1 b2 u. t = b1 # b2 # u \<and> class_range 3 (first_class x) b1 \<and> 0x80 \<le> b2 \<and> b2 \<le> 0xbf)"
proof -
  have f: "global__utf8_first ! unat (byte_of x) = first_class x" "\<not> byte_of x < 0x80"
    using assms by (simp_all add: first_byte byte_order)
  have "first_class x = 0x13 \<or> first_class x = 0x23 \<or> first_class x = 0x03"
    using assms by (simp add: first_class_def)
  then consider "first_class x = 0x13" | "first_class x = 0x23" | "first_class x = 0x03" by blast
  then show ?thesis
  proof cases
    case 1
    with f show ?thesis
      by (cases t rule: remdups_adj.cases)
         (auto simp: utf8_decode_def Let_def global__utf8_accept_ranges_def class_range_def not_less)
  next
    case 2
    with f show ?thesis
      by (cases t rule: remdups_adj.cases)
         (auto simp: utf8_decode_def Let_def global__utf8_accept_ranges_def class_range_def not_less)
  next
    case 3
    with f show ?thesis
      by (cases t rule: remdups_adj.cases)
         (auto simp: utf8_decode_def Let_def global__utf8_accept_ranges_def class_range_def not_less)
  qed
qed

lemma list_cases3: "t = [] \<or> (\<exists>a. t = [a]) \<or> (\<exists>a b. t = [a, b]) \<or> (\<exists>a b c u. t = a # b # c # u)"
  by (metis neq_Nil_conv)

lemma decode_lead4:
  assumes "240 \<le> x" and "x < 245"
  shows "utf8_decode (byte_of x # t) = (1, GB_RUNE_INVALID) \<or>
    (\<exists>b1 b2 b3 u. t = b1 # b2 # b3 # u \<and> class_range 4 (first_class x) b1 \<and> 0x80 \<le> b2 \<and> b2 \<le> 0xbf \<and>
       0x80 \<le> b3 \<and> b3 \<le> 0xbf)"
proof -
  have f: "global__utf8_first ! unat (byte_of x) = first_class x" "\<not> byte_of x < 0x80"
    using assms by (simp_all add: first_byte byte_order)
  have "first_class x = 0x34 \<or> first_class x = 0x44 \<or> first_class x = 0x04"
    using assms by (simp add: first_class_def)
  then consider "first_class x = 0x34" | "first_class x = 0x44" | "first_class x = 0x04" by blast
  then show ?thesis
  proof cases
    case 1
    with f list_cases3 [of t] show ?thesis
      by (elim disjE exE) (auto simp: utf8_decode_def Let_def global__utf8_accept_ranges_def class_range_def not_less)
  next
    case 2
    with f list_cases3 [of t] show ?thesis
      by (elim disjE exE) (auto simp: utf8_decode_def Let_def global__utf8_accept_ranges_def class_range_def not_less)
  next
    case 3
    with f list_cases3 [of t] show ?thesis
      by (elim disjE exE) (auto simp: utf8_decode_def Let_def global__utf8_accept_ranges_def class_range_def not_less)
  qed
qed

text \<open>A continuation byte is 0x80 plus a payload.\<close>

lemma cont_payload:
  assumes "0x80 \<le> b1" and "b1 \<le> (0xbf :: byte)"
  obtains b where "b1 = byte_of (0x80 + b)" and "0 \<le> b" and "b < 64"
proof
  have u: "0 \<le> uint b1" "uint b1 < 256" using uint_lt2p [of b1] by simp_all
  show "b1 = byte_of (0x80 + (uint b1 - 0x80))" by (simp add: byte_of_uint)
  show "0 \<le> uint b1 - 0x80" "uint b1 - 0x80 < 64"
    using assms byte_order(3,4) [OF u] by (simp_all add: byte_of_uint)
qed

lemma class_range_cont: "class_range sz x b1 \<Longrightarrow> 0x80 \<le> b1 \<and> b1 \<le> (0xbf :: byte)"
  by (auto simp: class_range_def intro: order_trans [of b1 "0x9f"] order_trans [of b1 "0x8f"]
      order_trans [of "0x80" "0xa0" b1] order_trans [of "0x80" "0x90" b1])

text \<open>The digits of a number to base 64.\<close>

lemma base64:
  fixes a b c d :: int
  assumes "0 \<le> b" "b < 64" "0 \<le> c" "c < 64" "0 \<le> d" "d < 64"
  shows "(a * 4096 + b * 64 + c) div 64 = a * 64 + b" and "(a * 4096 + b * 64 + c) mod 64 = c"
    and "(a * 4096 + b * 64 + c) div 4096 = a"
    and "(a * 262144 + b * 4096 + c * 64 + d) div 64 = a * 4096 + b * 64 + c"
    and "(a * 262144 + b * 4096 + c * 64 + d) mod 64 = d"
    and "(a * 262144 + b * 4096 + c * 64 + d) div 4096 = a * 64 + b"
    and "(a * 262144 + b * 4096 + c * 64 + d) div 262144 = a"
proof -
  have dm: "(x * 64 + y) div 64 = x" "(x * 64 + y) mod 64 = y" if "0 \<le> y" "y < 64" for x y :: int
    using that by simp_all
  have 3: "a * 4096 + b * 64 + c = (a * 64 + b) * 64 + c" by simp
  have 4: "a * 262144 + b * 4096 + c * 64 + d = (a * 4096 + b * 64 + c) * 64 + d" by simp
  show d3: "(a * 4096 + b * 64 + c) div 64 = a * 64 + b" "(a * 4096 + b * 64 + c) mod 64 = c"
    unfolding 3 using dm assms by blast+
  show d4: "(a * 262144 + b * 4096 + c * 64 + d) div 64 = a * 4096 + b * 64 + c"
    "(a * 262144 + b * 4096 + c * 64 + d) mod 64 = d"
    unfolding 4 using dm assms by blast+
  have e: "x div 4096 = x div 64 div 64" "x div 262144 = x div 64 div 64 div 64" for x :: int
    by (simp_all add: zdiv_zmult2_eq [symmetric])
  show "(a * 4096 + b * 64 + c) div 4096 = a" unfolding e d3 using dm assms by blast
  show "(a * 262144 + b * 4096 + c * 64 + d) div 4096 = a * 64 + b"
    "(a * 262144 + b * 4096 + c * 64 + d) div 262144 = a"
    unfolding e d4 d3 using dm assms by blast+
qed

lemma utf8_decode_spec:
  assumes "utf8_decode s = (n, r)" and "s \<noteq> []"
  shows "1 \<le> n \<and> n \<le> 4 \<and> n \<le> length s \<and>
    (n = 1 \<and> r = GB_RUNE_INVALID \<or> scalar_value r \<and> gb_utf8_encode_rune r = take n s)"
proof -
  obtain b0 t where s: "s = b0 # t" using assms(2) by (cases s) auto
  define x where "x = uint b0"
  have x: "0 \<le> x" "x < 256" and b0: "b0 = byte_of x"
    using uint_lt2p [of b0] by (simp_all add: x_def byte_of_uint)
  have bad: ?thesis if "utf8_decode s = (1, GB_RUNE_INVALID)" using assms(1) that s by simp
  consider "x < 128" | "128 \<le> x" "x < 194 \<or> 245 \<le> x" | "194 \<le> x" "x < 224" | "224 \<le> x" "x < 240"
    | "240 \<le> x" "x < 245" by linarith
  then show ?thesis
  proof cases
    case 1
    then have "n = 1" "r = x" using assms(1) decode_ascii [OF x(1), of t] s b0 by auto
    with 1 x s b0 show ?thesis by (simp add: scalar_value_def GB_RUNE_MAX_def encode1)
  next
    case 2
    then show ?thesis using bad decode_bad_lead [OF 2 x(2)] s b0 by simp
  next
    case 3
    show ?thesis
    proof (rule disjE [OF decode_lead2 [OF 3, of t]])
      assume "\<exists>b1 u. t = b1 # u \<and> 0x80 \<le> b1 \<and> b1 \<le> 0xbf"
      then obtain b u where t: "t = byte_of (0x80 + b) # u" and b: "0 \<le> b" "b < 64"
        using cont_payload by metis
      define a where "a = x - 192"
      have a: "x = 0xc0 + a" "2 \<le> a" "a < 32" using 3 by (simp_all add: a_def)
      let ?r = "a * 64 + b"
      have "n = 2" "r = ?r" using assms(1) decode2 [of a b u] a b s b0 t by auto
      moreover have "?r div 64 = a" "?r mod 64 = b" using b by simp_all
      ultimately show ?thesis
        using a b s b0 t by (simp add: scalar_value_def GB_RUNE_MAX_def encode2)
    qed (use bad s b0 in simp)
  next
    case 4
    show ?thesis
    proof (rule disjE [OF decode_lead3 [OF 4, of t]])
      assume "\<exists>b1 b2 u. t = b1 # b2 # u \<and> class_range 3 (first_class x) b1 \<and> 0x80 \<le> b2 \<and> b2 \<le> 0xbf"
      then obtain b1 b2 u where t: "t = b1 # b2 # u" and cl: "class_range 3 (first_class x) b1"
        and cont: "0x80 \<le> b2" "b2 \<le> 0xbf" by blast
      from class_range_cont [OF cl] obtain b where b1: "b1 = byte_of (0x80 + b)" and b: "0 \<le> b" "b < 64"
        by (blast elim: cont_payload)
      from cont obtain c where b2: "b2 = byte_of (0x80 + c)" and c: "0 \<le> c" "c < 64" by (rule cont_payload)
      note t = t [unfolded b1 b2] and cl = cl [unfolded b1] and bc = b c
      define a where "a = x - 224"
      have a: "x = 0xe0 + a" "0 \<le> a" "a < 16" using 4 by (simp_all add: a_def)
      let ?r = "a * 4096 + b * 64 + c"
      have lim: "a = 0 \<longrightarrow> 32 \<le> b" "a = 13 \<longrightarrow> b < 32"
        using cl bc a by (auto simp: class_range_def first_class_def byte_order split: if_splits)
      then have nr: "n = 3" "r = ?r" using assms(1) decode3 [of a b c u] a bc s b0 t by auto
      note digits = base64 [OF bc bc(3,4), of a]
      have "(a * 64 + b) mod 64 = b" using bc by simp
      moreover have "2048 \<le> ?r" "?r < 65536" using lim a bc by linarith+
      moreover have "\<not> (0xd800 \<le> ?r \<and> ?r \<le> 0xdfff)"
      proof -
        consider "a \<le> 12" | "a = 13" | "14 \<le> a" by linarith
        then show ?thesis by cases (use lim bc in linarith)+
      qed
      moreover have "0 \<le> ?r" "?r \<le> GB_RUNE_MAX" unfolding GB_RUNE_MAX_def using a bc by linarith+
      ultimately show ?thesis using s b0 t nr a(1) by (simp add: encode3 digits scalar_value_def)
    qed (use bad s b0 in simp)
  next
    case 5
    show ?thesis
    proof (rule disjE [OF decode_lead4 [OF 5, of t]])
      assume "\<exists>b1 b2 b3 u. t = b1 # b2 # b3 # u \<and> class_range 4 (first_class x) b1 \<and> 0x80 \<le> b2 \<and> b2 \<le> 0xbf \<and>
          0x80 \<le> b3 \<and> b3 \<le> 0xbf"
      then obtain b1 b2 b3 u where t: "t = b1 # b2 # b3 # u" and cl: "class_range 4 (first_class x) b1"
        and cont: "0x80 \<le> b2" "b2 \<le> 0xbf" "0x80 \<le> b3" "b3 \<le> 0xbf" by blast
      from class_range_cont [OF cl] obtain b where b1: "b1 = byte_of (0x80 + b)" and b: "0 \<le> b" "b < 64"
        by (blast elim: cont_payload)
      from cont(1,2) obtain c where b2: "b2 = byte_of (0x80 + c)" and c: "0 \<le> c" "c < 64" by (rule cont_payload)
      from cont(3,4) obtain d where b3: "b3 = byte_of (0x80 + d)" and d: "0 \<le> d" "d < 64" by (rule cont_payload)
      note t = t [unfolded b1 b2 b3] and cl = cl [unfolded b1] and bd = b c d
      define a where "a = x - 240"
      have a: "x = 0xf0 + a" "0 \<le> a" "a < 5" using 5 by (simp_all add: a_def)
      let ?r = "a * 262144 + b * 4096 + c * 64 + d"
      have lim: "a = 0 \<longrightarrow> 16 \<le> b" "a = 4 \<longrightarrow> b < 16"
        using cl bd a by (auto simp: class_range_def first_class_def byte_order split: if_splits)
      then have nr: "n = 4" "r = ?r" using assms(1) decode4 [of a b c d u] a bd s b0 t by auto
      note digits = base64 [OF bd, of a]
      have "(a * 64 + b) mod 64 = b" using bd by simp
      moreover have "65536 \<le> ?r" "?r \<le> GB_RUNE_MAX" unfolding GB_RUNE_MAX_def using lim a bd by linarith+
      ultimately show ?thesis using s b0 t nr a(1) by (simp add: encode4 scalar_value_def digits)
    qed (use bad s b0 in simp)
  qed
qed

text \<open>What the tokenizer needs: progress, no negative rune, and no ASCII rune from other bytes.\<close>

lemma utf8_decode_progress:
  assumes "utf8_decode s = (n, r)" and "s \<noteq> []"
  shows "1 \<le> n" and "n \<le> length s" and "0 \<le> r"
  using utf8_decode_spec [OF assms] unfolding scalar_value_def GB_RUNE_INVALID_def by linarith+

lemma encode_high:
  assumes "128 \<le> r" and "scalar_value r"
  shows "\<forall>b\<in>set (gb_utf8_encode_rune r). 0x80 \<le> b"
proof -
  have d: "0 \<le> r div 64" "0 \<le> r div 4096" "0 \<le> r div 262144" using assms by simp_all
  have m: "0 \<le> x mod 64" "x mod 64 < 64" for x :: int by simp_all
  consider "r < 2048" | "2048 \<le> r" "r < 65536" | "65536 \<le> r" "r \<le> GB_RUNE_MAX"
    using assms(2) unfolding scalar_value_def by linarith
  then show ?thesis
  proof cases
    case 1
    then have "r div 64 < 32" by linarith
    then show ?thesis unfolding encode2 [OF assms(1) 1] using d m [of r] by (simp add: byte_order)
  next
    case 2
    then have "r div 4096 < 16" by linarith
    then show ?thesis unfolding encode3 [OF 2 assms(2)] using d m [of r] m [of "r div 64"]
      by (simp add: byte_order)
  next
    case 3
    then have "r div 262144 < 5" unfolding GB_RUNE_MAX_def by linarith
    then show ?thesis unfolding encode4 [OF 3] using d m [of r] m [of "r div 64"] m [of "r div 4096"]
      by (simp add: byte_order)
  qed
qed

lemma utf8_decode_high:
  assumes "utf8_decode s = (n, r)" and "s \<noteq> []" and "0x80 \<le> s ! 0"
  shows "128 \<le> r" and "i < n \<Longrightarrow> 0x80 \<le> s ! i"
proof -
  have *: "128 \<le> r \<and> (i < n \<longrightarrow> 0x80 \<le> s ! i)"
  proof (cases "n = 1 \<and> r = GB_RUNE_INVALID")
    case True
    with assms(3) show ?thesis by (simp add: GB_RUNE_INVALID_def)
  next
    case False
    with utf8_decode_spec [OF assms(1,2)]
    have n: "1 \<le> n" "n \<le> length s" and r: "scalar_value r" and enc: "gb_utf8_encode_rune r = take n s" by blast+
    have high: "128 \<le> r"
    proof (rule ccontr)
      assume "\<not> 128 \<le> r"
      then have "take n s ! 0 = byte_of r" and "0 \<le> r" "r < 128"
        using encode1 [of r] r enc by (simp_all add: scalar_value_def)
      with assms(3) n show False by (simp add: byte_order)
    qed
    have "i < n \<longrightarrow> s ! i \<in> set (take n s)" using n by (auto simp: in_set_conv_nth)
    with encode_high [OF high r] enc high show ?thesis by auto
  qed
  show "128 \<le> r" and "i < n \<Longrightarrow> 0x80 \<le> s ! i" using * by simp_all
qed

lemma utf8_decode_bom:
  assumes "utf8_decode s = (n, GB_RUNE_BOM)" and "s \<noteq> []"
  shows "n = 3"
proof -
  have "GB_RUNE_BOM \<noteq> GB_RUNE_INVALID" by (simp add: GB_RUNE_BOM_def GB_RUNE_INVALID_def)
  then have "length (gb_utf8_encode_rune GB_RUNE_BOM) = n"
    using utf8_decode_spec [OF assms] by auto
  then show ?thesis by (simp add: gb_utf8_encode_rune_def GB_RUNE_BOM_def GB_RUNE_MAX_def Let_def)
qed

lemma utf8_decode_ascii:
  assumes "s \<noteq> []" and "s ! 0 < 0x80"
  shows "utf8_decode s = (1, uint (s ! 0))"
proof -
  obtain b t where s: "s = b # t" using assms(1) by (cases s) auto
  then have "0 \<le> uint b" "uint b < 128" using assms(2) by (simp_all add: word_less_def)
  from decode_ascii [OF this] s show ?thesis by (simp add: byte_of_uint)
qed

text \<open>
  Property C24. Decoding accepts only canonical UTF-8. On a non-empty input the decoder takes between
  one and four bytes, all of them there; the result is the replacement rune for one bad byte, or
  a rune that UTF-8 can carry, and then the bytes taken are exactly its encoding: overlong
  forms, surrogates and values above U+10FFFF are all rejected.
\<close>

theorem utf8_decode_canonical:
  assumes "utf8_decode s = (n, r)" and "s \<noteq> []"
  shows "1 \<le> n \<and> n \<le> 4 \<and> n \<le> length s \<and>
    (n = 1 \<and> r = GB_RUNE_INVALID \<or> scalar_value r \<and> gb_utf8_encode_rune r = take n s)"
  by (rule utf8_decode_spec [OF assms])

theorem utf8_decode_canonical_witness:
  "gb_utf8_encode_rune 0x20ac = take 3 [0xe2, 0x82, 0xac, 0x41]"
proof -
  have "utf8_decode [0xe2, 0x82, 0xac, 0x41] = (3, 0x20ac)" by code_simp
  from utf8_decode_canonical [OF this] show ?thesis by simp
qed

end
