(* ===== verification/Token.thy ===== *)
theory Token
  imports Odin_Prelude
begin

text \<open>
  Token kinds and the keyword table of \<^verbatim>\<open>src/tokenizer.cpp\<close>. The C++ enumeration is flat, with
  marker values between its groups (\<^verbatim>\<open>Token__KeywordBegin\<close> and so on) that only serve the range
  tests \<open>token_is_literal\<close>, \<open>token_is_operator\<close>, ...; here the groups are datatypes of their own and the
  range tests are tests for the group.
\<close>

subsection \<open>Token kinds\<close>

datatype literal_kind =
  Token_Ident | Token_Integer | Token_Float | Token_Imag | Token_Rune | Token_String

datatype operator_kind =
  Token_Eq | Token_Not | Token_Hash | Token_At | Token_Dollar | Token_Pointer | Token_Question
  | Token_Add | Token_Sub | Token_Mul | Token_Quo | Token_Mod | Token_ModMod | Token_And | Token_Or
  | Token_Xor | Token_AndNot | Token_Shl | Token_Shr | Token_CmpAnd | Token_CmpOr | Token_MulMul
  | Token_Increment | Token_Decrement | Token_ArrowRight | Token_Uninit

datatype assign_op_kind =
  Token_AddEq | Token_SubEq | Token_MulEq | Token_QuoEq | Token_ModEq | Token_ModModEq | Token_AndEq
  | Token_OrEq | Token_XorEq | Token_AndNotEq | Token_ShlEq | Token_ShrEq | Token_CmpAndEq
  | Token_CmpOrEq

datatype comparison_kind = Token_CmpEq | Token_NotEq | Token_Lt | Token_Gt | Token_LtEq | Token_GtEq

datatype delimiter_kind =
  Token_OpenParen | Token_CloseParen | Token_OpenBracket | Token_CloseBracket | Token_OpenBrace
  | Token_CloseBrace | Token_Colon | Token_Semicolon | Token_Period | Token_Comma | Token_Ellipsis
  | Token_RangeFull | Token_RangeHalf | Token_BackSlash

datatype keyword_kind =
  Token_import | Token_foreign | Token_package | Token_typeid | Token_when | Token_where | Token_if
  | Token_else | Token_for | Token_switch | Token_in | Token_not_in | Token_do | Token_case
  | Token_break | Token_continue | Token_fallthrough | Token_defer | Token_return | Token_proc
  | Token_struct | Token_union | Token_enum | Token_bit_set | Token_bit_field | Token_map
  | Token_dynamic | Token_auto_cast | Token_cast | Token_transmute | Token_distinct | Token_using
  | Token_context | Token_or_else | Token_or_return | Token_or_break | Token_or_continue | Token_asm
  | Token_matrix

datatype token_kind =
  Token_Invalid | Token_EOF | Token_Comment | Token_FileTag
  | Literal literal_kind | Operator operator_kind | AssignOp assign_op_kind
  | Comparison comparison_kind | Delimiter delimiter_kind | Keyword keyword_kind

definition token_is_literal :: "token_kind \<Rightarrow> bool" where
  "token_is_literal t = (case t of Literal _ \<Rightarrow> True | _ \<Rightarrow> False)"

text \<open>Assignment operators, comparisons and delimiters lie between the markers of the operators.\<close>

definition token_is_operator :: "token_kind \<Rightarrow> bool" where
  "token_is_operator t =
     (case t of Operator _ \<Rightarrow> True | AssignOp _ \<Rightarrow> True | Comparison _ \<Rightarrow> True | Delimiter _ \<Rightarrow> True | _ \<Rightarrow> False)"

definition token_is_keyword :: "token_kind \<Rightarrow> bool" where
  "token_is_keyword t = (case t of Keyword _ \<Rightarrow> True | _ \<Rightarrow> False)"

definition token_is_comparison :: "token_kind \<Rightarrow> bool" where
  "token_is_comparison t = (case t of Comparison _ \<Rightarrow> True | _ \<Rightarrow> False)"

definition token_is_shift :: "token_kind \<Rightarrow> bool" where
  "token_is_shift t \<longleftrightarrow> t = Operator Token_Shl \<or> t = Operator Token_Shr"

subsection \<open>The keyword table\<close>

text \<open>The keywords in the order of the enumeration, and the legacy spelling of \<open>not_in\<close>.\<close>

definition keyword_strings :: "(string \<times> keyword_kind) list" where
  "keyword_strings =
     [(''import'', Token_import), (''foreign'', Token_foreign), (''package'', Token_package),
      (''typeid'', Token_typeid), (''when'', Token_when), (''where'', Token_where), (''if'', Token_if),
      (''else'', Token_else), (''for'', Token_for), (''switch'', Token_switch), (''in'', Token_in),
      (''not_in'', Token_not_in), (''do'', Token_do), (''case'', Token_case), (''break'', Token_break),
      (''continue'', Token_continue), (''fallthrough'', Token_fallthrough), (''defer'', Token_defer),
      (''return'', Token_return), (''proc'', Token_proc), (''struct'', Token_struct),
      (''union'', Token_union), (''enum'', Token_enum), (''bit_set'', Token_bit_set),
      (''bit_field'', Token_bit_field), (''map'', Token_map), (''dynamic'', Token_dynamic),
      (''auto_cast'', Token_auto_cast), (''cast'', Token_cast), (''transmute'', Token_transmute),
      (''distinct'', Token_distinct), (''using'', Token_using), (''context'', Token_context),
      (''or_else'', Token_or_else), (''or_return'', Token_or_return), (''or_break'', Token_or_break),
      (''or_continue'', Token_or_continue), (''asm'', Token_asm), (''matrix'', Token_matrix)]"

definition legacy_keywords :: "(string \<times> keyword_kind) list" where
  "legacy_keywords = [(''notin'', Token_not_in)]"

definition bytes_of :: "string \<Rightarrow> byte list" where
  "bytes_of s = map of_char s"

text \<open>The FNV-1a hash, eight bytes at a time while there are as many.\<close>

definition fnv_step :: "u32 \<Rightarrow> byte \<Rightarrow> u32" where
  "fnv_step h b = (h XOR ucast b) * 0x01000193"

function fnv32a_loop :: "u32 \<Rightarrow> byte list \<Rightarrow> u32" where
  "fnv32a_loop h bytes =
     (if length bytes \<ge> 8 then
        let h = fnv_step h (bytes ! 0);
            h = fnv_step h (bytes ! 1);
            h = fnv_step h (bytes ! 2);
            h = fnv_step h (bytes ! 3);
            h = fnv_step h (bytes ! 4);
            h = fnv_step h (bytes ! 5);
            h = fnv_step h (bytes ! 6);
            h = fnv_step h (bytes ! 7)
        in fnv32a_loop h (drop 8 bytes)
      else foldl fnv_step h bytes)"
  by pat_completeness auto
termination by (relation "measure (\<lambda>(h, bytes). length bytes)") auto

declare fnv32a_loop.simps [simp del]

definition fnv32a :: "byte list \<Rightarrow> u32" where
  "fnv32a bytes = fnv32a_loop 0x811c9dc5 bytes"

record keyword_hash_entry =
  hash :: u32
  entry_kind :: keyword_kind
  entry_text :: "byte list"

text \<open>An entry whose kind is \<^verbatim>\<open>Token_Invalid\<close> is \<open>None\<close>.\<close>

record keyword_tables =
  keyword_hash_table :: "keyword_hash_entry option list"
  max_keyword_size :: nat
  keyword_indices :: "bool list"

definition KEYWORD_HASH_TABLE_COUNT :: nat where "KEYWORD_HASH_TABLE_COUNT = 512"
definition KEYWORD_HASH_TABLE_MASK :: u32 where "KEYWORD_HASH_TABLE_MASK = 511"

definition keyword_index :: "u32 \<Rightarrow> nat" where
  "keyword_index h = unat (h AND KEYWORD_HASH_TABLE_MASK)"

definition add_keyword_hash_entry :: "string \<times> keyword_kind \<Rightarrow> keyword_tables \<Rightarrow> keyword_tables option" where
  "add_keyword_hash_entry = (\<lambda>(s, kind) tabs.
     (let text = bytes_of s;
          h = fnv32a text;
          i = keyword_index h;
          tabs = tabs\<lparr>max_keyword_size := max (max_keyword_size tabs) (length text),
                      keyword_indices := (keyword_indices tabs)[length text := True]\<rparr>
      in if keyword_hash_table tabs ! i = None then
           Some (tabs\<lparr>keyword_hash_table :=
             (keyword_hash_table tabs)[i := Some \<lparr>hash = h, entry_kind = kind, entry_text = text\<rparr>]\<rparr>)
         else None))"

definition empty_keyword_tables :: keyword_tables where
  "empty_keyword_tables =
     \<lparr>keyword_hash_table = replicate KEYWORD_HASH_TABLE_COUNT None, max_keyword_size = 11,
      keyword_indices = replicate 16 False\<rparr>"

definition init_keyword_hash_table :: "keyword_tables option" where
  "init_keyword_hash_table =
     Option.bind (fold_opt add_keyword_hash_entry keyword_strings empty_keyword_tables) (\<lambda>tabs.
     Option.bind (fold_opt add_keyword_hash_entry legacy_keywords tabs) (\<lambda>tabs.
     if max_keyword_size tabs < 16 then Some tabs else None))"

text \<open>The lookup at the end of an identifier in \<open>tokenizer_get_token\<close>.\<close>

definition lookup_keyword :: "keyword_tables \<Rightarrow> byte list \<Rightarrow> keyword_hash_entry option" where
  "lookup_keyword tabs text =
     (if 1 < length text \<and> length text \<le> max_keyword_size tabs \<and> keyword_indices tabs ! length text then
        let h = fnv32a text
        in case keyword_hash_table tabs ! keyword_index h of
             None \<Rightarrow> None
           | Some entry \<Rightarrow> if hash entry = h \<and> entry_text entry = text then Some entry else None
      else None)"

subsection \<open>The table is a map from spellings to kinds\<close>

text \<open>The hash is the usual byte-by-byte FNV-1a.\<close>

lemma fnv32a_loop_foldl: "fnv32a_loop h bytes = foldl fnv_step h bytes"
proof (induction h bytes rule: fnv32a_loop.induct)
  case (1 h bytes)
  show ?case
  proof (cases "length bytes \<ge> 8")
    case True
    then have "take 8 bytes = map ((!) (take 8 bytes)) [0..<8]" using map_nth [of "take 8 bytes"] by simp
    also have "[0..<8] = [0, 1, 2, 3, 4, 5, 6, 7]" by (simp add: upt_rec)
    finally have "take 8 bytes = [bytes ! 0, bytes ! 1, bytes ! 2, bytes ! 3, bytes ! 4, bytes ! 5, bytes ! 6, bytes ! 7]"
      by simp
    then have "bytes = [bytes ! 0, bytes ! 1, bytes ! 2, bytes ! 3, bytes ! 4, bytes ! 5, bytes ! 6, bytes ! 7] @ drop 8 bytes"
      by (metis append_take_drop_id)
    then have "foldl fnv_step h bytes = foldl fnv_step h ([bytes ! 0, bytes ! 1, bytes ! 2, bytes ! 3, bytes ! 4, bytes ! 5, bytes ! 6, bytes ! 7] @ drop 8 bytes)"
      by (rule arg_cong)
    with 1 True show ?thesis by (subst fnv32a_loop.simps) (simp add: Let_def)
  qed (simp add: fnv32a_loop.simps)
qed

definition entry_index :: "string \<times> keyword_kind \<Rightarrow> nat" where
  "entry_index e = keyword_index (fnv32a (bytes_of (fst e)))"

definition make_entry :: "string \<times> keyword_kind \<Rightarrow> keyword_hash_entry" where
  "make_entry e = \<lparr>hash = fnv32a (bytes_of (fst e)), entry_kind = snd e, entry_text = bytes_of (fst e)\<rparr>"

text \<open>No two keywords fall into the same slot; this is what the assertion in the code checks.\<close>

lemma no_collisions: "distinct (map entry_index (keyword_strings @ legacy_keywords))"
  by code_simp

lemma keyword_lengths:
  "\<forall>e\<in>set (keyword_strings @ legacy_keywords). 1 < length (bytes_of (fst e)) \<and> length (bytes_of (fst e)) \<le> 11"
  by (simp add: keyword_strings_def legacy_keywords_def bytes_of_def)

lemma keyword_index_less: "keyword_index h < 512"
  using word_and_le1 [of h 511] by (simp add: keyword_index_def KEYWORD_HASH_TABLE_MASK_def word_le_nat_alt)

text \<open>The tables after the entries \<open>es\<close>.\<close>

definition tables_inv :: "(string \<times> keyword_kind) list \<Rightarrow> keyword_tables \<Rightarrow> bool" where
  "tables_inv es tabs \<longleftrightarrow>
     length (keyword_hash_table tabs) = 512 \<and> length (keyword_indices tabs) = 16 \<and> max_keyword_size tabs = 11 \<and>
     (\<forall>i<512. keyword_hash_table tabs ! i = map_option make_entry (find (\<lambda>e. entry_index e = i) es)) \<and>
     (\<forall>n<16. keyword_indices tabs ! n \<longleftrightarrow> (\<exists>e\<in>set es. length (bytes_of (fst e)) = n))"

lemma tables_inv_empty: "tables_inv [] empty_keyword_tables"
  by (simp add: tables_inv_def empty_keyword_tables_def KEYWORD_HASH_TABLE_COUNT_def)

lemma find_SomeD: "find P xs = Some x \<Longrightarrow> x \<in> set xs \<and> P x"
  by (induction xs) (auto split: if_splits)

lemma find_append: "find P (xs @ ys) = (case find P xs of None \<Rightarrow> find P ys | Some x \<Rightarrow> Some x)"
  by (induction xs) auto

lemma tables_inv_add:
  assumes inv: "tables_inv es tabs" and new: "entry_index e \<notin> entry_index ` set es"
    and len: "length (bytes_of (fst e)) \<le> 11"
  shows "\<exists>tabs'. add_keyword_hash_entry e tabs = Some tabs' \<and> tables_inv (es @ [e]) tabs'"
proof -
  let ?i = "entry_index e" and ?n = "length (bytes_of (fst e))"
  have less: "?i < 512" by (simp add: entry_index_def keyword_index_less)
  have "find (\<lambda>d. entry_index d = ?i) es = None"
    using new unfolding find_None_iff by (auto intro: rev_image_eqI)
  then have free: "keyword_hash_table tabs ! ?i = None" using inv less by (simp add: tables_inv_def)
  let ?tabs = "tabs\<lparr>max_keyword_size := 11, keyword_indices := (keyword_indices tabs)[?n := True],
    keyword_hash_table := (keyword_hash_table tabs)[?i := Some (make_entry e)]\<rparr>"
  have "add_keyword_hash_entry e tabs = Some ?tabs"
    using free inv len
    by (cases e) (simp add: add_keyword_hash_entry_def Let_def entry_index_def make_entry_def tables_inv_def max_def)
  moreover have "tables_inv (es @ [e]) ?tabs"
    unfolding tables_inv_def
  proof (intro conjI allI impI)
    fix i :: nat assume i: "i < 512"
    have none: "find (\<lambda>d. entry_index d = ?i) es = None"
    using new unfolding find_None_iff by (auto intro: rev_image_eqI)
    show "keyword_hash_table ?tabs ! i = map_option make_entry (find (\<lambda>d. entry_index d = i) (es @ [e]))"
      using inv i less none
      by (cases "i = ?i") (auto simp: tables_inv_def find_append split: option.splits)
  next
    fix n :: nat assume "n < 16"
    then show "keyword_indices ?tabs ! n \<longleftrightarrow> (\<exists>d\<in>set (es @ [e]). length (bytes_of (fst d)) = n)"
      using inv by (cases "n = ?n") (auto simp: tables_inv_def)
  qed (use inv in \<open>auto simp: tables_inv_def\<close>)
  ultimately show ?thesis by blast
qed

lemma init_keyword_tables:
  obtains tabs where "init_keyword_hash_table = Some tabs" and "tables_inv (keyword_strings @ legacy_keywords) tabs"
proof -
  let ?all = "keyword_strings @ legacy_keywords"
  have "\<exists>tabs. fold_opt add_keyword_hash_entry ?all empty_keyword_tables = Some tabs \<and> tables_inv ([] @ ?all) tabs"
  proof (rule fold_opt_prefixes [where I = tables_inv, OF _ tables_inv_empty])
    fix ys e rest tabs assume split: "[] @ ?all = ys @ e # rest" and inv: "tables_inv ys tabs"
    have "distinct (map entry_index (ys @ e # rest))" using no_collisions split by (metis append_Nil)
    moreover have "e \<in> set ?all" using split by (metis append_Nil in_set_conv_decomp)
    ultimately show "\<exists>tabs'. add_keyword_hash_entry e tabs = Some tabs' \<and> tables_inv (ys @ [e]) tabs'"
      using keyword_lengths by (intro tables_inv_add [OF inv]) auto
  qed
  then obtain tabs where t: "fold_opt add_keyword_hash_entry ?all empty_keyword_tables = Some tabs"
      "tables_inv ?all tabs" by auto
  then have "max_keyword_size tabs = 11" by (simp add: tables_inv_def)
  moreover obtain tabs1 where "fold_opt add_keyword_hash_entry keyword_strings empty_keyword_tables = Some tabs1"
      "fold_opt add_keyword_hash_entry legacy_keywords tabs1 = Some tabs"
    using t(1) by (auto simp: fold_opt_append bind_eq_Some_conv)
  ultimately have "init_keyword_hash_table = Some tabs" by (simp add: init_keyword_hash_table_def)
  with t(2) that show ?thesis by blast
qed

lemma lookup_keyword_map:
  assumes inv: "tables_inv es tabs" and d: "distinct (map entry_index es)"
    and len: "\<forall>e\<in>set es. 1 < length (bytes_of (fst e)) \<and> length (bytes_of (fst e)) \<le> 11"
  shows "map_option entry_kind (lookup_keyword tabs text) = map_of (map (\<lambda>(s, k). (bytes_of s, k)) es) text"
proof -
  have idx: "keyword_hash_table tabs ! keyword_index (fnv32a text) =
      map_option make_entry (find (\<lambda>e. entry_index e = keyword_index (fnv32a text)) es)"
    using inv by (simp add: tables_inv_def keyword_index_less)
  show ?thesis
  proof (cases "\<exists>e\<in>set es. bytes_of (fst e) = text")
    case True
    then obtain s k where e: "(s, k) \<in> set es" "bytes_of s = text" by auto
    have "inj_on entry_index (set es)" using d by (simp add: distinct_map)
    then have uniq: "e' = (s, k)" if "e' \<in> set es" "entry_index e' = keyword_index (fnv32a text)" for e'
      using that e by (auto simp: inj_on_def entry_index_def)
    have "find (\<lambda>e. entry_index e = keyword_index (fnv32a text)) es \<noteq> None"
      using e by (auto simp: find_None_iff entry_index_def)
    then obtain e' where e': "find (\<lambda>e. entry_index e = keyword_index (fnv32a text)) es = Some e'" by blast
    note * = find_SomeD [OF this]
    have "e' = (s, k)" by (rule uniq [OF * [THEN conjunct1] * [THEN conjunct2]])
    with e' have "find (\<lambda>e. entry_index e = keyword_index (fnv32a text)) es = Some (s, k)" by simp
    then have hit: "keyword_hash_table tabs ! keyword_index (fnv32a text) = Some (make_entry (s, k))"
      using idx by simp
    have "1 < length text" "length text \<le> 11" using len e by auto
    moreover have "\<exists>e\<in>set es. length (bytes_of (fst e)) = length text" using e by force
    moreover from this \<open>length text \<le> 11\<close> have "keyword_indices tabs ! length text" "max_keyword_size tabs = 11"
      using inv e \<open>length text \<le> 11\<close> by (auto simp: tables_inv_def)
    ultimately have l: "map_option entry_kind (lookup_keyword tabs text) = Some k"
      using hit e(2) by (simp add: lookup_keyword_def make_entry_def Let_def)
    have "map_of (map (\<lambda>(s, k). (bytes_of s, k)) es) text = Some k"
    proof -
      have "text \<in> fst ` set (map (\<lambda>(s, k). (bytes_of s, k)) es)" using e by force
      then obtain k' where k': "map_of (map (\<lambda>(s, k). (bytes_of s, k)) es) text = Some k'"
        by (metis map_of_eq_None_iff not_None_eq)
      then have "(text, k') \<in> set (map (\<lambda>(s, k). (bytes_of s, k)) es)" by (rule map_of_SomeD)
      then obtain s' where "(s', k') \<in> set es" "bytes_of s' = text" by auto
      with uniq [of "(s', k')"] k' show ?thesis by (auto simp: entry_index_def)
    qed
    with l show ?thesis by simp
  next
    case False
    then have "map_of (map (\<lambda>(s, k). (bytes_of s, k)) es) text = None" by (force simp: map_of_eq_None_iff)
    moreover have "lookup_keyword tabs text = None"
    proof (cases "find (\<lambda>e. entry_index e = keyword_index (fnv32a text)) es")
      case (Some e)
      then have "bytes_of (fst e) \<noteq> text" using find_SomeD [OF Some] False by blast
      with Some show ?thesis by (simp add: lookup_keyword_def Let_def idx make_entry_def)
    qed (simp add: lookup_keyword_def Let_def idx)
    ultimately show ?thesis by simp
  qed
qed

text \<open>
  Property C21. The keyword table is correct. Building the perfect-hash table never runs into the
  collision assertion, and looking an identifier up in it (length filter, length bitmap, one
  probe, hash and text comparison) gives the keyword it spells, and nothing for any other text.
\<close>

theorem keyword_lookup_correct:
  "\<exists>tabs. init_keyword_hash_table = Some tabs \<and>
     (\<lambda>text. map_option entry_kind (lookup_keyword tabs text)) =
       map_of (map (\<lambda>(s, k). (bytes_of s, k)) (keyword_strings @ legacy_keywords))"
  using init_keyword_tables lookup_keyword_map [OF _ no_collisions keyword_lengths] by (metis (no_types, lifting) ext)

end
