(* ===== verification/Tokenizer.thy ===== *)
theory Tokenizer
  imports Token Utf8
begin

text \<open>
  The tokenizer of \<^verbatim>\<open>src/tokenizer.cpp\<close>. The pointers \<open>curr\<close>, \<open>read_curr\<close> and \<open>end\<close> are offsets into
  the file contents \<open>data\<close>. Lines, columns and offsets are \<open>int\<close> and \<open>nat\<close> (the code's \<^verbatim>\<open>i32\<close>; files are
  limited to 2 GiB when they are loaded). Diagnostics are collected in \<open>diags\<close>, with their
  position. The Unicode category of a rune (utf8proc) is the parameter \<open>cat\<close>, the keyword table
  that is built at start-up is the parameter \<open>kw\<close>.
\<close>

subsection \<open>State\<close>

record token_pos =
  file_id :: int
  offset :: nat
  line :: int
  column :: int

datatype tokenizer_message =
  Illegal_character_NUL | Illegal_UTF8_encoding | Illegal_byte_order_mark
| Invalid_integer int \<comment> \<open>the base\<close>
| Invalid_hexadecimal_float | Invalid_hexadecimal_float_digits nat
| Escape_sequence_not_terminated | Unknown_escape_sequence | Illegal_character_in_escape int
| Expected_a_newline | Rune_literal_not_terminated | Invalid_rune_literal
| String_literal_not_terminated | Comment_not_terminated
| Illegal_character "byte list" int
| Did_you_mean_not_in

record tokenizer =
  data :: "byte list"
  curr_file_id :: int
  curr_rune :: int
  curr :: nat
  read_curr :: nat
  column_minus_one :: int
  line_count :: int
  error_count :: nat
  insert_semicolon :: bool
  diags :: "(token_pos \<times> tokenizer_message) list"

text \<open>The text of a token: a slice of the file (start, length), or the literal newline.\<close>

datatype token_text = Slice nat nat | Newline

record token =
  tkind :: token_kind
  tstring :: token_text
  pos :: token_pos

subsection \<open>Character constants\<close>

abbreviation (input) "c_tab \<equiv> (0x09 :: int)"
abbreviation (input) "c_newline \<equiv> (0x0a :: int)"
abbreviation (input) "c_return \<equiv> (0x0d :: int)"
abbreviation (input) "c_space \<equiv> (0x20 :: int)"
abbreviation (input) "c_bang \<equiv> (0x21 :: int)"
abbreviation (input) "c_dquote \<equiv> (0x22 :: int)"
abbreviation (input) "c_hash \<equiv> (0x23 :: int)"
abbreviation (input) "c_dollar \<equiv> (0x24 :: int)"
abbreviation (input) "c_percent \<equiv> (0x25 :: int)"
abbreviation (input) "c_amp \<equiv> (0x26 :: int)"
abbreviation (input) "c_quote \<equiv> (0x27 :: int)"
abbreviation (input) "c_lparen \<equiv> (0x28 :: int)"
abbreviation (input) "c_rparen \<equiv> (0x29 :: int)"
abbreviation (input) "c_star \<equiv> (0x2a :: int)"
abbreviation (input) "c_plus \<equiv> (0x2b :: int)"
abbreviation (input) "c_comma \<equiv> (0x2c :: int)"
abbreviation (input) "c_minus \<equiv> (0x2d :: int)"
abbreviation (input) "c_period \<equiv> (0x2e :: int)"
abbreviation (input) "c_slash \<equiv> (0x2f :: int)"
abbreviation (input) "c_0 \<equiv> (0x30 :: int)"
abbreviation (input) "c_7 \<equiv> (0x37 :: int)"
abbreviation (input) "c_9 \<equiv> (0x39 :: int)"
abbreviation (input) "c_colon \<equiv> (0x3a :: int)"
abbreviation (input) "c_semicolon \<equiv> (0x3b :: int)"
abbreviation (input) "c_less \<equiv> (0x3c :: int)"
abbreviation (input) "c_equal \<equiv> (0x3d :: int)"
abbreviation (input) "c_greater \<equiv> (0x3e :: int)"
abbreviation (input) "c_question \<equiv> (0x3f :: int)"
abbreviation (input) "c_at \<equiv> (0x40 :: int)"
abbreviation (input) "c_A \<equiv> (0x41 :: int)"
abbreviation (input) "c_E \<equiv> (0x45 :: int)"
abbreviation (input) "c_F \<equiv> (0x46 :: int)"
abbreviation (input) "c_U \<equiv> (0x55 :: int)"
abbreviation (input) "c_lbracket \<equiv> (0x5b :: int)"
abbreviation (input) "c_backslash \<equiv> (0x5c :: int)"
abbreviation (input) "c_rbracket \<equiv> (0x5d :: int)"
abbreviation (input) "c_caret \<equiv> (0x5e :: int)"
abbreviation (input) "c_underscore \<equiv> (0x5f :: int)"
abbreviation (input) "c_backquote \<equiv> (0x60 :: int)"
abbreviation (input) "c_a \<equiv> (0x61 :: int)"
abbreviation (input) "c_b \<equiv> (0x62 :: int)"
abbreviation (input) "c_d \<equiv> (0x64 :: int)"
abbreviation (input) "c_e \<equiv> (0x65 :: int)"
abbreviation (input) "c_f \<equiv> (0x66 :: int)"
abbreviation (input) "c_h \<equiv> (0x68 :: int)"
abbreviation (input) "c_i \<equiv> (0x69 :: int)"
abbreviation (input) "c_j \<equiv> (0x6a :: int)"
abbreviation (input) "c_k \<equiv> (0x6b :: int)"
abbreviation (input) "c_n \<equiv> (0x6e :: int)"
abbreviation (input) "c_o \<equiv> (0x6f :: int)"
abbreviation (input) "c_r \<equiv> (0x72 :: int)"
abbreviation (input) "c_t \<equiv> (0x74 :: int)"
abbreviation (input) "c_u \<equiv> (0x75 :: int)"
abbreviation (input) "c_v \<equiv> (0x76 :: int)"
abbreviation (input) "c_x \<equiv> (0x78 :: int)"
abbreviation (input) "c_z \<equiv> (0x7a :: int)"
abbreviation (input) "c_lbrace \<equiv> (0x7b :: int)"
abbreviation (input) "c_bar \<equiv> (0x7c :: int)"
abbreviation (input) "c_rbrace \<equiv> (0x7d :: int)"
abbreviation (input) "c_tilde \<equiv> (0x7e :: int)"

subsection \<open>Errors and the next rune\<close>

definition tokenizer_err_at :: "token_pos \<Rightarrow> tokenizer_message \<Rightarrow> tokenizer \<Rightarrow> tokenizer" where
  "tokenizer_err_at p msg t = t\<lparr>diags := diags t @ [(p, msg)], error_count := error_count t + 1\<rparr>"

definition tokenizer_err :: "tokenizer_message \<Rightarrow> tokenizer \<Rightarrow> tokenizer" where
  "tokenizer_err msg t =
     (let column = column_minus_one t + 1;
          column = (if column < 1 then 1 else column)
      in tokenizer_err_at
           \<lparr>file_id = curr_file_id t, offset = read_curr t, line = line_count t, column = column\<rparr> msg t)"

definition advance_to_next_rune :: "tokenizer \<Rightarrow> tokenizer" where
  "advance_to_next_rune t =
     (let t = (if curr_rune t = c_newline
               then t\<lparr>column_minus_one := -1, line_count := line_count t + 1\<rparr> else t)
      in if read_curr t < length (data t) then
           let t = t\<lparr>curr := read_curr t\<rparr>;
               b = data t ! read_curr t;
               (t, rune) =
                 (if b = 0 then
                    let t = tokenizer_err Illegal_character_NUL t
                    in (t\<lparr>read_curr := read_curr t + 1\<rparr>, 0)
                  else if b AND 0x80 \<noteq> 0 then
                    let (width, rune) = utf8_decode (drop (read_curr t) (data t));
                        t = t\<lparr>read_curr := read_curr t + width\<rparr>;
                        t = (if rune = GB_RUNE_INVALID \<and> width = 1 then tokenizer_err Illegal_UTF8_encoding t
                             else if rune = GB_RUNE_BOM \<and> curr t > 0 then tokenizer_err Illegal_byte_order_mark t
                             else t)
                    in (t, rune)
                  else (t\<lparr>read_curr := read_curr t + 1\<rparr>, uint b))
           in t\<lparr>curr_rune := rune, column_minus_one := column_minus_one t + 1\<rparr>
         else t\<lparr>curr := length (data t), curr_rune := GB_RUNE_EOF\<rparr>)"

definition init_tokenizer_with_data :: "int \<Rightarrow> byte list \<Rightarrow> tokenizer" where
  "init_tokenizer_with_data fid d =
     (let t = \<lparr>data = d, curr_file_id = fid, curr_rune = 0, curr = 0, read_curr = 0,
               column_minus_one = -1, line_count = 1, error_count = 0, insert_semicolon = False, diags = []\<rparr>;
          t = advance_to_next_rune t
      in if curr_rune t = GB_RUNE_BOM then advance_to_next_rune t else t)"

text \<open>The top bit of a byte.\<close>

lemma high_byte: "(b :: byte) AND 0x80 \<noteq> 0 \<longleftrightarrow> 0x80 \<le> b"
proof -
  have b: "0 \<le> uint b" "uint b < 256" using uint_lt2p [of b] by simp_all
  have "b AND 0x80 \<noteq> 0 \<longleftrightarrow> bit b 7" using and_exp_eq_0_iff_not_bit [of b 7] by simp
  also have "\<dots> \<longleftrightarrow> bit (uint b) 7" by (simp add: bit_uint_iff)
  also have "\<dots> \<longleftrightarrow> odd (uint b div 128)" by (simp add: bit_iff_odd)
  also have "\<dots> \<longleftrightarrow> uint b div 128 = 1"
  proof -
    have "uint b div 128 < 2" "0 \<le> uint b div 128" using b by linarith+
    then show ?thesis by (metis int_one_le_iff_zero_less dvd_0_right odd_one order.not_eq_order_implies_strict zle_add1_eq_le one_add_one order_antisym)
  qed
  also have "\<dots> \<longleftrightarrow> 0x80 \<le> uint b" using b by linarith
  also have "\<dots> \<longleftrightarrow> 0x80 \<le> b" by (simp add: word_le_def)
  finally show ?thesis .
qed

lemma ascii_byte: "(b :: byte) AND 0x80 = 0 \<Longrightarrow> uint b < 0x80"
  using high_byte [of b] by (simp add: word_le_def)

text \<open>
  What is left to read: every call of \<open>advance_to_next_rune\<close> before the end of the file reduces
  this measure, so the scanning loops end.
\<close>

definition remaining :: "tokenizer \<Rightarrow> nat" where
  "remaining t = (length (data t) - read_curr t) + (if curr_rune t = GB_RUNE_EOF then 0 else 1)"

lemma tokenizer_err_simps [simp]:
  "data (tokenizer_err msg t) = data t" "curr_rune (tokenizer_err msg t) = curr_rune t"
  "curr (tokenizer_err msg t) = curr t" "read_curr (tokenizer_err msg t) = read_curr t"
  "line_count (tokenizer_err msg t) = line_count t" "insert_semicolon (tokenizer_err msg t) = insert_semicolon t"
  "column_minus_one (tokenizer_err msg t) = column_minus_one t"
  "curr_file_id (tokenizer_err msg t) = curr_file_id t"
  by (simp_all add: tokenizer_err_def tokenizer_err_at_def Let_def)

lemma tokenizer_err_at_simps [simp]:
  "data (tokenizer_err_at p msg t) = data t" "curr_rune (tokenizer_err_at p msg t) = curr_rune t"
  "curr (tokenizer_err_at p msg t) = curr t" "read_curr (tokenizer_err_at p msg t) = read_curr t"
  "line_count (tokenizer_err_at p msg t) = line_count t"
  "insert_semicolon (tokenizer_err_at p msg t) = insert_semicolon t"
  "column_minus_one (tokenizer_err_at p msg t) = column_minus_one t"
  "curr_file_id (tokenizer_err_at p msg t) = curr_file_id t"
  by (simp_all add: tokenizer_err_at_def)

lemma advance_data [simp]: "data (advance_to_next_rune t) = data t"
  "curr_file_id (advance_to_next_rune t) = curr_file_id t"
  by (simp_all add: advance_to_next_rune_def Let_def split: prod.split)

lemma remaining_err [simp]: "remaining (tokenizer_err msg t) = remaining t"
  "remaining (tokenizer_err_at p msg t) = remaining t" "remaining (t\<lparr>diags := ds\<rparr>) = remaining t"
  by (simp_all add: remaining_def)

lemma advance_at_end: "read_curr t \<ge> length (data t) \<Longrightarrow>
  curr_rune (advance_to_next_rune t) = GB_RUNE_EOF \<and> curr (advance_to_next_rune t) = length (data t) \<and>
  read_curr (advance_to_next_rune t) = read_curr t"
  by (simp add: advance_to_next_rune_def Let_def)

text \<open>What one step reads: the rune and its bytes.\<close>

lemma advance_reads:
  assumes "read_curr t < length (data t)"
  defines "t' \<equiv> advance_to_next_rune t"
  shows "curr t' = read_curr t" and "read_curr t < read_curr t'" and "read_curr t' \<le> length (data t)"
    and "0 \<le> curr_rune t'"
    and "curr_rune t' < 0x80 \<Longrightarrow> read_curr t' = read_curr t + 1 \<and> uint (data t ! read_curr t) = curr_rune t'"
    and "0x80 \<le> curr_rune t' \<Longrightarrow> read_curr t \<le> i \<Longrightarrow> i < read_curr t' \<Longrightarrow> 0x80 \<le> data t ! i"
proof -
  let ?b = "data t ! read_curr t" and ?s = "drop (read_curr t) (data t)"
  have s: "?s \<noteq> []" "?s ! 0 = ?b" using assms(1) by simp_all
  have "curr t' = read_curr t \<and> read_curr t < read_curr t' \<and> read_curr t' \<le> length (data t) \<and> 0 \<le> curr_rune t' \<and>
    (curr_rune t' < 0x80 \<longrightarrow> read_curr t' = read_curr t + 1 \<and> uint ?b = curr_rune t') \<and>
    (0x80 \<le> curr_rune t' \<longrightarrow> read_curr t \<le> i \<longrightarrow> i < read_curr t' \<longrightarrow> 0x80 \<le> data t ! i)"
  proof (cases "?b AND 0x80 = 0")
    case True
    then have "uint ?b < 0x80" by (rule ascii_byte)
    with True assms(1) show ?thesis
      by (simp add: t'_def advance_to_next_rune_def Let_def less_Suc_eq_le)
  next
    case False
    then have nz: "?b \<noteq> 0" and hi: "0x80 \<le> ?b" by (auto simp: high_byte)
    obtain n r where dec: "utf8_decode ?s = (n, r)" by fastforce
    note prog = utf8_decode_progress [OF dec s(1)]
    have high: "128 \<le> r" "j < n \<Longrightarrow> 0x80 \<le> ?s ! j" for j
      using utf8_decode_high [OF dec s(1)] hi s(2) by auto
    have t': "curr t' = read_curr t" "read_curr t' = read_curr t + n" "curr_rune t' = r"
      using assms(1) nz False by (simp_all add: t'_def advance_to_next_rune_def Let_def dec)
    have "0x80 \<le> data t ! i" if "read_curr t \<le> i" "i < read_curr t + n"
      using high(2) [of "i - read_curr t"] that assms(1) prog(2) by auto
    with prog high(1) assms(1) show ?thesis by (auto simp: t')
  qed
  then show "curr t' = read_curr t" "read_curr t < read_curr t'" "read_curr t' \<le> length (data t)"
    "0 \<le> curr_rune t'"
    "curr_rune t' < 0x80 \<Longrightarrow> read_curr t' = read_curr t + 1 \<and> uint (data t ! read_curr t) = curr_rune t'"
    "0x80 \<le> curr_rune t' \<Longrightarrow> read_curr t \<le> i \<Longrightarrow> i < read_curr t' \<Longrightarrow> 0x80 \<le> data t ! i"
    by blast+
qed

lemma remaining_advance:
  assumes "curr_rune t \<noteq> GB_RUNE_EOF"
  shows "remaining (advance_to_next_rune t) < remaining t"
proof (cases "read_curr t < length (data t)")
  case True
  note r = advance_reads(1-4) [OF True]
  with assms show ?thesis by (auto simp: remaining_def)
next
  case False
  with advance_at_end [of t] assms show ?thesis by (simp add: remaining_def)
qed

lemma remaining_advance_le: "remaining (advance_to_next_rune t) \<le> remaining t"
proof (cases "read_curr t < length (data t)")
  case True
  note r = advance_reads(1-4) [OF True]
  then show ?thesis by (auto simp: remaining_def)
next
  case False
  with advance_at_end [of t] show ?thesis by (simp add: remaining_def)
qed


lemmas advance_bounds [termination_simp] = remaining_advance remaining_advance_le

subsection \<open>Scanning loops\<close>

text \<open>
  The loops that advance while the current rune satisfies a condition. None of the conditions holds
  at the end of the file, so the guard for it changes nothing (\<open>advance_while_unfold\<close>).
\<close>

function advance_while :: "(int \<Rightarrow> bool) \<Rightarrow> tokenizer \<Rightarrow> tokenizer" where
  "advance_while P t =
     (if P (curr_rune t) \<and> curr_rune t \<noteq> GB_RUNE_EOF then advance_while P (advance_to_next_rune t) else t)"
  by pat_completeness auto
termination by (relation "measure (\<lambda>(P, t). remaining t)") (auto simp: remaining_advance)

declare advance_while.simps [simp del]

lemma advance_while_unfold:
  assumes "\<not> P GB_RUNE_EOF"
  shows "advance_while P t = (if P (curr_rune t) then advance_while P (advance_to_next_rune t) else t)"
  using assms by (subst advance_while.simps) auto

definition digit_value :: "int \<Rightarrow> int" where
  "digit_value r =
     (if c_0 \<le> r \<and> r \<le> c_9 then r - c_0
      else if c_a \<le> r \<and> r \<le> c_f then r - c_a + 10
      else if c_A \<le> r \<and> r \<le> c_F then r - c_A + 10
      else 16)"

definition scan_mantissa :: "int \<Rightarrow> bool \<Rightarrow> tokenizer \<Rightarrow> tokenizer" where
  "scan_mantissa base force_base t =
     (let base = (if \<not> force_base then 16 else base)
      in advance_while (\<lambda>r. digit_value r < base \<or> r = c_underscore) t)"

text \<open>The call sites use the offset 0.\<close>

definition peek_byte :: "tokenizer \<Rightarrow> int" where
  "peek_byte t = (if read_curr t < length (data t) then uint (data t ! read_curr t) else 0)"

definition tokenizer_skip_line :: "tokenizer \<Rightarrow> tokenizer" where
  "tokenizer_skip_line t = advance_while (\<lambda>r. r \<noteq> c_newline \<and> r \<noteq> GB_RUNE_EOF) t"

definition tokenizer_skip_whitespace :: "bool \<Rightarrow> tokenizer \<Rightarrow> tokenizer" where
  "tokenizer_skip_whitespace on_newline t =
     (if on_newline then advance_while (\<lambda>r. r = c_space \<or> r = c_tab \<or> r = c_return) t
      else advance_while (\<lambda>r. r = c_newline \<or> r = c_space \<or> r = c_tab \<or> r = c_return) t)"

subsection \<open>Numbers\<close>

text \<open>The length of a token is what lies between its start and the current rune.\<close>

definition end_token :: "tokenizer \<Rightarrow> token \<Rightarrow> token" where
  "end_token t tok =
     tok\<lparr>tstring := (case tstring tok of Slice s _ \<Rightarrow> Slice s (curr t - s) | Newline \<Rightarrow> Newline)\<rparr>"

text \<open>The labels \<open>exponent\<close> and \<open>fraction\<close>; \<open>end\<close> is the call of \<open>end_token\<close>.\<close>

definition scan_exponent :: "token \<times> tokenizer \<Rightarrow> token \<times> tokenizer" where
  "scan_exponent = (\<lambda>(tok, t).
     let (tok, t) =
           (if curr_rune t = c_e \<or> curr_rune t = c_E then
              let tok = tok\<lparr>tkind := Literal Token_Float\<rparr>;
                  t = advance_to_next_rune t;
                  t = (if curr_rune t = c_minus \<or> curr_rune t = c_plus then advance_to_next_rune t else t)
              in (tok, scan_mantissa 10 False t)
            else (tok, t));
         (tok, t) =
           (if curr_rune t = c_i \<or> curr_rune t = c_j \<or> curr_rune t = c_k then
              (tok\<lparr>tkind := Literal Token_Imag\<rparr>, advance_to_next_rune t)
            else (tok, t))
     in (end_token t tok, t))"

definition scan_fraction :: "token \<times> tokenizer \<Rightarrow> token \<times> tokenizer" where
  "scan_fraction = (\<lambda>(tok, t).
     if curr_rune t = c_period then
       if peek_byte t = c_period then (end_token t tok, t)
       else
         let t = advance_to_next_rune t;
             tok = tok\<lparr>tkind := Literal Token_Float\<rparr>;
             t = scan_mantissa 10 True t
         in scan_exponent (tok, t)
     else scan_exponent (tok, t))"

text \<open>An integer after \<open>0b\<close>, \<open>0o\<close>, \<open>0d\<close>, \<open>0z\<close> or \<open>0x\<close>; \<open>prev\<close> is the offset of the 0.\<close>

definition scan_based_integer :: "nat \<Rightarrow> int \<Rightarrow> token \<times> tokenizer \<Rightarrow> token \<times> tokenizer" where
  "scan_based_integer prev base = (\<lambda>(tok, t).
     let t = scan_mantissa base False (advance_to_next_rune t);
         (tok, t) = (if curr t - prev \<le> 2
                     then (tok\<lparr>tkind := Token_Invalid\<rparr>, tokenizer_err (Invalid_integer base) t) else (tok, t))
     in (end_token t tok, t))"

definition scan_hex_float :: "nat \<Rightarrow> token \<times> tokenizer \<Rightarrow> token \<times> tokenizer" where
  "scan_hex_float prev = (\<lambda>(tok, t).
     let tok = tok\<lparr>tkind := Literal Token_Float\<rparr>;
         t = scan_mantissa 16 False (advance_to_next_rune t);
         (tok, t) =
           (if curr t - prev \<le> 2
            then (tok\<lparr>tkind := Token_Invalid\<rparr>, tokenizer_err Invalid_hexadecimal_float t)
            else
              let start = prev + 2; n = curr t - start;
                  digit_count = length (filter (\<lambda>b. uint b \<noteq> c_underscore) (take n (drop start (data t))))
              in if digit_count = 4 \<or> digit_count = 8 \<or> digit_count = 16 then (tok, t)
                 else (tok, tokenizer_err (Invalid_hexadecimal_float_digits digit_count) t))
     in (end_token t tok, t))"

definition scan_number_to_token :: "bool \<Rightarrow> token \<times> tokenizer \<Rightarrow> token \<times> tokenizer" where
  "scan_number_to_token seen_decimal_point = (\<lambda>(tok, t).
     let tok = tok\<lparr>tkind := Literal Token_Integer, tstring := Slice (curr t) 1,
                   pos := (pos tok)\<lparr>file_id := curr_file_id t, line := line_count t, column := column_minus_one t + 1\<rparr>\<rparr>
     in if seen_decimal_point then
          let tok = tok\<lparr>tkind := Literal Token_Float, tstring := Slice (curr t - 1) 2,
                        pos := (pos tok)\<lparr>column := column (pos tok) - 1\<rparr>\<rparr>
          in scan_exponent (tok, scan_mantissa 10 True t)
        else if curr_rune t = c_0 then
          let prev = curr t;
              t = advance_to_next_rune t;
              r = curr_rune t
          in if r = c_b then scan_based_integer prev 2 (tok, t)
             else if r = c_o then scan_based_integer prev 8 (tok, t)
             else if r = c_d then scan_based_integer prev 10 (tok, t)
             else if r = c_z then scan_based_integer prev 12 (tok, t)
             else if r = c_x then scan_based_integer prev 16 (tok, t)
             else if r = c_h then scan_hex_float prev (tok, t)
             else scan_fraction (tok, scan_mantissa 10 True t)
        else scan_fraction (tok, scan_mantissa 10 True t))"

subsection \<open>Escapes, runes, strings and comments\<close>

text \<open>
  The digits of an escape. The code also accumulates their value \<open>x\<close> and a limit \<open>max\<close>, but uses
  neither.
\<close>

fun escape_digits :: "nat \<Rightarrow> int \<Rightarrow> tokenizer \<Rightarrow> bool \<times> tokenizer" where
  "escape_digits 0 base t = (True, t)"
| "escape_digits (Suc len) base t =
     (if digit_value (curr_rune t) \<ge> base then
        (False, tokenizer_err (if curr_rune t < 0 then Escape_sequence_not_terminated
                               else Illegal_character_in_escape (curr_rune t)) t)
      else escape_digits len base (advance_to_next_rune t))"

definition scan_escape :: "tokenizer \<Rightarrow> bool \<times> tokenizer" where
  "scan_escape t =
     (let r = curr_rune t
      in if r \<in> {c_a, c_b, c_e, c_f, c_n, c_r, c_t, c_v, c_backslash, c_quote, c_dquote}
         then (True, advance_to_next_rune t)
         else if c_0 \<le> r \<and> r \<le> c_7 then escape_digits 3 8 t
         else if r = c_x then escape_digits 2 16 (advance_to_next_rune t)
         else if r = c_u then escape_digits 4 16 (advance_to_next_rune t)
         else if r = c_U then escape_digits 8 16 (advance_to_next_rune t)
         else (False, tokenizer_err (if r < 0 then Escape_sequence_not_terminated else Unknown_escape_sequence) t))"

lemma remaining_escape_digits: "remaining (snd (escape_digits len base t)) \<le> remaining t"
proof (induction len base t rule: escape_digits.induct)
  case (2 len base t)
  then show ?case using remaining_advance_le [of t] by auto
qed simp

lemma remaining_scan_escape: "remaining (snd (scan_escape t)) \<le> remaining t"
  using remaining_advance_le [of t] remaining_escape_digits [of _ _ "advance_to_next_rune t"]
    remaining_escape_digits [of _ _ t]
  by (auto simp: scan_escape_def Let_def intro: order_trans)

text \<open>The body of a rune literal: its validity and the number of characters.\<close>

function rune_literal_loop :: "bool \<Rightarrow> nat \<Rightarrow> tokenizer \<Rightarrow> bool \<times> nat \<times> tokenizer" where
  "rune_literal_loop valid n t =
     (let r = curr_rune t
      in if r = c_newline \<or> r < 0 then (valid, n, tokenizer_err Rune_literal_not_terminated t)
         else
           let t = advance_to_next_rune t
           in if r = c_quote then (valid, n, t)
              else if r = c_backslash then
                let (ok, t) = scan_escape t
                in rune_literal_loop (valid \<and> ok) (n + 1) t
              else rune_literal_loop valid (n + 1) t)"
  by pat_completeness auto
termination
proof (relation "measure (\<lambda>(valid, n, t). remaining t)", goal_cases)
  case (2 valid n t r t' p ok t'')
  then have "remaining t'' \<le> remaining t'" using remaining_scan_escape [of t'] by (metis snd_conv)
  with 2 show ?case using remaining_advance [of t] by (auto simp: GB_RUNE_EOF_def)
next
  case (3 valid n t r t')
  then show ?case using remaining_advance [of t] by (auto simp: GB_RUNE_EOF_def)
qed simp

function string_loop :: "tokenizer \<Rightarrow> tokenizer" where
  "string_loop t =
     (let r = curr_rune t
      in if r = c_newline \<or> r < 0 then tokenizer_err String_literal_not_terminated t
         else
           let t = advance_to_next_rune t
           in if r = c_dquote then t
              else if r = c_backslash then string_loop (snd (scan_escape t))
              else string_loop t)"
  by pat_completeness auto
termination
proof (relation "measure remaining", goal_cases)
  case (2 t r t')
  then show ?case using remaining_advance [of t] remaining_scan_escape [of t'] by (auto simp: GB_RUNE_EOF_def)
next
  case (3 t r t')
  then show ?case using remaining_advance [of t] by (auto simp: GB_RUNE_EOF_def)
qed simp

function raw_string_loop :: "tokenizer \<Rightarrow> tokenizer" where
  "raw_string_loop t =
     (let r = curr_rune t
      in if r < 0 then tokenizer_err String_literal_not_terminated t
         else
           let t = advance_to_next_rune t
           in if r = c_backquote then t else raw_string_loop t)"
  by pat_completeness auto
termination
proof (relation "measure remaining", goal_cases)
  case (2 t r t')
  then show ?case using remaining_advance [of t] by (auto simp: GB_RUNE_EOF_def)
qed simp

text \<open>Block comments nest.\<close>

function comment_loop :: "nat \<Rightarrow> tokenizer \<Rightarrow> tokenizer" where
  "comment_loop comment_scope t =
     (if comment_scope > 0 then
        if curr_rune t = GB_RUNE_EOF then tokenizer_err Comment_not_terminated t
        else if curr_rune t = c_slash then
          let t = advance_to_next_rune t
          in if curr_rune t = c_star then comment_loop (comment_scope + 1) (advance_to_next_rune t)
             else comment_loop comment_scope t
        else if curr_rune t = c_star then
          let t = advance_to_next_rune t
          in if curr_rune t = c_slash then comment_loop (comment_scope - 1) (advance_to_next_rune t)
             else comment_loop comment_scope t
        else comment_loop comment_scope (advance_to_next_rune t)
      else t)"
  by pat_completeness auto
termination
proof (relation "measure (\<lambda>(comment_scope, t). remaining t)", goal_cases)
  case (2 n t t')
  then show ?case using remaining_advance [of t] remaining_advance_le [of t'] by auto
next
  case (4 n t t')
  then show ?case using remaining_advance [of t] remaining_advance_le [of t'] by auto
qed (use remaining_advance in auto)

declare rune_literal_loop.simps [simp del] string_loop.simps [simp del] raw_string_loop.simps [simp del]
  comment_loop.simps [simp del]

text \<open>A rune literal, a string and a raw string, after their opening quote.\<close>

definition scan_rune_literal :: "token \<times> tokenizer \<Rightarrow> token \<times> tokenizer" where
  "scan_rune_literal = (\<lambda>(tok, t).
     let tok = tok\<lparr>tkind := Literal Token_Rune\<rparr>;
         (valid, n, t) = rune_literal_loop True 0 t;
         t = (if valid \<and> n \<noteq> 1 then tokenizer_err_at (pos tok) Invalid_rune_literal t else t)
     in (end_token t tok, t))"

definition scan_string_literal :: "int \<Rightarrow> token \<times> tokenizer \<Rightarrow> token \<times> tokenizer" where
  "scan_string_literal quote = (\<lambda>(tok, t).
     let tok = tok\<lparr>tkind := Literal Token_String\<rparr>;
         t = (if quote = c_dquote then string_loop t else raw_string_loop t)
     in (end_token t tok, t))"

subsection \<open>Operators and delimiters\<close>

text \<open>
  The token under construction and the tokenizer are passed together. \<open>accept_rune k\<close> sets the kind
  and takes the current rune, \<open>at_rune r\<close> tests it.
\<close>

definition set_kind :: "token_kind \<Rightarrow> token \<times> tokenizer \<Rightarrow> token \<times> tokenizer" where
  "set_kind k = (\<lambda>(tok, t). (tok\<lparr>tkind := k\<rparr>, t))"

definition accept_rune :: "token_kind \<Rightarrow> token \<times> tokenizer \<Rightarrow> token \<times> tokenizer" where
  "accept_rune k = (\<lambda>(tok, t). (tok\<lparr>tkind := k\<rparr>, advance_to_next_rune t))"

definition at_rune :: "int \<Rightarrow> token \<times> tokenizer \<Rightarrow> bool" where
  "at_rune r = (\<lambda>(tok, t). curr_rune t = r)"

definition at_digit :: "token \<times> tokenizer \<Rightarrow> bool" where
  "at_digit = (\<lambda>(tok, t). c_0 \<le> curr_rune t \<and> curr_rune t \<le> c_9)"

text \<open>A rune that is a token by itself.\<close>

definition single_rune_kind :: "int \<Rightarrow> token_kind option" where
  "single_rune_kind r =
     (if r = c_at then Some (Operator Token_At)
      else if r = c_dollar then Some (Operator Token_Dollar)
      else if r = c_question then Some (Operator Token_Question)
      else if r = c_caret then Some (Operator Token_Pointer)
      else if r = c_semicolon then Some (Delimiter Token_Semicolon)
      else if r = c_comma then Some (Delimiter Token_Comma)
      else if r = c_colon then Some (Delimiter Token_Colon)
      else if r = c_lparen then Some (Delimiter Token_OpenParen)
      else if r = c_rparen then Some (Delimiter Token_CloseParen)
      else if r = c_lbracket then Some (Delimiter Token_OpenBracket)
      else if r = c_rbracket then Some (Delimiter Token_CloseBracket)
      else if r = c_lbrace then Some (Delimiter Token_OpenBrace)
      else if r = c_rbrace then Some (Delimiter Token_CloseBrace)
      else None)"

definition scan_period :: "token \<times> tokenizer \<Rightarrow> token \<times> tokenizer" where
  "scan_period s =
     (let s = set_kind (Delimiter Token_Period) s
      in if at_rune c_period s then
           let s = accept_rune (Delimiter Token_Ellipsis) s
           in if at_rune c_less s then accept_rune (Delimiter Token_RangeHalf) s
              else if at_rune c_equal s then accept_rune (Delimiter Token_RangeFull) s
              else s
         else if at_digit s then scan_number_to_token True s
         else s)"

text \<open>An operator that may be followed by \<open>=\<close>, as \<open>=\<close>, \<open>~\<close> and \<open>!\<close> may.\<close>

definition scan_optional_equal :: "token_kind \<Rightarrow> token_kind \<Rightarrow> token \<times> tokenizer \<Rightarrow> token \<times> tokenizer" where
  "scan_optional_equal k k_eq s =
     (let s = set_kind k s in if at_rune c_equal s then accept_rune k_eq s else s)"

definition scan_percent :: "token \<times> tokenizer \<Rightarrow> token \<times> tokenizer" where
  "scan_percent s =
     (let s = set_kind (Operator Token_Mod) s
      in if at_rune c_equal s then accept_rune (AssignOp Token_ModEq) s
         else if at_rune c_percent s then
           let s = accept_rune (Operator Token_ModMod) s
           in if at_rune c_equal s then accept_rune (AssignOp Token_ModModEq) s else s
         else s)"

definition scan_star :: "token \<times> tokenizer \<Rightarrow> token \<times> tokenizer" where
  "scan_star s =
     (let s = set_kind (Operator Token_Mul) s
      in if at_rune c_equal s then accept_rune (AssignOp Token_MulEq) s
         else if at_rune c_star s then accept_rune (Operator Token_MulMul) s
         else s)"

definition scan_plus :: "token \<times> tokenizer \<Rightarrow> token \<times> tokenizer" where
  "scan_plus s =
     (let s = set_kind (Operator Token_Add) s
      in if at_rune c_equal s then accept_rune (AssignOp Token_AddEq) s
         else if at_rune c_plus s then accept_rune (Operator Token_Increment) s
         else s)"

definition scan_minus :: "token \<times> tokenizer \<Rightarrow> token \<times> tokenizer" where
  "scan_minus s =
     (let s = set_kind (Operator Token_Sub) s
      in if at_rune c_equal s then accept_rune (AssignOp Token_SubEq) s
         else if at_rune c_minus s then
           let s = accept_rune (Operator Token_Decrement) s
           in if at_rune c_minus s then accept_rune (Operator Token_Uninit) s else s
         else if at_rune c_greater s then accept_rune (Operator Token_ArrowRight) s
         else s)"

definition scan_hash :: "token \<times> tokenizer \<Rightarrow> token \<times> tokenizer" where
  "scan_hash s =
     (let s = set_kind (Operator Token_Hash) s
      in if at_rune c_bang s then
           let (tok, t) = set_kind Token_Comment s in (tok, tokenizer_skip_line t)
         else if at_rune c_plus s then
           let (tok, t) = set_kind Token_FileTag s
           in (tok, advance_while (\<lambda>r. r \<noteq> GB_RUNE_EOF \<and> r \<noteq> c_newline \<and> r \<noteq> c_slash) t)
         else s)"

definition scan_slash :: "token \<times> tokenizer \<Rightarrow> token \<times> tokenizer" where
  "scan_slash s =
     (let s = set_kind (Operator Token_Quo) s
      in if at_rune c_slash s then
           let (tok, t) = set_kind Token_Comment s in (tok, tokenizer_skip_line t)
         else if at_rune c_star s then
           let (tok, t) = accept_rune Token_Comment s in (tok, comment_loop 1 t)
         else if at_rune c_equal s then accept_rune (AssignOp Token_QuoEq) s
         else s)"

definition scan_less :: "token \<times> tokenizer \<Rightarrow> token \<times> tokenizer" where
  "scan_less s =
     (let s = set_kind (Comparison Token_Lt) s
      in if at_rune c_equal s then accept_rune (Comparison Token_LtEq) s
         else if at_rune c_less s then
           let s = accept_rune (Operator Token_Shl) s
           in if at_rune c_equal s then accept_rune (AssignOp Token_ShlEq) s else s
         else s)"

definition scan_greater :: "token \<times> tokenizer \<Rightarrow> token \<times> tokenizer" where
  "scan_greater s =
     (let s = set_kind (Comparison Token_Gt) s
      in if at_rune c_equal s then accept_rune (Comparison Token_GtEq) s
         else if at_rune c_greater s then
           let s = accept_rune (Operator Token_Shr) s
           in if at_rune c_equal s then accept_rune (AssignOp Token_ShrEq) s else s
         else s)"

definition scan_amp :: "token \<times> tokenizer \<Rightarrow> token \<times> tokenizer" where
  "scan_amp s =
     (let s = set_kind (Operator Token_And) s
      in if at_rune c_tilde s then
           let s = accept_rune (Operator Token_AndNot) s
           in if at_rune c_equal s then accept_rune (AssignOp Token_AndNotEq) s else s
         else if at_rune c_equal s then accept_rune (AssignOp Token_AndEq) s
         else if at_rune c_amp s then
           let s = accept_rune (Operator Token_CmpAnd) s
           in if at_rune c_equal s then accept_rune (AssignOp Token_CmpAndEq) s else s
         else s)"

definition scan_bar :: "token \<times> tokenizer \<Rightarrow> token \<times> tokenizer" where
  "scan_bar s =
     (let s = set_kind (Operator Token_Or) s
      in if at_rune c_equal s then accept_rune (AssignOp Token_OrEq) s
         else if at_rune c_bar s then
           let s = accept_rune (Operator Token_CmpOr) s
           in if at_rune c_equal s then accept_rune (AssignOp Token_CmpOrEq) s else s
         else s)"

definition scan_illegal :: "int \<Rightarrow> token \<times> tokenizer \<Rightarrow> token \<times> tokenizer" where
  "scan_illegal r s =
     (let (tok, t) = set_kind Token_Invalid s
      in (tok, if r \<noteq> GB_RUNE_BOM then tokenizer_err (Illegal_character (gb_utf8_encode_rune r) r) t else t))"

text \<open>The switch on the rune that starts the token, for the cases that fall out of it.\<close>

definition scan_operator :: "int \<Rightarrow> token \<times> tokenizer \<Rightarrow> token \<times> tokenizer" where
  "scan_operator r s =
     (if r = c_period then scan_period s
      else case single_rune_kind r of
        Some k \<Rightarrow> set_kind k s
      | None \<Rightarrow>
          if r = c_percent then scan_percent s
          else if r = c_star then scan_star s
          else if r = c_equal then scan_optional_equal (Operator Token_Eq) (Comparison Token_CmpEq) s
          else if r = c_tilde then scan_optional_equal (Operator Token_Xor) (AssignOp Token_XorEq) s
          else if r = c_bang then scan_optional_equal (Operator Token_Not) (Comparison Token_NotEq) s
          else if r = c_plus then scan_plus s
          else if r = c_minus then scan_minus s
          else if r = c_hash then scan_hash s
          else if r = c_slash then scan_slash s
          else if r = c_less then scan_less s
          else if r = c_greater then scan_greater s
          else if r = c_amp then scan_amp s
          else if r = c_bar then scan_bar s
          else scan_illegal r s)"

subsection \<open>The next token\<close>

definition token_pos_add_column :: "token_pos \<Rightarrow> token_pos" where
  "token_pos_add_column p = p\<lparr>column := column p + 1, offset := offset p + 1\<rparr>"

text \<open>The kinds after which a newline ends the statement.\<close>

definition ends_statement :: "token_kind \<Rightarrow> bool" where
  "ends_statement k = (case k of
     Literal _ \<Rightarrow> True
   | Keyword kw \<Rightarrow> kw \<in> {Token_context, Token_typeid, Token_break, Token_continue, Token_fallthrough,
       Token_return, Token_or_return, Token_or_break, Token_or_continue}
   | Operator op \<Rightarrow> op \<in> {Token_Uninit, Token_Question, Token_Pointer, Token_Increment, Token_Decrement, Token_Not}
   | Delimiter d \<Rightarrow> d \<in> {Token_CloseParen, Token_CloseBracket, Token_CloseBrace}
   | _ \<Rightarrow> False)"

definition semicolon_check :: "token \<times> tokenizer \<Rightarrow> token \<times> tokenizer" where
  "semicolon_check = (\<lambda>(tok, t).
     if tkind tok = Token_Invalid \<or> tkind tok = Token_Comment then (tok, t)
     else if ends_statement (tkind tok) then (tok, t\<lparr>insert_semicolon := True\<rparr>)
     else (tok, t\<lparr>insert_semicolon := False\<rparr>))"

definition slice :: "nat \<Rightarrow> nat \<Rightarrow> byte list \<Rightarrow> byte list" where
  "slice s n d = take n (drop s d)"

definition token_bytes :: "token \<Rightarrow> byte list \<Rightarrow> byte list" where
  "token_bytes tok d = (case tstring tok of Slice s n \<Rightarrow> slice s n d | Newline \<Rightarrow> [0x0a])"

text \<open>The remark on the old spelling is a \<open>syntax_error\<close>, which the tokenizer does not count.\<close>

definition scan_identifier ::
  "keyword_tables \<Rightarrow> (int \<Rightarrow> utf8proc_category) \<Rightarrow> token \<times> tokenizer \<Rightarrow> token \<times> tokenizer" where
  "scan_identifier kw cat = (\<lambda>(tok, t).
     let tok = tok\<lparr>tkind := Literal Token_Ident\<rparr>;
         t = advance_while (rune_is_letter_or_digit cat) t;
         tok = end_token t tok
     in case lookup_keyword kw (token_bytes tok (data t)) of
          None \<Rightarrow> (tok, t)
        | Some entry \<Rightarrow>
            let tok = tok\<lparr>tkind := Keyword (entry_kind entry)\<rparr>
            in (tok, if entry_kind entry = Token_not_in \<and> length (entry_text entry) = 5
                     then t\<lparr>diags := diags t @ [(pos tok, Did_you_mean_not_in)]\<rparr> else t))"

definition start_token :: "tokenizer \<Rightarrow> token" where
  "start_token t =
     \<lparr>tkind = Token_Invalid, tstring = Slice (curr t) 1,
      pos = \<lparr>file_id = curr_file_id t, offset = curr t, line = line_count t, column = column_minus_one t + 1\<rparr>\<rparr>"

text \<open>Scanning never goes back.\<close>

lemma remaining_advance_while: "remaining (advance_while P t) \<le> remaining t"
proof (induction P t rule: advance_while.induct)
  case (1 P t)
  then show ?case using remaining_advance_le [of t] by (subst advance_while.simps) (auto intro: order_trans)
qed

lemma remaining_skip_whitespace: "remaining (tokenizer_skip_whitespace b t) \<le> remaining t"
  by (simp add: tokenizer_skip_whitespace_def remaining_advance_while)

lemma remaining_insert_semicolon [simp]: "remaining (t\<lparr>insert_semicolon := b\<rparr>) = remaining t"
  by (simp add: remaining_def)

function tokenizer_get_token ::
  "keyword_tables \<Rightarrow> (int \<Rightarrow> utf8proc_category) \<Rightarrow> tokenizer \<Rightarrow> token \<times> tokenizer" where
  "tokenizer_get_token kw cat t0 =
     (let t = tokenizer_skip_whitespace (insert_semicolon t0) t0;
          tok = start_token t;
          current_pos = pos tok;
          r = curr_rune t
      in if rune_is_letter cat r then semicolon_check (scan_identifier kw cat (tok, t))
         else if c_0 \<le> r \<and> r \<le> c_9 then semicolon_check (scan_number_to_token False (tok, t))
         else
           let t' = advance_to_next_rune t
           in if r = GB_RUNE_EOF then
                if insert_semicolon t' then
                  (tok\<lparr>tkind := Delimiter Token_Semicolon, tstring := Newline\<rparr>, t'\<lparr>insert_semicolon := False\<rparr>)
                else semicolon_check (end_token t' (tok\<lparr>tkind := Token_EOF\<rparr>), t')
              else if r = c_newline then
                (tok\<lparr>tkind := Delimiter Token_Semicolon, tstring := Newline\<rparr>, t'\<lparr>insert_semicolon := False\<rparr>)
              else if r = c_backslash then
                let (tok, t'') = tokenizer_get_token kw cat (t'\<lparr>insert_semicolon := False\<rparr>)
                in (tok, if line (pos tok) = line current_pos
                         then tokenizer_err_at (token_pos_add_column current_pos) Expected_a_newline t'' else t'')
              else if r = c_quote then semicolon_check (scan_rune_literal (tok, t'))
              else if r = c_backquote \<or> r = c_dquote then semicolon_check (scan_string_literal r (tok, t'))
              else
                let (tok, t'') = scan_operator r (tok, t')
                in semicolon_check (end_token t'' tok, t''))"
  by pat_completeness auto
termination
proof (relation "measure (\<lambda>(kw, cat, t). remaining t)", goal_cases)
  case (2 kw cat t0 t tok current_pos r t')
  then have "remaining t' < remaining t" using remaining_advance [of t] by auto
  also have "remaining t \<le> remaining t0" using 2 by (simp add: remaining_skip_whitespace)
  finally show ?case by simp
qed simp

declare tokenizer_get_token.simps [simp del]

subsection \<open>States that scanning can reach\<close>

text \<open>\<open>scans t t'\<close>: the steps from \<open>t\<close> to \<open>t'\<close> only read runes and report errors.\<close>

inductive scans :: "tokenizer \<Rightarrow> tokenizer \<Rightarrow> bool" where
  scans_refl: "scans t t"
| scans_advance: "scans t t' \<Longrightarrow> scans t (advance_to_next_rune t')"
| scans_err_at: "scans t t' \<Longrightarrow> scans t (tokenizer_err_at p m t')"
| scans_diag: "scans t t' \<Longrightarrow> scans t (t'\<lparr>diags := ds\<rparr>)"

lemma scans_err: "scans t t' \<Longrightarrow> scans t (tokenizer_err m t')"
  by (simp add: tokenizer_err_def Let_def scans_err_at)

lemma scans_trans: "scans t t' \<Longrightarrow> scans t' t'' \<Longrightarrow> scans t t''"
  by (rotate_tac, induction rule: scans.induct) (auto intro: scans.intros)

lemma scans_advance_while: "scans t0 t \<Longrightarrow> scans t0 (advance_while P t)"
proof (induction P t rule: advance_while.induct)
  case (1 P t)
  then show ?case by (subst advance_while.simps) (auto intro: scans_advance)
qed

lemma scans_mantissa: "scans t0 t \<Longrightarrow> scans t0 (scan_mantissa base f t)"
  by (simp add: scan_mantissa_def scans_advance_while)

lemma scans_skip: "scans t0 t \<Longrightarrow> scans t0 (tokenizer_skip_line t)"
  "scans t0 t \<Longrightarrow> scans t0 (tokenizer_skip_whitespace b t)"
  by (simp_all add: tokenizer_skip_line_def tokenizer_skip_whitespace_def scans_advance_while)

lemma scans_escape_digits: "scans t0 t \<Longrightarrow> scans t0 (snd (escape_digits n base t))"
  by (induction n base t rule: escape_digits.induct) (auto intro: scans_advance scans_err)

lemma scans_escape: "scans t0 t \<Longrightarrow> scans t0 (snd (scan_escape t))"
  by (auto simp: scan_escape_def Let_def intro!: scans_escape_digits scans_advance scans_err)

lemma scans_rune_literal_loop: "scans t0 t \<Longrightarrow> scans t0 (snd (snd (rune_literal_loop valid n t)))"
proof (induction valid n t rule: rune_literal_loop.induct)
  case (1 valid n t)
  have adv: "scans t0 (advance_to_next_rune t)" using 1 by (simp add: scans_advance)
  with scans_escape [OF adv] 1 show ?case
    by (subst rune_literal_loop.simps) (auto simp: Let_def intro: scans_err split: prod.splits)
qed

lemma scans_string_loop: "scans t0 t \<Longrightarrow> scans t0 (string_loop t)"
proof (induction t rule: string_loop.induct)
  case (1 t)
  have "scans t0 (advance_to_next_rune t)" using 1 by (simp add: scans_advance)
  with 1 show ?case
    by (subst string_loop.simps) (force simp: Let_def intro: scans_err scans_escape)
qed

lemma scans_raw_string_loop: "scans t0 t \<Longrightarrow> scans t0 (raw_string_loop t)"
proof (induction t rule: raw_string_loop.induct)
  case (1 t)
  then show ?case by (subst raw_string_loop.simps) (auto simp: Let_def intro: scans_advance scans_err)
qed

lemma scans_comment_loop: "scans t0 t \<Longrightarrow> scans t0 (comment_loop n t)"
proof (induction n t rule: comment_loop.induct)
  case (1 n t)
  then show ?case by (subst comment_loop.simps) (auto simp: Let_def scans_advance intro: scans_err)
qed

lemmas scans_intros = scans_advance scans_err scans_err_at scans_diag scans_advance_while scans_mantissa
  scans_skip scans_string_loop scans_raw_string_loop scans_comment_loop

text \<open>What scanning keeps.\<close>

lemma error_count_err [simp]: "error_count (tokenizer_err_at p m t) = error_count t + 1"
  "error_count (tokenizer_err m t) = error_count t + 1"
  by (simp_all add: tokenizer_err_def tokenizer_err_at_def Let_def)

lemma advance_error_count: "error_count t \<le> error_count (advance_to_next_rune t)"
  by (simp add: advance_to_next_rune_def Let_def split: prod.split)

lemma advance_insert_semicolon [simp]:
  "insert_semicolon (advance_to_next_rune t) = insert_semicolon t"
  by (simp add: advance_to_next_rune_def Let_def split: prod.split)

lemma scans_keeps:
  assumes "scans t t'"
  shows "data t' = data t" and "curr_file_id t' = curr_file_id t" and "insert_semicolon t' = insert_semicolon t"
    and "error_count t \<le> error_count t'" and "remaining t' \<le> remaining t"
  using assms
  by (induction rule: scans.induct)
     (auto intro: order_trans [OF _ advance_error_count] order_trans [OF remaining_advance_le])

end
