(* ===== verification/Token_Stream.thy ===== *)
theory Token_Stream
  imports Tokenizer
begin

text \<open>
  The tokens of a file: the loop of \<open>init_ast_file\<close> (\<^verbatim>\<open>src/parser.cpp\<close>) over \<open>tokenizer_get_token\<close>, the
  invariant of the tokenizer (the current rune, the offsets, the line count and the byte order
  mark), what the next token is, progress, and the properties of the whole token list.
\<close>

subsection \<open>A token under construction\<close>

text \<open>
  \<open>building t0 s ln off\<close>: since \<open>t0\<close> only scanning has happened, the token starts at the offset \<open>s\<close>
  and its position is kept. \<open>decided\<close>: its kind is not one of a word, and an invalid kind was reported.
\<close>

definition building :: "tokenizer \<Rightarrow> nat \<Rightarrow> int \<Rightarrow> nat \<Rightarrow> token \<times> tokenizer \<Rightarrow> bool" where
  "building t0 s ln off st \<longleftrightarrow>
     scans t0 (snd st) \<and> (\<exists>n. tstring (fst st) = Slice s n) \<and> line (pos (fst st)) = ln \<and> offset (pos (fst st)) = off"

definition decided :: "token \<times> tokenizer \<Rightarrow> bool" where
  "decided st \<longleftrightarrow>
     tkind (fst st) \<noteq> Literal Token_Ident \<and> \<not> token_is_keyword (tkind (fst st)) \<and> tkind (fst st) \<noteq> Token_EOF \<and>
     (tkind (fst st) = Token_Invalid \<longrightarrow> 0 < error_count (snd st))"

lemma building_step:
  "building t0 s ln off (tok, t) \<Longrightarrow> scans t t' \<Longrightarrow> building t0 s ln off (tok, t')"
  by (auto simp: building_def intro: scans_trans)

lemma building_scans: "building t0 s ln off (tok, t) \<Longrightarrow> scans t0 t"
  by (simp add: building_def)

lemma building_kind [simp]: "building t0 s ln off (tok\<lparr>tkind := k\<rparr>, t) = building t0 s ln off (tok, t)"
  by (simp add: building_def)

lemma building_end [simp]: "building t0 s ln off (end_token t' tok, t) = building t0 s ln off (tok, t)"
  by (auto simp: building_def end_token_def split: token_text.splits)

lemma end_token_kind [simp]: "tkind (end_token t tok) = tkind tok" "pos (end_token t tok) = pos tok"
  by (simp_all add: end_token_def)

lemma building_set_kind [simp]: "building t0 s ln off (set_kind k st) = building t0 s ln off st"
  by (cases st) (simp add: set_kind_def)

lemma building_accept: "building t0 s ln off st \<Longrightarrow> building t0 s ln off (accept_rune k st)"
  by (cases st) (auto simp: accept_rune_def intro: building_step scans_intros scans_refl)

lemma building_advance [simp]:
  "building t0 s ln off (tok, t) \<Longrightarrow> building t0 s ln off (tok, advance_to_next_rune t)"
  "building t0 s ln off (tok, t) \<Longrightarrow> building t0 s ln off (tok, scan_mantissa base f t)"
  "building t0 s ln off (tok, t) \<Longrightarrow> building t0 s ln off (tok, tokenizer_err m t)"
  "building t0 s ln off (tok, t) \<Longrightarrow> building t0 s ln off (tok, tokenizer_err_at p m t)"
  "building t0 s ln off (tok, t) \<Longrightarrow> building t0 s ln off (tok, tokenizer_skip_line t)"
  "building t0 s ln off (tok, t) \<Longrightarrow> building t0 s ln off (tok, advance_while P t)"
  "building t0 s ln off (tok, t) \<Longrightarrow> building t0 s ln off (tok, comment_loop n t)"
  "building t0 s ln off (tok, t) \<Longrightarrow> building t0 s ln off (tok, string_loop t)"
  "building t0 s ln off (tok, t) \<Longrightarrow> building t0 s ln off (tok, raw_string_loop t)"
  "building t0 s ln off (tok, t) \<Longrightarrow> building t0 s ln off (tok, t\<lparr>diags := ds\<rparr>)"
  by (auto elim!: building_step intro!: scans_intros scans_refl)

lemma decided_simps [simp]:
  "decided (tok\<lparr>tkind := Literal l\<rparr>, t) \<longleftrightarrow> l \<noteq> Token_Ident" "decided (tok\<lparr>tkind := Operator op\<rparr>, t)"
  "decided (tok\<lparr>tkind := AssignOp a\<rparr>, t)" "decided (tok\<lparr>tkind := Comparison c\<rparr>, t)"
  "decided (tok\<lparr>tkind := Delimiter d\<rparr>, t)" "decided (tok\<lparr>tkind := Token_Comment\<rparr>, t)"
  "decided (tok\<lparr>tkind := Token_FileTag\<rparr>, t)"
  "decided (tok\<lparr>tkind := Token_Invalid\<rparr>, t) \<longleftrightarrow> 0 < error_count t"
  "decided (end_token t' tok, t) \<longleftrightarrow> decided (tok, t)"
  "decided (tok\<lparr>tstring := txt'\<rparr>, t) \<longleftrightarrow> decided (tok, t)" "decided (tok\<lparr>pos := p\<rparr>, t) \<longleftrightarrow> decided (tok, t)"
  by (auto simp: decided_def token_is_keyword_def end_token_def)

lemma decided_step: "decided (tok, t) \<Longrightarrow> scans t t' \<Longrightarrow> decided (tok, t')"
  using scans_keeps(4) [of t t'] by (auto simp: decided_def)

lemma decided_advance [simp]:
  "decided (tok, t) \<Longrightarrow> decided (tok, advance_to_next_rune t)"
  "decided (tok, t) \<Longrightarrow> decided (tok, scan_mantissa base f t)"
  "decided (tok, t) \<Longrightarrow> decided (tok, tokenizer_err m t)"
  "decided (tok, t) \<Longrightarrow> decided (tok, tokenizer_err_at p m t)"
  by (auto elim!: decided_step intro!: scans_intros scans_refl)

lemma decided_set_kind [simp]:
  "decided (set_kind (Operator op) st)" "decided (set_kind (AssignOp a) st)" "decided (set_kind (Comparison c) st)"
  "decided (set_kind (Delimiter d) st)"
  "decided (accept_rune (Operator op) st)" "decided (accept_rune (AssignOp a) st)"
  "decided (accept_rune (Comparison c) st)" "decided (accept_rune (Delimiter d) st)"
  by (cases st; simp add: set_kind_def accept_rune_def)+

text \<open>Numbers.\<close>

lemma scan_exponent_ok:
  assumes "building t0 s ln off st" and "decided st"
  shows "building t0 s ln off (scan_exponent st) \<and> decided (scan_exponent st)"
  using assms by (cases st) (simp add: scan_exponent_def Let_def)

lemma scan_fraction_ok:
  assumes "building t0 s ln off st" and "decided st"
  shows "building t0 s ln off (scan_fraction st) \<and> decided (scan_fraction st)"
  using assms by (cases st) (auto simp: scan_fraction_def Let_def intro!: scan_exponent_ok)

lemma scan_based_integer_ok:
  assumes "building t0 s ln off st" and "decided st"
  shows "building t0 s ln off (scan_based_integer prev base st) \<and> decided (scan_based_integer prev base st)"
  using assms by (cases st) (auto simp: scan_based_integer_def Let_def)

lemma scan_hex_float_ok:
  assumes "building t0 s ln off st"
  shows "building t0 s ln off (scan_hex_float prev st) \<and> decided (scan_hex_float prev st)"
  using assms by (cases st) (auto simp: scan_hex_float_def Let_def)

lemma decided_number [simp]:
  "decided st \<Longrightarrow> decided (scan_exponent st)"
  "decided st \<Longrightarrow> decided (scan_fraction st)"
  "decided st \<Longrightarrow> decided (scan_based_integer prev base st)"
  "decided (scan_hex_float prev st)"
  by (cases st; simp add: scan_exponent_def scan_fraction_def scan_based_integer_def scan_hex_float_def Let_def)+

lemma building_start:
  "building t0 s ln off (tok, t) \<Longrightarrow>
   building t0 (curr t) (line_count t) off
     (tok\<lparr>tkind := k, tstring := Slice (curr t) n, pos := (pos tok)\<lparr>file_id := f, line := line_count t, column := c\<rparr>\<rparr>, t)"
  by (simp add: building_def)

lemma scan_number_ok:
  assumes "building t0 s ln off (tok, t)" and "s = curr t" and "ln = line_count t"
  shows "building t0 s ln off (scan_number_to_token False (tok, t)) \<and> decided (scan_number_to_token False (tok, t))"
  using building_start [OF assms(1)] assms(2,3)
  by (simp add: scan_number_to_token_def Let_def scan_based_integer_ok scan_hex_float_ok scan_fraction_ok)

lemma scan_number_point_ok:
  assumes "building t0 s ln off (tok, t)" and "s = curr t - 1" and "ln = line_count t"
  shows "building t0 s ln off (scan_number_to_token True (tok, t)) \<and> decided (scan_number_to_token True (tok, t))"
proof -
  have "building t0 s ln off (tok\<lparr>tkind := k, tstring := Slice s n, pos := (pos tok)\<lparr>file_id := f, line := ln, column := c\<rparr>\<rparr>, t)"
    for k n f c using assms(1) by (simp add: building_def)
  with assms(2,3) show ?thesis
    by (simp add: scan_number_to_token_def Let_def scan_exponent_ok)
qed

text \<open>Literals and operators.\<close>

lemma scan_rune_literal_ok:
  assumes "building t0 s ln off st"
  shows "building t0 s ln off (scan_rune_literal st) \<and> decided (scan_rune_literal st)"
proof (cases st)
  case (Pair tok t)
  obtain v n t' where l: "rune_literal_loop True 0 t = (v, n, t')" by (metis prod_cases3)
  have "scans t t'" using scans_rune_literal_loop [OF scans_refl, of t True 0] l by simp
  with assms Pair have "building t0 s ln off (tok, t')" by (auto intro: building_step)
  with Pair l show ?thesis by (auto simp: scan_rune_literal_def Let_def)
qed

lemma scan_string_literal_ok:
  assumes "building t0 s ln off st"
  shows "building t0 s ln off (scan_string_literal q st) \<and> decided (scan_string_literal q st)"
  using assms by (cases st) (auto simp: scan_string_literal_def Let_def)

lemmas operator_defs = scan_optional_equal_def scan_percent_def scan_star_def scan_plus_def scan_minus_def
  scan_less_def scan_greater_def scan_amp_def scan_bar_def

lemma scan_operators_ok:
  assumes "building t0 s ln off st"
  shows "building t0 s ln off (scan_percent st) \<and> decided (scan_percent st)"
    and "building t0 s ln off (scan_star st) \<and> decided (scan_star st)"
    and "building t0 s ln off (scan_plus st) \<and> decided (scan_plus st)"
    and "building t0 s ln off (scan_minus st) \<and> decided (scan_minus st)"
    and "building t0 s ln off (scan_less st) \<and> decided (scan_less st)"
    and "building t0 s ln off (scan_greater st) \<and> decided (scan_greater st)"
    and "building t0 s ln off (scan_amp st) \<and> decided (scan_amp st)"
    and "building t0 s ln off (scan_bar st) \<and> decided (scan_bar st)"
    and "building t0 s ln off (scan_optional_equal (Operator k) (AssignOp k1) st) \<and>
      decided (scan_optional_equal (Operator k) (AssignOp k1) st)"
    and "building t0 s ln off (scan_optional_equal (Operator k) (Comparison k2) st) \<and>
      decided (scan_optional_equal (Operator k) (Comparison k2) st)"
  using assms by (simp_all add: operator_defs Let_def building_accept)

lemma scan_hash_ok:
  assumes "building t0 s ln off st"
  shows "building t0 s ln off (scan_hash st) \<and> decided (scan_hash st)"
  using assms by (cases st) (auto simp: scan_hash_def set_kind_def Let_def)

lemma scan_slash_ok:
  assumes "building t0 s ln off st"
  shows "building t0 s ln off (scan_slash st) \<and> decided (scan_slash st)"
  using assms building_accept [OF assms]
  by (cases st) (auto simp: scan_slash_def set_kind_def accept_rune_def Let_def)

lemma scan_illegal_ok:
  assumes "building t0 s ln off st" and "r = GB_RUNE_BOM \<Longrightarrow> 0 < error_count (snd st)"
  shows "building t0 s ln off (scan_illegal r st) \<and> decided (scan_illegal r st)"
  using assms by (cases st) (auto simp: scan_illegal_def set_kind_def)

lemma scan_period_ok:
  assumes "building t0 s ln off st" and "at_digit st \<Longrightarrow> s = curr (snd st) - 1 \<and> ln = line_count (snd st)"
  shows "building t0 s ln off (scan_period st) \<and> decided (scan_period st)"
proof (cases st)
  case (Pair tok t)
  with assms(1) have b: "building t0 s ln off (tok\<lparr>tkind := Delimiter Token_Period\<rparr>, t)" by simp
  have a: "building t0 s ln off (accept_rune k (tok\<lparr>tkind := Delimiter Token_Period\<rparr>, t))" for k
    by (rule building_accept [OF b])
  show ?thesis
  proof (cases "at_digit st")
    case True
    with assms(2) have "s = curr t - 1" "ln = line_count t" using Pair by auto
    note n = scan_number_point_ok [OF b this]
    from True Pair have "\<not> at_rune c_period (tok\<lparr>tkind := Delimiter Token_Period\<rparr>, t)" "at_digit (tok\<lparr>tkind := Delimiter Token_Period\<rparr>, t)"
      by (auto simp: at_rune_def at_digit_def)
    with n Pair show ?thesis by (simp add: scan_period_def set_kind_def Let_def)
  next
    case False
    with Pair have "\<not> at_digit (tok\<lparr>tkind := Delimiter Token_Period\<rparr>, t)" by (simp add: at_digit_def)
    with a b Pair show ?thesis by (simp add: scan_period_def set_kind_def Let_def building_accept)
  qed
qed

lemma single_rune_ok:
  assumes "building t0 s ln off st" and "single_rune_kind r = Some k"
  shows "building t0 s ln off (set_kind k st) \<and> decided (set_kind k st)"
  using assms by (auto simp: single_rune_kind_def split: if_splits)

lemma scan_operator_ok:
  assumes "building t0 s ln off st" and "r = GB_RUNE_BOM \<Longrightarrow> 0 < error_count (snd st)"
    and "r = c_period \<Longrightarrow> at_digit st \<Longrightarrow> s = curr (snd st) - 1 \<and> ln = line_count (snd st)"
  shows "building t0 s ln off (scan_operator r st) \<and> decided (scan_operator r st)"
proof (cases "r = c_period")
  case True
  with scan_period_ok [OF assms(1)] assms(3) show ?thesis by (simp add: scan_operator_def)
next
  case np: False
  show ?thesis
  proof (cases "single_rune_kind r")
    case (Some k)
    with np single_rune_ok [OF assms(1) Some] show ?thesis by (simp add: scan_operator_def)
  next
    case None
    show ?thesis
      unfolding scan_operator_def None option.case if_not_P [OF np]
      using scan_operators_ok [OF assms(1)] scan_hash_ok [OF assms(1)] scan_slash_ok [OF assms(1)]
        scan_illegal_ok [OF assms(1,2)]
      by (simp split: if_split)
  qed
qed


subsection \<open>The invariant of the tokenizer\<close>

definition newlines :: "byte list \<Rightarrow> nat" where
  "newlines d = length (filter (\<lambda>b. b = 0x0a) d)"

text \<open>
  The current rune is the one at \<open>curr\<close>, its bytes end at \<open>read_curr\<close>, the line count is the number of
  newlines before it, and a byte order mark inside the file has been reported.
\<close>

definition tok_inv :: "tokenizer \<Rightarrow> bool" where
  "tok_inv t \<longleftrightarrow>
     curr t \<le> read_curr t \<and> read_curr t \<le> length (data t) \<and>
     line_count t = 1 + int (newlines (take (curr t) (data t))) \<and>
     (curr_rune t = GB_RUNE_BOM \<longrightarrow> 0 < error_count t) \<and>
     (if curr_rune t = GB_RUNE_EOF then curr t = length (data t)
      else 0 \<le> curr_rune t \<and> curr t < read_curr t \<and>
        (curr_rune t < 0x80 \<longrightarrow> read_curr t = curr t + 1 \<and> uint (data t ! curr t) = curr_rune t) \<and>
        (0x80 \<le> curr_rune t \<longrightarrow> (\<forall>i. curr t \<le> i \<longrightarrow> i < read_curr t \<longrightarrow> 0x80 \<le> data t ! i)))"

lemma newlines_take:
  assumes "i \<le> j" and "j \<le> length d" and "\<And>k. i \<le> k \<Longrightarrow> k < j \<Longrightarrow> d ! k \<noteq> 0x0a"
  shows "newlines (take j d) = newlines (take i d)"
proof -
  have "take j d = take i d @ take (j - i) (drop i d)" using assms(1) by (metis take_add le_add_diff_inverse)
  moreover have "filter (\<lambda>b. b = 0x0a) (take (j - i) (drop i d)) = []"
  proof -
    have "b \<noteq> 0x0a" if "b \<in> set (take (j - i) (drop i d))" for b
      using that assms by (auto simp: in_set_conv_nth)
    then show ?thesis by (simp add: filter_empty_conv)
  qed
  ultimately show ?thesis by (simp add: newlines_def)
qed

lemma newlines_take_Suc:
  "i < length d \<Longrightarrow> newlines (take (Suc i) d) = newlines (take i d) + (if d ! i = 0x0a then 1 else 0)"
  by (simp add: newlines_def take_Suc_conv_app_nth)

lemma advance_line_count:
  "line_count (advance_to_next_rune t) = line_count t + (if curr_rune t = c_newline then 1 else 0)"
  by (simp add: advance_to_next_rune_def Let_def split: prod.split)

lemma advance_bom:
  assumes "0 < read_curr t" and "curr_rune (advance_to_next_rune t) = GB_RUNE_BOM"
  shows "0 < error_count (advance_to_next_rune t)"
  using assms ascii_byte [of "data t ! read_curr t"]
  by (cases "utf8_decode (drop (read_curr t) (data t))")
     (auto simp: advance_to_next_rune_def Let_def GB_RUNE_BOM_def GB_RUNE_EOF_def GB_RUNE_INVALID_def
       split: if_splits)

text \<open>One step restores the invariant from the line count of what has been read.\<close>

lemma advance_tok_inv:
  assumes "read_curr t \<le> length (data t)"
    and "line_count (advance_to_next_rune t) = 1 + int (newlines (take (read_curr t) (data t)))"
    and "0 < read_curr t \<or> curr_rune (advance_to_next_rune t) \<noteq> GB_RUNE_BOM"
  shows "tok_inv (advance_to_next_rune t)"
proof (cases "read_curr t < length (data t)")
  case True
  note r = advance_reads [OF True]
  have "curr_rune (advance_to_next_rune t) \<noteq> GB_RUNE_EOF" using r(4) by (simp add: GB_RUNE_EOF_def)
  then show ?thesis
    unfolding tok_inv_def using r assms(2,3) advance_bom [of t] by auto
next
  case False
  then have "length (data t) \<le> read_curr t" by simp
  note e = advance_at_end [OF this]
  with assms False show ?thesis by (auto simp: tok_inv_def GB_RUNE_EOF_def GB_RUNE_BOM_def)
qed

lemma uint_eq_numeral: "uint (b :: byte) = 10 \<Longrightarrow> b = 0x0a"
  by (simp add: word_uint_eq_iff)

lemma tok_inv_advance:
  assumes "tok_inv t"
  shows "tok_inv (advance_to_next_rune t)"
proof -
  have le: "curr t \<le> read_curr t" "read_curr t \<le> length (data t)"
    and lines: "line_count t = 1 + int (newlines (take (curr t) (data t)))"
    using assms by (simp_all add: tok_inv_def)
  have "curr_rune t = GB_RUNE_EOF \<or> 0 \<le> curr_rune t" using assms by (auto simp: tok_inv_def split: if_splits)
  then consider "curr_rune t = GB_RUNE_EOF" | "0 \<le> curr_rune t" "curr_rune t < 0x80" | "0x80 \<le> curr_rune t"
    by linarith
  then show ?thesis
  proof cases
    case 1
    then have "curr t = length (data t)" "read_curr t = length (data t)" using assms by (auto simp: tok_inv_def)
    moreover from this have "curr_rune (advance_to_next_rune t) = GB_RUNE_EOF" by (simp add: advance_at_end)
    ultimately show ?thesis using lines 1 by (intro advance_tok_inv) (simp_all add: advance_line_count GB_RUNE_EOF_def GB_RUNE_BOM_def)
  next
    case 2
    then have r: "read_curr t = Suc (curr t)" "uint (data t ! curr t) = curr_rune t"
      using assms by (auto simp: tok_inv_def GB_RUNE_EOF_def)
    have "(data t ! curr t = 0x0a) = (curr_rune t = c_newline)" using r(2) uint_eq_numeral by fastforce
    then show ?thesis using le lines r by (intro advance_tok_inv) (simp_all add: advance_line_count newlines_take_Suc)
  next
    case 3
    then have r: "curr t < read_curr t" "\<And>i. curr t \<le> i \<Longrightarrow> i < read_curr t \<Longrightarrow> 0x80 \<le> data t ! i"
      using assms by (auto simp: tok_inv_def GB_RUNE_EOF_def)
    have "data t ! i \<noteq> 0x0a" if "curr t \<le> i" "i < read_curr t" for i
      using r(2) [OF that] by auto
    then have "newlines (take (read_curr t) (data t)) = newlines (take (curr t) (data t))"
      using le by (intro newlines_take) auto
    then show ?thesis using le lines r(1) 3 by (intro advance_tok_inv) (simp_all add: advance_line_count)
  qed
qed

lemma tok_inv_cong [simp]:
  "tok_inv (t\<lparr>diags := ds\<rparr>) = tok_inv t" "tok_inv (t\<lparr>insert_semicolon := b\<rparr>) = tok_inv t"
  by (simp_all add: tok_inv_def)

lemma tok_inv_err: "tok_inv t \<Longrightarrow> tok_inv (tokenizer_err_at p m t)"
  by (simp add: tok_inv_def)

lemma advance_curr_mono: "tok_inv t \<Longrightarrow> curr t \<le> curr (advance_to_next_rune t)"
proof (cases "read_curr t < length (data t)")
  case True
  assume "tok_inv t"
  with advance_reads(1) [OF True] show ?thesis by (simp add: tok_inv_def)
next
  case False
  assume "tok_inv t"
  with advance_at_end [of t] False show ?thesis by (simp add: tok_inv_def)
qed

lemma scans_inv:
  assumes "scans t t'" and "tok_inv t"
  shows "tok_inv t'" and "curr t \<le> curr t'"
  using assms
  by (induction rule: scans.induct)
     (auto simp: tok_inv_advance tok_inv_err intro: order_trans [OF _ advance_curr_mono])

lemma tok_inv_init: "tok_inv (init_tokenizer_with_data fid d)"
proof -
  let ?t = "\<lparr>data = d, curr_file_id = fid, curr_rune = 0, curr = 0, read_curr = 0, column_minus_one = -1,
    line_count = 1, error_count = 0, insert_semicolon = False, diags = []\<rparr>"
  let ?t1 = "advance_to_next_rune ?t"
  have l: "line_count ?t1 = 1" by (simp add: advance_line_count)
  show ?thesis
  proof (cases "curr_rune ?t1 = GB_RUNE_BOM")
    case False
    then show ?thesis
      using advance_tok_inv [of ?t] l by (simp add: init_tokenizer_with_data_def Let_def newlines_def)
  next
    case True
    then have d: "d \<noteq> []" using advance_at_end [of ?t] by (auto simp: GB_RUNE_BOM_def GB_RUNE_EOF_def)
    then have rc: "read_curr ?t < length (data ?t)" by simp
    note r = advance_reads [OF rc]
    have "newlines (take (read_curr ?t1) d) = newlines (take 0 d)"
    proof (rule newlines_take)
      show "read_curr ?t1 \<le> length d" using r(3) by simp
      show "d ! k \<noteq> 0x0a" if "0 \<le> k" "k < read_curr ?t1" for k
        using r(6) [of k] that True by (auto simp: GB_RUNE_BOM_def)
    qed simp
    then have "tok_inv (advance_to_next_rune ?t1)"
      using r(2,3) True l
      by (intro advance_tok_inv) (simp_all add: advance_line_count GB_RUNE_BOM_def newlines_def)
    with True show ?thesis by (simp add: init_tokenizer_with_data_def Let_def)
  qed
qed

subsection \<open>What the next token is\<close>

text \<open>
  The bytes between two tokens: white space, and the backslash that joins two lines.
\<close>

definition blank :: "byte \<Rightarrow> bool" where
  "blank b \<longleftrightarrow> b = 0x20 \<or> b = 0x09 \<or> b = 0x0d \<or> b = 0x0a \<or> b = 0x5c"

definition blanks :: "byte list \<Rightarrow> nat \<Rightarrow> nat \<Rightarrow> bool" where
  "blanks d i j \<longleftrightarrow> i \<le> j \<and> (\<forall>k\<in>{i..<j}. blank (d ! k))"

lemma blanks_refl [simp]: "blanks d i i"
  by (simp add: blanks_def)

lemma blanks_trans: "blanks d i j \<Longrightarrow> blanks d j k \<Longrightarrow> blanks d i k"
  by (force simp: blanks_def not_less)

lemma advance_ascii:
  assumes "tok_inv t" and "0 \<le> curr_rune t" and "curr_rune t < 0x80"
  shows "curr (advance_to_next_rune t) = Suc (curr t)" and "uint (data t ! curr t) = curr_rune t"
    and "curr t < length (data t)"
proof -
  have r: "read_curr t = Suc (curr t)" "uint (data t ! curr t) = curr_rune t" "read_curr t \<le> length (data t)"
    using assms by (auto simp: tok_inv_def GB_RUNE_EOF_def)
  show "uint (data t ! curr t) = curr_rune t" by (rule r(2))
  show "curr t < length (data t)" using r by simp
  show "curr (advance_to_next_rune t) = Suc (curr t)"
    by (cases "read_curr t < length (data t)") (use advance_reads(1) [of t] advance_at_end [of t] r in auto)
qed

lemma blank_rune:
  "uint b = r \<Longrightarrow> r = c_space \<or> r = c_tab \<or> r = c_return \<or> r = c_newline \<or> r = c_backslash \<Longrightarrow> blank b"
  by (auto simp: blank_def word_uint_eq_iff)

lemma blanks_advance:
  assumes "tok_inv t" and "curr_rune t \<in> {c_space, c_tab, c_return, c_newline, c_backslash}"
  shows "blanks (data t) (curr t) (curr (advance_to_next_rune t))"
proof -
  have "0 \<le> curr_rune t" "curr_rune t < 0x80" using assms(2) by auto
  note a = advance_ascii [OF assms(1) this]
  have "blank (data t ! curr t)" by (rule blank_rune [OF a(2)]) (use assms(2) in auto)
  then show ?thesis by (auto simp: blanks_def a(1) less_Suc_eq)
qed

lemma advance_while_bytes:
  assumes "tok_inv t" and "\<And>r. P r \<Longrightarrow> r \<in> {c_space, c_tab, c_return, c_newline, c_backslash}"
  shows "curr t \<le> curr (advance_while P t) \<and>
    (\<forall>k\<in>{curr t..<curr (advance_while P t)}. P (uint (data t ! k)))"
  using assms
proof (induction P t rule: advance_while.induct)
  case (1 P t)
  show ?case
  proof (cases "P (curr_rune t) \<and> curr_rune t \<noteq> GB_RUNE_EOF")
    case True
    let ?t = "advance_to_next_rune t"
    have IH: "curr ?t \<le> curr (advance_while P ?t) \<and> (\<forall>k\<in>{curr ?t..<curr (advance_while P ?t)}. P (uint (data t ! k)))"
      using 1 True by (simp add: tok_inv_advance)
    have "0 \<le> curr_rune t" "curr_rune t < 0x80" using 1(3) [of "curr_rune t"] True by auto
    note a = advance_ascii [OF 1(2) this]
    have e: "advance_while P t = advance_while P ?t" using True by (simp add: advance_while.simps [of P t])
    have "P (uint (data t ! k))" if "curr t \<le> k" "k < curr (advance_while P ?t)" for k
    proof (cases "k = curr t")
      case True
      with a(2) \<open>P (curr_rune t) \<and> _\<close> show ?thesis by simp
    next
      case False
      with that a(1) IH show ?thesis by simp
    qed
    with IH a(1) e show ?thesis by simp
  next
    case False
    then show ?thesis by (auto simp: advance_while.simps [of P t])
  qed
qed

lemma blanks_advance_while:
  assumes "tok_inv t" and "\<And>r. P r \<Longrightarrow> r \<in> {c_space, c_tab, c_return, c_newline, c_backslash}"
  shows "blanks (data t) (curr t) (curr (advance_while P t))"
proof -
  have "blank (data t ! k)" if "P (uint (data t ! k))" for k
    using assms(2) [OF that] by (intro blank_rune [OF refl]) blast
  with advance_while_bytes [OF assms(1), of P, OF assms(2)] show ?thesis by (simp add: blanks_def)
qed

lemma advance_while_stops: "\<not> P (curr_rune (advance_while P t)) \<or> curr_rune (advance_while P t) = GB_RUNE_EOF"
proof (induction P t rule: advance_while.induct)
  case (1 P t)
  then show ?case
    by (cases "P (curr_rune t) \<and> curr_rune t \<noteq> GB_RUNE_EOF") (auto simp: advance_while.simps [of P t])
qed

text \<open>While a statement can end, a newline may only follow a backslash in the space before a token.\<close>

definition joined :: "byte list \<Rightarrow> nat \<Rightarrow> nat \<Rightarrow> bool" where
  "joined d i s \<longleftrightarrow> (\<forall>k\<in>{i..<s}. d ! k = 0x0a \<longrightarrow> (\<exists>j\<in>{i..<k}. d ! j = 0x5c))"

lemma joined_refl [simp]: "joined d i i"
  by (simp add: joined_def)

lemma skip_whitespace_spec:
  fixes b :: bool
  assumes "tok_inv t"
  defines "t' \<equiv> tokenizer_skip_whitespace b t"
  shows "blanks (data t) (curr t) (curr t')" and "scans t t'" and "tok_inv t'"
    and "curr_rune t' = c_newline \<Longrightarrow> b" and "b \<Longrightarrow> joined (data t) (curr t) (curr t')"
proof -
  show "joined (data t) (curr t) (curr t')" if b
  proof -
    have "uint (data t ! k) \<noteq> 10" if "k \<in> {curr t..<curr t'}" for k
      using advance_while_bytes [OF assms(1), of "\<lambda>r. r = c_space \<or> r = c_tab \<or> r = c_return"] that \<open>b\<close>
      unfolding t'_def tokenizer_skip_whitespace_def by force
    then show ?thesis by (force simp: joined_def)
  qed
  show "blanks (data t) (curr t) (curr t')"
    unfolding t'_def tokenizer_skip_whitespace_def using assms(1) by (auto intro!: blanks_advance_while)
  show s: "scans t t'" unfolding t'_def by (intro scans_skip scans_refl)
  show "tok_inv t'" by (rule scans_inv(1) [OF s assms(1)])
  show "curr_rune t' = c_newline \<Longrightarrow> b"
    using advance_while_stops [of "\<lambda>r. r = c_newline \<or> r = c_space \<or> r = c_tab \<or> r = c_return" t]
    by (auto simp: t'_def tokenizer_skip_whitespace_def GB_RUNE_EOF_def split: if_splits)
qed

text \<open>Where a token ends, and what makes it a token of the file \<open>d\<close>.\<close>

definition token_is_newline :: "token \<Rightarrow> bool" where
  "token_is_newline tok \<longleftrightarrow> tkind tok = Delimiter Token_Semicolon \<and> tstring tok = Newline"

definition token_end :: "byte list \<Rightarrow> token \<Rightarrow> nat" where
  "token_end d tok =
     offset (pos tok) +
     (case tstring tok of Slice s n \<Rightarrow> n | Newline \<Rightarrow> if offset (pos tok) < length d then 1 else 0)"

definition token_word :: "keyword_tables \<Rightarrow> byte list \<Rightarrow> token \<Rightarrow> bool" where
  "token_word kw d tok =
     (case tkind tok of
        Keyword k \<Rightarrow> map_option entry_kind (lookup_keyword kw (token_bytes tok d)) = Some k
      | Literal Token_Ident \<Rightarrow> lookup_keyword kw (token_bytes tok d) = None
      | _ \<Rightarrow> True)"

definition token_in_file :: "keyword_tables \<Rightarrow> byte list \<Rightarrow> token \<Rightarrow> bool" where
  "token_in_file kw d tok \<longleftrightarrow>
     token_end d tok \<le> length d \<and>
     line (pos tok) = 1 + int (newlines (take (offset (pos tok)) d)) \<and>
     (case tstring tok of
        Slice s n \<Rightarrow> s = offset (pos tok)
      | Newline \<Rightarrow> token_is_newline tok \<and> (offset (pos tok) < length d \<longrightarrow> d ! offset (pos tok) = 0x0a)) \<and>
     (tkind tok = Token_EOF \<longrightarrow> offset (pos tok) = length d) \<and>
     token_word kw d tok"

definition next_token_ok :: "keyword_tables \<Rightarrow> tokenizer \<Rightarrow> token \<Rightarrow> tokenizer \<Rightarrow> bool" where
  "next_token_ok kw t0 tok t' \<longleftrightarrow>
     tok_inv t' \<and> data t' = data t0 \<and> blanks (data t0) (curr t0) (offset (pos tok)) \<and>
     curr t' = token_end (data t0) tok \<and> token_in_file kw (data t0) tok \<and>
     (token_is_newline tok \<longrightarrow> insert_semicolon t0) \<and>
     (insert_semicolon t0 \<longrightarrow> joined (data t0) (curr t0) (offset (pos tok))) \<and>
     (ends_statement (tkind tok) \<longrightarrow> insert_semicolon t') \<and>
     (insert_semicolon t' \<longrightarrow>
        ends_statement (tkind tok) \<or>
        (tkind tok = Token_Comment \<or> tkind tok = Token_Invalid) \<and> insert_semicolon t0) \<and>
     (tkind tok = Token_Invalid \<longrightarrow> 0 < error_count t')"

lemma joined_trans:
  assumes "joined d i j" and "joined d j k \<or> (\<exists>m\<in>{i..<j}. d ! m = 0x5c)" and "i \<le> j"
  shows "joined d i k"
  unfolding joined_def
proof (intro ballI impI)
  fix l assume l: "l \<in> {i..<k}" "d ! l = 0x0a"
  show "\<exists>m\<in>{i..<l}. d ! m = 0x5c"
  proof (cases "l < j")
    case True
    with assms(1) l show ?thesis by (simp add: joined_def)
  next
    case False
    then have "{i..<j} \<subseteq> {i..<l}" "{j..<l} \<subseteq> {i..<l}" using assms(3) by auto
    moreover have "joined d j k \<Longrightarrow> \<exists>m\<in>{j..<l}. d ! m = 0x5c" using l False by (simp add: joined_def)
    ultimately show ?thesis using assms(2) by blast
  qed
qed

lemma next_token_skip:
  assumes "next_token_ok kw t tok t'" and "data t = data t0" and "insert_semicolon t \<longrightarrow> insert_semicolon t0"
    and "blanks (data t0) (curr t0) (curr t)" and "insert_semicolon t0 \<Longrightarrow> joined (data t0) (curr t0) (curr t)"
    and "insert_semicolon t0 \<Longrightarrow> \<not> insert_semicolon t \<Longrightarrow> \<exists>j\<in>{curr t0..<curr t}. data t0 ! j = 0x5c"
  shows "next_token_ok kw t0 tok t'"
proof -
  have le: "curr t0 \<le> curr t" using assms(4) by (simp add: blanks_def)
  have "insert_semicolon t0 \<longrightarrow> joined (data t0) (curr t0) (offset (pos tok))"
  proof
    assume i: "insert_semicolon t0"
    have "joined (data t0) (curr t) (offset (pos tok)) \<or> (\<exists>m\<in>{curr t0..<curr t}. data t0 ! m = 0x5c)"
      using assms(1,2) assms(6) [OF i] by (auto simp: next_token_ok_def)
    then show "joined (data t0) (curr t0) (offset (pos tok))"
      by (rule joined_trans [OF assms(5) [OF i] _ le])
  qed
  with assms(1-4) blanks_trans [of "data t0" "curr t0" "curr t"] show ?thesis by (auto simp: next_token_ok_def)
qed

definition ended :: "token \<times> tokenizer \<Rightarrow> bool" where
  "ended st \<longleftrightarrow> end_token (snd st) (fst st) = fst st"

lemma ended_end_token [simp]: "ended (end_token t tok, t)"
  by (simp add: ended_def end_token_def split: token_text.split)

lemma ended_literals [simp]:
  "ended (scan_exponent st)" "ended (scan_fraction st)" "ended (scan_based_integer prev base st)"
  "ended (scan_hex_float prev st)" "ended (scan_number_to_token False st)"
  "ended (scan_rune_literal st)" "ended (scan_string_literal q st)"
proof -
  show e: "ended (scan_exponent st)" for st by (cases st) (simp add: scan_exponent_def Let_def)
  show f: "ended (scan_fraction st)" for st by (cases st) (simp add: scan_fraction_def Let_def e)
  show b: "ended (scan_based_integer prev base st)" for prev base st
    by (cases st) (simp add: scan_based_integer_def Let_def)
  show h: "ended (scan_hex_float prev st)" for prev st by (cases st) (simp add: scan_hex_float_def Let_def)
  show "ended (scan_number_to_token False st)"
    by (cases st) (simp add: scan_number_to_token_def Let_def b f h)
  show "ended (scan_rune_literal st)" by (cases st) (simp add: scan_rune_literal_def Let_def split: prod.split)
  show "ended (scan_string_literal q st)" by (cases st) (simp add: scan_string_literal_def Let_def)
qed

text \<open>A token that has been built since its start is a token of the file.\<close>

lemma finish_token:
  assumes inv: "tok_inv t" and b: "building t (curr t) (line_count t) (curr t) st" and e: "ended st"
    and w: "token_word kw (data t) (fst st)"
    and eof: "tkind (fst st) = Token_EOF \<Longrightarrow> curr t = length (data t)"
    and bad: "tkind (fst st) = Token_Invalid \<Longrightarrow> 0 < error_count (snd st)"
  shows "next_token_ok kw t (fst (semicolon_check st)) (snd (semicolon_check st))"
proof -
  obtain tok t' where st: "st = (tok, t')" by (cases st)
  obtain n where sl: "tstring tok = Slice (curr t) n" and p: "line (pos tok) = line_count t" "offset (pos tok) = curr t"
    and sc: "scans t t'" using b st by (auto simp: building_def)
  note keeps = scans_keeps [OF sc] and inv' = scans_inv [OF sc inv]
  have "n = curr t' - curr t"
  proof -
    have "end_token t' tok = tok" using e st by (simp add: ended_def)
    then have "tstring (end_token t' tok) = Slice (curr t) n" using sl by simp
    then show ?thesis by (simp add: end_token_def sl)
  qed
  then have fin: "token_end (data t) tok = curr t'" using inv'(2) by (simp add: token_end_def sl p)
  have le: "curr t' \<le> length (data t)" using inv' keeps(1) by (auto simp: tok_inv_def)
  have "token_in_file kw (data t) tok"
    using fin le p sl inv eof w st by (simp add: token_in_file_def tok_inv_def)
  moreover have "\<not> token_is_newline tok" using sl by (simp add: token_is_newline_def)
  ultimately show ?thesis
    using st keeps inv' fin p bad
    by (auto simp: next_token_ok_def semicolon_check_def ends_statement_def)
qed

lemma decided_word: "decided st \<Longrightarrow> token_word kw d (fst st)"
  by (auto simp: decided_def token_word_def token_is_keyword_def split: token_kind.splits literal_kind.splits)

lemma finish_decided:
  assumes "tok_inv t" and "building t (curr t) (line_count t) (curr t) st \<and> decided st" and "ended st"
  shows "next_token_ok kw t (fst (semicolon_check st)) (snd (semicolon_check st))"
  using assms by (intro finish_token decided_word) (auto simp: decided_def)

text \<open>Identifiers.\<close>

lemma scan_identifier_ok:
  fixes kw cat
  assumes "building t0 s ln off (tok, t)" and "tstring tok = Slice s n"
  defines "st \<equiv> scan_identifier kw cat (tok, t)"
  shows "building t0 s ln off st \<and> ended st \<and> token_word kw (data t) (fst st) \<and>
    (tkind (fst st) = Literal Token_Ident \<or> token_is_keyword (tkind (fst st)))"
proof -
  let ?t = "advance_while (rune_is_letter_or_digit cat) t"
  let ?tok = "end_token ?t (tok\<lparr>tkind := Literal Token_Ident\<rparr>)"
  have b: "building t0 s ln off (?tok, ?t)" using assms(1) by simp
  have d: "data ?t = data t" using scans_keeps(1) [OF scans_advance_while [OF scans_refl]] .
  have e: "ended (?tok\<lparr>tkind := k\<rparr>, ?t\<lparr>diags := ds\<rparr>)" "ended (?tok\<lparr>tkind := k\<rparr>, ?t)" for k ds
    by (simp_all add: ended_def end_token_def assms(2))
  have bytes: "token_bytes (?tok\<lparr>tkind := k\<rparr>) dd = token_bytes ?tok dd" for k dd by (simp add: token_bytes_def)
  show ?thesis
  proof (cases "lookup_keyword kw (token_bytes ?tok (data t))")
    case None
    then have "st = (?tok, ?t)" by (simp add: st_def scan_identifier_def Let_def d)
    moreover have "tkind ?tok = Literal Token_Ident" by (simp add: end_token_def)
    ultimately show ?thesis using b None by (simp add: token_word_def)
  next
    case (Some entry)
    then have "st = (?tok\<lparr>tkind := Keyword (entry_kind entry)\<rparr>, ?t) \<or>
        (\<exists>ds. st = (?tok\<lparr>tkind := Keyword (entry_kind entry)\<rparr>, ?t\<lparr>diags := ds\<rparr>))"
      by (auto simp: st_def scan_identifier_def Let_def d)
    then show ?thesis using b e Some by (auto simp: token_word_def token_is_keyword_def bytes)
  qed
qed

lemma building_start_token:
  assumes "scans t t'"
  shows "building t (curr t) (line_count t) (curr t) (start_token t, t')"
  using assms by (simp add: building_def start_token_def)

lemma scan_words_ok:
  assumes "tok_inv t"
  shows "next_token_ok kw t (fst (semicolon_check (scan_identifier kw cat (start_token t, t))))
    (snd (semicolon_check (scan_identifier kw cat (start_token t, t))))"
proof -
  have sl: "tstring (start_token t) = Slice (curr t) 1" by (simp add: start_token_def)
  note i = scan_identifier_ok [OF building_start_token [OF scans_refl] sl, of kw cat]
  then show ?thesis by (intro finish_token [OF assms]) (auto simp: token_is_keyword_def)
qed

text \<open>The newline of an automatic semicolon, in the file or at its end.\<close>

lemma newline_token_ok:
  assumes inv: "tok_inv t" and ins: "insert_semicolon t" and r: "curr_rune t = c_newline \<or> curr_rune t = GB_RUNE_EOF"
  shows "next_token_ok kw t (start_token t\<lparr>tkind := Delimiter Token_Semicolon, tstring := Newline\<rparr>)
    (advance_to_next_rune t\<lparr>insert_semicolon := False\<rparr>)"
proof -
  let ?tok = "start_token t\<lparr>tkind := Delimiter Token_Semicolon, tstring := Newline\<rparr>"
  have p: "offset (pos ?tok) = curr t" "line (pos ?tok) = line_count t" by (simp_all add: start_token_def)
  have fin: "curr (advance_to_next_rune t) = token_end (data t) ?tok" and le: "token_end (data t) ?tok \<le> length (data t)"
    and nl: "curr t < length (data t) \<longrightarrow> data t ! curr t = 0x0a"
  proof -
    consider "curr_rune t = c_newline" | "curr_rune t = GB_RUNE_EOF" using r by blast
    then have "curr (advance_to_next_rune t) = token_end (data t) ?tok \<and> token_end (data t) ?tok \<le> length (data t) \<and>
        (curr t < length (data t) \<longrightarrow> data t ! curr t = 0x0a)"
    proof cases
      case 1
      with advance_ascii [OF inv] uint_eq_numeral show ?thesis by (auto simp: token_end_def start_token_def)
    next
      case 2
      then have "curr t = length (data t)" "read_curr t = length (data t)" using inv by (auto simp: tok_inv_def)
      then show ?thesis by (simp add: advance_at_end token_end_def start_token_def)
    qed
    then show "curr (advance_to_next_rune t) = token_end (data t) ?tok" "token_end (data t) ?tok \<le> length (data t)"
      "curr t < length (data t) \<longrightarrow> data t ! curr t = 0x0a" by blast+
  qed
  have k: "tkind ?tok = Delimiter Token_Semicolon" "token_is_newline ?tok" "tstring ?tok = Newline"
    by (simp_all add: token_is_newline_def)
  have "line_count t = 1 + int (newlines (take (curr t) (data t)))" using inv by (simp add: tok_inv_def)
  then have "token_in_file kw (data t) ?tok" using p le nl k unfolding token_in_file_def token_word_def by simp
  then show ?thesis
    unfolding next_token_ok_def using tok_inv_advance [OF inv] fin p k ins by (simp add: ends_statement_def)
qed

lemma eof_token_ok:
  assumes inv: "tok_inv t" and r: "curr_rune t = GB_RUNE_EOF"
  shows "next_token_ok kw t
    (fst (semicolon_check (end_token (advance_to_next_rune t) (start_token t\<lparr>tkind := Token_EOF\<rparr>), advance_to_next_rune t)))
    (snd (semicolon_check (end_token (advance_to_next_rune t) (start_token t\<lparr>tkind := Token_EOF\<rparr>), advance_to_next_rune t)))"
proof -
  have "building t (curr t) (line_count t) (curr t) (start_token t, advance_to_next_rune t)"
    by (intro building_start_token scans_advance scans_refl)
  moreover have "curr t = length (data t)" using inv r by (simp add: tok_inv_def)
  ultimately show ?thesis
    by (intro finish_token [OF inv]) (simp_all add: token_word_def)
qed

lemma operator_token_ok:
  assumes inv: "tok_inv t" and op: "scan_operator (curr_rune t) (start_token t, advance_to_next_rune t) = (tok, t')"
  shows "next_token_ok kw t (fst (semicolon_check (end_token t' tok, t'))) (snd (semicolon_check (end_token t' tok, t')))"
proof -
  let ?t = "advance_to_next_rune t"
  have "building t (curr t) (line_count t) (curr t) (tok, t') \<and> decided (tok, t')"
    unfolding op [symmetric]
  proof (rule scan_operator_ok)
    show "building t (curr t) (line_count t) (curr t) (start_token t, ?t)"
      by (intro building_start_token scans_advance scans_refl)
    show "0 < error_count (snd (start_token t, ?t))" if "curr_rune t = GB_RUNE_BOM"
      using inv that advance_error_count [of t] by (simp add: tok_inv_def)
    show "curr t = curr (snd (start_token t, ?t)) - 1 \<and> line_count t = line_count (snd (start_token t, ?t))"
      if "curr_rune t = c_period"
      using advance_ascii(1) [OF inv] that by (simp add: advance_line_count)
  qed
  then show ?thesis by (intro finish_decided [OF inv]) simp_all
qed

lemma literal_token_ok:
  assumes "tok_inv t"
  shows "next_token_ok kw t (fst (semicolon_check (scan_number_to_token False (start_token t, t))))
      (snd (semicolon_check (scan_number_to_token False (start_token t, t))))"
    and "next_token_ok kw t (fst (semicolon_check (scan_rune_literal (start_token t, advance_to_next_rune t))))
      (snd (semicolon_check (scan_rune_literal (start_token t, advance_to_next_rune t))))"
    and "next_token_ok kw t (fst (semicolon_check (scan_string_literal q (start_token t, advance_to_next_rune t))))
      (snd (semicolon_check (scan_string_literal q (start_token t, advance_to_next_rune t))))"
  by (intro finish_decided [OF assms] scan_number_ok scan_rune_literal_ok scan_string_literal_ok
      building_start_token scans_advance scans_refl ended_literals; simp)+

text \<open>After a backslash the tokenizer starts again on the next line.\<close>

lemma backslash_ok:
  assumes inv: "tok_inv t" and r: "curr_rune t = c_backslash"
    and rest: "next_token_ok kw (advance_to_next_rune t\<lparr>insert_semicolon := False\<rparr>) tok t'"
  shows "next_token_ok kw t tok t'" and "next_token_ok kw t tok (tokenizer_err_at p m t')"
proof -
  let ?t = "advance_to_next_rune t\<lparr>insert_semicolon := False\<rparr>"
  have bl: "blanks (data t) (curr t) (curr ?t)" using blanks_advance [OF inv] r by simp
  have "curr ?t = Suc (curr t)" "uint (data t ! curr t) = 0x5c" using advance_ascii [OF inv] r by simp_all
  moreover from this have "data t ! curr t = 0x5c" by (simp add: word_uint_eq_iff)
  ultimately have "joined (data t) (curr t) (curr ?t)" "\<exists>j\<in>{curr t..<curr ?t}. data t ! j = 0x5c"
    by (auto simp: joined_def less_Suc_eq)
  with bl show ok: "next_token_ok kw t tok t'" by (intro next_token_skip [OF rest]) simp_all
  then show "next_token_ok kw t tok (tokenizer_err_at p m t')"
    by (auto simp: next_token_ok_def tok_inv_err)
qed

text \<open>The shape of the function once white space is skipped.\<close>

definition token_at :: "keyword_tables \<Rightarrow> (int \<Rightarrow> utf8proc_category) \<Rightarrow> tokenizer \<Rightarrow> token \<times> tokenizer" where
  "token_at kw cat t =
     (let tok = start_token t; r = curr_rune t; t' = advance_to_next_rune t
      in if rune_is_letter cat r then semicolon_check (scan_identifier kw cat (tok, t))
         else if c_0 \<le> r \<and> r \<le> c_9 then semicolon_check (scan_number_to_token False (tok, t))
         else if r = GB_RUNE_EOF \<and> \<not> insert_semicolon t then
           semicolon_check (end_token t' (tok\<lparr>tkind := Token_EOF\<rparr>), t')
         else if r = GB_RUNE_EOF \<or> r = c_newline then
           (tok\<lparr>tkind := Delimiter Token_Semicolon, tstring := Newline\<rparr>, t'\<lparr>insert_semicolon := False\<rparr>)
         else if r = c_quote then semicolon_check (scan_rune_literal (tok, t'))
         else if r = c_backquote \<or> r = c_dquote then semicolon_check (scan_string_literal r (tok, t'))
         else
           let (tok, t'') = scan_operator r (tok, t')
           in semicolon_check (end_token t'' tok, t''))"

lemma get_token_cases:
  fixes t0
  defines "t \<equiv> tokenizer_skip_whitespace (insert_semicolon t0) t0"
  shows "tokenizer_get_token kw cat t0 =
    (if curr_rune t = c_backslash then
       let (tok, t') = tokenizer_get_token kw cat (advance_to_next_rune t\<lparr>insert_semicolon := False\<rparr>)
       in (tok, if line (pos tok) = line_count t
                then tokenizer_err_at (token_pos_add_column (pos (start_token t))) Expected_a_newline t' else t')
     else token_at kw cat t)"
proof -
  have b: "\<not> rune_is_letter cat c_backslash" by (simp add: rune_is_letter_def ascii_letter_def)
  show ?thesis
    using b unfolding t_def
    by (subst tokenizer_get_token.simps)
       (auto simp: Let_def token_at_def start_token_def GB_RUNE_EOF_def split: prod.splits)
qed

lemma token_at_ok:
  assumes inv: "tok_inv t" and nl: "curr_rune t = c_newline \<Longrightarrow> insert_semicolon t"
  shows "next_token_ok kw t (fst (token_at kw cat t)) (snd (token_at kw cat t))"
proof -
  obtain tok t' where op: "scan_operator (curr_rune t) (start_token t, advance_to_next_rune t) = (tok, t')"
    by fastforce
  show ?thesis
    unfolding token_at_def Let_def op prod.case
    using scan_words_ok [OF inv] literal_token_ok [OF inv] eof_token_ok [OF inv] operator_token_ok [OF inv op]
      newline_token_ok [OF inv] nl
    by (simp split: if_split)
qed

lemma get_token_ok:
  assumes "tok_inv t0" and "tokenizer_get_token kw cat t0 = (tok, t')"
  shows "next_token_ok kw t0 tok t'"
  using assms
proof (induction kw cat t0 arbitrary: tok t' rule: tokenizer_get_token.induct)
  case (1 kw cat t0)
  define t where "t = tokenizer_skip_whitespace (insert_semicolon t0) t0"
  note sk = skip_whitespace_spec [OF 1(2), of "insert_semicolon t0", folded t_def]
  note keeps = scans_keeps [OF sk(2)]
  have "next_token_ok kw t tok t'"
  proof (cases "curr_rune t = c_backslash")
    case True
    let ?t = "advance_to_next_rune t\<lparr>insert_semicolon := False\<rparr>"
    obtain tok1 t1 where rec: "tokenizer_get_token kw cat ?t = (tok1, t1)" by fastforce
    have "next_token_ok kw ?t tok1 t1"
    proof (rule 1(1))
      show "tok_inv ?t" using tok_inv_advance [OF sk(3)] by simp
      show "\<not> rune_is_letter cat (curr_rune t)" using True by (simp add: rune_is_letter_def ascii_letter_def)
    qed (use True rec in \<open>simp_all add: t_def GB_RUNE_EOF_def\<close>)
    from backslash_ok [OF sk(3) True this] 1(3) True rec show ?thesis
      by (auto simp: get_token_cases [of kw cat t0, folded t_def] split: if_splits)
  next
    case False
    with 1(3) token_at_ok [OF sk(3), of kw cat] sk(4) keeps(3) show ?thesis
      by (simp add: get_token_cases [of kw cat t0, folded t_def])
  qed
  then show ?case by (rule next_token_skip) (use sk(1,5) keeps in simp_all)
qed

subsection \<open>Progress\<close>

lemma building_remaining: "building t0 s ln off st \<Longrightarrow> remaining (snd st) \<le> remaining t0"
  by (simp add: building_def scans_keeps(5))

lemma advance_while_progress:
  "P (curr_rune t) \<Longrightarrow> curr_rune t \<noteq> GB_RUNE_EOF \<Longrightarrow> remaining (advance_while P t) < remaining t"
  using remaining_advance [of t] remaining_advance_while [of P "advance_to_next_rune t"]
  by (simp add: advance_while.simps [of P t])

lemma semicolon_check_remaining [simp]: "remaining (snd (semicolon_check st)) = remaining (snd st)"
  by (cases st) (simp add: semicolon_check_def)

lemma identifier_progress:
  assumes "rune_is_letter cat (curr_rune t)"
  shows "remaining (snd (scan_identifier kw cat (tok, t))) < remaining t"
proof -
  have "rune_is_letter_or_digit cat (curr_rune t)" "curr_rune t \<noteq> GB_RUNE_EOF"
    using assms by (auto simp: rune_is_letter_def rune_is_letter_or_digit_def ascii_letter_def GB_RUNE_EOF_def)
  then have "remaining (advance_while (rune_is_letter_or_digit cat) t) < remaining t"
    by (rule advance_while_progress)
  then show ?thesis by (auto simp: scan_identifier_def Let_def split: option.splits)
qed

lemma scans_number:
  "scans t (snd (scan_fraction (tok, t)))" "scans t (snd (scan_exponent (tok, t)))"
  "scans t (snd (scan_based_integer prev base (tok, t)))" "scans t (snd (scan_hex_float prev (tok, t)))"
proof -
  show e: "scans t (snd (scan_exponent (tok, t)))" for tok t
    by (auto simp: scan_exponent_def Let_def intro!: scans_intros scans_refl)
  show "scans t (snd (scan_fraction (tok, t)))"
    by (auto simp: scan_fraction_def Let_def intro!: scans_trans [OF _ e] scans_intros scans_refl)
qed (auto simp: scan_based_integer_def scan_hex_float_def Let_def intro!: scans_intros scans_refl)

lemma number_progress:
  assumes "c_0 \<le> curr_rune t" and "curr_rune t \<le> c_9"
  shows "remaining (snd (scan_number_to_token False (start_token t, t))) < remaining t"
proof -
  have m: "remaining (scan_mantissa 10 True t) < remaining t"
    unfolding scan_mantissa_def using assms
    by (auto intro!: advance_while_progress simp: digit_value_def GB_RUNE_EOF_def)
  have a: "remaining (advance_to_next_rune t) < remaining t"
    using assms by (intro remaining_advance) (auto simp: GB_RUNE_EOF_def)
  note le = le_less_trans [OF scans_keeps(5) [OF scans_number(1)]] le_less_trans [OF scans_keeps(5) [OF scans_number(3)]]
    le_less_trans [OF scans_keeps(5) [OF scans_number(4)]] le_less_trans [OF scans_keeps(5) [OF scans_mantissa [OF scans_refl]]]
  show ?thesis using a m by (simp add: scan_number_to_token_def Let_def le)
qed

text \<open>Operators only scan.\<close>

lemma scans_st [simp]:
  "scans t (snd st) \<Longrightarrow> scans t (snd (accept_rune k st))" "scans t (snd st) \<Longrightarrow> scans t (snd (set_kind k st))"
  by (cases st; simp add: accept_rune_def set_kind_def scans_advance)+

lemma scans_operator: "scans t (snd (scan_operator r (tok, t)))"
proof -
  let ?s = "(tok, t)"
  have refl: "scans t (snd ?s)" by (simp add: scans_refl)
  have n: "scans t (snd (scan_number_to_token True (tok', t)))" for tok'
    using scans_trans [OF scans_mantissa [OF scans_refl] scans_number(2)] by (simp add: scan_number_to_token_def Let_def)
  have e: "set_kind (Delimiter Token_Period) ?s = (tok\<lparr>tkind := Delimiter Token_Period\<rparr>, t)" by (simp add: set_kind_def)
  have "scans t (snd (scan_period ?s))"
    unfolding scan_period_def Let_def e using n by (simp add: scans_refl)
  moreover have "scans t (snd (scan_percent ?s))" "scans t (snd (scan_star ?s))" "scans t (snd (scan_plus ?s))"
    "scans t (snd (scan_minus ?s))" "scans t (snd (scan_less ?s))" "scans t (snd (scan_greater ?s))"
    "scans t (snd (scan_amp ?s))" "scans t (snd (scan_bar ?s))" "scans t (snd (scan_optional_equal k k' ?s))" for k k'
    using refl by (simp_all add: operator_defs Let_def)
  moreover have "scans t (snd (scan_hash ?s))" "scans t (snd (scan_slash ?s))" "scans t (snd (scan_illegal r ?s))"
    using refl
    by (simp_all add: scan_hash_def scan_slash_def scan_illegal_def set_kind_def accept_rune_def Let_def
        scans_skip scans_advance_while scans_comment_loop scans_err scans_advance)
  moreover have "scans t (snd (set_kind k ?s))" for k using refl by simp
  ultimately show ?thesis
    unfolding scan_operator_def by (cases "single_rune_kind r") (simp_all del: scans_st split: if_split)
qed

lemma scans_literal:
  "scans t (snd (scan_rune_literal (tok, t)))" "scans t (snd (scan_string_literal q (tok, t)))"
  using scans_rune_literal_loop [OF scans_refl, of t True 0]
  by (auto simp: scan_rune_literal_def scan_string_literal_def Let_def intro!: scans_intros scans_refl split: prod.split)

lemma eof_remaining: "tok_inv t \<Longrightarrow> curr_rune t = GB_RUNE_EOF \<Longrightarrow> remaining t = 0"
  by (simp add: tok_inv_def remaining_def)

lemma token_at_progress:
  assumes ok: "tkind (fst (token_at kw cat t)) \<noteq> Token_EOF"
  shows "remaining (snd (token_at kw cat t)) < remaining t \<or>
    remaining (snd (token_at kw cat t)) = remaining t \<and> insert_semicolon t \<and>
    \<not> insert_semicolon (snd (token_at kw cat t)) \<and> curr_rune t = GB_RUNE_EOF"
proof (cases "curr_rune t = GB_RUNE_EOF")
  case True
  then have "\<not> rune_is_letter cat (curr_rune t)" "\<not> (c_0 \<le> curr_rune t \<and> curr_rune t \<le> c_9)"
    by (simp_all add: rune_is_letter_def ascii_letter_def GB_RUNE_EOF_def)
  with True ok remaining_advance_le [of t] show ?thesis
    by (auto simp: token_at_def Let_def semicolon_check_def split: if_splits)
next
  case False
  let ?t = "advance_to_next_rune t"
  have adv: "remaining ?t < remaining t" by (rule remaining_advance [OF False])
  note le = le_less_trans [OF scans_keeps(5) [OF scans_literal(1)] adv]
    le_less_trans [OF scans_keeps(5) [OF scans_literal(2)] adv]
  obtain tok t' where op: "scan_operator (curr_rune t) (start_token t, ?t) = (tok, t')" by fastforce
  then have "remaining t' \<le> remaining ?t"
    using scans_keeps(5) [OF scans_operator, of "curr_rune t" "start_token t" ?t] by simp
  with adv op identifier_progress [of cat t kw "start_token t"] number_progress [of t] False le show ?thesis
    by (auto simp: token_at_def Let_def)
qed

text \<open>Every token but the last takes at least one rune, or the pending semicolon at the end of the file.\<close>

lemma remaining_get_token:
  assumes "tokenizer_get_token kw cat t0 = (tok, t')" and "tkind tok \<noteq> Token_EOF"
  shows "remaining t' < remaining t0 \<or> remaining t' = remaining t0 \<and> insert_semicolon t0 \<and>
    \<not> insert_semicolon t' \<and> (tok_inv t0 \<longrightarrow> remaining t0 = 0)"
  using assms
proof (induction kw cat t0 arbitrary: tok t' rule: tokenizer_get_token.induct)
  case (1 kw cat t0)
  define t where "t = tokenizer_skip_whitespace (insert_semicolon t0) t0"
  have sc: "scans t0 t" unfolding t_def by (intro scans_skip scans_refl)
  note keeps = scans_keeps [OF sc]
  show ?case
  proof (cases "curr_rune t = c_backslash")
    case True
    let ?t = "advance_to_next_rune t\<lparr>insert_semicolon := False\<rparr>"
    obtain tok1 t1 where rec: "tokenizer_get_token kw cat ?t = (tok1, t1)" by fastforce
    with 1(2) True have t': "tok = tok1" "remaining t' = remaining t1"
      by (auto simp: get_token_cases [of kw cat t0, folded t_def])
    have "remaining t1 < remaining ?t \<or> remaining t1 = remaining ?t \<and> insert_semicolon ?t \<and>
        \<not> insert_semicolon t1 \<and> (tok_inv ?t \<longrightarrow> remaining ?t = 0)"
    proof (rule 1(1))
      show "\<not> rune_is_letter cat (curr_rune t)" using True by (simp add: rune_is_letter_def ascii_letter_def)
    qed (use True rec 1(3) t' in \<open>simp_all add: t_def GB_RUNE_EOF_def\<close>)
    moreover have "remaining ?t < remaining t" using remaining_advance [of t] True by (simp add: GB_RUNE_EOF_def)
    ultimately show ?thesis using t' keeps(5) by simp
  next
    case False
    with 1(2) have "token_at kw cat t = (tok, t')"
      by (simp add: get_token_cases [of kw cat t0, folded t_def])
    moreover have "curr_rune t = GB_RUNE_EOF \<Longrightarrow> tok_inv t0 \<Longrightarrow> remaining t = 0"
      using scans_inv(1) [OF sc] by (intro eof_remaining)
    ultimately show ?thesis using token_at_progress [of kw cat t] 1(3) keeps(3,5) by auto
  qed
qed

subsection \<open>The tokens of a file\<close>

datatype parse_file_error =
  ParseFile_None | ParseFile_WrongExtension | ParseFile_InvalidFile | ParseFile_EmptyFile | ParseFile_Permission
  | ParseFile_NotFound | ParseFile_InvalidToken | ParseFile_GeneralError | ParseFile_FileTooLarge
  | ParseFile_DirectoryAlreadyExists

text \<open>The loop of \<open>init_ast_file\<close>: it ends with the first invalid token or with the end of the file.\<close>

function tokenize_loop ::
  "keyword_tables \<Rightarrow> (int \<Rightarrow> utf8proc_category) \<Rightarrow> tokenizer \<Rightarrow> token list \<times> parse_file_error \<times> tokenizer" where
  "tokenize_loop kw cat t =
     (let (tok, t) = tokenizer_get_token kw cat t
      in if tkind tok = Token_Invalid then ([tok], ParseFile_InvalidToken, t)
         else if tkind tok = Token_EOF then ([tok], ParseFile_None, t)
         else let (toks, err, t) = tokenize_loop kw cat t in (tok # toks, err, t))"
  by pat_completeness auto
termination
proof (relation "measure (\<lambda>(kw, cat, t). 2 * remaining t + (if insert_semicolon t then 1 else 0))", goal_cases)
  case (2 kw cat t0 p tok t)
  then have "tokenizer_get_token kw cat t0 = (tok, t)" by simp
  from remaining_get_token [OF this] 2 show ?case by auto
qed simp

text \<open>An empty file has only the end token; loading the file is not modelled.\<close>

definition tokenize_file ::
  "keyword_tables \<Rightarrow> (int \<Rightarrow> utf8proc_category) \<Rightarrow> int \<Rightarrow> byte list \<Rightarrow> token list \<times> parse_file_error \<times> tokenizer" where
  "tokenize_file kw cat fid d =
     (let t = init_tokenizer_with_data fid d
      in if d = [] then
           ([\<lparr>tkind = Token_EOF, tstring = Slice 0 0,
              pos = \<lparr>file_id = fid, offset = 0, line = 1, column = 1\<rparr>\<rparr>], ParseFile_None, t)
         else tokenize_loop kw cat t)"


declare tokenize_loop.simps [simp del]

subsection \<open>What the tokens of a file are\<close>

text \<open>
  The tokens in the order of the file, from the offset \<open>i\<close>: each starts where the one before it
  ended, up to blank bytes.
\<close>

fun tokens_cover :: "byte list \<Rightarrow> nat \<Rightarrow> token list \<Rightarrow> bool" where
  "tokens_cover d i [] = True"
| "tokens_cover d i (tok # toks) = (blanks d i (offset (pos tok)) \<and> tokens_cover d (token_end d tok) toks)"

text \<open>Automatic semicolons, with the state \<open>ins\<close> of \<open>insert_semicolon\<close> before the first token.\<close>

fun semicolons_ok :: "byte list \<Rightarrow> bool \<Rightarrow> nat \<Rightarrow> token list \<Rightarrow> bool" where
  "semicolons_ok d ins i [] = True"
| "semicolons_ok d ins i (tok # toks) =
     ((token_is_newline tok \<longrightarrow> ins) \<and>
      (ins \<longrightarrow> joined d i (offset (pos tok))) \<and>
      (if ends_statement (tkind tok) then semicolons_ok d True (token_end d tok) toks
       else (ins \<and> (tkind tok = Token_Comment \<or> tkind tok = Token_Invalid) \<and> semicolons_ok d True (token_end d tok) toks) \<or>
         semicolons_ok d False (token_end d tok) toks))"

lemma tokenize_loop_ok:
  assumes "tok_inv t" and "tokenize_loop kw cat t = (toks, err, t')"
  shows "tokens_cover (data t) (curr t) toks \<and> (\<forall>tok\<in>set toks. token_in_file kw (data t) tok) \<and>
    semicolons_ok (data t) (insert_semicolon t) (curr t) toks \<and> toks \<noteq> [] \<and>
    tkind (last toks) = (if err = ParseFile_None then Token_EOF else Token_Invalid) \<and>
    (\<forall>tok\<in>set (butlast toks). tkind tok \<noteq> Token_EOF \<and> tkind tok \<noteq> Token_Invalid) \<and>
    (err \<noteq> ParseFile_None \<longrightarrow> err = ParseFile_InvalidToken \<and> 0 < error_count t')"
  using assms
proof (induction kw cat t arbitrary: toks err t' rule: tokenize_loop.induct)
  case (1 kw cat t)
  obtain tok t1 where g: "tokenizer_get_token kw cat t = (tok, t1)" by fastforce
  note ok = get_token_ok [OF 1(2) g, unfolded next_token_ok_def]
  note step = 1(3) [unfolded tokenize_loop.simps [of kw cat t] g Let_def prod.case]
  consider "tkind tok = Token_Invalid" | "tkind tok = Token_EOF" | "tkind tok \<noteq> Token_Invalid" "tkind tok \<noteq> Token_EOF"
    by blast
  then show ?case
  proof cases
    case 1
    with step ok show ?thesis by (auto simp: ends_statement_def)
  next
    case 2
    with step ok show ?thesis by (auto simp: ends_statement_def)
  next
    case 3
    obtain toks1 err1 t2 where rec: "tokenize_loop kw cat t1 = (toks1, err1, t2)" by (metis prod_cases3)
    have s: "toks = tok # toks1" "err = err1" "t' = t2" using step 3 rec by auto
    note IH = 1(1) [OF g [symmetric] refl 3 _ rec]
    have "semicolons_ok (data t) (insert_semicolon t1) (token_end (data t) tok) toks1" using IH ok by metis
    then have "if ends_statement (tkind tok) then semicolons_ok (data t) True (token_end (data t) tok) toks1
       else insert_semicolon t \<and> (tkind tok = Token_Comment \<or> tkind tok = Token_Invalid) \<and> semicolons_ok (data t) True (token_end (data t) tok) toks1 \<or>
         semicolons_ok (data t) False (token_end (data t) tok) toks1"
      using ok by (cases "insert_semicolon t1") auto
    then show ?thesis using ok IH 3 unfolding s by auto
  qed
qed

lemma tokenize_loop_length:
  assumes "tokenize_loop kw cat t = (toks, err, t')" and "tok_inv t"
  shows "length toks \<le> remaining t + (if remaining t = 0 \<and> \<not> insert_semicolon t then 1 else 2)"
  using assms
proof (induction kw cat t arbitrary: toks err t' rule: tokenize_loop.induct)
  case (1 kw cat t)
  obtain tok t1 where g: "tokenizer_get_token kw cat t = (tok, t1)" by fastforce
  note step = 1(2) [unfolded tokenize_loop.simps [of kw cat t] g Let_def prod.case]
  show ?case
  proof (cases "tkind tok = Token_Invalid \<or> tkind tok = Token_EOF")
    case True
    with step show ?thesis by auto
  next
    case False
    obtain toks1 err1 t2 where rec: "tokenize_loop kw cat t1 = (toks1, err1, t2)" by (metis prod_cases3)
    then have "toks = tok # toks1" using step False by auto
    moreover have "length toks1 \<le> remaining t1 + (if remaining t1 = 0 \<and> \<not> insert_semicolon t1 then 1 else 2)"
      using 1(1) [OF g [symmetric] refl _ _ rec] get_token_ok [OF 1(3) g] False by (simp add: next_token_ok_def)
    ultimately show ?thesis using remaining_get_token [OF g] 1(3) False by (auto split: if_splits)
  qed
qed

lemma remaining_init: "remaining (init_tokenizer_with_data fid d) \<le> length d"
proof -
  let ?t = "\<lparr>data = d, curr_file_id = fid, curr_rune = 0, curr = 0, read_curr = 0, column_minus_one = -1,
    line_count = 1, error_count = 0, insert_semicolon = False, diags = []\<rparr>"
  have "remaining (advance_to_next_rune ?t) \<le> length d"
    using remaining_advance [of ?t] by (simp add: remaining_def GB_RUNE_EOF_def)
  moreover note remaining_advance_le [of "advance_to_next_rune ?t"]
  ultimately show ?thesis by (auto simp: init_tokenizer_with_data_def Let_def)
qed

lemma init_simps [simp]: "data (init_tokenizer_with_data fid d) = d"
  "insert_semicolon (init_tokenizer_with_data fid d) = False"
  by (simp_all add: init_tokenizer_with_data_def Let_def)

lemma curr_init: "curr (init_tokenizer_with_data fid d) = (if d \<noteq> [] \<and> utf8_decode d = (3, GB_RUNE_BOM) then 3 else 0)"
proof -
  let ?t = "\<lparr>data = d, curr_file_id = fid, curr_rune = 0, curr = 0, read_curr = 0, column_minus_one = -1,
    line_count = 1, error_count = 0, insert_semicolon = False, diags = []\<rparr>"
  let ?t1 = "advance_to_next_rune ?t"
  show ?thesis
  proof (cases "d = []")
    case True
    then show ?thesis by (simp add: init_tokenizer_with_data_def advance_to_next_rune_def Let_def GB_RUNE_BOM_def GB_RUNE_EOF_def)
  next
    case False
    obtain n r where dec: "utf8_decode d = (n, r)" by fastforce
    have bom: "curr_rune ?t1 = GB_RUNE_BOM \<longleftrightarrow> r = GB_RUNE_BOM" and rc: "r = GB_RUNE_BOM \<Longrightarrow> read_curr ?t1 = 3"
    proof -
      have "(curr_rune ?t1 = GB_RUNE_BOM \<longleftrightarrow> r = GB_RUNE_BOM) \<and> (r = GB_RUNE_BOM \<longrightarrow> read_curr ?t1 = 3)"
      proof (cases "d ! 0 AND 0x80 = 0")
        case True
        then have u: "uint (d ! 0) < 0x80" by (rule ascii_byte)
        then have "r = uint (d ! 0)" using utf8_decode_ascii [OF False] dec by (simp add: word_less_def)
        with u True False show ?thesis
          by (auto simp: advance_to_next_rune_def Let_def GB_RUNE_BOM_def)
      next
        case hi: False
        then have "d ! 0 \<noteq> 0" by auto
        with hi False dec have "curr_rune ?t1 = r" "read_curr ?t1 = n"
          by (simp_all add: advance_to_next_rune_def Let_def)
        with utf8_decode_bom [of d n] dec False show ?thesis by auto
      qed
      then show "curr_rune ?t1 = GB_RUNE_BOM \<longleftrightarrow> r = GB_RUNE_BOM" "r = GB_RUNE_BOM \<Longrightarrow> read_curr ?t1 = 3"
        by blast+
    qed
    have c1: "curr ?t1 = 0" using False by (simp add: advance_reads(1))
    have "curr (advance_to_next_rune ?t1) = read_curr ?t1"
      using advance_reads(1) [of ?t1] advance_at_end [of ?t1] advance_reads(3) [of ?t] False
      by (cases "read_curr ?t1 < length d") auto
    with bom rc c1 dec False utf8_decode_bom [of d n] show ?thesis
      by (auto simp: init_tokenizer_with_data_def Let_def)
  qed
qed

lemma tokenize_file_ok:
  assumes "tokenize_file kw cat fid d = (toks, err, t)"
  shows "tokens_cover d (curr (init_tokenizer_with_data fid d)) toks \<and> (\<forall>tok\<in>set toks. token_in_file kw d tok) \<and>
    semicolons_ok d False (curr (init_tokenizer_with_data fid d)) toks \<and> toks \<noteq> [] \<and>
    tkind (last toks) = (if err = ParseFile_None then Token_EOF else Token_Invalid) \<and>
    (\<forall>tok\<in>set (butlast toks). tkind tok \<noteq> Token_EOF \<and> tkind tok \<noteq> Token_Invalid) \<and>
    (err \<noteq> ParseFile_None \<longrightarrow> err = ParseFile_InvalidToken \<and> 0 < error_count t) \<and> length toks \<le> length d + 2"
proof (cases "d = []")
  case True
  then have "curr (init_tokenizer_with_data fid d) = 0" by (simp add: curr_init)
  with assms True show ?thesis
    by (auto simp: tokenize_file_def Let_def token_in_file_def token_end_def token_word_def newlines_def token_is_newline_def)
next
  case False
  then have l: "tokenize_loop kw cat (init_tokenizer_with_data fid d) = (toks, err, t)"
    using assms by (simp add: tokenize_file_def Let_def)
  show ?thesis
    using tokenize_loop_ok [OF tok_inv_init l] tokenize_loop_length [OF l tok_inv_init] remaining_init [of fid d]
    by (auto split: if_splits)
qed

text \<open>
  Property C2. The tokens are the file. Whatever the bytes, the tokens of a file lie in it one
  after the other without overlap, and every byte outside them (after a byte order mark) is a
  space, a tab, a carriage return, a newline or a line-joining backslash: the tokenizer loses
  nothing. Every token carries the line of its first byte, and a word is a keyword exactly if
  the keyword table has its text.
\<close>

theorem tokenize_file_lossless:
  "case tokenize_file kw cat fid d of (toks, err, t) \<Rightarrow>
     tokens_cover d (if d \<noteq> [] \<and> utf8_decode d = (3, GB_RUNE_BOM) then 3 else 0) toks \<and>
     list_all (token_in_file kw d) toks"
  using tokenize_file_ok [of kw cat fid d] by (auto simp: curr_init list_all_iff)

text \<open>
  Property C3. Tokenizing ends. For every file the loop returns a non-empty list of at most two tokens
  more than the file has bytes; its last token is the end of the file, or an invalid token after an
  error has been reported, and no earlier token is of these kinds.
\<close>

theorem tokenize_file_ends:
  "\<exists>toks err t. tokenize_file kw cat fid d = (toks, err, t) \<and> toks \<noteq> [] \<and> length toks \<le> length d + 2 \<and>
     tkind (last toks) = (if err = ParseFile_None then Token_EOF else Token_Invalid) \<and>
     (err = ParseFile_None \<or> err = ParseFile_InvalidToken \<and> 0 < error_count t) \<and>
     Token_EOF \<notin> tkind ` set (butlast toks) \<and> Token_Invalid \<notin> tkind ` set (butlast toks)"
proof -
  obtain toks err t where e: "tokenize_file kw cat fid d = (toks, err, t)" by (metis prod_cases3)
  show ?thesis using tokenize_file_ok [OF e] e by (cases err) auto
qed

text \<open>
  Property C4. Automatic semicolons. A newline becomes a semicolon token only after a token that can end a
  statement (comments do not count), so never twice in a row and never at the start; and after a token
  that can end a statement no newline is skipped as white space, unless a backslash before it joins
  the lines.
\<close>

theorem tokenize_file_semicolons:
  "case tokenize_file kw cat fid d of (toks, err, t) \<Rightarrow>
     semicolons_ok d False (if d \<noteq> [] \<and> utf8_decode d = (3, GB_RUNE_BOM) then 3 else 0) toks"
  using tokenize_file_ok [of kw cat fid d] by (auto simp: curr_init)

end
