(* ===== verification/Types.thy ===== *)
theory Types
  imports Entity
begin

text \<open>
  The types of the language (\<^verbatim>\<open>src/types.cpp\<close>): the type graph, the basic types, the walk to the base
  and core type, and the predicates that only look at one node.

  A \<^verbatim>\<open>Type *\<close> is a tree \<open>otype\<close>; \<open>Null\<close> is the null pointer. Only a named type can close a cycle, so
  \<open>Type_Named\<close> holds the number of its type name in the environment \<open>E\<close>, which gives its base type and
  whether it is an alias. Fields that only serve other phases (syntax nodes, scopes, polymorphic
  parents, mutexes, the cached sizes) are left out. A walk over named types is bounded by the size
  of the environment: the code follows the chain of bases without a bound, and only a chain that
  comes back to a name it has passed, over more than one name, would make it differ.
\<close>

subsection \<open>Basic types\<close>

text \<open>The kinds, grouped: sizes fixed by the table, sizes of the target, explicit byte order, untyped.\<close>

datatype fixed_kind =
  Basic_Invalid | Basic_llvm_bool | Basic_bool | Basic_b8 | Basic_b16 | Basic_b32 | Basic_b64
  | Basic_i8 | Basic_u8 | Basic_i16 | Basic_u16 | Basic_i32 | Basic_u32 | Basic_i64 | Basic_u64
  | Basic_i128 | Basic_u128 | Basic_rune | Basic_f16 | Basic_f32 | Basic_f64
  | Basic_complex32 | Basic_complex64 | Basic_complex128
  | Basic_quaternion64 | Basic_quaternion128 | Basic_quaternion256

datatype target_kind =
  Basic_int | Basic_uint | Basic_uintptr | Basic_rawptr | Basic_string | Basic_cstring | Basic_string16
  | Basic_cstring16 | Basic_any | Basic_typeid

datatype endian_kind =
  Basic_i16le | Basic_u16le | Basic_i32le | Basic_u32le | Basic_i64le | Basic_u64le | Basic_i128le | Basic_u128le
  | Basic_i16be | Basic_u16be | Basic_i32be | Basic_u32be | Basic_i64be | Basic_u64be | Basic_i128be | Basic_u128be
  | Basic_f16le | Basic_f32le | Basic_f64le | Basic_f16be | Basic_f32be | Basic_f64be

datatype untyped_kind =
  Basic_UntypedBool | Basic_UntypedInteger | Basic_UntypedFloat | Basic_UntypedComplex | Basic_UntypedQuaternion
  | Basic_UntypedString | Basic_UntypedRune | Basic_UntypedNil | Basic_UntypedUninit

datatype basic_kind = Fixed fixed_kind | Target target_kind | Endian endian_kind | Untyped untyped_kind

definition BasicFlag_Boolean :: u32 where "BasicFlag_Boolean = 0x1"
definition BasicFlag_Integer :: u32 where "BasicFlag_Integer = 0x2"
definition BasicFlag_Unsigned :: u32 where "BasicFlag_Unsigned = 0x4"
definition BasicFlag_Float :: u32 where "BasicFlag_Float = 0x8"
definition BasicFlag_Complex :: u32 where "BasicFlag_Complex = 0x10"
definition BasicFlag_Quaternion :: u32 where "BasicFlag_Quaternion = 0x20"
definition BasicFlag_Pointer :: u32 where "BasicFlag_Pointer = 0x40"
definition BasicFlag_String :: u32 where "BasicFlag_String = 0x80"
definition BasicFlag_Rune :: u32 where "BasicFlag_Rune = 0x100"
definition BasicFlag_Untyped :: u32 where "BasicFlag_Untyped = 0x200"
definition BasicFlag_LLVM :: u32 where "BasicFlag_LLVM = 0x800"
definition BasicFlag_EndianLittle :: u32 where "BasicFlag_EndianLittle = 0x2000"
definition BasicFlag_EndianBig :: u32 where "BasicFlag_EndianBig = 0x4000"

definition BasicFlag_Numeric :: u32 where
  "BasicFlag_Numeric = BasicFlag_Integer OR BasicFlag_Float OR BasicFlag_Complex OR BasicFlag_Quaternion"
definition BasicFlag_Ordered :: u32 where
  "BasicFlag_Ordered = BasicFlag_Integer OR BasicFlag_Float OR BasicFlag_String OR BasicFlag_Pointer OR BasicFlag_Rune"
definition BasicFlag_OrderedNumeric :: u32 where
  "BasicFlag_OrderedNumeric = BasicFlag_Integer OR BasicFlag_Float OR BasicFlag_Rune"
definition BasicFlag_ConstantType :: u32 where
  "BasicFlag_ConstantType =
     BasicFlag_Boolean OR BasicFlag_Numeric OR BasicFlag_String OR BasicFlag_Pointer OR BasicFlag_Rune"
definition BasicFlag_SimpleCompare :: u32 where
  "BasicFlag_SimpleCompare = BasicFlag_Boolean OR BasicFlag_Integer OR BasicFlag_Pointer OR BasicFlag_Rune"

lemmas basic_flag_defs = BasicFlag_Boolean_def BasicFlag_Integer_def BasicFlag_Unsigned_def BasicFlag_Float_def
  BasicFlag_Complex_def BasicFlag_Quaternion_def BasicFlag_Pointer_def BasicFlag_String_def BasicFlag_Rune_def
  BasicFlag_Untyped_def BasicFlag_LLVM_def BasicFlag_EndianLittle_def BasicFlag_EndianBig_def
  BasicFlag_Numeric_def BasicFlag_Ordered_def BasicFlag_OrderedNumeric_def BasicFlag_ConstantType_def
  BasicFlag_SimpleCompare_def

text \<open>The flags and the sizes of the table \<open>basic_types\<close>; the size -1 stands for a size of the target.\<close>

definition fixed_flags :: "fixed_kind \<Rightarrow> u32" where
  "fixed_flags k = (case k of
     Basic_Invalid \<Rightarrow> 0
   | Basic_llvm_bool \<Rightarrow> BasicFlag_Boolean OR BasicFlag_LLVM
   | Basic_bool \<Rightarrow> BasicFlag_Boolean
   | Basic_b8 \<Rightarrow> BasicFlag_Boolean
   | Basic_b16 \<Rightarrow> BasicFlag_Boolean
   | Basic_b32 \<Rightarrow> BasicFlag_Boolean
   | Basic_b64 \<Rightarrow> BasicFlag_Boolean
   | Basic_i8 \<Rightarrow> BasicFlag_Integer
   | Basic_u8 \<Rightarrow> BasicFlag_Integer OR BasicFlag_Unsigned
   | Basic_i16 \<Rightarrow> BasicFlag_Integer
   | Basic_u16 \<Rightarrow> BasicFlag_Integer OR BasicFlag_Unsigned
   | Basic_i32 \<Rightarrow> BasicFlag_Integer
   | Basic_u32 \<Rightarrow> BasicFlag_Integer OR BasicFlag_Unsigned
   | Basic_i64 \<Rightarrow> BasicFlag_Integer
   | Basic_u64 \<Rightarrow> BasicFlag_Integer OR BasicFlag_Unsigned
   | Basic_i128 \<Rightarrow> BasicFlag_Integer
   | Basic_u128 \<Rightarrow> BasicFlag_Integer OR BasicFlag_Unsigned
   | Basic_rune \<Rightarrow> BasicFlag_Integer OR BasicFlag_Rune
   | Basic_f16 \<Rightarrow> BasicFlag_Float
   | Basic_f32 \<Rightarrow> BasicFlag_Float
   | Basic_f64 \<Rightarrow> BasicFlag_Float
   | Basic_complex32 \<Rightarrow> BasicFlag_Complex
   | Basic_complex64 \<Rightarrow> BasicFlag_Complex
   | Basic_complex128 \<Rightarrow> BasicFlag_Complex
   | Basic_quaternion64 \<Rightarrow> BasicFlag_Quaternion
   | Basic_quaternion128 \<Rightarrow> BasicFlag_Quaternion
   | Basic_quaternion256 \<Rightarrow> BasicFlag_Quaternion)"

definition target_flags :: "target_kind \<Rightarrow> u32" where
  "target_flags k = (case k of
     Basic_int \<Rightarrow> BasicFlag_Integer
   | Basic_uint \<Rightarrow> BasicFlag_Integer OR BasicFlag_Unsigned
   | Basic_uintptr \<Rightarrow> BasicFlag_Integer OR BasicFlag_Unsigned
   | Basic_rawptr \<Rightarrow> BasicFlag_Pointer
   | Basic_string \<Rightarrow> BasicFlag_String
   | Basic_cstring \<Rightarrow> BasicFlag_String
   | Basic_string16 \<Rightarrow> BasicFlag_String
   | Basic_cstring16 \<Rightarrow> BasicFlag_String
   | Basic_any \<Rightarrow> 0
   | Basic_typeid \<Rightarrow> 0)"

definition endian_flags :: "endian_kind \<Rightarrow> u32" where
  "endian_flags k = (case k of
     Basic_i16le \<Rightarrow> BasicFlag_Integer OR BasicFlag_EndianLittle
   | Basic_u16le \<Rightarrow> BasicFlag_Integer OR BasicFlag_Unsigned OR BasicFlag_EndianLittle
   | Basic_i32le \<Rightarrow> BasicFlag_Integer OR BasicFlag_EndianLittle
   | Basic_u32le \<Rightarrow> BasicFlag_Integer OR BasicFlag_Unsigned OR BasicFlag_EndianLittle
   | Basic_i64le \<Rightarrow> BasicFlag_Integer OR BasicFlag_EndianLittle
   | Basic_u64le \<Rightarrow> BasicFlag_Integer OR BasicFlag_Unsigned OR BasicFlag_EndianLittle
   | Basic_i128le \<Rightarrow> BasicFlag_Integer OR BasicFlag_EndianLittle
   | Basic_u128le \<Rightarrow> BasicFlag_Integer OR BasicFlag_Unsigned OR BasicFlag_EndianLittle
   | Basic_i16be \<Rightarrow> BasicFlag_Integer OR BasicFlag_EndianBig
   | Basic_u16be \<Rightarrow> BasicFlag_Integer OR BasicFlag_Unsigned OR BasicFlag_EndianBig
   | Basic_i32be \<Rightarrow> BasicFlag_Integer OR BasicFlag_EndianBig
   | Basic_u32be \<Rightarrow> BasicFlag_Integer OR BasicFlag_Unsigned OR BasicFlag_EndianBig
   | Basic_i64be \<Rightarrow> BasicFlag_Integer OR BasicFlag_EndianBig
   | Basic_u64be \<Rightarrow> BasicFlag_Integer OR BasicFlag_Unsigned OR BasicFlag_EndianBig
   | Basic_i128be \<Rightarrow> BasicFlag_Integer OR BasicFlag_EndianBig
   | Basic_u128be \<Rightarrow> BasicFlag_Integer OR BasicFlag_Unsigned OR BasicFlag_EndianBig
   | Basic_f16le \<Rightarrow> BasicFlag_Float OR BasicFlag_EndianLittle
   | Basic_f32le \<Rightarrow> BasicFlag_Float OR BasicFlag_EndianLittle
   | Basic_f64le \<Rightarrow> BasicFlag_Float OR BasicFlag_EndianLittle
   | Basic_f16be \<Rightarrow> BasicFlag_Float OR BasicFlag_EndianBig
   | Basic_f32be \<Rightarrow> BasicFlag_Float OR BasicFlag_EndianBig
   | Basic_f64be \<Rightarrow> BasicFlag_Float OR BasicFlag_EndianBig)"

definition untyped_flags :: "untyped_kind \<Rightarrow> u32" where
  "untyped_flags k = (case k of
     Basic_UntypedBool \<Rightarrow> BasicFlag_Boolean OR BasicFlag_Untyped
   | Basic_UntypedInteger \<Rightarrow> BasicFlag_Integer OR BasicFlag_Untyped
   | Basic_UntypedFloat \<Rightarrow> BasicFlag_Float OR BasicFlag_Untyped
   | Basic_UntypedComplex \<Rightarrow> BasicFlag_Complex OR BasicFlag_Untyped
   | Basic_UntypedQuaternion \<Rightarrow> BasicFlag_Quaternion OR BasicFlag_Untyped
   | Basic_UntypedString \<Rightarrow> BasicFlag_String OR BasicFlag_Untyped
   | Basic_UntypedRune \<Rightarrow> BasicFlag_Integer OR BasicFlag_Untyped
   | Basic_UntypedNil \<Rightarrow> BasicFlag_Untyped
   | Basic_UntypedUninit \<Rightarrow> BasicFlag_Untyped)"

definition fixed_size :: "fixed_kind \<Rightarrow> int" where
  "fixed_size k = (case k of
     Basic_Invalid \<Rightarrow> 0
   | Basic_llvm_bool \<Rightarrow> 1
   | Basic_bool \<Rightarrow> 1
   | Basic_b8 \<Rightarrow> 1
   | Basic_b16 \<Rightarrow> 2
   | Basic_b32 \<Rightarrow> 4
   | Basic_b64 \<Rightarrow> 8
   | Basic_i8 \<Rightarrow> 1
   | Basic_u8 \<Rightarrow> 1
   | Basic_i16 \<Rightarrow> 2
   | Basic_u16 \<Rightarrow> 2
   | Basic_i32 \<Rightarrow> 4
   | Basic_u32 \<Rightarrow> 4
   | Basic_i64 \<Rightarrow> 8
   | Basic_u64 \<Rightarrow> 8
   | Basic_i128 \<Rightarrow> 16
   | Basic_u128 \<Rightarrow> 16
   | Basic_rune \<Rightarrow> 4
   | Basic_f16 \<Rightarrow> 2
   | Basic_f32 \<Rightarrow> 4
   | Basic_f64 \<Rightarrow> 8
   | Basic_complex32 \<Rightarrow> 4
   | Basic_complex64 \<Rightarrow> 8
   | Basic_complex128 \<Rightarrow> 16
   | Basic_quaternion64 \<Rightarrow> 8
   | Basic_quaternion128 \<Rightarrow> 16
   | Basic_quaternion256 \<Rightarrow> 32)"

definition target_size :: "target_kind \<Rightarrow> int" where
  "target_size k = (case k of
     Basic_int \<Rightarrow> -1
   | Basic_uint \<Rightarrow> -1
   | Basic_uintptr \<Rightarrow> -1
   | Basic_rawptr \<Rightarrow> -1
   | Basic_string \<Rightarrow> -1
   | Basic_cstring \<Rightarrow> -1
   | Basic_string16 \<Rightarrow> -1
   | Basic_cstring16 \<Rightarrow> -1
   | Basic_any \<Rightarrow> 16
   | Basic_typeid \<Rightarrow> 8)"

definition endian_size :: "endian_kind \<Rightarrow> int" where
  "endian_size k = (case k of
     Basic_i16le \<Rightarrow> 2
   | Basic_u16le \<Rightarrow> 2
   | Basic_i32le \<Rightarrow> 4
   | Basic_u32le \<Rightarrow> 4
   | Basic_i64le \<Rightarrow> 8
   | Basic_u64le \<Rightarrow> 8
   | Basic_i128le \<Rightarrow> 16
   | Basic_u128le \<Rightarrow> 16
   | Basic_i16be \<Rightarrow> 2
   | Basic_u16be \<Rightarrow> 2
   | Basic_i32be \<Rightarrow> 4
   | Basic_u32be \<Rightarrow> 4
   | Basic_i64be \<Rightarrow> 8
   | Basic_u64be \<Rightarrow> 8
   | Basic_i128be \<Rightarrow> 16
   | Basic_u128be \<Rightarrow> 16
   | Basic_f16le \<Rightarrow> 2
   | Basic_f32le \<Rightarrow> 4
   | Basic_f64le \<Rightarrow> 8
   | Basic_f16be \<Rightarrow> 2
   | Basic_f32be \<Rightarrow> 4
   | Basic_f64be \<Rightarrow> 8)"

definition basic_flags :: "basic_kind \<Rightarrow> u32" where
  "basic_flags k =
     (case k of Fixed b \<Rightarrow> fixed_flags b | Target b \<Rightarrow> target_flags b | Endian b \<Rightarrow> endian_flags b
      | Untyped b \<Rightarrow> untyped_flags b)"

definition basic_size :: "basic_kind \<Rightarrow> int" where
  "basic_size k =
     (case k of Fixed b \<Rightarrow> fixed_size b | Target b \<Rightarrow> target_size b | Endian b \<Rightarrow> endian_size b | Untyped b \<Rightarrow> 0)"

lemmas basic_table_defs = basic_flags_def basic_size_def fixed_flags_def target_flags_def endian_flags_def
  untyped_flags_def fixed_size_def target_size_def endian_size_def

subsection \<open>Types\<close>

datatype proc_calling_convention =
  ProcCC_Invalid | ProcCC_Odin | ProcCC_Contextless | ProcCC_CDecl | ProcCC_StdCall | ProcCC_FastCall | ProcCC_None
  | ProcCC_Naked | ProcCC_InlineAsm | ProcCC_Win64 | ProcCC_SysV | ProcCC_PreserveNone | ProcCC_PreserveMost
  | ProcCC_PreserveAll

datatype struct_soa_kind = StructSoa_None | StructSoa_Fixed | StructSoa_Slice | StructSoa_Dynamic

datatype union_type_kind = UnionType_Normal | UnionType_no_nil | UnionType_shared_nil

text \<open>
  A field, variable or enum value: its entity's kind, name and tag, whether it is a subtype field
  (\<^verbatim>\<open>using\<close> or \<^verbatim>\<open>#subtype\<close>), whether it has a constant default, and the value of a constant (exact
  values are compared by \<open>compare_exact_values\<close>; here they are numbers of their equality class).
\<close>

record field =
  kind :: entity_kind
  name :: string
  tag :: string
  is_subtype :: bool
  constant_default :: bool
  constant_value :: int

record struct_info =
  custom_align :: int
  custom_min_field_align :: int
  custom_max_field_align :: int
  soa_count :: int
  soa_kind :: struct_soa_kind
  is_packed :: bool
  is_raw_union :: bool
  is_all_or_none :: bool
  is_simple :: bool

record union_info =
  union_custom_align :: int
  union_kind :: union_type_kind

record proc_info =
  calling_convention :: proc_calling_convention
  variadic :: bool
  c_vararg :: bool
  diverging :: bool
  optional_ok :: bool

record enum_info =
  enum_fields :: "field list"
  min_value_index :: nat
  max_value_index :: nat

datatype otype =
    Null
  | Type_Basic basic_kind
  | Type_Named nat
  | Type_Generic otype \<comment> \<open>specialized\<close>
  | Type_Pointer otype
  | Type_MultiPointer otype
  | Type_Array otype int
  | Type_EnumeratedArray otype otype int \<comment> \<open>element, index, count\<close>
  | Type_Slice otype
  | Type_DynamicArray otype
  | Type_FixedCapacityDynamicArray otype int
  | Type_Map otype otype
  | Type_Struct struct_info otype "(field \<times> otype) list" \<comment> \<open>\<open>soa_elem\<close>, fields\<close>
  | Type_Union union_info "otype list"
  | Type_Enum enum_info otype
  | Type_Tuple bool "(field \<times> otype) list"
  | Type_Proc proc_info otype otype
  | Type_BitSet otype otype int int \<comment> \<open>element, underlying, lower, upper\<close>
  | Type_SimdVector otype int
  | Type_Matrix otype int int bool \<comment> \<open>rows, columns, \<open>is_row_major\<close>\<close>
  | Type_BitField otype "(field \<times> otype \<times> nat \<times> int) list" \<comment> \<open>bit sizes and offsets\<close>
  | Type_SoaPointer otype

record named =
  named_base :: otype
  is_type_alias :: bool

type_synonym type_env = "named list"

definition base_of :: "type_env \<Rightarrow> nat \<Rightarrow> otype" where
  "base_of E e = (if e < length E then named_base (E ! e) else Null)"

definition t_invalid :: otype where "t_invalid = Type_Basic (Fixed Basic_Invalid)"

subsection \<open>Base and core types\<close>

fun base_type_fuel :: "type_env \<Rightarrow> nat \<Rightarrow> otype \<Rightarrow> otype" where
  "base_type_fuel E n (Type_Named e) =
     (if base_of E e = Type_Named e then t_invalid
      else case n of 0 \<Rightarrow> t_invalid | Suc m \<Rightarrow> base_type_fuel E m (base_of E e))"
| "base_type_fuel E n t = t"

definition base_type :: "type_env \<Rightarrow> otype \<Rightarrow> otype" where
  "base_type E t = base_type_fuel E (length E) t"

fun base_named_type_fuel :: "type_env \<Rightarrow> nat \<Rightarrow> otype \<Rightarrow> otype \<Rightarrow> otype" where
  "base_named_type_fuel E n prev_named (Type_Named e) =
     (if base_of E e = Type_Named e then t_invalid
      else case n of 0 \<Rightarrow> t_invalid | Suc m \<Rightarrow> base_named_type_fuel E m (Type_Named e) (base_of E e))"
| "base_named_type_fuel E n prev_named t = prev_named"

definition base_named_type :: "type_env \<Rightarrow> otype \<Rightarrow> otype" where
  "base_named_type E t =
     (case t of Type_Named e \<Rightarrow> base_named_type_fuel E (length E) t (base_of E e) | _ \<Rightarrow> t_invalid)"

definition base_enum_type :: "type_env \<Rightarrow> otype \<Rightarrow> otype" where
  "base_enum_type E t = (case base_type E t of Type_Enum _ b \<Rightarrow> b | _ \<Rightarrow> t)"

function (sequential) core_type_fuel :: "type_env \<Rightarrow> nat \<Rightarrow> otype \<Rightarrow> otype" where
  "core_type_fuel E n (Type_Named e) =
     (if base_of E e = Type_Named e then t_invalid
      else case n of 0 \<Rightarrow> t_invalid | Suc m \<Rightarrow> core_type_fuel E m (base_of E e))"
| "core_type_fuel E n (Type_Enum i b) = core_type_fuel E n b"
| "core_type_fuel E n (Type_BitField b fs) = core_type_fuel E n b"
| "core_type_fuel E n t = t"
  by pat_completeness auto
termination by (relation "measures [\<lambda>(E, n, t). n, \<lambda>(E, n, t). size t]") auto

definition core_type :: "type_env \<Rightarrow> otype \<Rightarrow> otype" where
  "core_type E t = core_type_fuel E (length E) t"


subsection \<open>Predicates on one node\<close>

definition is_type_named :: "otype \<Rightarrow> bool" where
  "is_type_named t = (case t of Type_Basic k \<Rightarrow> True | Type_Named e \<Rightarrow> True | _ \<Rightarrow> False)"

definition is_type_boolean :: "type_env \<Rightarrow> otype \<Rightarrow> bool" where
  "is_type_boolean E t = (case base_type E t of Type_Basic k \<Rightarrow> basic_flags k AND BasicFlag_Boolean \<noteq> 0 | _ \<Rightarrow> False)"

definition is_type_integer :: "type_env \<Rightarrow> otype \<Rightarrow> bool" where
  "is_type_integer E t = (case base_type E t of Type_Basic k \<Rightarrow> basic_flags k AND BasicFlag_Integer \<noteq> 0 | _ \<Rightarrow> False)"

definition is_type_unsigned :: "type_env \<Rightarrow> otype \<Rightarrow> bool" where
  "is_type_unsigned E t = (case base_type E t of
       Type_Basic k \<Rightarrow> basic_flags k AND BasicFlag_Unsigned \<noteq> 0
     | Type_Enum i (Type_Basic k) \<Rightarrow> basic_flags k AND BasicFlag_Unsigned \<noteq> 0
     | _ \<Rightarrow> False)"

definition is_type_integer_128bit :: "type_env \<Rightarrow> otype \<Rightarrow> bool" where
  "is_type_integer_128bit E t = (case base_type E t of
       Type_Basic k \<Rightarrow> basic_flags k AND BasicFlag_Integer \<noteq> 0 \<and> basic_size k = 16
     | _ \<Rightarrow> False)"

definition is_type_rune :: "type_env \<Rightarrow> otype \<Rightarrow> bool" where
  "is_type_rune E t = (case base_type E t of Type_Basic k \<Rightarrow> basic_flags k AND BasicFlag_Rune \<noteq> 0 | _ \<Rightarrow> False)"

definition is_type_integer_or_float :: "type_env \<Rightarrow> otype \<Rightarrow> bool" where
  "is_type_integer_or_float E t = (case base_type E t of Type_Basic k \<Rightarrow> basic_flags k AND (BasicFlag_Integer OR BasicFlag_Float) \<noteq> 0 | _ \<Rightarrow> False)"

definition is_type_string :: "type_env \<Rightarrow> otype \<Rightarrow> bool" where
  "is_type_string E t = (case base_type E t of Type_Basic k \<Rightarrow> basic_flags k AND BasicFlag_String \<noteq> 0 | _ \<Rightarrow> False)"

definition is_type_string16 :: "type_env \<Rightarrow> otype \<Rightarrow> bool" where
  "is_type_string16 E t = (case base_type E t of Type_Basic k \<Rightarrow> k = Target Basic_string16 | _ \<Rightarrow> False)"

definition is_type_cstring :: "type_env \<Rightarrow> otype \<Rightarrow> bool" where
  "is_type_cstring E t = (case base_type E t of Type_Basic k \<Rightarrow> k = Target Basic_cstring | _ \<Rightarrow> False)"

definition is_type_cstring16 :: "type_env \<Rightarrow> otype \<Rightarrow> bool" where
  "is_type_cstring16 E t = (case base_type E t of Type_Basic k \<Rightarrow> k = Target Basic_cstring16 | _ \<Rightarrow> False)"

definition is_type_typed :: "type_env \<Rightarrow> otype \<Rightarrow> bool" where
  "is_type_typed E t = (case base_type E t of
       Null \<Rightarrow> False
     | Type_Basic k \<Rightarrow> basic_flags k AND BasicFlag_Untyped = 0
     | _ \<Rightarrow> True)"

definition is_type_untyped :: "type_env \<Rightarrow> otype \<Rightarrow> bool" where
  "is_type_untyped E t = (case base_type E t of Type_Basic k \<Rightarrow> basic_flags k AND BasicFlag_Untyped \<noteq> 0 | _ \<Rightarrow> False)"

definition is_type_ordered :: "type_env \<Rightarrow> otype \<Rightarrow> bool" where
  "is_type_ordered E t = (case core_type E t of
       Type_Basic k \<Rightarrow> basic_flags k AND BasicFlag_Ordered \<noteq> 0
     | Type_Pointer a \<Rightarrow> True
     | Type_MultiPointer a \<Rightarrow> True
     | _ \<Rightarrow> False)"

definition is_type_ordered_numeric :: "type_env \<Rightarrow> otype \<Rightarrow> bool" where
  "is_type_ordered_numeric E t = (case core_type E t of Type_Basic k \<Rightarrow> basic_flags k AND BasicFlag_OrderedNumeric \<noteq> 0 | _ \<Rightarrow> False)"

definition is_type_float :: "type_env \<Rightarrow> otype \<Rightarrow> bool" where
  "is_type_float E t = (case core_type E t of Type_Basic k \<Rightarrow> basic_flags k AND BasicFlag_Float \<noteq> 0 | _ \<Rightarrow> False)"

definition is_type_complex :: "type_env \<Rightarrow> otype \<Rightarrow> bool" where
  "is_type_complex E t = (case core_type E t of Type_Basic k \<Rightarrow> basic_flags k AND BasicFlag_Complex \<noteq> 0 | _ \<Rightarrow> False)"

definition is_type_quaternion :: "type_env \<Rightarrow> otype \<Rightarrow> bool" where
  "is_type_quaternion E t = (case core_type E t of Type_Basic k \<Rightarrow> basic_flags k AND BasicFlag_Quaternion \<noteq> 0 | _ \<Rightarrow> False)"

definition is_type_complex_or_quaternion :: "type_env \<Rightarrow> otype \<Rightarrow> bool" where
  "is_type_complex_or_quaternion E t = (case core_type E t of Type_Basic k \<Rightarrow> basic_flags k AND (BasicFlag_Complex OR BasicFlag_Quaternion) \<noteq> 0 | _ \<Rightarrow> False)"

definition is_type_pointer :: "type_env \<Rightarrow> otype \<Rightarrow> bool" where
  "is_type_pointer E t = (case base_type E t of
       Type_Basic k \<Rightarrow> basic_flags k AND BasicFlag_Pointer \<noteq> 0
     | Type_Pointer a \<Rightarrow> True
     | _ \<Rightarrow> False)"

definition is_type_soa_pointer :: "type_env \<Rightarrow> otype \<Rightarrow> bool" where
  "is_type_soa_pointer E t = (case base_type E t of Type_SoaPointer a \<Rightarrow> True | _ \<Rightarrow> False)"

definition is_type_multi_pointer :: "type_env \<Rightarrow> otype \<Rightarrow> bool" where
  "is_type_multi_pointer E t = (case base_type E t of Type_MultiPointer a \<Rightarrow> True | _ \<Rightarrow> False)"

definition is_type_proc :: "type_env \<Rightarrow> otype \<Rightarrow> bool" where
  "is_type_proc E t = (case base_type E t of Type_Proc i p r \<Rightarrow> True | _ \<Rightarrow> False)"

definition is_type_internally_pointer_like :: "type_env \<Rightarrow> otype \<Rightarrow> bool" where
  "is_type_internally_pointer_like E t = (is_type_pointer E t \<or> is_type_multi_pointer E t \<or> is_type_cstring E t \<or> is_type_cstring16 E t \<or> is_type_proc E t)"

definition is_type_tuple :: "type_env \<Rightarrow> otype \<Rightarrow> bool" where
  "is_type_tuple E t = (case base_type E t of Type_Tuple p vs \<Rightarrow> True | _ \<Rightarrow> False)"

definition is_type_uintptr :: "otype \<Rightarrow> bool" where
  "is_type_uintptr t = (case t of Type_Basic k \<Rightarrow> k = Target Basic_uintptr | _ \<Rightarrow> False)"

definition is_type_rawptr :: "otype \<Rightarrow> bool" where
  "is_type_rawptr t = (case t of Type_Basic k \<Rightarrow> k = Target Basic_rawptr | _ \<Rightarrow> False)"

definition is_type_u8 :: "otype \<Rightarrow> bool" where
  "is_type_u8 t = (case t of Type_Basic k \<Rightarrow> k = Fixed Basic_u8 | _ \<Rightarrow> False)"

definition is_type_u16 :: "otype \<Rightarrow> bool" where
  "is_type_u16 t = (case t of Type_Basic k \<Rightarrow> k = Fixed Basic_u16 | _ \<Rightarrow> False)"

definition is_type_array :: "type_env \<Rightarrow> otype \<Rightarrow> bool" where
  "is_type_array E t = (case base_type E t of Type_Array a c \<Rightarrow> True | _ \<Rightarrow> False)"

definition is_type_enumerated_array :: "type_env \<Rightarrow> otype \<Rightarrow> bool" where
  "is_type_enumerated_array E t = (case base_type E t of Type_EnumeratedArray a i c \<Rightarrow> True | _ \<Rightarrow> False)"

definition is_type_matrix :: "type_env \<Rightarrow> otype \<Rightarrow> bool" where
  "is_type_matrix E t = (case base_type E t of Type_Matrix a r c m \<Rightarrow> True | _ \<Rightarrow> False)"

definition is_type_valid_for_matrix_elems :: "type_env \<Rightarrow> otype \<Rightarrow> bool" where
  "is_type_valid_for_matrix_elems E t = (if base_type E t = Null then False
      else if is_type_integer E (base_type E t) then True
      else if is_type_float E (base_type E t) then True
      else if is_type_complex E (base_type E t) then True
      else (case base_type E t of Type_Generic s \<Rightarrow> True | _ \<Rightarrow> False))"

definition is_type_dynamic_array :: "type_env \<Rightarrow> otype \<Rightarrow> bool" where
  "is_type_dynamic_array E t = (case base_type E t of Type_DynamicArray a \<Rightarrow> True | _ \<Rightarrow> False)"

definition is_type_fixed_capacity_dynamic_array :: "type_env \<Rightarrow> otype \<Rightarrow> bool" where
  "is_type_fixed_capacity_dynamic_array E t = (case base_type E t of Type_FixedCapacityDynamicArray a c \<Rightarrow> True | _ \<Rightarrow> False)"

definition is_type_slice :: "type_env \<Rightarrow> otype \<Rightarrow> bool" where
  "is_type_slice E t = (case base_type E t of Type_Slice a \<Rightarrow> True | _ \<Rightarrow> False)"

definition is_type_asm_proc :: "type_env \<Rightarrow> otype \<Rightarrow> bool" where
  "is_type_asm_proc E t = (case base_type E t of Type_Proc i p r \<Rightarrow> calling_convention i = ProcCC_InlineAsm | _ \<Rightarrow> False)"

definition is_type_simd_vector :: "type_env \<Rightarrow> otype \<Rightarrow> bool" where
  "is_type_simd_vector E t = (case base_type E t of Type_SimdVector a c \<Rightarrow> True | _ \<Rightarrow> False)"

text \<open>Dereferencing and element types.\<close>

definition type_deref :: "type_env \<Rightarrow> otype \<Rightarrow> bool \<Rightarrow> otype" where
  "type_deref E t = (\<lambda>allow_multi_pointer.
     if t = Null then Null
     else case base_type E t of
       Null \<Rightarrow> Null
     | Type_Pointer a \<Rightarrow> a
     | Type_SoaPointer a \<Rightarrow> (case base_type E a of Type_Struct i s fs \<Rightarrow> s | _ \<Rightarrow> Null)
     | Type_MultiPointer a \<Rightarrow> if allow_multi_pointer then a else t
     | _ \<Rightarrow> t)"

definition base_array_type :: "type_env \<Rightarrow> otype \<Rightarrow> otype" where
  "base_array_type E t = (case base_type E t of
       Type_Array a c \<Rightarrow> a | Type_EnumeratedArray a i c \<Rightarrow> a | Type_SimdVector a c \<Rightarrow> a
     | Type_FixedCapacityDynamicArray a c \<Rightarrow> a | Type_Matrix a r c m \<Rightarrow> a | _ \<Rightarrow> t)"

definition base_any_array_type :: "type_env \<Rightarrow> otype \<Rightarrow> otype" where
  "base_any_array_type E t = (case base_type E t of
       Type_Array a c \<Rightarrow> a | Type_Slice a \<Rightarrow> a | Type_DynamicArray a \<Rightarrow> a
     | Type_FixedCapacityDynamicArray a c \<Rightarrow> a | Type_EnumeratedArray a i c \<Rightarrow> a | Type_SimdVector a c \<Rightarrow> a
     | Type_Matrix a r c m \<Rightarrow> a | _ \<Rightarrow> t)"

definition is_type_generic :: "type_env \<Rightarrow> otype \<Rightarrow> bool" where
  "is_type_generic E t = (case base_type E t of Type_Generic s \<Rightarrow> True | _ \<Rightarrow> False)"

definition is_type_u8_slice :: "type_env \<Rightarrow> otype \<Rightarrow> bool" where
  "is_type_u8_slice E t = (case base_type E t of Type_Slice a \<Rightarrow> is_type_u8 a | _ \<Rightarrow> False)"

definition is_type_u8_array :: "type_env \<Rightarrow> otype \<Rightarrow> bool" where
  "is_type_u8_array E t = (case base_type E t of Type_Array a c \<Rightarrow> is_type_u8 a | _ \<Rightarrow> False)"

definition is_type_u8_ptr :: "type_env \<Rightarrow> otype \<Rightarrow> bool" where
  "is_type_u8_ptr E t = (case base_type E t of Type_Pointer a \<Rightarrow> is_type_u8 a | _ \<Rightarrow> False)"

definition is_type_u8_multi_ptr :: "type_env \<Rightarrow> otype \<Rightarrow> bool" where
  "is_type_u8_multi_ptr E t = (case base_type E t of Type_MultiPointer a \<Rightarrow> is_type_u8 a | _ \<Rightarrow> False)"

definition is_type_rune_array :: "type_env \<Rightarrow> otype \<Rightarrow> bool" where
  "is_type_rune_array E t = (case base_type E t of Type_Array a c \<Rightarrow> is_type_rune E a | _ \<Rightarrow> False)"

definition is_type_u16_slice :: "type_env \<Rightarrow> otype \<Rightarrow> bool" where
  "is_type_u16_slice E t = (case base_type E t of Type_Slice a \<Rightarrow> is_type_u16 a | _ \<Rightarrow> False)"

definition is_type_u16_array :: "type_env \<Rightarrow> otype \<Rightarrow> bool" where
  "is_type_u16_array E t = (case base_type E t of Type_Array a c \<Rightarrow> is_type_u16 a | _ \<Rightarrow> False)"

definition is_type_u16_ptr :: "type_env \<Rightarrow> otype \<Rightarrow> bool" where
  "is_type_u16_ptr E t = (case base_type E t of Type_Pointer a \<Rightarrow> is_type_u16 a | _ \<Rightarrow> False)"

definition is_type_u16_multi_ptr :: "type_env \<Rightarrow> otype \<Rightarrow> bool" where
  "is_type_u16_multi_ptr E t = (case base_type E t of Type_MultiPointer a \<Rightarrow> is_type_u16 a | _ \<Rightarrow> False)"

definition is_type_array_like :: "type_env \<Rightarrow> otype \<Rightarrow> bool" where
  "is_type_array_like E t = (is_type_array E t \<or> is_type_enumerated_array E t)"

text \<open>The failed assertion of \<open>get_array_type_count\<close> is \<open>None\<close>.\<close>

definition get_array_type_count :: "type_env \<Rightarrow> otype \<Rightarrow> int option" where
  "get_array_type_count E t = (case base_type E t of
       Type_Array a c \<Rightarrow> Some c | Type_EnumeratedArray a i c \<Rightarrow> Some c | Type_SimdVector a c \<Rightarrow> Some c | _ \<Rightarrow> None)"

definition base_complex_elem_type :: "type_env \<Rightarrow> otype \<Rightarrow> otype option" where
  "base_complex_elem_type E t = (case core_type E t of
       Type_Basic (Fixed Basic_complex32) \<Rightarrow> Some (Type_Basic (Fixed Basic_f16))
     | Type_Basic (Fixed Basic_complex64) \<Rightarrow> Some (Type_Basic (Fixed Basic_f32))
     | Type_Basic (Fixed Basic_complex128) \<Rightarrow> Some (Type_Basic (Fixed Basic_f64))
     | Type_Basic (Fixed Basic_quaternion64) \<Rightarrow> Some (Type_Basic (Fixed Basic_f16))
     | Type_Basic (Fixed Basic_quaternion128) \<Rightarrow> Some (Type_Basic (Fixed Basic_f32))
     | Type_Basic (Fixed Basic_quaternion256) \<Rightarrow> Some (Type_Basic (Fixed Basic_f64))
     | Type_Basic (Untyped Basic_UntypedComplex) \<Rightarrow> Some (Type_Basic (Untyped Basic_UntypedFloat))
     | Type_Basic (Untyped Basic_UntypedQuaternion) \<Rightarrow> Some (Type_Basic (Untyped Basic_UntypedFloat))
     | _ \<Rightarrow> None)"

definition is_type_struct :: "type_env \<Rightarrow> otype \<Rightarrow> bool" where
  "is_type_struct E t = (case base_type E t of Type_Struct i s fs \<Rightarrow> True | _ \<Rightarrow> False)"

definition is_type_union :: "type_env \<Rightarrow> otype \<Rightarrow> bool" where
  "is_type_union E t = (case base_type E t of Type_Union i vs \<Rightarrow> True | _ \<Rightarrow> False)"

definition is_type_soa_struct :: "type_env \<Rightarrow> otype \<Rightarrow> bool" where
  "is_type_soa_struct E t = (case base_type E t of Type_Struct i s fs \<Rightarrow> soa_kind i \<noteq> StructSoa_None | _ \<Rightarrow> False)"

definition is_type_raw_union :: "type_env \<Rightarrow> otype \<Rightarrow> bool" where
  "is_type_raw_union E t = (case base_type E t of Type_Struct i s fs \<Rightarrow> is_raw_union i | _ \<Rightarrow> False)"

definition is_type_enum :: "type_env \<Rightarrow> otype \<Rightarrow> bool" where
  "is_type_enum E t = (case base_type E t of Type_Enum i b \<Rightarrow> True | _ \<Rightarrow> False)"

definition is_type_bit_set :: "type_env \<Rightarrow> otype \<Rightarrow> bool" where
  "is_type_bit_set E t = (case base_type E t of Type_BitSet a u l h \<Rightarrow> True | _ \<Rightarrow> False)"

definition is_type_bit_field :: "type_env \<Rightarrow> otype \<Rightarrow> bool" where
  "is_type_bit_field E t = (case base_type E t of Type_BitField b fs \<Rightarrow> True | _ \<Rightarrow> False)"

definition is_type_map :: "type_env \<Rightarrow> otype \<Rightarrow> bool" where
  "is_type_map E t = (case base_type E t of Type_Map k v \<Rightarrow> True | _ \<Rightarrow> False)"

definition is_type_union_maybe_pointer :: "type_env \<Rightarrow> otype \<Rightarrow> bool" where
  "is_type_union_maybe_pointer E t = (case base_type E t of Type_Union i [v] \<Rightarrow> is_type_internally_pointer_like E v | _ \<Rightarrow> False)"

definition is_type_dereferenceable :: "type_env \<Rightarrow> otype \<Rightarrow> bool" where
  "is_type_dereferenceable E t = (if is_type_rawptr t then False else is_type_pointer E t \<or> is_type_soa_pointer E t)"

definition is_type_any :: "type_env \<Rightarrow> otype \<Rightarrow> bool" where
  "is_type_any E t = (case base_type E t of Type_Basic k \<Rightarrow> k = Target Basic_any | _ \<Rightarrow> False)"

definition is_type_typeid :: "type_env \<Rightarrow> otype \<Rightarrow> bool" where
  "is_type_typeid E t = (case base_type E t of Type_Basic k \<Rightarrow> k = Target Basic_typeid | _ \<Rightarrow> False)"

definition is_type_untyped_nil :: "type_env \<Rightarrow> otype \<Rightarrow> bool" where
  "is_type_untyped_nil E t = (case base_type E t of
       Type_Basic k \<Rightarrow> k = Untyped Basic_UntypedNil \<or> k = Untyped Basic_UntypedUninit | _ \<Rightarrow> False)"

definition is_type_untyped_uninit :: "type_env \<Rightarrow> otype \<Rightarrow> bool" where
  "is_type_untyped_uninit E t = (case base_type E t of Type_Basic k \<Rightarrow> k = Untyped Basic_UntypedUninit | _ \<Rightarrow> False)"

definition is_type_empty_union :: "type_env \<Rightarrow> otype \<Rightarrow> bool" where
  "is_type_empty_union E t = (case base_type E t of Type_Union i [] \<Rightarrow> True | _ \<Rightarrow> False)"

definition is_type_valid_bit_set_elem :: "type_env \<Rightarrow> otype \<Rightarrow> bool" where
  "is_type_valid_bit_set_elem E t = (if is_type_enum E t then True else (case core_type E t of Type_Generic s \<Rightarrow> True | _ \<Rightarrow> False))"

definition is_valid_bit_field_backing_type :: "type_env \<Rightarrow> otype \<Rightarrow> bool" where
  "is_valid_bit_field_backing_type E t = (if t = Null then False
      else if is_type_untyped E (base_type E t) then False
      else if is_type_integer E (base_type E t) then True
      else (case base_type E t of Type_Array a c \<Rightarrow> is_type_integer E a | _ \<Rightarrow> False))"

definition is_type_valid_vector_elem :: "type_env \<Rightarrow> otype \<Rightarrow> bool" where
  "is_type_valid_vector_elem E t = (case base_type E t of
       Type_Basic k \<Rightarrow>
         if basic_flags k AND BasicFlag_EndianLittle \<noteq> 0 then False
         else if basic_flags k AND BasicFlag_EndianBig \<noteq> 0 then False
         else if is_type_integer E (Type_Basic k) then \<not> is_type_integer_128bit E (Type_Basic k)
         else if is_type_float E (Type_Basic k) then True
         else if is_type_boolean E (Type_Basic k) then True
         else k = Target Basic_rawptr
     | _ \<Rightarrow> False)"

definition is_type_indexable :: "type_env \<Rightarrow> otype \<Rightarrow> bool" where
  "is_type_indexable E t = (case base_type E t of
       Type_Basic k \<Rightarrow> k = Target Basic_string \<or> k = Target Basic_string16
     | Type_Array a c \<Rightarrow> True | Type_Slice a \<Rightarrow> True | Type_DynamicArray a \<Rightarrow> True
     | Type_FixedCapacityDynamicArray a c \<Rightarrow> True | Type_Map k v \<Rightarrow> True | Type_MultiPointer a \<Rightarrow> True
     | Type_EnumeratedArray a i c \<Rightarrow> True | Type_Matrix a r c m \<Rightarrow> True
     | _ \<Rightarrow> False)"

definition is_type_sliceable :: "type_env \<Rightarrow> otype \<Rightarrow> bool" where
  "is_type_sliceable E t = (case base_type E t of
       Type_Basic k \<Rightarrow> k = Target Basic_string \<or> k = Target Basic_string16
     | Type_Array a c \<Rightarrow> True | Type_Slice a \<Rightarrow> True | Type_DynamicArray a \<Rightarrow> True
     | Type_FixedCapacityDynamicArray a c \<Rightarrow> True | Type_EnumeratedArray a i c \<Rightarrow> False | Type_Matrix a r c m \<Rightarrow> False
     | _ \<Rightarrow> False)"

definition type_has_nil :: "type_env \<Rightarrow> otype \<Rightarrow> bool" where
  "type_has_nil E t = (case base_type E t of
       Type_Basic (Target k) \<Rightarrow> k \<in> {Basic_rawptr, Basic_any, Basic_cstring, Basic_cstring16, Basic_typeid}
     | Type_Enum i b \<Rightarrow> True | Type_BitSet a u l h \<Rightarrow> True
     | Type_Slice a \<Rightarrow> True | Type_Proc i p r \<Rightarrow> True | Type_Pointer a \<Rightarrow> True | Type_SoaPointer a \<Rightarrow> True
     | Type_MultiPointer a \<Rightarrow> True | Type_DynamicArray a \<Rightarrow> True | Type_Map k v \<Rightarrow> True
     | Type_FixedCapacityDynamicArray a c \<Rightarrow> False
     | Type_Union i vs \<Rightarrow> union_kind i \<noteq> UnionType_no_nil
     | Type_Struct i s fs \<Rightarrow> soa_kind i = StructSoa_Slice \<or> soa_kind i = StructSoa_Dynamic
     | _ \<Rightarrow> False)"

text \<open>The kinds and their default and promoted types.\<close>

fun default_type :: "otype \<Rightarrow> otype" where
  "default_type (Type_Basic (Untyped Basic_UntypedBool)) = Type_Basic (Fixed Basic_bool)"
| "default_type (Type_Basic (Untyped Basic_UntypedInteger)) = Type_Basic (Target Basic_int)"
| "default_type (Type_Basic (Untyped Basic_UntypedFloat)) = Type_Basic (Fixed Basic_f64)"
| "default_type (Type_Basic (Untyped Basic_UntypedComplex)) = Type_Basic (Fixed Basic_complex128)"
| "default_type (Type_Basic (Untyped Basic_UntypedQuaternion)) = Type_Basic (Fixed Basic_quaternion256)"
| "default_type (Type_Basic (Untyped Basic_UntypedString)) = Type_Basic (Target Basic_string)"
| "default_type (Type_Basic (Untyped Basic_UntypedRune)) = Type_Basic (Fixed Basic_rune)"
| "default_type Null = t_invalid"
| "default_type (Type_Generic s) = (if s = Null then Type_Generic s else default_type s)"
| "default_type t = t"

definition c_vararg_promote_type :: "type_env \<Rightarrow> otype \<Rightarrow> otype" where
  "c_vararg_promote_type E t =
     (case core_type E t of
        Type_Basic k \<Rightarrow>
          if k \<in> {Fixed Basic_f16, Fixed Basic_f32, Untyped Basic_UntypedFloat} then Type_Basic (Fixed Basic_f64)
          else if k \<in> {Endian Basic_f16le, Endian Basic_f32le} then Type_Basic (Endian Basic_f64le)
          else if k \<in> {Endian Basic_f16be, Endian Basic_f32be} then Type_Basic (Endian Basic_f64be)
          else if k \<in> {Untyped Basic_UntypedBool, Fixed Basic_bool, Fixed Basic_b8, Fixed Basic_b16, Fixed Basic_i8,
              Fixed Basic_i16, Fixed Basic_u8, Fixed Basic_u16} then Type_Basic (Fixed Basic_i32)
          else if k \<in> {Endian Basic_i16le, Endian Basic_u16le} then Type_Basic (Endian Basic_i32le)
          else if k \<in> {Endian Basic_i16be, Endian Basic_u16be} then Type_Basic (Endian Basic_i32be)
          else t
      | _ \<Rightarrow> t)"

subsection \<open>Predicates that look at components\<close>

text \<open>These recurse through named types; \<open>n\<close> bounds the depth.\<close>

fun is_type_integer_like :: "type_env \<Rightarrow> nat \<Rightarrow> otype \<Rightarrow> bool" where
  "is_type_integer_like E 0 t = False"
| "is_type_integer_like E (Suc n) t =
     (case core_type E t of
        Type_Basic k \<Rightarrow> basic_flags k AND (BasicFlag_Integer OR BasicFlag_Boolean) \<noteq> 0
      | Type_BitSet a u l h \<Rightarrow> if u \<noteq> Null then is_type_integer_like E n u else True
      | _ \<Rightarrow> False)"

fun is_type_numeric :: "type_env \<Rightarrow> nat \<Rightarrow> otype \<Rightarrow> bool" where
  "is_type_numeric E 0 t = False"
| "is_type_numeric E (Suc n) t =
     (case base_type E t of
        Type_Basic k \<Rightarrow> basic_flags k AND BasicFlag_Numeric \<noteq> 0
      | Type_Enum i b \<Rightarrow> is_type_numeric E n b
      | Type_Array a c \<Rightarrow> is_type_numeric E n a
      | _ \<Rightarrow> False)"

fun is_type_constant_type :: "type_env \<Rightarrow> nat \<Rightarrow> otype \<Rightarrow> bool" where
  "is_type_constant_type E 0 t = False"
| "is_type_constant_type E (Suc n) t =
     (case core_type E t of
        Type_Basic k \<Rightarrow> k = Target Basic_typeid \<or> basic_flags k AND BasicFlag_ConstantType \<noteq> 0
      | Type_BitSet a u l h \<Rightarrow> True
      | Type_Proc i p r \<Rightarrow> True
      | Type_Array a c \<Rightarrow> is_type_constant_type E n a
      | Type_EnumeratedArray a i c \<Rightarrow> is_type_constant_type E n a
      | Type_SimdVector a c \<Rightarrow> is_type_constant_type E n a
      | Type_Matrix a r c m \<Rightarrow> is_type_constant_type E n a
      | _ \<Rightarrow> False)"

fun core_array_type :: "type_env \<Rightarrow> nat \<Rightarrow> otype \<Rightarrow> otype" where
  "core_array_type E 0 t = t"
| "core_array_type E (Suc n) t =
     (case base_array_type E t of
        Type_Array a c \<Rightarrow> core_array_type E n (Type_Array a c)
      | Type_EnumeratedArray a i c \<Rightarrow> core_array_type E n (Type_EnumeratedArray a i c)
      | Type_SimdVector a c \<Rightarrow> core_array_type E n (Type_SimdVector a c)
      | Type_Matrix a r c m \<Rightarrow> core_array_type E n (Type_Matrix a r c m)
      | t' \<Rightarrow> t')"

fun type_math_rank :: "type_env \<Rightarrow> nat \<Rightarrow> otype \<Rightarrow> int" where
  "type_math_rank E 0 t = 0"
| "type_math_rank E (Suc n) t =
     (case base_type E t of
        Type_Array a c \<Rightarrow> 1 + type_math_rank E n a
      | Type_Matrix a r c m \<Rightarrow> 2 + type_math_rank E n a
      | _ \<Rightarrow> 0)"

fun type_has_default_values :: "type_env \<Rightarrow> nat \<Rightarrow> otype \<Rightarrow> bool" where
  "type_has_default_values E 0 t = False"
| "type_has_default_values E (Suc n) t =
     (case base_type E t of
        Type_Struct i s fs \<Rightarrow>
          \<not> is_raw_union i \<and>
          list_ex (\<lambda>(f, ft). kind f = Entity_Variable \<and> (constant_default f \<or> type_has_default_values E n ft)) fs
      | Type_Array a c \<Rightarrow> type_has_default_values E n a
      | Type_EnumeratedArray a i c \<Rightarrow> type_has_default_values E n a
      | _ \<Rightarrow> False)"

fun is_type_constant_type_for_unions :: "type_env \<Rightarrow> nat \<Rightarrow> otype \<Rightarrow> bool"
  and is_type_union_constantable :: "type_env \<Rightarrow> nat \<Rightarrow> otype \<Rightarrow> bool" where
  "is_type_constant_type_for_unions E 0 t = False"
| "is_type_constant_type_for_unions E (Suc n) t =
     (case core_type E t of
        Type_Basic k \<Rightarrow> k = Target Basic_typeid \<or> basic_flags k AND BasicFlag_ConstantType \<noteq> 0
      | Type_BitSet a u l h \<Rightarrow> True
      | Type_Proc i p r \<Rightarrow> True
      | Type_Array a c \<Rightarrow> is_type_constant_type E n a
      | Type_EnumeratedArray a i c \<Rightarrow> is_type_constant_type E n a
      | Type_Struct i s fs \<Rightarrow> list_all (\<lambda>(f, ft). is_type_constant_type_for_unions E n ft) fs
      | Type_Union i vs \<Rightarrow> is_type_union_constantable E n (Type_Union i vs)
      | _ \<Rightarrow> False)"
| "is_type_union_constantable E 0 t = False"
| "is_type_union_constantable E (Suc n) t =
     (case base_type E t of
        Type_Union i vs \<Rightarrow> list_all (is_type_constant_type_for_unions E n) vs
      | _ \<Rightarrow> False)"

fun is_type_simple_compare :: "type_env \<Rightarrow> nat \<Rightarrow> otype \<Rightarrow> bool" where
  "is_type_simple_compare E 0 t = False"
| "is_type_simple_compare E (Suc n) t =
     (case core_type E t of
        Type_Array a c \<Rightarrow> is_type_simple_compare E n a
      | Type_EnumeratedArray a i c \<Rightarrow> is_type_simple_compare E n a
      | Type_FixedCapacityDynamicArray a c \<Rightarrow> False
      | Type_Basic k \<Rightarrow> basic_flags k AND BasicFlag_SimpleCompare \<noteq> 0 \<or> k = Target Basic_typeid
      | Type_Pointer a \<Rightarrow> True | Type_MultiPointer a \<Rightarrow> True | Type_SoaPointer a \<Rightarrow> True
      | Type_Proc i p r \<Rightarrow> True | Type_BitSet a u l h \<Rightarrow> True | Type_BitField b fs \<Rightarrow> True
      | Type_Matrix a r c m \<Rightarrow> is_type_simple_compare E n a
      | Type_Struct i s fs \<Rightarrow> is_simple i \<or> list_all (\<lambda>(f, ft). is_type_simple_compare E n ft) fs
      | Type_Union i vs \<Rightarrow> list_all (is_type_simple_compare E n) vs \<and> length vs = 1
      | Type_SimdVector a c \<Rightarrow> is_type_simple_compare E n a
      | Type_Tuple p vs \<Rightarrow> (case vs of [(f, ft)] \<Rightarrow> is_type_simple_compare E n ft | _ \<Rightarrow> False)
      | _ \<Rightarrow> False)"

fun is_type_nearly_simple_compare :: "type_env \<Rightarrow> nat \<Rightarrow> otype \<Rightarrow> bool" where
  "is_type_nearly_simple_compare E 0 t = False"
| "is_type_nearly_simple_compare E (Suc n) t =
     (case core_type E t of
        Type_Array a c \<Rightarrow> is_type_nearly_simple_compare E n a
      | Type_EnumeratedArray a i c \<Rightarrow> is_type_nearly_simple_compare E n a
      | Type_FixedCapacityDynamicArray a c \<Rightarrow> False
      | Type_Basic k \<Rightarrow>
          basic_flags k AND (BasicFlag_SimpleCompare OR BasicFlag_Numeric) \<noteq> 0 \<or> k = Target Basic_typeid
      | Type_Pointer a \<Rightarrow> True | Type_MultiPointer a \<Rightarrow> True | Type_SoaPointer a \<Rightarrow> True
      | Type_Proc i p r \<Rightarrow> True | Type_BitSet a u l h \<Rightarrow> True | Type_BitField b fs \<Rightarrow> True
      | Type_Matrix a r c m \<Rightarrow> is_type_nearly_simple_compare E n a
      | Type_Struct i s fs \<Rightarrow> is_simple i \<or> list_all (\<lambda>(f, ft). is_type_nearly_simple_compare E n ft) fs
      | Type_Union i vs \<Rightarrow> list_all (is_type_nearly_simple_compare E n) vs \<and> length vs = 1
      | Type_SimdVector a c \<Rightarrow> is_type_nearly_simple_compare E n a
      | Type_Tuple p vs \<Rightarrow> (case vs of [(f, ft)] \<Rightarrow> is_type_nearly_simple_compare E n ft | _ \<Rightarrow> False)
      | _ \<Rightarrow> False)"

fun is_type_comparable :: "type_env \<Rightarrow> nat \<Rightarrow> otype \<Rightarrow> bool" where
  "is_type_comparable E 0 t = False"
| "is_type_comparable E (Suc n) t =
     (case base_type E t of
        Type_Basic k \<Rightarrow> k \<noteq> Untyped Basic_UntypedNil \<and> k \<noteq> Target Basic_any
      | Type_Pointer a \<Rightarrow> True | Type_SoaPointer a \<Rightarrow> True | Type_MultiPointer a \<Rightarrow> True
      | Type_Enum i b \<Rightarrow> is_type_comparable E n (core_type E (Type_Enum i b))
      | Type_EnumeratedArray a i c \<Rightarrow> is_type_comparable E n a
      | Type_Array a c \<Rightarrow> is_type_comparable E n a
      | Type_Proc i p r \<Rightarrow> True
      | Type_Matrix a r c m \<Rightarrow> is_type_comparable E n a
      | Type_FixedCapacityDynamicArray a c \<Rightarrow> False
      | Type_BitSet a u l h \<Rightarrow> True
      | Type_Struct i s fs \<Rightarrow>
          if soa_kind i \<noteq> StructSoa_None then False
          else if is_raw_union i then is_type_simple_compare E n (Type_Struct i s fs)
          else list_all (\<lambda>(f, ft). is_type_comparable E n ft) fs
      | Type_Union i vs \<Rightarrow> list_all (is_type_comparable E n) vs
      | Type_SimdVector a c \<Rightarrow> True
      | Type_BitField b fs \<Rightarrow> is_type_comparable E n b
      | _ \<Rightarrow> False)"

end
