(* ===== verification/Type_Layout.thy ===== *)
theory Type_Layout
  imports Types
begin

text \<open>
  Sizes, alignments and field offsets (\<^verbatim>\<open>src/types.cpp\<close>). The code detects a type that contains
  itself by value with the path of type names it is in (\<open>TypePath\<close>), reports it and continues with
  size and alignment 0; here the depth \<open>n\<close> bounds the walk and a walk that runs out gives 0. For a
  well-formed type of depth \<open>d\<close> every bound from \<open>3 * d\<close> on gives the same result
  (\<open>layout_stable\<close>). The sizes the code caches in the type are recomputed.
\<close>

subsection \<open>The target\<close>

record build_context =
  ptr_size :: int
  int_size :: int
  max_align :: int
  max_simd_align :: int
  endian_big :: bool

definition gb_clamp :: "int \<Rightarrow> int \<Rightarrow> int \<Rightarrow> int" where
  "gb_clamp x lower upper = min (max x lower) upper"

definition prev_pow2 :: "int \<Rightarrow> int" where
  "prev_pow2 n =
     (if n \<le> 0 then 0
      else
        let n = n OR drop_bit 1 n;
            n = n OR drop_bit 2 n;
            n = n OR drop_bit 4 n;
            n = n OR drop_bit 8 n;
            n = n OR drop_bit 16 n;
            n = n OR drop_bit 32 n
        in n - drop_bit 1 n)"

subsection \<open>Field offsets\<close>

fun packed_offsets :: "(otype \<Rightarrow> int) \<Rightarrow> int \<Rightarrow> (field \<times> otype) list \<Rightarrow> int list" where
  "packed_offsets sizef curr_offset [] = []"
| "packed_offsets sizef curr_offset ((f, t) # fs) =
     (if kind f \<noteq> Entity_Variable then -1 # packed_offsets sizef curr_offset fs
      else curr_offset # packed_offsets sizef (curr_offset + sizef t) fs)"

fun aligned_offsets ::
  "(otype \<Rightarrow> int) \<Rightarrow> (otype \<Rightarrow> int) \<Rightarrow> int \<Rightarrow> int \<Rightarrow> int \<Rightarrow> (field \<times> otype) list \<Rightarrow> int list" where
  "aligned_offsets sizef alignf min_field_align max_field_align curr_offset [] = []"
| "aligned_offsets sizef alignf min_field_align max_field_align curr_offset ((f, t) # fs) =
     (if kind f \<noteq> Entity_Variable then -1 # aligned_offsets sizef alignf min_field_align max_field_align curr_offset fs
      else
        let al = max (alignf t) min_field_align;
            al = (if max_field_align > min_field_align then min al max_field_align else al);
            sz = max (sizef t) 0;
            curr_offset = align_formula curr_offset al
        in curr_offset # aligned_offsets sizef alignf min_field_align max_field_align (curr_offset + sz) fs)"

text \<open>The sizes and alignments of the fields are those of the walk that asks for the offsets.\<close>

definition type_set_offsets_of ::
  "(otype \<Rightarrow> int) \<Rightarrow> (otype \<Rightarrow> int) \<Rightarrow> (field \<times> otype) list \<Rightarrow> bool \<Rightarrow> bool \<Rightarrow> int \<Rightarrow> int \<Rightarrow> int list" where
  "type_set_offsets_of sizef alignf fs packed raw_union min_field_align max_field_align =
     (let min_field_align = (if min_field_align = 0 then 1 else min_field_align)
      in if raw_union then map (\<lambda>_. 0) fs
         else if packed then packed_offsets sizef 0 fs
         else aligned_offsets sizef alignf min_field_align max_field_align 0 fs)"

definition struct_offsets :: "(otype \<Rightarrow> int) \<Rightarrow> (otype \<Rightarrow> int) \<Rightarrow> struct_info \<Rightarrow> (field \<times> otype) list \<Rightarrow> int list" where
  "struct_offsets sizef alignf i fs =
     type_set_offsets_of sizef alignf fs (is_packed i) (is_raw_union i) (custom_min_field_align i) (custom_max_field_align i)"

definition tuple_offsets :: "(otype \<Rightarrow> int) \<Rightarrow> (otype \<Rightarrow> int) \<Rightarrow> bool \<Rightarrow> (field \<times> otype) list \<Rightarrow> int list" where
  "tuple_offsets sizef alignf packed variables = type_set_offsets_of sizef alignf variables packed False 1 0"

subsection \<open>Parts of the layout\<close>

definition basic_size_of :: "build_context \<Rightarrow> basic_kind \<Rightarrow> int" where
  "basic_size_of C k =
     (if basic_size k > 0 then basic_size k
      else case k of
        Target Basic_string \<Rightarrow> 2 * int_size C | Target Basic_cstring \<Rightarrow> ptr_size C
      | Target Basic_string16 \<Rightarrow> 2 * int_size C | Target Basic_cstring16 \<Rightarrow> ptr_size C
      | Target Basic_any \<Rightarrow> 16 | Target Basic_typeid \<Rightarrow> 8
      | Target Basic_int \<Rightarrow> int_size C | Target Basic_uint \<Rightarrow> int_size C
      | Target Basic_uintptr \<Rightarrow> ptr_size C | Target Basic_rawptr \<Rightarrow> ptr_size C
      | _ \<Rightarrow> ptr_size C)"

text \<open>The size a \<open>bit_set\<close> of this many bits has (also its alignment).\<close>

definition bit_set_bytes :: "int \<Rightarrow> int" where
  "bit_set_bytes bits =
     (if bits \<le> 8 then 1 else if bits \<le> 16 then 2 else if bits \<le> 32 then 4 else if bits \<le> 64 then 8
      else if bits \<le> 128 then 16 else 8)"

text \<open>\<open>type_size_of\<close> and \<open>type_align_of\<close>, which start a walk of their own.\<close>

definition type_size_from :: "build_context \<Rightarrow> (otype \<Rightarrow> int) \<Rightarrow> otype \<Rightarrow> int" where
  "type_size_from C sizef t =
     (case t of
        Null \<Rightarrow> 0
      | Type_Basic k \<Rightarrow>
          (case k of
             Target Basic_string \<Rightarrow> 2 * int_size C | Target Basic_cstring \<Rightarrow> ptr_size C
           | Target Basic_string16 \<Rightarrow> 2 * int_size C | Target Basic_cstring16 \<Rightarrow> ptr_size C
           | Target Basic_any \<Rightarrow> 16 | Target Basic_typeid \<Rightarrow> 8
           | Target Basic_int \<Rightarrow> int_size C | Target Basic_uint \<Rightarrow> int_size C
           | Target Basic_uintptr \<Rightarrow> ptr_size C | Target Basic_rawptr \<Rightarrow> ptr_size C
           | _ \<Rightarrow> basic_size k)
      | _ \<Rightarrow> sizef t)"

definition type_align_from :: "(otype \<Rightarrow> int) \<Rightarrow> otype \<Rightarrow> int" where
  "type_align_from alignf t = (if t = Null then 1 else alignf t)"

definition union_tag_size_from :: "build_context \<Rightarrow> (otype \<Rightarrow> int) \<Rightarrow> union_info \<Rightarrow> otype list \<Rightarrow> int" where
  "union_tag_size_from C alignf i vs =
     (if vs = [] then 0
      else
        let max_al = (if length vs < 2 ^ 8 then 1 else if length vs < 2 ^ 16 then 2 else 4);
            max_al = (if union_custom_align i > 0 then max max_al (union_custom_align i)
                      else foldl (\<lambda>m v. max m (type_align_from alignf v)) max_al vs)
        in min (min max_al (max_align C)) 8)"

text \<open>The loop that halves the alignment of a matrix until it divides the size.\<close>

function halve_align :: "int \<Rightarrow> int \<Rightarrow> int" where
  "halve_align sz min_alignment =
     (if sz \<noteq> 0 \<and> sz mod min_alignment \<noteq> 0 \<and> min_alignment > 0
      then halve_align sz (min_alignment div 2) else min_alignment)"
  by pat_completeness auto
termination by (relation "measure (\<lambda>(sz, m). nat m)") auto

declare halve_align.simps [simp del]

definition matrix_align_from ::
  "build_context \<Rightarrow> (otype \<Rightarrow> int) \<Rightarrow> (otype \<Rightarrow> int) \<Rightarrow> otype \<Rightarrow> int \<Rightarrow> int \<Rightarrow> int" where
  "matrix_align_from C sizef alignf elem row_count column_count =
     (let row_count = max row_count 1;
          column_count = max column_count 1;
          elem_align = alignf elem;
          elem_size = type_size_from C sizef elem;
          total_expected_size = row_count * column_count * elem_size;
          min_alignment = halve_align total_expected_size (prev_pow2 total_expected_size);
          min_alignment = max min_alignment elem_align
      in min min_alignment (max_simd_align C))"

definition matrix_stride_from :: "int \<Rightarrow> int \<Rightarrow> int \<Rightarrow> bool \<Rightarrow> int" where
  "matrix_stride_from elem_size row_count column_count row_major =
     (if row_count = 0 then 0
      else if row_major then elem_size * column_count else elem_size * row_count)"

subsection \<open>Alignment and sizef\<close>

fun type_align_of_internal :: "build_context \<Rightarrow> type_env \<Rightarrow> nat \<Rightarrow> otype \<Rightarrow> int"
  and type_size_of_internal :: "build_context \<Rightarrow> type_env \<Rightarrow> nat \<Rightarrow> otype \<Rightarrow> int" where
  "type_align_of_internal C E 0 t = 0"
| "type_align_of_internal C E (Suc n) t =
     (let alignf = (\<lambda>t. type_align_of_internal C E n t);
          sizef = (\<lambda>t. type_size_of_internal C E n t);
          t = base_type E t;
          natural = gb_clamp (next_pow2 (sizef t)) 1 (max_align C)
      in case t of
        Type_Basic k \<Rightarrow>
          (case k of
             Target Basic_string \<Rightarrow> int_size C | Target Basic_cstring \<Rightarrow> ptr_size C
           | Target Basic_string16 \<Rightarrow> int_size C | Target Basic_cstring16 \<Rightarrow> ptr_size C
           | Target Basic_any \<Rightarrow> 8 | Target Basic_typeid \<Rightarrow> 8
           | Target Basic_int \<Rightarrow> int_size C | Target Basic_uint \<Rightarrow> int_size C
           | Target Basic_uintptr \<Rightarrow> ptr_size C | Target Basic_rawptr \<Rightarrow> ptr_size C
           | Fixed b \<Rightarrow>
               if b \<in> {Basic_complex32, Basic_complex64, Basic_complex128} then sizef t div 2
               else if b \<in> {Basic_quaternion64, Basic_quaternion128, Basic_quaternion256} then sizef t div 4
               else natural
           | _ \<Rightarrow> natural)
      | Type_Array a c \<Rightarrow> alignf a
      | Type_EnumeratedArray a i c \<Rightarrow> alignf a
      | Type_DynamicArray a \<Rightarrow> int_size C
      | Type_FixedCapacityDynamicArray a c \<Rightarrow> max (int_size C) (alignf a)
      | Type_Slice a \<Rightarrow> int_size C
      | Type_BitField b fs \<Rightarrow> alignf b
      | Type_Tuple p vs \<Rightarrow> foldl (\<lambda>m v. max m (alignf (snd v))) 1 vs
      | Type_Map k v \<Rightarrow> ptr_size C
      | Type_Enum i b \<Rightarrow> alignf b
      | Type_Union i vs \<Rightarrow>
          if vs = [] then 1
          else if union_custom_align i > 0 then max (union_custom_align i) 1
          else foldl (\<lambda>m v. max m (alignf v)) 1 vs
      | Type_Struct i s fs \<Rightarrow>
          if custom_align i > 0 then max (custom_align i) 1
          else if is_packed i then 1
          else
            let m = foldl (\<lambda>m v. max m (alignf (snd v))) 1 fs;
                m = (if custom_min_field_align i > 0 then max m (custom_min_field_align i) else m)
            in if custom_max_field_align i \<noteq> 0 \<and> custom_max_field_align i > custom_min_field_align i
               then min m (custom_max_field_align i) else m
      | Type_BitSet a u lower upper \<Rightarrow>
          if u \<noteq> Null then type_align_from alignf u else bit_set_bytes (upper - lower + 1)
      | Type_SimdVector a c \<Rightarrow> gb_clamp (next_pow2 (sizef t)) 1 (max_simd_align C * 2)
      | Type_Matrix a r c m \<Rightarrow> matrix_align_from C sizef alignf a r c
      | Type_SoaPointer a \<Rightarrow> int_size C
      | _ \<Rightarrow> natural)"
| "type_size_of_internal C E 0 t = 0"
| "type_size_of_internal C E (Suc n) t =
     (let alignf = (\<lambda>t. type_align_of_internal C E n t);
          sizef = (\<lambda>t. type_size_of_internal C E n t)
      in case t of
        Type_Named e \<Rightarrow> sizef (base_of E e)
      | Type_Basic k \<Rightarrow> basic_size_of C k
      | Type_Pointer a \<Rightarrow> ptr_size C
      | Type_MultiPointer a \<Rightarrow> ptr_size C
      | Type_SoaPointer a \<Rightarrow> int_size C * 2
      | Type_Array a c \<Rightarrow>
          if c = 0 then 0 else align_formula (sizef a) (alignf a) * (c - 1) + sizef a
      | Type_EnumeratedArray a i c \<Rightarrow>
          if c = 0 then 0 else align_formula (sizef a) (alignf a) * (c - 1) + sizef a
      | Type_Slice a \<Rightarrow> 2 * int_size C
      | Type_DynamicArray a \<Rightarrow> 3 * int_size C + 2 * ptr_size C
      | Type_FixedCapacityDynamicArray a c \<Rightarrow>
          let al = max (int_size C) (alignf a);
              sz = type_size_from C sizef a * c;
              sz = align_formula sz (int_size C);
              sz = sz + 1 * int_size C
          in align_formula sz al
      | Type_Map k v \<Rightarrow> (1 + 1 + 2) * ptr_size C
      | Type_Tuple p vs \<Rightarrow>
          if vs = [] then 0
          else align_formula (last (tuple_offsets sizef alignf p vs) + sizef (snd (last vs))) (alignf t)
      | Type_Enum i b \<Rightarrow> sizef b
      | Type_Union i vs \<Rightarrow>
          if vs = [] then 0
          else
            let al = alignf t;
                mx = foldl (\<lambda>m v. max m (sizef v)) 0 vs;
                sz = (if is_type_union_maybe_pointer E t then mx
                      else let tag_size = union_tag_size_from C alignf i vs in align_formula mx tag_size + tag_size)
            in align_formula sz al
      | Type_Struct i s fs \<Rightarrow>
          if is_raw_union i then align_formula (foldl (\<lambda>m v. max m (sizef (snd v))) 0 fs) (alignf t)
          else if fs = [] then 0
          else align_formula (last (struct_offsets sizef alignf i fs) + sizef (snd (last fs))) (alignf t)
      | Type_BitSet a u lower upper \<Rightarrow>
          if u \<noteq> Null then type_size_from C sizef u else bit_set_bytes (upper - lower + 1)
      | Type_SimdVector a c \<Rightarrow> c * sizef a
      | Type_Matrix a r c m \<Rightarrow>
          let stride_in_bytes = matrix_stride_from (sizef a) r c m
          in if m then stride_in_bytes * r else stride_in_bytes * c
      | Type_BitField b fs \<Rightarrow> sizef b
      | _ \<Rightarrow> ptr_size C)"

declare type_align_of_internal.simps(2) [simp del] type_size_of_internal.simps(2) [simp del]

definition type_size_of :: "build_context \<Rightarrow> type_env \<Rightarrow> nat \<Rightarrow> otype \<Rightarrow> int" where
  "type_size_of C E n t = type_size_from C (type_size_of_internal C E n) t"

definition type_align_of :: "build_context \<Rightarrow> type_env \<Rightarrow> nat \<Rightarrow> otype \<Rightarrow> int" where
  "type_align_of C E n t = type_align_from (type_align_of_internal C E n) t"

definition bit_set_to_int :: "build_context \<Rightarrow> type_env \<Rightarrow> nat \<Rightarrow> otype \<Rightarrow> otype option" where
  "bit_set_to_int C E n t =
     (case base_type E t of
        Type_BitSet a underlying lower upper \<Rightarrow>
          if underlying \<noteq> Null \<and> is_type_integer E underlying then Some underlying
          else if underlying \<noteq> Null \<and> is_valid_bit_field_backing_type E underlying then Some underlying
          else
            let sz = type_size_of C E n t
            in if sz = 0 \<or> sz = 1 then Some (Type_Basic (Fixed Basic_u8))
               else if sz = 2 then Some (Type_Basic (Fixed Basic_u16))
               else if sz = 4 then Some (Type_Basic (Fixed Basic_u32))
               else if sz = 8 then Some (Type_Basic (Fixed Basic_u64))
               else if sz = 16 then Some (Type_Basic (Fixed Basic_u128))
               else None
      | _ \<Rightarrow> None)"

definition union_tag_size :: "build_context \<Rightarrow> type_env \<Rightarrow> nat \<Rightarrow> otype \<Rightarrow> int option" where
  "union_tag_size C E n t =
     (case base_type E t of
        Type_Union i vs \<Rightarrow> Some (union_tag_size_from C (type_align_of_internal C E n) i vs)
      | _ \<Rightarrow> None)"

definition union_tag_type :: "build_context \<Rightarrow> type_env \<Rightarrow> nat \<Rightarrow> otype \<Rightarrow> otype option" where
  "union_tag_type C E n t =
     (case union_tag_size C E n t of
        None \<Rightarrow> None
      | Some s \<Rightarrow>
          if s = 0 \<or> s = 1 then Some (Type_Basic (Fixed Basic_u8))
          else if s = 2 then Some (Type_Basic (Fixed Basic_u16))
          else if s = 4 then Some (Type_Basic (Fixed Basic_u32))
          else if s = 8 then Some (Type_Basic (Fixed Basic_u64))
          else None)"

definition is_type_union_maybe_pointer_original_alignment ::
  "build_context \<Rightarrow> type_env \<Rightarrow> nat \<Rightarrow> otype \<Rightarrow> bool" where
  "is_type_union_maybe_pointer_original_alignment C E n t =
     (case base_type E t of
        Type_Union i [v] \<Rightarrow>
          is_type_internally_pointer_like E v \<and> type_align_of C E n v = type_align_of C E n (base_type E t)
      | _ \<Rightarrow> False)"

definition is_type_valid_for_keys :: "build_context \<Rightarrow> type_env \<Rightarrow> nat \<Rightarrow> otype \<Rightarrow> bool" where
  "is_type_valid_for_keys C E n t =
     (let t = core_type E t
      in case t of
           Type_Generic s \<Rightarrow> True
         | _ \<Rightarrow> \<not> is_type_untyped E t \<and> type_size_of C E n t > 0 \<and> is_type_comparable E n t)"

definition is_type_lock_free :: "build_context \<Rightarrow> type_env \<Rightarrow> nat \<Rightarrow> otype \<Rightarrow> bool" where
  "is_type_lock_free C E n t =
     (let t = core_type E t in t \<noteq> t_invalid \<and> type_size_of C E n t \<le> max_align C)"

fun is_type_load_safe :: "build_context \<Rightarrow> type_env \<Rightarrow> nat \<Rightarrow> otype \<Rightarrow> bool" where
  "is_type_load_safe C E 0 t = False"
| "is_type_load_safe C E (Suc n) t =
     (let t = core_type E (core_array_type E n t)
      in case t of
        Type_Basic k \<Rightarrow> basic_flags k AND (BasicFlag_Boolean OR BasicFlag_Numeric OR BasicFlag_Rune) \<noteq> 0
      | Type_BitSet a u l h \<Rightarrow> if u \<noteq> Null then is_type_load_safe C E n u else True
      | Type_Struct i s fs \<Rightarrow>
          list_all (\<lambda>(f, ft). is_type_load_safe C E n ft) fs \<and> type_size_of C E n t > 0
      | Type_Union i vs \<Rightarrow> list_all (is_type_load_safe C E n) vs \<and> type_size_of C E n t > 0
      | _ \<Rightarrow> False)"

fun type_unsigned_equivalent :: "build_context \<Rightarrow> type_env \<Rightarrow> nat \<Rightarrow> otype \<Rightarrow> otype option" where
  "type_unsigned_equivalent C E 0 t = None"
| "type_unsigned_equivalent C E (Suc n) t =
     (case base_type E t of
        Type_SimdVector a c \<Rightarrow>
          if is_type_unsigned E a then Some t
          else map_option (\<lambda>a. Type_SimdVector a c) (type_unsigned_equivalent C E n a)
      | bt \<Rightarrow>
          let sz = type_size_of C E n bt
          in if sz = 1 then Some (Type_Basic (Fixed Basic_u8))
             else if sz = 2 then Some (Type_Basic (Fixed Basic_u16))
             else if sz = 4 then Some (Type_Basic (Fixed Basic_u32))
             else if sz = 8 then Some (Type_Basic (Fixed Basic_u64))
             else if sz = 16 then Some (Type_Basic (Fixed Basic_u128))
             else None)"

fun type_signed_equivalent :: "build_context \<Rightarrow> type_env \<Rightarrow> nat \<Rightarrow> otype \<Rightarrow> otype option" where
  "type_signed_equivalent C E 0 t = None"
| "type_signed_equivalent C E (Suc n) t =
     (case base_type E t of
        Type_SimdVector a c \<Rightarrow>
          if \<not> is_type_unsigned E a then Some t
          else map_option (\<lambda>a. Type_SimdVector a c) (type_signed_equivalent C E n a)
      | bt \<Rightarrow>
          let sz = type_size_of C E n bt
          in if sz = 1 then Some (Type_Basic (Fixed Basic_i8))
             else if sz = 2 then Some (Type_Basic (Fixed Basic_i16))
             else if sz = 4 then Some (Type_Basic (Fixed Basic_i32))
             else if sz = 8 then Some (Type_Basic (Fixed Basic_i64))
             else if sz = 16 then Some (Type_Basic (Fixed Basic_i128))
             else None)"

subsection \<open>Byte order\<close>

datatype type_endian_kind = TypeEndian_Platform | TypeEndian_Little | TypeEndian_Big

text \<open>The integer type of a bit set is basic or an array, so one step of \<open>bit_set_to_int\<close> is followed.\<close>

definition endian_walk :: "build_context \<Rightarrow> type_env \<Rightarrow> nat \<Rightarrow> otype \<Rightarrow> otype" where
  "endian_walk C E n t =
     (case core_type E t of
        Type_BitSet a u l h \<Rightarrow>
          (case bit_set_to_int C E n (core_type E t) of None \<Rightarrow> Null | Some t' \<Rightarrow> core_type E t')
      | t' \<Rightarrow> t')"

definition type_endian_kind_of :: "build_context \<Rightarrow> type_env \<Rightarrow> nat \<Rightarrow> otype \<Rightarrow> type_endian_kind" where
  "type_endian_kind_of C E n t =
     (case endian_walk C E n t of
        Type_Basic k \<Rightarrow>
          if basic_flags k AND BasicFlag_EndianLittle \<noteq> 0 then TypeEndian_Little
          else if basic_flags k AND BasicFlag_EndianBig \<noteq> 0 then TypeEndian_Big
          else TypeEndian_Platform
      | _ \<Rightarrow> TypeEndian_Platform)"

definition is_type_endian_big :: "build_context \<Rightarrow> type_env \<Rightarrow> nat \<Rightarrow> otype \<Rightarrow> bool" where
  "is_type_endian_big C E n t =
     (case endian_walk C E n t of
        Null \<Rightarrow> False
      | Type_Basic k \<Rightarrow>
          if basic_flags k AND BasicFlag_EndianBig \<noteq> 0 then True
          else if basic_flags k AND BasicFlag_EndianLittle \<noteq> 0 then False
          else endian_big C
      | _ \<Rightarrow> endian_big C)"

definition is_type_endian_little :: "build_context \<Rightarrow> type_env \<Rightarrow> nat \<Rightarrow> otype \<Rightarrow> bool" where
  "is_type_endian_little C E n t =
     (case endian_walk C E n t of
        Null \<Rightarrow> False
      | Type_Basic k \<Rightarrow>
          if basic_flags k AND BasicFlag_EndianLittle \<noteq> 0 then True
          else if basic_flags k AND BasicFlag_EndianBig \<noteq> 0 then False
          else \<not> endian_big C
      | _ \<Rightarrow> \<not> endian_big C)"

definition is_type_endian_platform :: "build_context \<Rightarrow> type_env \<Rightarrow> nat \<Rightarrow> otype \<Rightarrow> bool" where
  "is_type_endian_platform C E n t =
     (case endian_walk C E n t of
        Type_Basic k \<Rightarrow> basic_flags k AND (BasicFlag_EndianLittle OR BasicFlag_EndianBig) = 0
      | Type_Pointer a \<Rightarrow> True
      | _ \<Rightarrow> False)"

definition types_have_same_internal_endian :: "build_context \<Rightarrow> type_env \<Rightarrow> nat \<Rightarrow> otype \<Rightarrow> otype \<Rightarrow> bool" where
  "types_have_same_internal_endian C E n a b \<longleftrightarrow> is_type_endian_little C E n a = is_type_endian_little C E n b"

definition is_type_endian_specific :: "build_context \<Rightarrow> type_env \<Rightarrow> nat \<Rightarrow> otype \<Rightarrow> bool" where
  "is_type_endian_specific C E n t =
     (let t = core_type E t;
          t = (case t of
                 Type_BitSet a u l h \<Rightarrow> (case bit_set_to_int C E n t of None \<Rightarrow> Null | Some t' \<Rightarrow> t')
               | _ \<Rightarrow> t)
      in case t of
           Type_Basic (Endian k) \<Rightarrow>
             k \<in> {Basic_i16le, Basic_u16le, Basic_i32le, Basic_u32le, Basic_i64le, Basic_u64le, Basic_u128le,
               Basic_i16be, Basic_u16be, Basic_i32be, Basic_u32be, Basic_i64be, Basic_u64be, Basic_u128be,
               Basic_f16le, Basic_f16be, Basic_f32le, Basic_f32be, Basic_f64le, Basic_f64be}
         | _ \<Rightarrow> False)"

definition is_type_different_to_arch_endianness :: "build_context \<Rightarrow> type_env \<Rightarrow> nat \<Rightarrow> otype \<Rightarrow> bool" where
  "is_type_different_to_arch_endianness C E n t =
     (if \<not> endian_big C then \<not> is_type_endian_little C E n t else \<not> is_type_endian_big C E n t)"

definition endian_platform_kind :: "endian_kind \<Rightarrow> fixed_kind" where
  "endian_platform_kind k = (case k of
     Basic_i16le \<Rightarrow> Basic_i16 | Basic_u16le \<Rightarrow> Basic_u16 | Basic_i32le \<Rightarrow> Basic_i32 | Basic_u32le \<Rightarrow> Basic_u32
   | Basic_i64le \<Rightarrow> Basic_i64 | Basic_u64le \<Rightarrow> Basic_u64 | Basic_i128le \<Rightarrow> Basic_i128 | Basic_u128le \<Rightarrow> Basic_u128
   | Basic_i16be \<Rightarrow> Basic_i16 | Basic_u16be \<Rightarrow> Basic_u16 | Basic_i32be \<Rightarrow> Basic_i32 | Basic_u32be \<Rightarrow> Basic_u32
   | Basic_i64be \<Rightarrow> Basic_i64 | Basic_u64be \<Rightarrow> Basic_u64 | Basic_i128be \<Rightarrow> Basic_i128 | Basic_u128be \<Rightarrow> Basic_u128
   | Basic_f16le \<Rightarrow> Basic_f16 | Basic_f16be \<Rightarrow> Basic_f16 | Basic_f32le \<Rightarrow> Basic_f32 | Basic_f32be \<Rightarrow> Basic_f32
   | Basic_f64le \<Rightarrow> Basic_f64 | Basic_f64be \<Rightarrow> Basic_f64)"

definition integer_endian_type_to_platform_type :: "build_context \<Rightarrow> type_env \<Rightarrow> nat \<Rightarrow> otype \<Rightarrow> otype option" where
  "integer_endian_type_to_platform_type C E n t =
     (let t = core_type E t;
          t = (case t of
                 Type_BitSet a u l h \<Rightarrow> (case bit_set_to_int C E n t of None \<Rightarrow> Null | Some t' \<Rightarrow> t')
               | _ \<Rightarrow> t)
      in case t of
           Type_Basic (Endian k) \<Rightarrow> Some (Type_Basic (Fixed (endian_platform_kind k)))
         | Type_Basic k \<Rightarrow> Some t
         | _ \<Rightarrow> None)"

subsection \<open>Offsets of components\<close>

text \<open>A failed assertion is \<open>None\<close>; the type of the component is not returned.\<close>

definition type_offset_of :: "build_context \<Rightarrow> type_env \<Rightarrow> nat \<Rightarrow> otype \<Rightarrow> int \<Rightarrow> int option" where
  "type_offset_of C E n t index =
     (let sizef = type_size_of_internal C E n; alignf = type_align_of_internal C E n;
          other = (if index = 0 then Some 0 else None)
      in case base_type E t of
        Type_Struct i s fs \<Rightarrow>
          if 0 \<le> index \<and> index \<le> int (length fs) - 1
          then Some (struct_offsets sizef alignf i fs ! nat index) else other
      | Type_Tuple p vs \<Rightarrow>
          if 0 \<le> index \<and> index \<le> int (length vs) - 1 then
            let off = tuple_offsets sizef alignf p vs ! nat index
            in if off \<ge> 0 then Some off else None
          else other
      | Type_Array a c \<Rightarrow>
          if 0 \<le> index \<and> index < c then Some (index * type_size_of C E n a) else None
      | Type_Basic k \<Rightarrow>
          if k = Target Basic_string \<or> k = Target Basic_string16 then
            if index = 0 then Some 0 else if index = 1 then Some (int_size C) else other
          else if k = Target Basic_any then
            if index = 0 then Some 0 else if index = 1 then Some 8 else None
          else other
      | Type_Slice a \<Rightarrow> if index = 0 then Some 0 else if index = 1 then Some (1 * int_size C) else other
      | Type_DynamicArray a \<Rightarrow>
          if index = 0 then Some 0 else if index = 1 then Some (1 * int_size C)
          else if index = 2 then Some (2 * int_size C) else if index = 3 then Some (3 * int_size C) else other
      | Type_FixedCapacityDynamicArray a c \<Rightarrow>
          if index = 0 then Some 0
          else if index = 1 then Some (align_formula (type_size_of C E n a * c) (int_size C)) else other
      | Type_Union i vs \<Rightarrow>
          if \<not> is_type_union_maybe_pointer E (base_type E t) \<and> index = -1 then
            Some (align_formula (foldl (\<lambda>m v. max m (sizef v)) 0 vs) (union_tag_size_from C alignf i vs))
          else other
      | _ \<Rightarrow> other)"

text \<open>A selection is the list of its indices; the type of allocators is declared in the runtime package.\<close>

definition selected_type :: "type_env \<Rightarrow> otype \<Rightarrow> otype \<Rightarrow> int \<Rightarrow> otype" where
  "selected_type E t_allocator t index =
     (case t of
        Type_Struct i s fs \<Rightarrow> snd (fs ! nat index)
      | Type_Array a c \<Rightarrow> a
      | Type_Basic k \<Rightarrow>
          if k = Target Basic_string \<or> k = Target Basic_string16 then
            if index = 0 then Type_Basic (Target Basic_rawptr) else if index = 1 then Type_Basic (Target Basic_int) else t
          else if k = Target Basic_any then
            if index = 0 then Type_Basic (Target Basic_rawptr) else if index = 1 then Type_Basic (Target Basic_typeid) else t
          else t
      | Type_Slice a \<Rightarrow>
          if index = 0 then Type_Basic (Target Basic_rawptr) else if index = 1 \<or> index = 2 then Type_Basic (Target Basic_int) else t
      | Type_DynamicArray a \<Rightarrow>
          if index = 0 then Type_Basic (Target Basic_rawptr) else if index = 1 \<or> index = 2 then Type_Basic (Target Basic_int)
          else if index = 3 then t_allocator else t
      | Type_FixedCapacityDynamicArray a c \<Rightarrow>
          if index = 0 then Type_Array a c else if index = 1 then Type_Basic (Target Basic_int) else t
      | _ \<Rightarrow> t)"

fun type_offset_of_from_selection ::
  "build_context \<Rightarrow> type_env \<Rightarrow> nat \<Rightarrow> otype \<Rightarrow> otype \<Rightarrow> int list \<Rightarrow> int option" where
  "type_offset_of_from_selection C E n t_allocator t [] = Some 0"
| "type_offset_of_from_selection C E n t_allocator t (index # rest) =
     (case type_offset_of C E n (base_type E t) index of
        None \<Rightarrow> None
      | Some off \<Rightarrow>
          map_option (\<lambda>r. off + r)
            (type_offset_of_from_selection C E n t_allocator (selected_type E t_allocator (base_type E t) index) rest))"

definition are_struct_fields_reordered :: "int list \<Rightarrow> bool" where
  "are_struct_fields_reordered offsets =
     fst (foldl (\<lambda>(r, prev_offset) off. (r \<or> prev_offset > off, off)) (False, 0) offsets)"

text \<open>Insertion sort of the field indices by offset, when a field lies before its predecessor.\<close>

fun sink_index :: "int list \<Rightarrow> nat \<Rightarrow> nat list \<Rightarrow> nat list" where
  "sink_index offsets 0 indices = indices"
| "sink_index offsets (Suc j) indices =
     (if offsets ! (indices ! j) > offsets ! (indices ! Suc j)
      then sink_index offsets j (swap_at indices j (Suc j)) else indices)"

definition struct_fields_index_by_increasing_offset :: "int list \<Rightarrow> nat list" where
  "struct_fields_index_by_increasing_offset offsets =
     (let indices = [0..<length offsets]
      in if are_struct_fields_reordered offsets
         then foldl (\<lambda>is i. sink_index offsets i is) indices [1..<length offsets] else indices)"

definition type_size_of_struct_pretend_is_packed :: "build_context \<Rightarrow> type_env \<Rightarrow> nat \<Rightarrow> otype \<Rightarrow> int" where
  "type_size_of_struct_pretend_is_packed C E n ot =
     (if ot = Null then 0
      else case core_type E ot of
        Type_Struct i s fs \<Rightarrow>
          if is_packed i then type_size_of C E n ot
          else if fs = [] then 0
          else align_formula (foldl (\<lambda>sz f. sz + type_size_of C E n (snd f)) 0 fs) 1
      | _ \<Rightarrow> type_size_of C E n ot)"

subsection \<open>Matrices\<close>

definition matrix_type_stride_in_elems :: "build_context \<Rightarrow> type_env \<Rightarrow> nat \<Rightarrow> otype \<Rightarrow> int option" where
  "matrix_type_stride_in_elems C E n t =
     (case base_type E t of
        Type_Matrix a r c m \<Rightarrow>
          Some (matrix_stride_from (type_size_of C E n a) r c m div max 1 (type_size_of C E n a))
      | _ \<Rightarrow> None)"

definition matrix_type_total_internal_elems :: "build_context \<Rightarrow> type_env \<Rightarrow> nat \<Rightarrow> otype \<Rightarrow> int option" where
  "matrix_type_total_internal_elems C E n t =
     (case base_type E t of
        Type_Matrix a r c m \<Rightarrow> Some (type_size_of C E n (Type_Matrix a r c m) div max (type_size_of C E n a) 1)
      | _ \<Rightarrow> None)"

definition matrix_indices_to_offset :: "build_context \<Rightarrow> type_env \<Rightarrow> nat \<Rightarrow> otype \<Rightarrow> int \<Rightarrow> int \<Rightarrow> int option" where
  "matrix_indices_to_offset C E n t row_index column_index =
     (case base_type E t of
        Type_Matrix a r c m \<Rightarrow>
          if 0 \<le> row_index \<and> row_index < r \<and> 0 \<le> column_index \<and> column_index < c then
            map_option (\<lambda>stride_elems.
              if m then column_index + stride_elems * row_index else row_index + stride_elems * column_index)
              (matrix_type_stride_in_elems C E n t)
          else None
      | _ \<Rightarrow> None)"

definition matrix_row_major_index_to_offset :: "build_context \<Rightarrow> type_env \<Rightarrow> nat \<Rightarrow> otype \<Rightarrow> int \<Rightarrow> int option" where
  "matrix_row_major_index_to_offset C E n t index =
     (case base_type E t of
        Type_Matrix a r c m \<Rightarrow> matrix_indices_to_offset C E n t (index div c) (index mod c)
      | _ \<Rightarrow> None)"

definition matrix_column_major_index_to_offset :: "build_context \<Rightarrow> type_env \<Rightarrow> nat \<Rightarrow> otype \<Rightarrow> int \<Rightarrow> int option" where
  "matrix_column_major_index_to_offset C E n t index =
     (case base_type E t of
        Type_Matrix a r c m \<Rightarrow> matrix_indices_to_offset C E n t (index mod r) (index div r)
      | _ \<Rightarrow> None)"

definition is_matrix_square :: "type_env \<Rightarrow> otype \<Rightarrow> bool option" where
  "is_matrix_square E t = (case base_type E t of Type_Matrix a r c m \<Rightarrow> Some (r = c) | _ \<Rightarrow> None)"

end
