(* ===== verification/Type_Sizes.thy ===== *)
theory Type_Sizes
  imports Type_Layout
begin

text \<open>
  Groundwork for the layout theorems: powers of two, maxima and offsets over component lists, base
  types, well-formed types, the layout of each kind of type in terms of its components, and
  \<open>layout_stable\<close>: from three times the depth of a type on, the bound of the walk does not matter.
\<close>

subsection \<open>Powers of two\<close>

definition is_pow2 :: "int \<Rightarrow> bool" where
  "is_pow2 x \<longleftrightarrow> (\<exists>k. x = 2 ^ k)"

lemma is_pow2I: "x = 2 ^ k \<Longrightarrow> is_pow2 x"
  by (auto simp: is_pow2_def)

lemma is_pow2_numerals [simp]:
  "is_pow2 1" "is_pow2 2" "is_pow2 4" "is_pow2 8" "is_pow2 16" "is_pow2 32" "is_pow2 64"
  by (rule is_pow2I [of _ 0] is_pow2I [of _ 1] is_pow2I [of _ 2] is_pow2I [of _ 3] is_pow2I [of _ 4]
      is_pow2I [of _ 5] is_pow2I [of _ 6]; simp; fail)+

lemma pow2_pos: "is_pow2 x \<Longrightarrow> 1 \<le> x"
  by (auto simp: is_pow2_def)

lemma pow2_dvd: "is_pow2 a \<Longrightarrow> is_pow2 b \<Longrightarrow> a \<le> b \<Longrightarrow> a dvd b"
  by (auto simp: is_pow2_def le_imp_power_dvd)

lemma pow2_max [simp]: "is_pow2 a \<Longrightarrow> is_pow2 b \<Longrightarrow> is_pow2 (max a b)"
  by (simp add: max_def)

lemma pow2_min [simp]: "is_pow2 a \<Longrightarrow> is_pow2 b \<Longrightarrow> is_pow2 (min a b)"
  by (simp add: min_def)

lemma pow2_times [simp]: "is_pow2 a \<Longrightarrow> is_pow2 b \<Longrightarrow> is_pow2 (a * b)"
  by (auto simp: is_pow2_def simp flip: power_add)

lemma next_pow2_of_pow2:
  assumes "is_pow2 x" and "x < 2 ^ 64"
  shows "next_pow2 x = x"
proof -
  obtain k where k: "x = 2 ^ k" using assms(1) by (auto simp: is_pow2_def)
  with assms(2) have "k < 64" using power_less_imp_less_exp [of "2::int" k 64] by simp
  with k show ?thesis by (simp add: next_pow2_id)
qed

lemma prev_pow2_exp:
  assumes "1 \<le> n" and "n < 2 ^ 64"
  obtains k where "prev_pow2 n = 2 ^ k" and "2 ^ k \<le> n"
proof -
  have "1 \<le> nat n" using assms(1) by linarith
  then obtain k where k': "2 ^ k \<le> nat n" "nat n < 2 ^ (k + 1)"
    using ex_power_ivl1 [of 2 "nat n"] by auto
  have k: "2 ^ k \<le> n" using k'(1) assms(1) by (simp add: le_nat_iff)
  have k2: "n < 2 ^ Suc k" using k'(2) assms(1) by (simp add: nat_less_iff)
  have "(2::int) ^ k < 2 ^ 64" using assms k by linarith
  then have "k < 64" by (rule power_less_imp_less_exp [rotated]) simp
  then have s: "smear n = 2 ^ Suc k - 1" using k k2 by (intro smear_mask)
  have "prev_pow2 n = smear n - drop_bit 1 (smear n)"
    unfolding prev_pow2_def smear_def Let_def by (rule if_not_P) (use assms(1) in linarith)
  also have "drop_bit 1 (smear n) = 2 ^ k - 1" unfolding s by (simp add: drop_bit_eq_div)
  finally have "prev_pow2 n = 2 ^ k" unfolding s by simp
  with k show ?thesis by (rule that [rotated])
qed

lemma halve_align_ok:
  assumes "is_pow2 m" and "0 < sz"
  shows "is_pow2 (halve_align sz m) \<and> halve_align sz m dvd sz"
proof -
  obtain k where "m = 2 ^ k" using assms(1) by (auto simp: is_pow2_def)
  then show ?thesis
  proof (induction k arbitrary: m)
    case 0
    then show ?case by (simp add: halve_align.simps)
  next
    case (Suc k)
    show ?case
    proof (cases "sz mod m = 0")
      case True
      then have "halve_align sz m = m" by (subst halve_align.simps) simp
      with True Suc(2) show ?thesis by (auto intro: is_pow2I [of _ "Suc k"] simp: mod_eq_0_iff_dvd)
    next
      case False
      then have "halve_align sz m = halve_align sz (2 ^ k)"
        using assms(2) Suc(2) by (subst halve_align.simps) simp
      with Suc(1) [of "2 ^ k"] show ?thesis by simp
    qed
  qed
qed

subsection \<open>Maxima and offsets over components\<close>

lemma foldl_max_ge: "m0 \<le> foldl (\<lambda>m v. max m (f v)) (m0 :: int) vs"
proof (induction vs arbitrary: m0)
  case (Cons v vs)
  then show ?case using order_trans [OF max.cobounded1 Cons.IH] by simp
qed simp

lemma foldl_max_upper: "v \<in> set vs \<Longrightarrow> f v \<le> foldl (\<lambda>m v. max m (f v)) (m0 :: int) vs"
proof (induction vs arbitrary: m0)
  case (Cons w vs)
  then show ?case using foldl_max_ge [of "max m0 (f w)" f vs] by auto
qed simp

lemma foldl_max_pow2:
  "is_pow2 m0 \<Longrightarrow> (\<And>v. v \<in> set vs \<Longrightarrow> is_pow2 (f v)) \<Longrightarrow> is_pow2 (foldl (\<lambda>m v. max m (f v)) m0 vs)"
  by (induction vs arbitrary: m0) auto

lemma foldl_max_cong:
  "(\<And>v. v \<in> set vs \<Longrightarrow> f v = g v) \<Longrightarrow>
   foldl (\<lambda>m v. max m (f v)) (m0 :: int) vs = foldl (\<lambda>m v. max m (g v)) m0 vs"
  by (induction vs arbitrary: m0) auto

lemma packed_offsets_cong:
  "(\<And>v. v \<in> set fs \<Longrightarrow> s (snd v) = s' (snd v)) \<Longrightarrow> packed_offsets s c fs = packed_offsets s' c fs"
proof (induction fs arbitrary: c)
  case (Cons v fs)
  obtain f t where v: "v = (f, t)" by (cases v)
  from Cons.prems [of v] have "s t = s' t" by (simp add: v)
  with Cons show ?case by (simp add: v)
qed simp

lemma aligned_offsets_cong:
  "(\<And>v. v \<in> set fs \<Longrightarrow> s (snd v) = s' (snd v) \<and> a (snd v) = a' (snd v)) \<Longrightarrow>
   aligned_offsets s a lo hi c fs = aligned_offsets s' a' lo hi c fs"
proof (induction fs arbitrary: c)
  case (Cons v fs)
  obtain f t where v: "v = (f, t)" by (cases v)
  from Cons.prems [of v] have "s t = s' t \<and> a t = a' t" by (simp add: v)
  with Cons show ?case by (simp add: v Let_def)
qed simp

lemma type_set_offsets_cong:
  "(\<And>v. v \<in> set fs \<Longrightarrow> s (snd v) = s' (snd v) \<and> a (snd v) = a' (snd v)) \<Longrightarrow>
   type_set_offsets_of s a fs p r lo hi = type_set_offsets_of s' a' fs p r lo hi"
  using packed_offsets_cong [of fs s s' 0] aligned_offsets_cong [of fs s s' a a' _ hi 0]
  by (simp add: type_set_offsets_of_def Let_def)

lemma length_packed_offsets [simp]: "length (packed_offsets s c fs) = length fs"
  by (induction fs arbitrary: c) auto

lemma length_aligned_offsets [simp]: "length (aligned_offsets s a lo hi c fs) = length fs"
  by (induction fs arbitrary: c) (auto simp: Let_def)

lemma length_type_set_offsets [simp]: "length (type_set_offsets_of s a fs p r lo hi) = length fs"
  by (simp add: type_set_offsets_of_def Let_def)

subsection \<open>Base types\<close>

lemma base_type_fuel_not_named: "base_type_fuel E n t \<noteq> Type_Named e"
  by (induction E n t rule: base_type_fuel.induct) (auto simp: t_invalid_def split: nat.splits)

lemma base_type_not_named [simp]: "base_type E t \<noteq> Type_Named e"
  by (simp add: base_type_def base_type_fuel_not_named)

lemma base_type_other: "(\<And>e. t \<noteq> Type_Named e) \<Longrightarrow> base_type E t = t"
proof -
  assume "\<And>e. t \<noteq> Type_Named e"
  then show ?thesis by (cases t) (auto simp: base_type_def)
qed

lemma base_type_idem [simp]: "base_type E (base_type E t) = base_type E t"
  by (rule base_type_other) simp

lemma base_type_simps [simp]:
  "base_type E Null = Null" "base_type E (Type_Basic k) = Type_Basic k" "base_type E (Type_Generic g) = Type_Generic g"
  "base_type E (Type_Pointer a) = Type_Pointer a" "base_type E (Type_MultiPointer a) = Type_MultiPointer a"
  "base_type E (Type_Array a c) = Type_Array a c" "base_type E (Type_EnumeratedArray a b c) = Type_EnumeratedArray a b c"
  "base_type E (Type_Slice a) = Type_Slice a" "base_type E (Type_DynamicArray a) = Type_DynamicArray a"
  "base_type E (Type_FixedCapacityDynamicArray a c) = Type_FixedCapacityDynamicArray a c"
  "base_type E (Type_Map a b) = Type_Map a b" "base_type E (Type_Struct i s fs) = Type_Struct i s fs"
  "base_type E (Type_Union j vs) = Type_Union j vs" "base_type E (Type_Enum x b) = Type_Enum x b"
  "base_type E (Type_Tuple p fs) = Type_Tuple p fs" "base_type E (Type_Proc y a b) = Type_Proc y a b"
  "base_type E (Type_BitSet a b l u) = Type_BitSet a b l u" "base_type E (Type_SimdVector a c) = Type_SimdVector a c"
  "base_type E (Type_Matrix a r c m) = Type_Matrix a r c m" "base_type E (Type_BitField a bs) = Type_BitField a bs"
  "base_type E (Type_SoaPointer a) = Type_SoaPointer a"
  by (simp_all add: base_type_other)

subsection \<open>Well-formed types\<close>

text \<open>
  What the checker makes sure of: a type of depth \<open>d\<close>, without cycles by value, whose counts are not
  negative, whose explicit alignments are powers of two, whose fields are variables, and whose
  vectors and matrices have basic elements within the limits of the language.
\<close>

definition align_opt :: "int \<Rightarrow> bool" where
  "align_opt x \<longleftrightarrow> x = 0 \<or> is_pow2 x"

definition basic_elem :: "type_env \<Rightarrow> otype \<Rightarrow> bool" where
  "basic_elem E t = (case base_type E t of Type_Basic k \<Rightarrow> True | _ \<Rightarrow> False)"

fun wf_type :: "type_env \<Rightarrow> nat \<Rightarrow> otype \<Rightarrow> bool" where
  "wf_type E 0 t = False"
| "wf_type E (Suc d) t =
     (case t of
        Type_Named e \<Rightarrow> wf_type E d (base_of E e) \<and> base_type E t = base_type E (base_of E e)
      | Type_Basic k \<Rightarrow> basic_flags k AND BasicFlag_Untyped = 0 \<and> k \<noteq> Fixed Basic_Invalid
      | Type_Pointer a \<Rightarrow> True | Type_MultiPointer a \<Rightarrow> True | Type_SoaPointer a \<Rightarrow> True | Type_Slice a \<Rightarrow> True
      | Type_DynamicArray a \<Rightarrow> True | Type_Map k v \<Rightarrow> True | Type_Proc i p r \<Rightarrow> True
      | Type_Array a c \<Rightarrow> 0 \<le> c \<and> wf_type E d a
      | Type_EnumeratedArray a i c \<Rightarrow> 0 \<le> c \<and> wf_type E d a
      | Type_FixedCapacityDynamicArray a c \<Rightarrow> 0 \<le> c \<and> wf_type E d a
      | Type_Struct i s fs \<Rightarrow>
          align_opt (custom_align i) \<and> align_opt (custom_min_field_align i) \<and> align_opt (custom_max_field_align i) \<and>
          list_all (\<lambda>(f, ft). kind f = Entity_Variable \<and> wf_type E d ft) fs
      | Type_Union i vs \<Rightarrow> align_opt (union_custom_align i) \<and> length vs < 2 ^ 32 \<and> list_all (wf_type E d) vs
      | Type_Enum i b \<Rightarrow> wf_type E d b
      | Type_Tuple p vs \<Rightarrow> list_all (\<lambda>(f, ft). kind f = Entity_Variable \<and> wf_type E d ft) vs
      | Type_BitSet a u l h \<Rightarrow> u = Null \<or> wf_type E d u
      | Type_SimdVector a c \<Rightarrow> basic_elem E a \<and> wf_type E d a \<and> is_pow2 c \<and> c \<le> 64
      | Type_Matrix a r c m \<Rightarrow> basic_elem E a \<and> wf_type E d a \<and> 0 \<le> r \<and> 0 \<le> c \<and> max r 1 * max c 1 \<le> 64
      | Type_BitField b fs \<Rightarrow> wf_type E d b
      | _ \<Rightarrow> False)"

definition target_ok :: "build_context \<Rightarrow> bool" where
  "target_ok C \<longleftrightarrow>
     (ptr_size C = 4 \<or> ptr_size C = 8) \<and> (int_size C = ptr_size C \<or> int_size C = 2 * ptr_size C) \<and>
     is_pow2 (max_align C) \<and> 4 \<le> max_align C \<and> is_pow2 (max_simd_align C)"

lemma wf_list_mono:
  "list_all P fs \<Longrightarrow> (\<And>t. Q t \<Longrightarrow> R t) \<Longrightarrow> list_all (\<lambda>(f, ft). kind f = Entity_Variable \<and> Q ft) fs \<Longrightarrow>
   list_all (\<lambda>(f, ft). kind f = Entity_Variable \<and> R ft) fs"
  by (auto simp: list_all_iff)

lemma wf_type_Suc: "wf_type E d t \<Longrightarrow> wf_type E (Suc d) t"
proof (induction d arbitrary: t)
  case (Suc d)
  have vs: "list_all (wf_type E d) vs \<Longrightarrow> list_all (wf_type E (Suc d)) vs" for vs
    using Suc(1) by (auto simp: list_all_iff simp del: wf_type.simps)
  have fs: "list_all (\<lambda>(f, ft). kind f = Entity_Variable \<and> wf_type E d ft) fs \<Longrightarrow>
     list_all (\<lambda>(f, ft). kind f = Entity_Variable \<and> wf_type E (Suc d) ft) fs" for fs
    using Suc(1) by (auto simp: list_all_iff simp del: wf_type.simps)
  show ?case
    using Suc(2) unfolding wf_type.simps(2) [of E "Suc d"] wf_type.simps(2) [of E d t]
    by (cases t) (auto simp: Suc(1) vs fs simp del: wf_type.simps)
qed simp

lemma wf_type_mono: "wf_type E d t \<Longrightarrow> d \<le> d' \<Longrightarrow> wf_type E d' t"
  by (rule lift_Suc_mono_le [of "\<lambda>d. wf_type E d t", unfolded le_bool_def, rule_format]) (use wf_type_Suc in auto)

lemma wf_base_type: "wf_type E d t \<Longrightarrow> wf_type E d (base_type E t)"
proof (induction d arbitrary: t)
  case (Suc d)
  show ?case
  proof (cases t)
    case (Type_Named e)
    with Suc have "wf_type E d (base_type E (base_of E e))" "base_type E t = base_type E (base_of E e)" by simp_all
    then show ?thesis by (simp add: wf_type_Suc del: wf_type.simps)
  qed (use Suc(2) in simp_all)
qed simp

lemma wf_struct_fields:
  "wf_type E (Suc d) (Type_Struct i s fs) \<Longrightarrow> v \<in> set fs \<Longrightarrow> kind (fst v) = Entity_Variable \<and> wf_type E d (snd v)"
  by (auto simp: list_all_iff)

lemma wf_tuple_variables:
  "wf_type E (Suc d) (Type_Tuple p fs) \<Longrightarrow> v \<in> set fs \<Longrightarrow> kind (fst v) = Entity_Variable \<and> wf_type E d (snd v)"
  by (auto simp: list_all_iff)

lemma wf_union_variants: "wf_type E (Suc d) (Type_Union i vs) \<Longrightarrow> v \<in> set vs \<Longrightarrow> wf_type E d v"
  by (auto simp: list_all_iff)

subsection \<open>The depth bound\<close>

text \<open>The layout of each kind of type in terms of its components, one level down.\<close>

lemma size_eqs:
  "type_size_of_internal C E (Suc n) (Type_Named e) = type_size_of_internal C E n (base_of E e)"
  "type_size_of_internal C E (Suc n) (Type_Basic k) = basic_size_of C k"
  "type_size_of_internal C E (Suc n) (Type_Pointer a) = ptr_size C"
  "type_size_of_internal C E (Suc n) (Type_MultiPointer a) = ptr_size C"
  "type_size_of_internal C E (Suc n) (Type_SoaPointer a) = int_size C * 2"
  "type_size_of_internal C E (Suc n) (Type_Slice a) = 2 * int_size C"
  "type_size_of_internal C E (Suc n) (Type_DynamicArray a) = 3 * int_size C + 2 * ptr_size C"
  "type_size_of_internal C E (Suc n) (Type_Map a v) = 4 * ptr_size C"
  "type_size_of_internal C E (Suc n) (Type_Proc i a v) = ptr_size C"
  "type_size_of_internal C E (Suc n) (Type_Enum x a) = type_size_of_internal C E n a"
  "type_size_of_internal C E (Suc n) (Type_BitField a bs) = type_size_of_internal C E n a"
  "type_size_of_internal C E (Suc n) (Type_SimdVector a c) = c * type_size_of_internal C E n a"
  "type_size_of_internal C E (Suc n) (Type_BitSet a u l h) =
     (if u \<noteq> Null then type_size_from C (type_size_of_internal C E n) u else bit_set_bytes (h - l + 1))"
  "type_size_of_internal C E (Suc n) (Type_Matrix a r c m) =
     matrix_stride_from (type_size_of_internal C E n a) r c m * (if m then r else c)"
  by (simp_all add: type_size_of_internal.simps(2) Let_def)

lemma size_array:
  "type_size_of_internal C E (Suc n) (Type_Array a c) =
     (if c = 0 then 0
      else align_formula (type_size_of_internal C E n a) (type_align_of_internal C E n a) * (c - 1) +
           type_size_of_internal C E n a)"
  "type_size_of_internal C E (Suc n) (Type_EnumeratedArray a j c) =
     type_size_of_internal C E (Suc n) (Type_Array a c)"
  "type_size_of_internal C E (Suc n) (Type_FixedCapacityDynamicArray a c) =
     align_formula
       (align_formula (type_size_from C (type_size_of_internal C E n) a * c) (int_size C) + int_size C)
       (max (int_size C) (type_align_of_internal C E n a))"
  by (simp_all add: type_size_of_internal.simps(2) Let_def)

lemma size_struct:
  "type_size_of_internal C E (Suc n) (Type_Struct i s fs) =
     (if is_raw_union i
      then align_formula (foldl (\<lambda>m v. max m (type_size_of_internal C E n (snd v))) 0 fs)
             (type_align_of_internal C E n (Type_Struct i s fs))
      else if fs = [] then 0
      else align_formula
             (last (struct_offsets (type_size_of_internal C E n) (type_align_of_internal C E n) i fs) +
              type_size_of_internal C E n (snd (last fs)))
             (type_align_of_internal C E n (Type_Struct i s fs)))"
  by (simp add: type_size_of_internal.simps(2) Let_def)

lemma size_tuple:
  "type_size_of_internal C E (Suc n) (Type_Tuple p fs) =
     (if fs = [] then 0
      else align_formula
             (last (tuple_offsets (type_size_of_internal C E n) (type_align_of_internal C E n) p fs) +
              type_size_of_internal C E n (snd (last fs)))
             (type_align_of_internal C E n (Type_Tuple p fs)))"
  by (simp add: type_size_of_internal.simps(2) Let_def)

text \<open>The end of the tag of a union, or of its payload when it has no tag.\<close>

definition union_payload :: "(otype \<Rightarrow> int) \<Rightarrow> otype list \<Rightarrow> int" where
  "union_payload sizef vs = foldl (\<lambda>m v. max m (sizef v)) 0 vs"

lemma size_union:
  "type_size_of_internal C E (Suc n) (Type_Union i vs) =
     (if vs = [] then 0
      else
        let mx = union_payload (type_size_of_internal C E n) vs;
            tag_size = union_tag_size_from C (type_align_of_internal C E n) i vs
        in align_formula
             (if is_type_union_maybe_pointer E (Type_Union i vs) then mx else align_formula mx tag_size + tag_size)
             (type_align_of_internal C E n (Type_Union i vs)))"
  by (simp add: type_size_of_internal.simps(2) Let_def union_payload_def)

abbreviation (input) natural_align :: "build_context \<Rightarrow> int \<Rightarrow> int" where
  "natural_align C sz \<equiv> gb_clamp (next_pow2 sz) 1 (max_align C)"

lemma align_eqs:
  "type_align_of_internal C E (Suc n) (Type_Pointer a) = natural_align C (type_size_of_internal C E n (Type_Pointer a))"
  "type_align_of_internal C E (Suc n) (Type_MultiPointer a) =
     natural_align C (type_size_of_internal C E n (Type_MultiPointer a))"
  "type_align_of_internal C E (Suc n) (Type_Proc i a v) = natural_align C (type_size_of_internal C E n (Type_Proc i a v))"
  "type_align_of_internal C E (Suc n) (Type_SoaPointer a) = int_size C"
  "type_align_of_internal C E (Suc n) (Type_Slice a) = int_size C"
  "type_align_of_internal C E (Suc n) (Type_DynamicArray a) = int_size C"
  "type_align_of_internal C E (Suc n) (Type_Map a v) = ptr_size C"
  "type_align_of_internal C E (Suc n) (Type_Enum x a) = type_align_of_internal C E n a"
  "type_align_of_internal C E (Suc n) (Type_BitField a bs) = type_align_of_internal C E n a"
  "type_align_of_internal C E (Suc n) (Type_Array a c) = type_align_of_internal C E n a"
  "type_align_of_internal C E (Suc n) (Type_EnumeratedArray a j c) = type_align_of_internal C E n a"
  "type_align_of_internal C E (Suc n) (Type_FixedCapacityDynamicArray a c) =
     max (int_size C) (type_align_of_internal C E n a)"
  "type_align_of_internal C E (Suc n) (Type_SimdVector a c) =
     gb_clamp (next_pow2 (type_size_of_internal C E n (Type_SimdVector a c))) 1 (max_simd_align C * 2)"
  "type_align_of_internal C E (Suc n) (Type_BitSet a u l h) =
     (if u \<noteq> Null then type_align_from (type_align_of_internal C E n) u else bit_set_bytes (h - l + 1))"
  "type_align_of_internal C E (Suc n) (Type_Matrix a r c m) =
     matrix_align_from C (type_size_of_internal C E n) (type_align_of_internal C E n) a r c"
  by (simp_all add: type_align_of_internal.simps(2) Let_def)

text \<open>The alignment of a basic type, given its size.\<close>

definition basic_align :: "build_context \<Rightarrow> basic_kind \<Rightarrow> int \<Rightarrow> int" where
  "basic_align C k sz =
     (case k of
        Target Basic_string \<Rightarrow> int_size C | Target Basic_cstring \<Rightarrow> ptr_size C
      | Target Basic_string16 \<Rightarrow> int_size C | Target Basic_cstring16 \<Rightarrow> ptr_size C
      | Target Basic_any \<Rightarrow> 8 | Target Basic_typeid \<Rightarrow> 8
      | Target Basic_int \<Rightarrow> int_size C | Target Basic_uint \<Rightarrow> int_size C
      | Target Basic_uintptr \<Rightarrow> ptr_size C | Target Basic_rawptr \<Rightarrow> ptr_size C
      | Fixed b \<Rightarrow>
          if b \<in> {Basic_complex32, Basic_complex64, Basic_complex128} then sz div 2
          else if b \<in> {Basic_quaternion64, Basic_quaternion128, Basic_quaternion256} then sz div 4
          else natural_align C sz
      | _ \<Rightarrow> natural_align C sz)"

lemma align_basic:
  "type_align_of_internal C E (Suc n) (Type_Basic k) = basic_align C k (type_size_of_internal C E n (Type_Basic k))"
  unfolding basic_align_def by (cases k) (simp_all add: type_align_of_internal.simps(2) Let_def split: target_kind.split)

lemma align_struct:
  "type_align_of_internal C E (Suc n) (Type_Struct i s fs) =
     (if custom_align i > 0 then max (custom_align i) 1
      else if is_packed i then 1
      else
        let m = foldl (\<lambda>m v. max m (type_align_of_internal C E n (snd v))) 1 fs;
            m = (if custom_min_field_align i > 0 then max m (custom_min_field_align i) else m)
        in if custom_max_field_align i \<noteq> 0 \<and> custom_max_field_align i > custom_min_field_align i
           then min m (custom_max_field_align i) else m)"
  by (simp add: type_align_of_internal.simps(2) Let_def)

lemma align_union:
  "type_align_of_internal C E (Suc n) (Type_Union i vs) =
     (if vs = [] then 1
      else if union_custom_align i > 0 then max (union_custom_align i) 1
      else foldl (\<lambda>m v. max m (type_align_of_internal C E n v)) 1 vs)"
  by (simp add: type_align_of_internal.simps(2) Let_def)

lemma align_tuple:
  "type_align_of_internal C E (Suc n) (Type_Tuple p fs) = foldl (\<lambda>m v. max m (type_align_of_internal C E n (snd v))) 1 fs"
  by (simp add: type_align_of_internal.simps(2) Let_def)

lemma align_base_type: "type_align_of_internal C E n (base_type E t) = type_align_of_internal C E n t"
  by (cases n) (simp_all add: type_align_of_internal.simps(2))

lemmas size_simps = size_eqs size_array size_struct size_tuple size_union
lemmas align_simps = align_eqs align_basic align_struct align_union align_tuple

lemma type_size_from_cong: "s t = s' t \<Longrightarrow> type_size_from C s t = type_size_from C s' t"
  by (cases t) (simp_all add: type_size_from_def)

lemma type_align_from_cong: "a t = a' t \<Longrightarrow> type_align_from a t = type_align_from a' t"
  by (simp add: type_align_from_def)

lemma union_tag_size_from_cong:
  "(\<And>v. v \<in> set vs \<Longrightarrow> a v = a' v) \<Longrightarrow> union_tag_size_from C a i vs = union_tag_size_from C a' i vs"
  using foldl_max_cong [of vs "type_align_from a" "type_align_from a'"]
  by (simp add: union_tag_size_from_def Let_def type_align_from_def)

lemma matrix_align_from_cong:
  "s t = s' t \<Longrightarrow> a t = a' t \<Longrightarrow> matrix_align_from C s a t r c = matrix_align_from C s' a' t r c"
  by (simp add: matrix_align_from_def type_size_from_cong [of s t s'])

lemmas layout_congs = type_size_from_cong type_align_from_cong union_tag_size_from_cong matrix_align_from_cong
  foldl_max_cong type_set_offsets_cong

text \<open>One level: the layout at \<open>t\<close> is the same at two depths when it is the same at its components.\<close>

definition same_layout :: "build_context \<Rightarrow> type_env \<Rightarrow> nat \<Rightarrow> nat \<Rightarrow> otype \<Rightarrow> bool" where
  "same_layout C E n m t \<longleftrightarrow>
     type_size_of_internal C E n t = type_size_of_internal C E m t \<and>
     type_align_of_internal C E n t = type_align_of_internal C E m t"

lemma align_step:
  assumes wf: "wf_type E (Suc d) t" and t: "\<And>e. t \<noteq> Type_Named e"
    and IH: "\<And>u. wf_type E d u \<Longrightarrow> same_layout C E n m u"
    and IH': "\<And>u. wf_type E d u \<Longrightarrow> same_layout C E (Suc n) (Suc m) u"
  shows "type_align_of_internal C E (Suc (Suc n)) t = type_align_of_internal C E (Suc (Suc m)) t"
proof (cases t)
  case (Type_Struct i s fs)
  then have *: "type_align_of_internal C E (Suc n) (snd v) = type_align_of_internal C E (Suc m) (snd v)"
    if "v \<in> set fs" for v
    using IH' [of "snd v"] wf_struct_fields [of E d i s fs v] wf that by (simp add: same_layout_def del: wf_type.simps)
  show ?thesis by (simp add: Type_Struct align_struct foldl_max_cong [OF *])
next
  case (Type_Tuple p fs)
  then have *: "type_align_of_internal C E (Suc n) (snd v) = type_align_of_internal C E (Suc m) (snd v)"
    if "v \<in> set fs" for v
    using IH' [of "snd v"] wf_tuple_variables [of E d p fs v] wf that by (simp add: same_layout_def del: wf_type.simps)
  show ?thesis by (simp add: Type_Tuple align_tuple foldl_max_cong [OF *])
next
  case (Type_Union i vs)
  then have *: "type_align_of_internal C E (Suc n) v = type_align_of_internal C E (Suc m) v" if "v \<in> set vs" for v
    using IH' [of v] wf_union_variants [of E d i vs v] wf that by (simp add: same_layout_def del: wf_type.simps)
  show ?thesis by (simp add: Type_Union align_union foldl_max_cong [OF *])
next
  case (Type_BitSet a u l h)
  with wf IH' [of u] show ?thesis
    by (auto simp: align_eqs same_layout_def type_align_from_def)
next
  case (Type_Matrix a r c p)
  with wf IH' [of a] show ?thesis
    by (auto simp: align_eqs same_layout_def intro: matrix_align_from_cong)
qed (use wf IH IH' t in \<open>auto simp: size_eqs align_eqs align_basic same_layout_def\<close>)

lemma size_step:
  assumes wf: "wf_type E (Suc d) t" and t: "\<And>e. t \<noteq> Type_Named e"
    and IH: "\<And>u. wf_type E d u \<Longrightarrow> same_layout C E n m u"
    and al: "type_align_of_internal C E n t = type_align_of_internal C E m t"
  shows "type_size_of_internal C E (Suc n) t = type_size_of_internal C E (Suc m) t"
proof (cases t)
  case (Type_Struct i s fs)
  then have *: "type_size_of_internal C E n (snd v) = type_size_of_internal C E m (snd v) \<and>
      type_align_of_internal C E n (snd v) = type_align_of_internal C E m (snd v)" if "v \<in> set fs" for v
    using IH [of "snd v"] wf_struct_fields [of E d i s fs v] wf that by (simp add: same_layout_def del: wf_type.simps)
  have max: "foldl (\<lambda>m v. max m (type_size_of_internal C E n (snd v))) 0 fs =
      foldl (\<lambda>k v. max k (type_size_of_internal C E m (snd v))) 0 fs"
    by (rule foldl_max_cong) (simp add: *)
  have offs: "struct_offsets (type_size_of_internal C E n) (type_align_of_internal C E n) i fs =
      struct_offsets (type_size_of_internal C E m) (type_align_of_internal C E m) i fs"
    unfolding struct_offsets_def by (rule type_set_offsets_cong) (rule *)
  have "fs \<noteq> [] \<Longrightarrow> type_size_of_internal C E n (snd (last fs)) = type_size_of_internal C E m (snd (last fs))"
    by (simp add: *)
  then show ?thesis using al by (auto simp: Type_Struct size_struct max offs)
next
  case (Type_Tuple p fs)
  then have *: "type_size_of_internal C E n (snd v) = type_size_of_internal C E m (snd v) \<and>
      type_align_of_internal C E n (snd v) = type_align_of_internal C E m (snd v)" if "v \<in> set fs" for v
    using IH [of "snd v"] wf_tuple_variables [of E d p fs v] wf that by (simp add: same_layout_def del: wf_type.simps)
  have offs: "tuple_offsets (type_size_of_internal C E n) (type_align_of_internal C E n) p fs =
      tuple_offsets (type_size_of_internal C E m) (type_align_of_internal C E m) p fs"
    unfolding tuple_offsets_def by (rule type_set_offsets_cong) (rule *)
  have "fs \<noteq> [] \<Longrightarrow> type_size_of_internal C E n (snd (last fs)) = type_size_of_internal C E m (snd (last fs))"
    by (simp add: *)
  then show ?thesis using al by (auto simp: Type_Tuple size_tuple offs)
next
  case (Type_Union i vs)
  then have *: "type_size_of_internal C E n v = type_size_of_internal C E m v \<and>
      type_align_of_internal C E n v = type_align_of_internal C E m v" if "v \<in> set vs" for v
    using IH [of v] wf_union_variants [of E d i vs v] wf that by (simp add: same_layout_def del: wf_type.simps)
  have max: "union_payload (type_size_of_internal C E n) vs = union_payload (type_size_of_internal C E m) vs"
    unfolding union_payload_def by (rule foldl_max_cong) (simp add: *)
  have tag: "union_tag_size_from C (type_align_of_internal C E n) i vs =
      union_tag_size_from C (type_align_of_internal C E m) i vs"
    by (rule union_tag_size_from_cong) (simp add: *)
  show ?thesis using al by (simp add: Type_Union size_union max tag)
next
  case (Type_FixedCapacityDynamicArray a c)
  with wf IH [of a] show ?thesis
    by (simp add: size_array same_layout_def type_size_from_cong [of "type_size_of_internal C E n" a "type_size_of_internal C E m"])
next
  case (Type_BitSet a u l h)
  with wf IH [of u] show ?thesis
    by (auto simp: size_eqs same_layout_def intro: type_size_from_cong)
qed (use wf IH t in \<open>auto simp: size_eqs size_array same_layout_def\<close>)

lemma layout_stable:
  assumes "wf_type E d t" and "3 * d \<le> n" and "3 * d \<le> m"
  shows "same_layout C E n m t"
  using assms
proof (induction d arbitrary: t n m)
  case (Suc d)
  define n' m' where "n' = n - 3" and "m' = m - 3"
  then have nm: "n = Suc (Suc (Suc n'))" "m = Suc (Suc (Suc m'))" "3 * d \<le> n'" "3 * d \<le> m'"
    using Suc.prems(2,3) by simp_all
  have IH: "same_layout C E (n' + k) (m' + l) u" if "wf_type E d u" for u k l
    by (rule Suc.IH [OF that]) (use nm in auto)
  note IHs = IH [of _ 0 0, simplified] IH [of _ 1 1, simplified] IH [of _ 2 2, simplified]
  show ?case
  proof (cases "\<exists>e. t = Type_Named e")
    case False
    then have t: "\<And>e. t \<noteq> Type_Named e" by blast
    have A: "type_align_of_internal C E (Suc (Suc n')) t = type_align_of_internal C E (Suc (Suc m')) t"
      by (rule align_step [OF Suc.prems(1) t IHs(1,2)])
    have B: "type_align_of_internal C E n t = type_align_of_internal C E m t"
      unfolding nm by (rule align_step [OF Suc.prems(1) t]) (use IHs in \<open>simp_all add: numeral_2_eq_2\<close>)
    have "type_size_of_internal C E n t = type_size_of_internal C E m t"
      unfolding nm by (rule size_step [OF Suc.prems(1) t _ A]) (use IHs in \<open>simp add: numeral_2_eq_2\<close>)
    with B show ?thesis by (simp add: same_layout_def)
  next
    case True
    then obtain e where t: "t = Type_Named e" by blast
    with Suc.prems(1) have wf: "wf_type E d (base_of E e)" and b: "base_type E t = base_type E (base_of E e)" by simp_all
    have "type_align_of_internal C E n t = type_align_of_internal C E n (base_of E e)" for n
      by (metis align_base_type b)
    then show ?thesis
      using IH [OF wf, of 3 3] IH [OF wf, of 2 2] by (simp add: same_layout_def nm t size_eqs numeral_3_eq_3 numeral_2_eq_2)
  qed
qed simp

end
