(* ===== verification/Layout_Laws.thy ===== *)
theory Layout_Laws
  imports Type_Sizes
begin

text \<open>
  \<open>layout_ok_wf\<close>: on every supported target the alignment of a well-formed type is a power of two that
  divides its size. On the way: the table of basic types, the offsets of fields (\<open>laid_out\<close>), the
  tag of a union, arrays and matrices.
\<close>

subsection \<open>Alignments are powers of two that divide the size\<close>

lemma target_pow2:
  assumes "target_ok C"
  shows "is_pow2 (ptr_size C)" "is_pow2 (int_size C)" "is_pow2 (max_align C)" "is_pow2 (max_simd_align C)"
    "ptr_size C dvd int_size C" "ptr_size C \<le> 8" "int_size C \<le> 16" "4 \<le> max_align C"
  using assms by (auto simp: target_ok_def)

lemma gb_clamp_pow2:
  assumes "is_pow2 sz" and "sz < 2 ^ 64" and "is_pow2 u"
  shows "gb_clamp (next_pow2 sz) 1 u = min sz u"
  using assms pow2_pos [of sz] by (simp add: gb_clamp_def next_pow2_of_pow2 max_def)

lemma min_pow2_dvd: "is_pow2 a \<Longrightarrow> is_pow2 b \<Longrightarrow> min a b dvd a"
  by (simp add: min_def pow2_dvd)

lemma basic_size_ok:
  assumes "target_ok C"
  shows "is_pow2 (basic_size_of C k) \<and> basic_size_of C k \<le> 32"
proof (cases k)
  case (Fixed b)
  then show ?thesis using target_pow2 [OF assms] by (cases b) (simp_all add: basic_size_of_def basic_size_def fixed_size_def)
next
  case (Target b)
  then show ?thesis using target_pow2 [OF assms] by (cases b) (simp_all add: basic_size_of_def basic_size_def target_size_def)
next
  case (Endian b)
  then show ?thesis by (cases b) (simp_all add: basic_size_of_def basic_size_def endian_size_def)
next
  case (Untyped b)
  then show ?thesis using target_pow2 [OF assms] by (simp add: basic_size_of_def basic_size_def)
qed

lemma basic_align_ok:
  assumes C: "target_ok C"
  shows "is_pow2 (basic_align C k (basic_size_of C k)) \<and> basic_align C k (basic_size_of C k) dvd basic_size_of C k"
proof -
  note p = target_pow2 [OF C] and s = basic_size_ok [OF C, of k]
  have nat: "is_pow2 (natural_align C (basic_size_of C k)) \<and> natural_align C (basic_size_of C k) dvd basic_size_of C k"
    using s p(3) by (simp add: gb_clamp_pow2 min_pow2_dvd)
  show ?thesis
  proof (cases k)
    case (Fixed b)
    with nat show ?thesis
      by (cases b) (simp_all add: basic_align_def basic_size_of_def basic_size_def fixed_size_def)
  next
    case (Target b)
    with nat p show ?thesis
      by (cases b) (simp_all add: basic_align_def basic_size_of_def basic_size_def target_size_def)
  qed (use nat in \<open>simp_all add: basic_align_def\<close>)
qed

lemma bit_set_bytes_pow2: "is_pow2 (bit_set_bytes b)"
  by (simp add: bit_set_bytes_def)

lemma align_formula_mult: "is_pow2 al \<Longrightarrow> 0 \<le> sz \<Longrightarrow> 0 \<le> align_formula sz al \<and> al dvd align_formula sz al"
  using align_formula_nonneg [of al sz] pow2_pos [of al] align_formula_dvd by simp

definition layout_ok :: "build_context \<Rightarrow> type_env \<Rightarrow> nat \<Rightarrow> otype \<Rightarrow> bool" where
  "layout_ok C E n t \<longleftrightarrow>
     is_pow2 (type_align_of_internal C E n t) \<and> 0 \<le> type_size_of_internal C E n t \<and>
     type_align_of_internal C E n t dvd type_size_of_internal C E n t"

lemma layout_okD:
  "layout_ok C E n t \<Longrightarrow> is_pow2 (type_align_of_internal C E n t)"
  "layout_ok C E n t \<Longrightarrow> 0 \<le> type_size_of_internal C E n t"
  "layout_ok C E n t \<Longrightarrow> type_align_of_internal C E n t dvd type_size_of_internal C E n t"
  by (simp_all add: layout_ok_def)

lemma basic_layout_ok: "target_ok C \<Longrightarrow> layout_ok C E (Suc (Suc n)) (Type_Basic k)"
  using basic_size_ok [of C k] basic_align_ok [of C k] pow2_pos [of "basic_size_of C k"]
  by (simp add: layout_ok_def size_simps align_simps)

text \<open>A type whose own size is the base size of a vector or matrix element.\<close>

lemma basic_elem_size:
  assumes "target_ok C" and "basic_elem E a" and "wf_type E d a" and "3 * d \<le> n"
  shows "is_pow2 (type_size_of_internal C E n a) \<and> type_size_of_internal C E n a \<le> 32"
  using assms(2-)
proof (induction d arbitrary: a n)
  case (Suc d)
  show ?case
  proof (cases a)
    case (Type_Named e)
    with Suc.prems have "wf_type E d (base_of E e)" "basic_elem E (base_of E e)" by (simp_all add: basic_elem_def)
    moreover obtain k where "n = Suc k" "3 * d \<le> k" using Suc.prems(3) by (cases n) auto
    ultimately show ?thesis using Suc.IH [of "base_of E e" k] by (simp add: Type_Named size_simps)
  next
    case (Type_Basic k)
    moreover obtain m where "n = Suc m" using Suc.prems(3) by (cases n) auto
    ultimately show ?thesis using basic_size_ok [OF assms(1), of k] by (simp add: size_simps)
  qed (use Suc.prems in \<open>simp_all add: basic_elem_def\<close>)
qed simp

text \<open>For well-formed types the two entry points agree with the walk.\<close>

lemma type_size_from_eq:
  assumes "wf_type E d t" and "3 * d \<le> n"
  shows "type_size_from C (type_size_of_internal C E n) t = type_size_of_internal C E n t"
proof -
  obtain d' where "d = Suc d'" using assms(1) by (cases d) auto
  with assms(2) obtain m where n: "n = Suc m" by (cases n) auto
  show ?thesis
  proof (cases t)
    case (Type_Basic k)
    show ?thesis
    proof (cases k)
      case (Fixed b)
      with Type_Basic assms(1) show ?thesis unfolding n
        by (cases b) (simp_all add: type_size_from_def size_simps basic_size_of_def basic_size_def fixed_size_def
            \<open>d = Suc d'\<close>)
    next
      case (Target b)
      with Type_Basic show ?thesis unfolding n
        by (cases b) (simp_all add: type_size_from_def size_simps basic_size_of_def basic_size_def target_size_def)
    next
      case (Endian b)
      with Type_Basic show ?thesis unfolding n
        by (cases b) (simp_all add: type_size_from_def size_simps basic_size_of_def basic_size_def endian_size_def)
    next
      case (Untyped b)
      with Type_Basic assms(1) show ?thesis
        by (cases b) (simp_all add: basic_table_defs basic_flag_defs \<open>d = Suc d'\<close>)
    qed
  qed (use assms(1) in \<open>simp_all add: type_size_from_def n size_simps \<open>d = Suc d'\<close>\<close>)
qed

lemma type_align_from_eq: "wf_type E d t \<Longrightarrow> type_align_from a t = a t"
  by (cases d) (auto simp: type_align_from_def)

lemma foldl_max_nonneg: "0 \<le> foldl (\<lambda>m v. max m (f v)) (0::int) vs"
  by (rule foldl_max_ge)

text \<open>Fields one behind the other: each starts at or behind the end of the one before it.\<close>

fun laid_out :: "(otype \<Rightarrow> int) \<Rightarrow> int \<Rightarrow> (field \<times> otype) list \<Rightarrow> int list \<Rightarrow> bool" where
  "laid_out sizef c [] os \<longleftrightarrow> os = []"
| "laid_out sizef c (f # fs) os \<longleftrightarrow>
     (case os of [] \<Rightarrow> False | off # os \<Rightarrow> c \<le> off \<and> laid_out sizef (off + sizef (snd f)) fs os)"

lemma laid_out_length: "laid_out s c fs os \<Longrightarrow> length os = length fs"
  by (induction fs arbitrary: c os) (auto split: list.splits)

lemma laid_out_ge:
  "laid_out s c fs os \<Longrightarrow> (\<And>v. v \<in> set fs \<Longrightarrow> 0 \<le> s (snd v)) \<Longrightarrow> i < length fs \<Longrightarrow> c \<le> os ! i"
proof (induction fs arbitrary: c os i)
  case (Cons v fs)
  then obtain off os' where os: "os = off # os'" "c \<le> off" "laid_out s (off + s (snd v)) fs os'"
    by (auto split: list.splits)
  show ?case
  proof (cases i)
    case (Suc k)
    have "off + s (snd v) \<le> os' ! k" using Cons.IH [OF os(3), of k] Cons.prems Suc by simp
    moreover have "0 \<le> s (snd v)" using Cons.prems by simp
    ultimately show ?thesis using os Suc by simp
  qed (use os in simp)
qed simp

lemma laid_out_disjoint:
  "laid_out s c fs os \<Longrightarrow> (\<And>v. v \<in> set fs \<Longrightarrow> 0 \<le> s (snd v)) \<Longrightarrow> i < j \<Longrightarrow> j < length fs \<Longrightarrow>
   os ! i + s (snd (fs ! i)) \<le> os ! j"
proof (induction fs arbitrary: c os i j)
  case (Cons v fs)
  then obtain off os' where os: "os = off # os'" "laid_out s (off + s (snd v)) fs os'"
    by (auto split: list.splits)
  obtain l where j: "j = Suc l" using Cons.prems by (cases j) auto
  show ?case
  proof (cases i)
    case 0
    then show ?thesis using laid_out_ge [OF os(2), of l] Cons.prems os j by simp
  next
    case (Suc k)
    then show ?thesis using Cons.IH [OF os(2), of k l] Cons.prems os j by simp
  qed
qed simp

lemma laid_out_last:
  assumes "laid_out s c fs os" and "\<And>v. v \<in> set fs \<Longrightarrow> 0 \<le> s (snd v)" and "i < length fs"
  shows "os ! i + s (snd (fs ! i)) \<le> last os + s (snd (last fs))"
proof (cases "Suc i = length fs")
  case True
  then show ?thesis using laid_out_length [OF assms(1)]
    by (metis diff_Suc_1 last_conv_nth length_0_conv order_refl nat.distinct(1))
next
  case False
  have fs: "fs \<noteq> []" "os \<noteq> []" using assms(3) laid_out_length [OF assms(1)] by auto
  have "os ! i + s (snd (fs ! i)) \<le> os ! (length fs - 1)"
    by (rule laid_out_disjoint [OF assms(1,2)]) (use False assms(3) in auto)
  also have "\<dots> = last os" using laid_out_length [OF assms(1)] fs by (simp add: last_conv_nth)
  also have "\<dots> \<le> last os + s (snd (last fs))" using assms(2) fs by simp
  finally show ?thesis .
qed

lemma packed_laid_out:
  "(\<And>v. v \<in> set fs \<Longrightarrow> kind (fst v) = Entity_Variable) \<Longrightarrow> laid_out s c fs (packed_offsets s c fs)"
proof (induction fs arbitrary: c)
  case (Cons v fs)
  from Cons.prems [of v] have "kind (fst v) = Entity_Variable" by simp
  with Cons show ?case by (cases v) simp
qed simp

text \<open>The alignment a field is placed with.\<close>

definition field_align :: "int \<Rightarrow> int \<Rightarrow> int \<Rightarrow> int" where
  "field_align lo hi al = (if hi > lo then min (max al lo) hi else max al lo)"

lemma field_align_pow2:
  "is_pow2 al \<Longrightarrow> is_pow2 lo \<Longrightarrow> align_opt hi \<Longrightarrow> is_pow2 (field_align lo hi al)"
  using pow2_pos [of lo] by (auto simp: field_align_def align_opt_def)

lemma aligned_laid_out:
  "(\<And>v. v \<in> set fs \<Longrightarrow> kind (fst v) = Entity_Variable \<and> 0 \<le> s (snd v) \<and> is_pow2 (a (snd v))) \<Longrightarrow>
   is_pow2 lo \<Longrightarrow> align_opt hi \<Longrightarrow> laid_out s c fs (aligned_offsets s a lo hi c fs)"
proof (induction fs arbitrary: c)
  case (Cons v fs)
  obtain f t where v: "v = (f, t)" by (cases v)
  from Cons.prems(1) [of v] have "0 \<le> s t" "kind f = Entity_Variable" "is_pow2 (a t)" by (simp_all add: v)
  then have "1 \<le> field_align lo hi (a t)" using Cons.prems(2,3) by (intro field_align_pow2 pow2_pos)
  then have "c \<le> align_formula c (field_align lo hi (a t))" by (intro align_formula_ge) simp
  then show ?case using Cons \<open>kind f = _\<close> \<open>0 \<le> s t\<close> by (simp add: v Let_def field_align_def)
qed simp

lemma aligned_offsets_dvd:
  "(\<And>v. v \<in> set fs \<Longrightarrow> kind (fst v) = Entity_Variable) \<Longrightarrow> i < length fs \<Longrightarrow>
   field_align lo hi (a (snd (fs ! i))) dvd aligned_offsets s a lo hi c fs ! i"
proof (induction fs arbitrary: c i)
  case (Cons v fs)
  obtain f t where v: "v = (f, t)" by (cases v)
  show ?case
  proof (cases i)
    case 0
    then show ?thesis using Cons.prems(1) [of v] by (auto simp: v Let_def field_align_def align_formula_dvd)
  next
    case (Suc k)
    then show ?thesis using Cons.prems(1) [of v] Cons.IH [of k] Cons.prems by (simp add: v Let_def)
  qed
qed simp

text \<open>Everything about one type whose components are laid out well.\<close>

lemma offsets_laid_out:
  assumes fs: "\<And>v. v \<in> set fs \<Longrightarrow> kind (fst v) = Entity_Variable \<and> 0 \<le> s (snd v) \<and> is_pow2 (a (snd v))"
    and lo: "align_opt lo" and hi: "align_opt hi" and r: "\<not> r"
  shows "laid_out s 0 fs (type_set_offsets_of s a fs p r lo hi)"
proof -
  have "is_pow2 (if lo = 0 then 1 else lo)" using lo by (auto simp: align_opt_def)
  then show ?thesis
    using r fs hi packed_laid_out [of fs s 0] aligned_laid_out [of fs s a "if lo = 0 then 1 else lo" hi 0]
    by (simp add: type_set_offsets_of_def Let_def)
qed

lemma struct_end_nonneg:
  assumes "laid_out s 0 fs os" and "\<And>v. v \<in> set fs \<Longrightarrow> 0 \<le> s (snd v)" and "fs \<noteq> []"
  shows "0 \<le> last os + s (snd (last fs))"
  using laid_out_last [OF assms(1,2), of 0] laid_out_ge [OF assms(1,2), of 0] assms(2) [of "fs ! 0"] assms(3)
  by (cases fs) auto

lemma field_list_ok:
  "(\<And>u. wf_type E d u \<Longrightarrow> layout_ok C E n u) \<Longrightarrow> list_all (\<lambda>(f, ft). kind f = Entity_Variable \<and> wf_type E d ft) fs \<Longrightarrow>
   v \<in> set fs \<Longrightarrow> kind (fst v) = Entity_Variable \<and> 0 \<le> type_size_of_internal C E n (snd v) \<and>
     is_pow2 (type_align_of_internal C E n (snd v))"
  by (auto simp: list_all_iff layout_ok_def split_beta)

lemma align_pow2_step:
  assumes wf: "wf_type E (Suc d) t" and t: "\<And>e. t \<noteq> Type_Named e" and C: "target_ok C"
    and n: "3 * d < n"
    and IH: "\<And>u. wf_type E d u \<Longrightarrow> layout_ok C E n u"
  shows "is_pow2 (type_align_of_internal C E (Suc n) t)"
proof (cases t)
  case (Type_Basic k)
  obtain m where "n = Suc m" using n by (cases n) auto
  then show ?thesis using basic_align_ok [OF C, of k] by (simp add: Type_Basic size_simps align_simps)
next
  case (Type_Struct i s fs)
  have "is_pow2 (foldl (\<lambda>m v. max m (type_align_of_internal C E n (snd v))) 1 fs)"
    by (rule foldl_max_pow2) (use wf Type_Struct field_list_ok [OF IH] in auto)
  then show ?thesis using wf by (auto simp: Type_Struct align_struct Let_def align_opt_def)
next
  case (Type_Tuple p fs)
  have "is_pow2 (foldl (\<lambda>m v. max m (type_align_of_internal C E n (snd v))) 1 fs)"
    by (rule foldl_max_pow2) (use wf Type_Tuple field_list_ok [OF IH] in auto)
  then show ?thesis by (simp add: Type_Tuple align_tuple)
next
  case (Type_Union i vs)
  have "is_pow2 (foldl (\<lambda>m v. max m (type_align_of_internal C E n v)) 1 vs)"
    by (rule foldl_max_pow2) (use wf Type_Union IH in \<open>auto simp: list_all_iff layout_ok_def\<close>)
  then show ?thesis using wf by (auto simp: Type_Union align_union align_opt_def)
next
  case (Type_SimdVector a c)
  then have a: "basic_elem E a" "wf_type E d a" "is_pow2 c" "c \<le> 64" using wf by simp_all
  obtain m where m: "n = Suc m" "3 * d \<le> m" using n by (cases n) auto
  from basic_elem_size [OF C a(1,2) m(2)] a(3) have "is_pow2 (c * type_size_of_internal C E m a)" by simp
  moreover have "c * type_size_of_internal C E m a < 2 ^ 64"
    using mult_mono [OF a(4), of "type_size_of_internal C E m a" 32] basic_elem_size [OF C a(1,2) m(2)]
      pow2_pos [of "type_size_of_internal C E m a"] by simp
  ultimately show ?thesis using target_pow2 [OF C]
    by (simp add: Type_SimdVector align_simps m(1) size_simps gb_clamp_pow2)
next
  case (Type_Matrix a r c m)
  then have a: "basic_elem E a" "wf_type E d a" "max r 1 * max c 1 \<le> 64" using wf by simp_all
  note e = basic_elem_size [OF C a(1,2), of n]
  let ?s = "max r 1 * max c 1 * type_size_of_internal C E n a"
  have "max r 1 * max c 1 * type_size_of_internal C E n a \<le> 64 * 32"
    by (rule mult_mono) (use a e n pow2_pos [of "type_size_of_internal C E n a"] in auto)
  moreover have "1 \<le> ?s" using e n pow2_pos [of "type_size_of_internal C E n a"]
    by (smt (verit, best) max.cobounded2 mult_le_cancel_left1 less_or_eq_imp_le zero_less_mult_iff)
  ultimately obtain k where "prev_pow2 ?s = 2 ^ k" using prev_pow2_exp [of ?s] by auto
  then have "is_pow2 (halve_align ?s (prev_pow2 ?s))" using \<open>1 \<le> ?s\<close> by (intro halve_align_ok [THEN conjunct1] is_pow2I) auto
  then show ?thesis
    using target_pow2 [OF C] layout_okD(1) [OF IH [OF a(2)]] type_size_from_eq [OF a(2), of n C] n
    by (simp add: Type_Matrix align_simps matrix_align_from_def Let_def)
next
  case (Type_BitSet a u l h)
  show ?thesis
  proof (cases "u = Null")
    case False
    with wf Type_BitSet have "wf_type E d u" by simp
    with IH [of u] False show ?thesis by (simp add: Type_BitSet align_simps layout_ok_def type_align_from_def)
  qed (simp add: Type_BitSet align_simps bit_set_bytes_pow2)
next
  case (Type_Array a c)
  then show ?thesis using IH [of a] wf by (simp add: align_simps layout_ok_def)
next
  case (Type_EnumeratedArray a j c)
  then show ?thesis using IH [of a] wf by (simp add: align_simps layout_ok_def)
next
  case (Type_FixedCapacityDynamicArray a c)
  then show ?thesis using IH [of a] wf target_pow2 [OF C] by (simp add: align_simps layout_ok_def)
next
  case (Type_Enum x a)
  then show ?thesis using IH [of a] wf by (simp add: align_simps layout_ok_def)
next
  case (Type_BitField a bs)
  then show ?thesis using IH [of a] wf by (simp add: align_simps layout_ok_def)
qed (use wf t n target_pow2 [OF C] in \<open>auto simp: align_simps size_simps gb_clamp_pow2 gr0_conv_Suc dest!: less_imp_Suc_add\<close>)

text \<open>The tag of a union is wide enough to number its variants from 0 (\<^verbatim>\<open>nil\<close>) on.\<close>

lemma union_tag_ok:
  assumes "vs \<noteq> []" and len: "length vs < 2 ^ 32" and a: "\<And>v. v \<in> set vs \<Longrightarrow> is_pow2 (type_align_from a v)"
    and ca: "align_opt (union_custom_align i)" and C: "target_ok C"
  defines "s \<equiv> union_tag_size_from C a i vs"
  shows "is_pow2 s" "s \<le> 8" "length vs < 2 ^ (8 * nat s)"
proof -
  define b :: int where "b = (if length vs < 2 ^ 8 then 1 else if length vs < 2 ^ 16 then 2 else 4)"
  have b: "is_pow2 b" "b \<le> 4" "length vs < 2 ^ (8 * nat b)" using len by (simp_all add: b_def)
  define m where "m = (if union_custom_align i > 0 then max b (union_custom_align i)
    else foldl (\<lambda>m v. max m (type_align_from a v)) b vs)"
  have m: "is_pow2 m" using b(1) ca foldl_max_pow2 [OF b(1) a] by (auto simp: m_def align_opt_def)
  have bm: "b \<le> m" using foldl_max_ge [of b "type_align_from a" vs] by (simp add: m_def)
  have s: "s = min (min m (max_align C)) 8"
    using \<open>vs \<noteq> []\<close> by (simp add: s_def union_tag_size_from_def Let_def m_def b_def)
  show "is_pow2 s" "s \<le> 8" unfolding s using m target_pow2 [OF C] by simp_all
  have "b \<le> s" unfolding s using b(2) bm target_pow2 [OF C] by simp
  then have "(2::nat) ^ (8 * nat b) \<le> 2 ^ (8 * nat s)" by (intro power_increasing) simp_all
  with b(3) show "length vs < 2 ^ (8 * nat s)" by linarith
qed

text \<open>An array has no padding between its elements.\<close>

lemma size_array_mult:
  assumes "layout_ok C E n a"
  shows "type_size_of_internal C E (Suc n) (Type_Array a c) = c * type_size_of_internal C E n a"
proof -
  have "align_formula (type_size_of_internal C E n a) (type_align_of_internal C E n a) = type_size_of_internal C E n a"
    using layout_okD [OF assms] pow2_pos [of "type_align_of_internal C E n a"] by (intro align_formula_id) auto
  then show ?thesis by (simp add: size_array algebra_simps)
qed

text \<open>A matrix has no padding, so the size its alignment was chosen for is its size.\<close>

lemma matrix_align_dvd:
  assumes "is_pow2 es" and "is_pow2 ea" and "ea dvd es" and "0 \<le> r" and "0 \<le> c" and "max r 1 * max c 1 \<le> 64"
    and "es \<le> 32" and "is_pow2 (max_simd_align C)" and "s a = es" and "type_size_from C s a = es" and "al a = ea"
  shows "matrix_align_from C s al a r c dvd matrix_stride_from es r c m * (if m then r else c)"
proof (cases "r = 0 \<or> c = 0")
  case False
  then have rc: "1 \<le> r" "1 \<le> c" using assms by auto
  then have "max r 1 = r" "max c 1 = c" by auto
  then have "r * c * es \<le> 64 * 32" using assms pow2_pos [of es] rc by (intro mult_mono) auto
  have pos: "1 \<le> r * c * es"
    using rc pow2_pos [OF assms(1)] by (metis int_one_le_iff_zero_less mult_pos_pos)
  obtain k where "prev_pow2 (r * c * es) = 2 ^ k"
    using prev_pow2_exp [of "r * c * es"] pos \<open>r * c * es \<le> 64 * 32\<close> by auto
  then have h: "is_pow2 (halve_align (r * c * es) (prev_pow2 (r * c * es)))"
    "halve_align (r * c * es) (prev_pow2 (r * c * es)) dvd r * c * es"
    using pos halve_align_ok [of "prev_pow2 (r * c * es)" "r * c * es"] by (auto intro: is_pow2I)
  have ea: "ea dvd r * c * es" using assms(3) by simp
  let ?m = "max (halve_align (r * c * es) (prev_pow2 (r * c * es))) ea"
  have "?m dvd r * c * es" using h(2) ea by (simp add: max_def)
  moreover have "min ?m (max_simd_align C) dvd ?m" using h(1) assms by (intro min_pow2_dvd) simp_all
  ultimately have "min ?m (max_simd_align C) dvd r * c * es" by (rule dvd_trans [rotated])
  then show ?thesis
    using assms False \<open>max r 1 = r\<close> \<open>max c 1 = c\<close>
    by (simp add: matrix_align_from_def Let_def matrix_stride_from_def ac_simps)
qed (auto simp: matrix_stride_from_def)

lemma size_ok_step:
  assumes wf: "wf_type E (Suc d) t" and t: "\<And>e. t \<noteq> Type_Named e" and C: "target_ok C"
    and n: "3 * d < n"
    and IH: "\<And>u. wf_type E d u \<Longrightarrow> layout_ok C E n u"
    and al: "is_pow2 (type_align_of_internal C E n t)"
      "type_align_of_internal C E (Suc n) t = type_align_of_internal C E n t"
  shows "0 \<le> type_size_of_internal C E (Suc n) t \<and>
         type_align_of_internal C E (Suc n) t dvd type_size_of_internal C E (Suc n) t"
proof (cases t)
  case (Type_Basic k)
  obtain m where "n = Suc m" using n by (cases n) auto
  then show ?thesis using basic_size_ok [OF C, of k] basic_align_ok [OF C, of k] pow2_pos [of "basic_size_of C k"]
    by (simp add: Type_Basic size_simps align_simps)
next
  case (Type_Struct i s fs)
  let ?os = "struct_offsets (type_size_of_internal C E n) (type_align_of_internal C E n) i fs"
  have fs: "kind (fst v) = Entity_Variable \<and> 0 \<le> type_size_of_internal C E n (snd v) \<and>
      is_pow2 (type_align_of_internal C E n (snd v))" if "v \<in> set fs" for v
    using field_list_ok [OF IH _ that] wf Type_Struct by simp
  have "0 \<le> last ?os + type_size_of_internal C E n (snd (last fs))" if "\<not> is_raw_union i" "fs \<noteq> []"
    unfolding struct_offsets_def
    by (rule struct_end_nonneg [OF offsets_laid_out]) (use fs wf Type_Struct that in auto)
  note end_ = align_formula_mult [OF al(1) this]
  note raw = align_formula_mult [OF al(1) foldl_max_nonneg [of "\<lambda>v. type_size_of_internal C E n (snd v)" fs]]
  show ?thesis
    by (cases "is_raw_union i"; cases "fs = []") (use end_ raw al(2) in \<open>simp_all add: Type_Struct size_struct\<close>)
next
  case (Type_Tuple p fs)
  let ?os = "tuple_offsets (type_size_of_internal C E n) (type_align_of_internal C E n) p fs"
  have fs: "kind (fst v) = Entity_Variable \<and> 0 \<le> type_size_of_internal C E n (snd v) \<and>
      is_pow2 (type_align_of_internal C E n (snd v))" if "v \<in> set fs" for v
    using field_list_ok [OF IH _ that] wf Type_Tuple by simp
  have "0 \<le> last ?os + type_size_of_internal C E n (snd (last fs))" if "fs \<noteq> []"
    unfolding tuple_offsets_def
    by (rule struct_end_nonneg [OF offsets_laid_out]) (use fs that in \<open>auto simp: align_opt_def\<close>)
  then show ?thesis using align_formula_mult [OF al(1)] al(2) by (simp add: Type_Tuple size_tuple)
next
  case (Type_Union i vs)
  show ?thesis
  proof (cases "vs = []")
    case False
    have "0 \<le> union_payload (type_size_of_internal C E n) vs" by (simp add: union_payload_def foldl_max_nonneg)
    moreover have "is_pow2 (type_align_from (type_align_of_internal C E n) v)" if "v \<in> set vs" for v
      using wf Type_Union that IH [of v] type_align_from_eq [of E d v]
      by (auto simp: list_all_iff layout_ok_def)
    then have "1 \<le> union_tag_size_from C (type_align_of_internal C E n) i vs"
      using wf Type_Union by (intro pow2_pos union_tag_ok(1) [OF False _ _ _ C]) simp_all
    ultimately show ?thesis
      using align_formula_mult [OF al(1)] align_formula_nonneg False al(2) by (simp add: Type_Union size_union Let_def)
  qed (simp add: Type_Union size_union)
next
  case (Type_SimdVector a c)
  then have a: "basic_elem E a" "wf_type E d a" "is_pow2 c" "c \<le> 64" using wf by simp_all
  obtain m where m: "n = Suc m" "3 * d \<le> m" using n by (cases n) auto
  have same: "type_size_of_internal C E m a = type_size_of_internal C E n a"
    using layout_stable [OF a(2), of m n C] m by (simp add: same_layout_def)
  note e = basic_elem_size [OF C a(1,2), of n]
  have p: "is_pow2 (c * type_size_of_internal C E n a)" using e a m by simp
  have "c * type_size_of_internal C E n a \<le> 64 * 32"
    using a e m pow2_pos [of "type_size_of_internal C E n a"] by (intro mult_mono) auto
  then show ?thesis using target_pow2 [OF C] p pow2_pos [OF p]
    by (simp add: Type_SimdVector align_simps m(1) size_simps gb_clamp_pow2 same [unfolded m(1)] min_pow2_dvd)
next
  case (Type_Matrix a r c m)
  then have a: "basic_elem E a" "wf_type E d a" "0 \<le> r" "0 \<le> c" "max r 1 * max c 1 \<le> 64" using wf by simp_all
  note e = basic_elem_size [OF C a(1,2), of n] IH [OF a(2)]
  have "0 \<le> matrix_stride_from (type_size_of_internal C E n a) r c m * (if m then r else c)"
    using a e(2) by (simp add: matrix_stride_from_def layout_ok_def)
  moreover have "matrix_align_from C (type_size_of_internal C E n) (type_align_of_internal C E n) a r c dvd
      matrix_stride_from (type_size_of_internal C E n a) r c m * (if m then r else c)"
    by (rule matrix_align_dvd [where ea = "type_align_of_internal C E n a"])
      (use a e n target_pow2 [OF C] type_size_from_eq [OF a(2), of n C] in \<open>auto simp: layout_ok_def\<close>)
  ultimately show ?thesis by (simp add: Type_Matrix align_simps size_simps)
next
  case (Type_BitSet a u l h)
  show ?thesis
  proof (cases "u = Null")
    case False
    with wf Type_BitSet have "wf_type E d u" by simp
    with IH [of u] False n type_size_from_eq [of E d u n C] show ?thesis
      by (simp add: Type_BitSet align_simps size_simps layout_ok_def type_align_from_def)
  qed (simp add: Type_BitSet align_simps size_simps bit_set_bytes_def)
next
  case (Type_Array a c)
  then have "layout_ok C E n a" "0 \<le> c" using IH [of a] wf by simp_all
  then show ?thesis
    by (simp add: Type_Array size_array(2) size_array_mult align_eqs layout_okD)
next
  case (Type_EnumeratedArray a j c)
  then have "layout_ok C E n a" "0 \<le> c" using IH [of a] wf by simp_all
  then show ?thesis
    by (simp add: Type_EnumeratedArray size_array(2) size_array_mult align_eqs layout_okD)
next
  case (Type_FixedCapacityDynamicArray a c)
  then have a: "wf_type E d a" "0 \<le> c" using wf by simp_all
  note i = target_pow2(2) [OF C] and l = layout_okD [OF IH [OF a(1)]]
  have "0 \<le> align_formula (type_size_of_internal C E n a * c) (int_size C) + int_size C"
    using align_formula_mult [OF i, of "type_size_of_internal C E n a * c"] a l pow2_pos [OF i] by simp
  from align_formula_mult [OF pow2_max [OF i l(1)] this] show ?thesis
    using type_size_from_eq [OF a(1), of n C] n
    by (simp add: Type_FixedCapacityDynamicArray align_simps size_array)
next
  case (Type_Enum x a)
  then show ?thesis using IH [of a] wf by (simp add: align_simps size_simps layout_ok_def)
next
  case (Type_BitField a bs)
  then show ?thesis using IH [of a] wf by (simp add: align_simps size_simps layout_ok_def)
qed (use wf t n C target_pow2 [OF C] in \<open>auto simp: align_simps size_simps gb_clamp_pow2 gr0_conv_Suc min_pow2_dvd pow2_pos
      target_ok_def dest!: less_imp_Suc_add\<close>)

lemma layout_ok_wf:
  assumes "target_ok C"
  shows "wf_type E d t \<Longrightarrow> 3 * d \<le> n \<Longrightarrow> layout_ok C E n t"
proof (induction d arbitrary: t n)
  case (Suc d)
  show ?case
  proof (cases "\<exists>e. t = Type_Named e")
    case False
    then have t: "\<And>e. t \<noteq> Type_Named e" by blast
    obtain m where m: "n = Suc m" "3 * d + 2 \<le> m" using Suc.prems(2) by (cases n) auto
    have al: "is_pow2 (type_align_of_internal C E n t)"
      unfolding m(1) by (rule align_pow2_step [OF Suc.prems(1) t assms]) (use Suc m in auto)
    have st: "same_layout C E (Suc n) n t" by (rule layout_stable [OF Suc.prems(1)]) (use Suc.prems(2) in auto)
    have "0 \<le> type_size_of_internal C E (Suc n) t \<and>
         type_align_of_internal C E (Suc n) t dvd type_size_of_internal C E (Suc n) t"
      by (rule size_ok_step [OF Suc.prems(1) t assms _ _ al]) (use Suc st in \<open>auto simp: same_layout_def\<close>)
    with al st show ?thesis by (simp add: layout_ok_def same_layout_def)
  next
    case True
    then obtain e where t: "t = Type_Named e" by blast
    with Suc.prems(1) have wf: "wf_type E d (base_of E e)" and b: "base_type E t = base_type E (base_of E e)" by simp_all
    obtain m where m: "n = Suc m" "3 * d \<le> m" using Suc.prems(2) by (cases n) auto
    have "type_align_of_internal C E n t = type_align_of_internal C E n (base_of E e)" by (metis align_base_type b)
    moreover have "same_layout C E n m (base_of E e)" by (rule layout_stable [OF wf]) (use m in auto)
    ultimately show ?thesis using Suc.IH [OF wf m(2)] by (simp add: layout_ok_def m t size_eqs same_layout_def)
  qed
qed simp

end
