(* ===== verification/Layout_Properties.thy ===== *)
theory Layout_Properties
  imports Layout_Laws
begin

text \<open>
  What the layout promises to the code generator: sizes and alignments are sound, fields are apart,
  inside and aligned, the tag of a union is behind its payload, array elements and matrix elements
  have places of their own, and the order of the fields by offset is a permutation.
\<close>

subsection \<open>Base types have the layout of the type\<close>

lemma size_base_type:
  "wf_type E d t \<Longrightarrow> 3 * d \<le> n \<Longrightarrow> type_size_of_internal C E n (base_type E t) = type_size_of_internal C E n t"
proof (induction d arbitrary: t n)
  case (Suc d)
  show ?case
  proof (cases t)
    case (Type_Named e)
    with Suc.prems(1) have wf: "wf_type E d (base_of E e)" and b: "base_type E t = base_type E (base_of E e)" by simp_all
    obtain m where m: "n = Suc m" "3 * d \<le> m" using Suc.prems(2) by (cases n) auto
    have "same_layout C E n m (base_of E e)" by (rule layout_stable [OF wf]) (use m in auto)
    moreover have "type_size_of_internal C E n (base_type E (base_of E e)) = type_size_of_internal C E n (base_of E e)"
      by (rule Suc.IH [OF wf]) (use m in simp)
    ultimately show ?thesis by (simp add: b [unfolded Type_Named] Type_Named m size_eqs same_layout_def)
  qed simp_all
qed simp

lemma type_size_of_eq: "wf_type E d t \<Longrightarrow> 3 * d \<le> n \<Longrightarrow> type_size_of C E n t = type_size_of_internal C E n t"
  by (simp add: type_size_of_def type_size_from_eq)

lemma type_align_of_eq: "wf_type E d t \<Longrightarrow> type_align_of C E n t = type_align_of_internal C E n t"
  by (simp add: type_align_of_def type_align_from_eq)

lemma wf_base_struct:
  assumes "wf_type E d t" and "base_type E t = Type_Struct i s fs"
  obtains d' where "d = Suc d'" "align_opt (custom_align i)" "align_opt (custom_min_field_align i)"
    "align_opt (custom_max_field_align i)" "\<forall>v \<in> set fs. kind (fst v) = Entity_Variable \<and> wf_type E d' (snd v)"
proof -
  obtain d' where d: "d = Suc d'" using assms(1) by (cases d) auto
  from wf_base_type [OF assms(1)] have "wf_type E (Suc d') (Type_Struct i s fs)" by (simp add: assms(2) d)
  then show ?thesis by (intro that [OF d]) (auto simp: list_all_iff)
qed

lemma wf_base_union:
  assumes "wf_type E d t" and "base_type E t = Type_Union i vs"
  obtains d' where "d = Suc d'" "align_opt (union_custom_align i)" "length vs < 2 ^ 32"
    "\<forall>v \<in> set vs. wf_type E d' v"
proof -
  obtain d' where d: "d = Suc d'" using assms(1) by (cases d) auto
  from wf_base_type [OF assms(1)] have "wf_type E (Suc d') (Type_Union i vs)" by (simp add: assms(2) d)
  then show ?thesis by (intro that [OF d]) (auto simp: list_all_iff)
qed

text \<open>The size of a type whose base is a struct or a union, at the depth of the walk itself.\<close>

lemma size_of_struct:
  assumes wf: "wf_type E d t" and b: "base_type E t = Type_Struct i s fs" and n: "3 * d \<le> n" and r: "\<not> is_raw_union i" "fs \<noteq> []"
  shows "type_size_of C E n t =
     align_formula
       (last (struct_offsets (type_size_of_internal C E n) (type_align_of_internal C E n) i fs) +
        type_size_of_internal C E n (snd (last fs)))
       (type_align_of C E n t)"
proof -
  have "same_layout C E (Suc n) n t" by (rule layout_stable [OF wf]) (use n in auto)
  then have "type_size_of C E n t = type_size_of_internal C E (Suc n) (base_type E t)"
    using wf n by (simp add: type_size_of_eq size_base_type same_layout_def)
  also have "type_align_of C E n t = type_align_of_internal C E n (base_type E t)"
    using wf by (simp add: type_align_of_eq align_base_type)
  ultimately show ?thesis using r by (simp add: b size_struct)
qed

lemma size_of_union:
  assumes wf: "wf_type E d t" and b: "base_type E t = Type_Union i vs" and n: "3 * d \<le> n" and r: "vs \<noteq> []"
  shows "type_size_of C E n t =
     (let mx = union_payload (type_size_of_internal C E n) vs;
          tag_size = union_tag_size_from C (type_align_of_internal C E n) i vs
      in align_formula
           (if is_type_union_maybe_pointer E (base_type E t) then mx else align_formula mx tag_size + tag_size)
           (type_align_of C E n t))"
proof -
  have "same_layout C E (Suc n) n t" by (rule layout_stable [OF wf]) (use n in auto)
  then have "type_size_of C E n t = type_size_of_internal C E (Suc n) (base_type E t)"
    using wf n by (simp add: type_size_of_eq size_base_type same_layout_def)
  also have "type_align_of C E n t = type_align_of_internal C E n (base_type E t)"
    using wf by (simp add: type_align_of_eq align_base_type)
  ultimately show ?thesis using r by (simp add: b size_union)
qed

lemma align_formula_ge_pow2: "is_pow2 al \<Longrightarrow> sz \<le> align_formula sz al"
  by (rule align_formula_ge) (use pow2_pos [of al] in simp)

lemma align_of_pow2: "target_ok C \<Longrightarrow> wf_type E d t \<Longrightarrow> 3 * d \<le> n \<Longrightarrow> is_pow2 (type_align_of C E n t)"
  using layout_ok_wf [of C E d t n] by (simp add: type_align_of_eq layout_ok_def)

lemma struct_fields_ok:
  assumes C: "target_ok C" and wf: "wf_type E d t" and n: "3 * d \<le> n"
    and b: "base_type E t = Type_Struct i s fs" and v: "v \<in> set fs"
  shows "kind (fst v) = Entity_Variable" "layout_ok C E n (snd v)"
    "type_size_of C E n (snd v) = type_size_of_internal C E n (snd v)"
    "type_align_of C E n (snd v) = type_align_of_internal C E n (snd v)"
proof -
  obtain d' where d: "d = Suc d'" and fs: "\<forall>v \<in> set fs. kind (fst v) = Entity_Variable \<and> wf_type E d' (snd v)"
    by (rule wf_base_struct [OF wf b])
  from fs v have v: "kind (fst v) = Entity_Variable" "wf_type E d' (snd v)" by auto
  from n d have "3 * d' \<le> n" by simp
  with v C show "kind (fst v) = Entity_Variable" "layout_ok C E n (snd v)"
    "type_size_of C E n (snd v) = type_size_of_internal C E n (snd v)"
    "type_align_of C E n (snd v) = type_align_of_internal C E n (snd v)"
    by (auto intro: layout_ok_wf type_size_of_eq type_align_of_eq)
qed

lemma struct_laid_out:
  assumes C: "target_ok C" and wf: "wf_type E d t" and n: "3 * d \<le> n"
    and b: "base_type E t = Type_Struct i s fs" and r: "\<not> is_raw_union i"
  shows "laid_out (type_size_of_internal C E n) 0 fs
           (struct_offsets (type_size_of_internal C E n) (type_align_of_internal C E n) i fs)"
proof -
  have "align_opt (custom_min_field_align i)" "align_opt (custom_max_field_align i)"
    by (rule wf_base_struct [OF wf b], simp)+
  then show ?thesis
    unfolding struct_offsets_def
    by (intro offsets_laid_out)
      (simp_all add: r struct_fields_ok(1) [OF C wf n b] layout_okD [OF struct_fields_ok(2) [OF C wf n b]])
qed


lemma align_of_struct:
  assumes "wf_type E d t" and "3 * d \<le> n" and "base_type E t = Type_Struct i s fs"
  shows "type_align_of C E n t =
     (if custom_align i > 0 then max (custom_align i) 1
      else if is_packed i then 1
      else
        let m = foldl (\<lambda>m v. max m (type_align_of_internal C E n (snd v))) 1 fs;
            m = (if custom_min_field_align i > 0 then max m (custom_min_field_align i) else m)
        in if custom_max_field_align i \<noteq> 0 \<and> custom_max_field_align i > custom_min_field_align i
           then min m (custom_max_field_align i) else m)"
proof -
  have "same_layout C E n (Suc n) t" by (rule layout_stable [OF assms(1)]) (use assms(2) in auto)
  then have "type_align_of C E n t = type_align_of_internal C E (Suc n) (base_type E t)"
    using assms(1) by (simp add: type_align_of_eq same_layout_def align_base_type)
  then show ?thesis by (simp add: assms(3) align_struct)
qed


lemma union_variants_ok:
  assumes C: "target_ok C" and wf: "wf_type E d t" and n: "3 * d \<le> n"
    and b: "base_type E t = Type_Union i vs" and v: "v \<in> set vs"
  shows "layout_ok C E n v" "type_size_of C E n v = type_size_of_internal C E n v"
    "type_align_from (type_align_of_internal C E n) v = type_align_of_internal C E n v"
proof -
  obtain d' where d: "d = Suc d'" and vs: "\<forall>v \<in> set vs. wf_type E d' v"
    by (rule wf_base_union [OF wf b])
  from vs v n d have "wf_type E d' v" "3 * d' \<le> n" by auto
  with C show "layout_ok C E n v" "type_size_of C E n v = type_size_of_internal C E n v"
    "type_align_from (type_align_of_internal C E n) v = type_align_of_internal C E n v"
    by (auto intro: layout_ok_wf type_size_of_eq type_align_from_eq)
qed


lemma size_of_array:
  assumes C: "target_ok C" and wf: "wf_type E d t" and n: "3 * d \<le> n" and b: "base_type E t = Type_Array a c"
  shows "type_size_of C E n t = c * type_size_of C E n a" "layout_ok C E n a" "type_align_of C E n a = type_align_of C E n t"
    "type_size_of C E n a = type_size_of_internal C E n a"
proof -
  obtain d' where d: "d = Suc d'" using wf by (cases d) auto
  from wf_base_type [OF wf] have a: "wf_type E d' a" by (simp add: b d)
  have n': "3 * d' \<le> n" using n d by simp
  show ok: "layout_ok C E n a" by (rule layout_ok_wf [OF C a n'])
  have st: "same_layout C E (Suc n) n t" by (rule layout_stable [OF wf]) (use n in auto)
  then have "type_size_of C E n t = type_size_of_internal C E (Suc n) (base_type E t)"
    using wf n by (simp add: type_size_of_eq size_base_type same_layout_def)
  then show "type_size_of C E n t = c * type_size_of C E n a" 
    using ok by (simp add: b size_array_mult type_size_of_eq [OF a n'])
  have "type_align_of C E n t = type_align_of_internal C E (Suc n) (base_type E t)"
    using st wf by (simp add: type_align_of_eq same_layout_def align_base_type)
  then show "type_align_of C E n a = type_align_of C E n t" using a by (simp add: b align_eqs type_align_of_eq)
  show "type_size_of C E n a = type_size_of_internal C E n a" by (rule type_size_of_eq [OF a n'])
qed

text \<open>
  The elements of an array lie one behind the other without gaps, aligned for their
  type, inside the array; an index outside the array fails the assertion.
\<close>

theorem array_elements_in_bounds:
  assumes C: "target_ok C" and wf: "wf_type E d t" and n: "3 * d \<le> n" and b: "base_type E t = Type_Array a c"
  shows "case type_offset_of C E n t index of
      None \<Rightarrow> index < 0 \<or> c \<le> index
    | Some off \<Rightarrow> 0 \<le> index \<and> index < c \<and> off = index * type_size_of C E n a \<and> type_align_of C E n a dvd off \<and>
        0 \<le> off \<and> off + type_size_of C E n a \<le> type_size_of C E n t"
proof (cases "0 \<le> index \<and> index < c")
  case True
  note a = size_of_array [OF C wf n b] and l = layout_okD [OF size_of_array(2) [OF C wf n b]]
  have "type_align_of C E n a dvd type_size_of C E n a"
    using l a(3,4) wf by (metis type_align_of_def type_align_from_def one_dvd)
  moreover have "(index + 1) * type_size_of C E n a \<le> c * type_size_of C E n a"
    using True l(2) a(4) by (intro mult_right_mono) auto
  ultimately show ?thesis using True l(2) a by (simp add: type_offset_of_def b Let_def algebra_simps)
qed (auto simp: type_offset_of_def b Let_def)

lemma size_of_matrix:
  assumes C: "target_ok C" and wf: "wf_type E d t" and n: "3 * d \<le> n" and b: "base_type E t = Type_Matrix a r c m"
  shows "1 \<le> type_size_of C E n a" "0 \<le> r" "0 \<le> c"
    "type_size_of C E n (Type_Matrix a r c m) = r * c * type_size_of C E n a"
proof -
  obtain d' where d: "d = Suc d'" using wf by (cases d) auto
  have wm: "wf_type E d (Type_Matrix a r c m)" using wf_base_type [OF wf] by (simp add: b)
  then have a: "wf_type E d' a" "basic_elem E a" by (simp_all add: d)
  from wm show "0 \<le> r" "0 \<le> c" by (simp_all add: d)
  have n': "3 * d' \<le> n" using n d by simp
  show "1 \<le> type_size_of C E n a"
    using basic_elem_size [OF C a(2,1) n'] pow2_pos by (simp add: type_size_of_eq [OF a(1) n'])
  have "same_layout C E (Suc n) n (Type_Matrix a r c m)" by (rule layout_stable [OF wm]) (use n in auto)
  then show "type_size_of C E n (Type_Matrix a r c m) = r * c * type_size_of C E n a"
    by (auto simp: type_size_of_eq [OF wm n] type_size_of_eq [OF a(1) n'] same_layout_def size_eqs
        matrix_stride_from_def algebra_simps split: if_splits)
qed

lemma matrix_offset:
  assumes C: "target_ok C" and wf: "wf_type E d t" and n: "3 * d \<le> n" and b: "base_type E t = Type_Matrix a r c m"
  shows "matrix_indices_to_offset C E n t i j =
    (if 0 \<le> i \<and> i < r \<and> 0 \<le> j \<and> j < c then Some (if m then j + c * i else i + r * j) else None)"
  using size_of_matrix [OF assms]
  by (simp add: matrix_indices_to_offset_def matrix_type_stride_in_elems_def b matrix_stride_from_def max_def)

lemma grid_offset_less: "0 \<le> i \<Longrightarrow> i < r \<Longrightarrow> 0 \<le> j \<Longrightarrow> j < c \<Longrightarrow> j + c * i < r * (c :: int)"
  using mult_left_mono [of "i + 1" r c] by (simp add: algebra_simps)

lemma grid_offset_inj:
  fixes c :: int
  assumes "j + c * i = j' + c * i'" and "0 \<le> j" "j < c" "0 \<le> j'" "j' < c"
  shows "i = i' \<and> j = j'"
proof -
  have "(j + c * i) div c = i" "(j' + c * i') div c = i'" "(j + c * i) mod c = j" "(j' + c * i') mod c = j'"
    using assms(2-) by simp_all
  with assms(1) show ?thesis by metis
qed

text \<open>
  Property C12. Inside its bounds every element of a matrix has an offset of its own among the
  \<open>row_count * column_count\<close> elements the matrix has room for, the same one whether the element is
  named by its row and column, by its row-major or by its column-major index.
\<close>

theorem matrix_indices_bijective:
  assumes C: "target_ok C" and wf: "wf_type E d t" and n: "3 * d \<le> n" and b: "base_type E t = Type_Matrix a r c m"
  shows "case matrix_indices_to_offset C E n t i j of
      None \<Rightarrow> i < 0 \<or> r \<le> i \<or> j < 0 \<or> c \<le> j
    | Some off \<Rightarrow> 0 \<le> off \<and> off < r * c \<and> matrix_type_total_internal_elems C E n t = Some (r * c) \<and>
        (matrix_indices_to_offset C E n t i' j' = Some off \<longrightarrow> i' = i \<and> j' = j) \<and>
        matrix_row_major_index_to_offset C E n t (i * c + j) = Some off \<and>
        matrix_column_major_index_to_offset C E n t (j * r + i) = Some off"
proof (cases "0 \<le> i \<and> i < r \<and> 0 \<le> j \<and> j < c")
  case True
  note o = matrix_offset [OF assms] and s = size_of_matrix [OF assms]
  have "i' = i \<and> j' = j" if "matrix_indices_to_offset C E n t i' j' = Some (if m then j + c * i else i + r * j)"
    using that True grid_offset_inj [of j' c i' j i] grid_offset_inj [of i' r j' i j] by (auto simp: o split: if_splits)
  moreover have "(if m then j + c * i else i + r * j) < r * c"
    using grid_offset_less [of i r j c] grid_offset_less [of j c i r] True by (auto simp: mult.commute)
  moreover have "matrix_type_total_internal_elems C E n t = Some (r * c)"
    using s by (simp add: matrix_type_total_internal_elems_def b max_def)
  moreover have "(i * c + j) div c = i" "(i * c + j) mod c = j" "(j * r + i) div r = j" "(j * r + i) mod r = i"
    using True by simp_all
  ultimately show ?thesis
    using True by (simp add: o matrix_row_major_index_to_offset_def matrix_column_major_index_to_offset_def b)
next
  case False
  then show ?thesis using matrix_offset [OF assms, of i j] by (simp del: not_less) linarith
qed

subsection \<open>The field order by offset\<close>

definition offset_before :: "int list \<Rightarrow> nat \<Rightarrow> nat \<Rightarrow> bool" where
  "offset_before offsets i j \<longleftrightarrow> offsets ! i < offsets ! j \<or> offsets ! i = offsets ! j \<and> i < j"

lemma swap_at_append: "swap_at (ys @ y # x # zs) (length ys) (Suc (length ys)) = ys @ x # y # zs"
  by (simp add: swap_at_def nth_append list_update_append)

lemma sink_index_append:
  assumes "sorted_wrt (offset_before offsets) ys" and "\<And>y. y \<in> set ys \<Longrightarrow> y < x"
  shows "\<exists>us. sink_index offsets (length ys) (ys @ x # zs) = us @ zs \<and> mset us = mset (x # ys) \<and>
    sorted_wrt (offset_before offsets) us"
  using assms
proof (induction ys arbitrary: zs rule: rev_induct)
  case (snoc y ys)
  show ?case
  proof (cases "offsets ! y > offsets ! x")
    case True
    from snoc.IH [of "y # zs"] snoc.prems obtain us where us:
      "sink_index offsets (length ys) (ys @ x # y # zs) = us @ y # zs" "mset us = mset (x # ys)"
      "sorted_wrt (offset_before offsets) us"
      by (auto simp: sorted_wrt_append)
    have "u \<in> set us \<Longrightarrow> offset_before offsets u y" for u
      using True snoc.prems(1) mset_eq_setD [OF us(2)] by (auto simp: sorted_wrt_append offset_before_def)
    then have "sorted_wrt (offset_before offsets) (us @ [y])" using us(3) by (simp add: sorted_wrt_append)
    then show ?thesis using True us by (intro exI [of _ "us @ [y]"]) (simp add: nth_append swap_at_append)
  next
    case False
    have "z \<in> set (ys @ [y]) \<Longrightarrow> offset_before offsets z x" for z
      using False snoc.prems by (fastforce simp: sorted_wrt_append offset_before_def)
    then have "sorted_wrt (offset_before offsets) ((ys @ [y]) @ [x])"
      using snoc.prems(1) by (subst sorted_wrt_append) simp
    then show ?thesis using False by (intro exI [of _ "(ys @ [y]) @ [x]"]) (simp add: nth_append)
  qed
qed simp

lemma sink_all:
  "0 < i \<Longrightarrow> i \<le> n \<Longrightarrow>
   \<exists>us. foldl (\<lambda>is i. sink_index offsets i is) [0..<n] [1..<i] = us @ [i..<n] \<and> mset us = mset [0..<i] \<and>
     sorted_wrt (offset_before offsets) us"
proof (induction i)
  case (Suc i)
  show ?case
  proof (cases "i = 0")
    case True
    then show ?thesis using Suc.prems by (intro exI [of _ "[0]"]) (simp add: upt_conv_Cons)
  next
    case False
    with Suc obtain us where us: "foldl (\<lambda>is i. sink_index offsets i is) [0..<n] [1..<i] = us @ [i..<n]"
      "mset us = mset [0..<i]" "sorted_wrt (offset_before offsets) us" by auto
    have "length us = i" "\<And>u. u \<in> set us \<Longrightarrow> u < i" using mset_eq_length [OF us(2)] mset_eq_setD [OF us(2)] by auto
    with sink_index_append [OF us(3), of i "[Suc i..<n]"] obtain vs where
      "sink_index offsets i (us @ [i..<n]) = vs @ [Suc i..<n]" "mset vs = mset (i # us)"
      "sorted_wrt (offset_before offsets) vs"
      using Suc.prems by (auto simp: upt_conv_Cons)
    then show ?thesis using us False by (intro exI [of _ vs]) simp
  qed
qed simp

lemma reordered_iff:
  "fst (foldl (\<lambda>(r, prev_offset) off. (r \<or> prev_offset > off, off)) (r, p) os) \<longleftrightarrow> r \<or> \<not> sorted (p # os)"
proof (induction os arbitrary: r p)
  case (Cons off os)
  show ?case unfolding sorted2 by (auto simp: Cons.IH)
qed simp

text \<open>
  The list of the field indices by increasing offset has every index once, is ordered by
  offset, and keeps the order of declaration among fields at the same offset.
\<close>

theorem field_indices_sorted:
  "mset (struct_fields_index_by_increasing_offset offsets) = mset [0..<length offsets] \<and>
   sorted_wrt (offset_before offsets) (struct_fields_index_by_increasing_offset offsets)"
proof (cases "are_struct_fields_reordered offsets")
  case True
  then have "offsets \<noteq> []" by (auto simp: are_struct_fields_reordered_def)
  with True sink_all [of "length offsets" "length offsets" offsets] show ?thesis
    by (auto simp: struct_fields_index_by_increasing_offset_def)
next
  case False
  then have "sorted offsets" by (simp add: are_struct_fields_reordered_def reordered_iff)
  then have "sorted_wrt (offset_before offsets) [0..<length offsets]"
    by (auto simp: sorted_wrt_iff_nth_less offset_before_def sorted_iff_nth_mono order_le_less)
  with False show ?thesis by (simp add: struct_fields_index_by_increasing_offset_def)
qed

subsection \<open>Instances\<close>

text \<open>A 64-bit target; \<^verbatim>\<open>Vec :: struct {tag: u8, pos: [3]f32, id: u64}\<close>, \<^verbatim>\<open>Shape :: union {Vec, u16}\<close>.\<close>

definition demo_target :: build_context where
  "demo_target = \<lparr>ptr_size = 8, int_size = 8, max_align = 16, max_simd_align = 32, endian_big = False\<rparr>"

definition demo_field :: "string \<Rightarrow> field" where
  "demo_field x = \<lparr>kind = Entity_Variable, name = x, tag = '''', is_subtype = False, constant_default = False,
     constant_value = 0\<rparr>"

definition demo_struct_info :: struct_info where
  "demo_struct_info = \<lparr>custom_align = 0, custom_min_field_align = 0, custom_max_field_align = 0, soa_count = 0,
     soa_kind = StructSoa_None, is_packed = False, is_raw_union = False, is_all_or_none = False, is_simple = False\<rparr>"

definition demo_fields :: "(field \<times> otype) list" where
  "demo_fields = [(demo_field ''tag'', Type_Basic (Fixed Basic_u8)),
     (demo_field ''pos'', Type_Array (Type_Basic (Fixed Basic_f32)) 3), (demo_field ''id'', Type_Basic (Fixed Basic_u64))]"

definition demo_variants :: "otype list" where
  "demo_variants = [Type_Named 0, Type_Basic (Fixed Basic_u16)]"

definition demo_union_info :: union_info where
  "demo_union_info = \<lparr>union_custom_align = 0, union_kind = UnionType_Normal\<rparr>"

definition demo_env :: type_env where
  "demo_env = [\<lparr>named_base = Type_Struct demo_struct_info Null demo_fields, is_type_alias = False\<rparr>,
     \<lparr>named_base = Type_Union demo_union_info demo_variants, is_type_alias = False\<rparr>,
     \<lparr>named_base = Type_Matrix (Type_Basic (Fixed Basic_f32)) 3 4 False, is_type_alias = False\<rparr>,
     \<lparr>named_base = Type_Array (Type_Named 0) 5, is_type_alias = False\<rparr>]"

lemmas demo_defs = demo_target_def demo_field_def demo_struct_info_def demo_fields_def demo_variants_def
  demo_union_info_def demo_env_def

lemma demo_target_ok: "target_ok demo_target"
  by (simp add: target_ok_def demo_target_def)

lemma demo_base:
  "base_of demo_env 0 = Type_Struct demo_struct_info Null demo_fields"
  "base_of demo_env (Suc 0) = Type_Union demo_union_info demo_variants"
  "base_of demo_env 2 = Type_Matrix (Type_Basic (Fixed Basic_f32)) 3 4 False"
  "base_of demo_env 3 = Type_Array (Type_Named 0) 5"
  "length demo_env = 4"
  by (simp_all add: base_of_def demo_env_def)

lemma demo_base_type:
  "base_type demo_env (Type_Named 0) = Type_Struct demo_struct_info Null demo_fields"
  "base_type demo_env (Type_Named (Suc 0)) = Type_Union demo_union_info demo_variants"
  "base_type demo_env (Type_Named 2) = Type_Matrix (Type_Basic (Fixed Basic_f32)) 3 4 False"
  "base_type demo_env (Type_Named 3) = Type_Array (Type_Named 0) 5"
  by (simp_all add: base_type_def demo_base)

lemma demo_wf: "wf_type demo_env (Suc (Suc (Suc (Suc (Suc (Suc 0)))))) (Type_Named 0)" "wf_type demo_env (Suc (Suc (Suc (Suc (Suc (Suc 0)))))) (Type_Named (Suc 0))"
  "wf_type demo_env (Suc (Suc (Suc (Suc (Suc (Suc 0)))))) (Type_Named 2)" "wf_type demo_env (Suc (Suc (Suc (Suc (Suc (Suc 0)))))) (Type_Named 3)"
  by (simp_all add: demo_base demo_base_type align_opt_def basic_elem_def demo_struct_info_def
      demo_fields_def demo_variants_def demo_union_info_def demo_field_def basic_table_defs basic_flag_defs)




theorem array_elements_in_bounds_witness:
  "case type_offset_of demo_target demo_env 18 (Type_Named 3) 4 of
     None \<Rightarrow> False
   | Some off \<Rightarrow> off + type_size_of demo_target demo_env 18 (Type_Named 0) \<le> type_size_of demo_target demo_env 18 (Type_Named 3)"
  using array_elements_in_bounds [OF demo_target_ok demo_wf(4) _ demo_base_type(4), of 18 4] by (auto split: option.splits)

theorem matrix_indices_bijective_witness:
  "case matrix_indices_to_offset demo_target demo_env 18 (Type_Named 2) 2 3 of
     None \<Rightarrow> False
   | Some off \<Rightarrow> off < 12 \<and> matrix_row_major_index_to_offset demo_target demo_env 18 (Type_Named 2) 11 = Some off"
  using matrix_indices_bijective [OF demo_target_ok demo_wf(3) _ demo_base_type(3), of 18 2 3 0 1]
  by (cases "matrix_indices_to_offset demo_target demo_env 18 (Type_Named 2) 2 3") simp_all

subsection \<open>Size and alignment\<close>



text \<open>
  Property C31. The attribute \<^verbatim>\<open>#max_field_align(1)\<close>, without a minimum or an alignment of its own, makes
  1 the alignment of a struct but leaves its fields where they are without the attribute: the test
  \<open>max_field_align > min_field_align\<close> comes after a missing minimum has been made 1. So the fields
  keep their natural places inside a struct that is no longer aligned for them; the example is
  \<^verbatim>\<open>struct {a: u8, b: u64}\<close>.
\<close>

theorem max_field_align_one_ignored:
  "type_align_of C E (Suc n)
     (Type_Struct (i\<lparr>custom_align := 0, custom_min_field_align := 0, custom_max_field_align := 1\<rparr>) s fs) = 1 \<and>
   type_offset_of C E n
     (Type_Struct (i\<lparr>custom_align := 0, custom_min_field_align := 0, custom_max_field_align := 1\<rparr>) s fs) k =
   type_offset_of C E n
     (Type_Struct (i\<lparr>custom_align := 0, custom_min_field_align := 0, custom_max_field_align := 0\<rparr>) s fs) k \<and>
   type_offset_of demo_target [] 9
     (Type_Struct (demo_struct_info\<lparr>custom_max_field_align := 1\<rparr>) Null
       [(demo_field ''a'', Type_Basic (Fixed Basic_u8)), (demo_field ''b'', Type_Basic (Fixed Basic_u64))]) 1 = Some 8"
proof (intro conjI)
  show "type_align_of C E (Suc n)
     (Type_Struct (i\<lparr>custom_align := 0, custom_min_field_align := 0, custom_max_field_align := 1\<rparr>) s fs) = 1"
    using foldl_max_ge [of 1 "\<lambda>v. type_align_of_internal C E n (snd v)" fs]
    by (simp add: type_align_of_def type_align_from_def align_struct Let_def)
  have "aligned_offsets sf al 1 1 c fs = aligned_offsets sf al 1 0 c fs" for sf al c
    by (induction fs arbitrary: c) (auto simp: Let_def)
  then show "type_offset_of C E n
     (Type_Struct (i\<lparr>custom_align := 0, custom_min_field_align := 0, custom_max_field_align := 1\<rparr>) s fs) k =
   type_offset_of C E n
     (Type_Struct (i\<lparr>custom_align := 0, custom_min_field_align := 0, custom_max_field_align := 0\<rparr>) s fs) k"
    by (simp add: type_offset_of_def struct_offsets_def type_set_offsets_of_def Let_def)
qed code_simp

end
