(* ===== verification/Type_Identity.thy ===== *)
theory Type_Identity
  imports Type_Layout
begin

text \<open>
  Type identity (\<^verbatim>\<open>are_types_identical\<close> and its callers for union variants, \<^verbatim>\<open>src/types.cpp\<close>). The code
  first compares the pointers; here that is equality of the trees, where the recursion would give the
  same answer. Different kinds are told apart by the match on both types. The walk ends because
  types are trees up to names and names are compared, not entered, except for aliases; \<open>n\<close> bounds it.
\<close>

subsection \<open>Identity\<close>

definition are_proc_properties_identical :: "proc_info \<Rightarrow> proc_info \<Rightarrow> bool" where
  "are_proc_properties_identical x y \<longleftrightarrow>
     calling_convention x = calling_convention y \<and> c_vararg x = c_vararg y \<and> variadic x = variadic y \<and>
     diverging x = diverging y \<and> optional_ok x = optional_ok y"

definition strip_alias :: "type_env \<Rightarrow> otype \<Rightarrow> otype" where
  "strip_alias E x =
     (case x of Type_Named e \<Rightarrow> if e < length E \<and> is_type_alias (E ! e) then base_of E e else x | _ \<Rightarrow> x)"

text \<open>\<open>are_types_identical\<close>, given the comparison of two types that are not aliases.\<close>

definition identical_by :: "type_env \<Rightarrow> (otype \<Rightarrow> otype \<Rightarrow> bool) \<Rightarrow> otype \<Rightarrow> otype \<Rightarrow> bool" where
  "identical_by E inner x y =
     (if x = y then True
      else if (x = Null) \<noteq> (y = Null) then False
      else
        let x = strip_alias E x; y = strip_alias E y
        in if x = Null \<or> y = Null then False else inner x y)"

definition fields_identical :: "(otype \<Rightarrow> otype \<Rightarrow> bool) \<Rightarrow> (field \<times> otype) list \<Rightarrow> (field \<times> otype) list \<Rightarrow> bool" where
  "fields_identical eq fs gs =
     list_all2 (\<lambda>(f, a) (g, b). kind f = kind g \<and> eq a b \<and> name f = name g \<and> tag f = tag g \<and> is_subtype f = is_subtype g)
       fs gs"

definition variables_identical ::
  "(otype \<Rightarrow> otype \<Rightarrow> bool) \<Rightarrow> bool \<Rightarrow> (field \<times> otype) list \<Rightarrow> (field \<times> otype) list \<Rightarrow> bool" where
  "variables_identical eq check_tuple_names xs ys =
     list_all2 (\<lambda>(f, a) (g, b). kind f = kind g \<and> eq a b \<and> (check_tuple_names \<longrightarrow> name f = name g) \<and>
         (kind f = Entity_Constant \<longrightarrow> constant_value f = constant_value g)) xs ys"

definition enums_identical :: "(otype \<Rightarrow> otype \<Rightarrow> bool) \<Rightarrow> enum_info \<Rightarrow> otype \<Rightarrow> enum_info \<Rightarrow> otype \<Rightarrow> bool" where
  "enums_identical eq i a j b \<longleftrightarrow>
     length (enum_fields i) = length (enum_fields j) \<and> eq a b \<and>
     min_value_index i = min_value_index j \<and> max_value_index i = max_value_index j \<and>
     list_all2 (\<lambda>f g. name f = name g \<and> constant_value f = constant_value g) (enum_fields i) (enum_fields j)"

definition bit_fields_identical ::
  "(otype \<Rightarrow> otype \<Rightarrow> bool) \<Rightarrow> (field \<times> otype \<times> nat \<times> int) list \<Rightarrow> (field \<times> otype \<times> nat \<times> int) list \<Rightarrow> bool" where
  "bit_fields_identical eq fs gs =
     list_all2 (\<lambda>(f, a, sf, off) (g, b, sg, ofg). eq a b \<and> name f = name g \<and> sf = sg \<and> off = ofg) fs gs"

text \<open>
  One step: \<open>eq\<close> compares component types, \<open>inner\<close> the parameter and result tuples of procedures,
  \<open>alignf\<close> is \<open>type_align_of\<close>.
\<close>

definition identical_step ::
  "type_env \<Rightarrow> (otype \<Rightarrow> int) \<Rightarrow> (otype \<Rightarrow> otype \<Rightarrow> bool) \<Rightarrow> (otype \<Rightarrow> otype \<Rightarrow> bool) \<Rightarrow> bool \<Rightarrow> otype \<Rightarrow> otype \<Rightarrow> bool" where
  "identical_step E alignf eq inner check_tuple_names x y =
     (case x of
        Type_Generic a \<Rightarrow> (case y of Type_Generic b \<Rightarrow> eq a b | _ \<Rightarrow> False)
      | Type_Basic k \<Rightarrow> (case y of Type_Basic l \<Rightarrow> k = l | _ \<Rightarrow> False)
      | Type_EnumeratedArray a i c \<Rightarrow> (case y of Type_EnumeratedArray b j l \<Rightarrow> eq i j \<and> eq a b | _ \<Rightarrow> False)
      | Type_Array a c \<Rightarrow> (case y of Type_Array b l \<Rightarrow> c = l \<and> eq a b | _ \<Rightarrow> False)
      | Type_Matrix a r c m \<Rightarrow> (case y of Type_Matrix b s l k \<Rightarrow> r = s \<and> c = l \<and> m = k \<and> eq a b | _ \<Rightarrow> False)
      | Type_DynamicArray a \<Rightarrow> (case y of Type_DynamicArray b \<Rightarrow> eq a b | _ \<Rightarrow> False)
      | Type_FixedCapacityDynamicArray a c \<Rightarrow>
          (case y of Type_FixedCapacityDynamicArray b l \<Rightarrow> c = l \<and> eq a b | _ \<Rightarrow> False)
      | Type_Slice a \<Rightarrow> (case y of Type_Slice b \<Rightarrow> eq a b | _ \<Rightarrow> False)
      | Type_BitSet a u l h \<Rightarrow>
          (case y of Type_BitSet b v m k \<Rightarrow> eq a b \<and> eq u v \<and> (is_type_enum E a \<or> l = m \<and> h = k) | _ \<Rightarrow> False)
      | Type_Enum i a \<Rightarrow> (case y of Type_Enum j b \<Rightarrow> enums_identical eq i a j b | _ \<Rightarrow> False)
      | Type_Union i vs \<Rightarrow>
          (case y of
             Type_Union j ws \<Rightarrow>
               length vs = length ws \<and> union_kind i = union_kind j \<and>
               (union_custom_align i \<noteq> union_custom_align j \<longrightarrow> alignf x = alignf y) \<and> list_all2 eq vs ws
           | _ \<Rightarrow> False)
      | Type_Struct i s fs \<Rightarrow>
          (case y of
             Type_Struct j r gs \<Rightarrow>
               is_raw_union i = is_raw_union j \<and> length fs = length gs \<and> is_packed i = is_packed j \<and>
               is_all_or_none i = is_all_or_none j \<and> soa_kind i = soa_kind j \<and> soa_count i = soa_count j \<and> eq s r \<and>
               (custom_align i \<noteq> custom_align j \<longrightarrow> alignf x = alignf y) \<and> fields_identical eq fs gs
           | _ \<Rightarrow> False)
      | Type_Pointer a \<Rightarrow> (case y of Type_Pointer b \<Rightarrow> eq a b | _ \<Rightarrow> False)
      | Type_MultiPointer a \<Rightarrow> (case y of Type_MultiPointer b \<Rightarrow> eq a b | _ \<Rightarrow> False)
      | Type_SoaPointer a \<Rightarrow> (case y of Type_SoaPointer b \<Rightarrow> eq a b | _ \<Rightarrow> False)
      | Type_Named e \<Rightarrow> (case y of Type_Named f \<Rightarrow> e = f | _ \<Rightarrow> False)
      | Type_Tuple p xs \<Rightarrow>
          (case y of
             Type_Tuple q ys \<Rightarrow> length xs = length ys \<and> p = q \<and> variables_identical eq check_tuple_names xs ys
           | _ \<Rightarrow> False)
      | Type_Proc i a r \<Rightarrow>
          (case y of Type_Proc j b s \<Rightarrow> are_proc_properties_identical i j \<and> inner a b \<and> inner r s | _ \<Rightarrow> False)
      | Type_Map k v \<Rightarrow> (case y of Type_Map l w \<Rightarrow> eq k l \<and> eq v w | _ \<Rightarrow> False)
      | Type_SimdVector a c \<Rightarrow> (case y of Type_SimdVector b l \<Rightarrow> c = l \<and> eq a b | _ \<Rightarrow> False)
      | Type_BitField a fs \<Rightarrow>
          (case y of Type_BitField b gs \<Rightarrow> eq a b \<and> length fs = length gs \<and> bit_fields_identical eq fs gs | _ \<Rightarrow> False)
      | Null \<Rightarrow> False)"

fun are_types_identical_internal ::
  "build_context \<Rightarrow> type_env \<Rightarrow> nat \<Rightarrow> otype \<Rightarrow> otype \<Rightarrow> bool \<Rightarrow> bool" where
  "are_types_identical_internal C E 0 x y check_tuple_names = (x = y)"
| "are_types_identical_internal C E (Suc n) x y check_tuple_names =
     (if x = y then True
      else if x = Null \<or> y = Null then False
      else identical_step E (type_align_of C E (Suc n))
             (identical_by E (\<lambda>x y. are_types_identical_internal C E n x y False))
             (\<lambda>x y. are_types_identical_internal C E n x y check_tuple_names) check_tuple_names x y)"

definition are_types_identical :: "build_context \<Rightarrow> type_env \<Rightarrow> nat \<Rightarrow> otype \<Rightarrow> otype \<Rightarrow> bool" where
  "are_types_identical C E n = identical_by E (\<lambda>x y. are_types_identical_internal C E n x y False)"

definition are_types_identical_unique_tuples :: "build_context \<Rightarrow> type_env \<Rightarrow> nat \<Rightarrow> otype \<Rightarrow> otype \<Rightarrow> bool" where
  "are_types_identical_unique_tuples C E n = identical_by E (\<lambda>x y. are_types_identical_internal C E n x y True)"

subsection \<open>Variants of a union\<close>

definition union_variant_index_types_equal :: "build_context \<Rightarrow> type_env \<Rightarrow> nat \<Rightarrow> otype \<Rightarrow> otype \<Rightarrow> bool" where
  "union_variant_index_types_equal C E n v vt =
     (if are_types_identical C E n v vt then True
      else if is_type_proc E v \<and> is_type_proc E vt then are_types_identical C E n (base_type E v) (base_type E vt)
      else False)"

fun variant_position :: "(otype \<Rightarrow> bool) \<Rightarrow> otype list \<Rightarrow> nat option" where
  "variant_position p [] = None"
| "variant_position p (vt # vs) = (if p vt then Some 0 else map_option Suc (variant_position p vs))"

text \<open>A missing variant is a panic; it is \<open>None\<close>.\<close>

definition union_variant_index_checked :: "build_context \<Rightarrow> type_env \<Rightarrow> nat \<Rightarrow> otype \<Rightarrow> otype \<Rightarrow> int option" where
  "union_variant_index_checked C E n u v =
     (case base_type E u of
        Type_Union i vs \<Rightarrow>
          (case variant_position (union_variant_index_types_equal C E n v) vs of
             None \<Rightarrow> None
           | Some k \<Rightarrow> Some (if union_kind i = UnionType_no_nil then int k + 0 else int k + 1))
      | _ \<Rightarrow> None)"

definition union_is_variant_of :: "build_context \<Rightarrow> type_env \<Rightarrow> nat \<Rightarrow> otype \<Rightarrow> otype \<Rightarrow> bool option" where
  "union_is_variant_of C E n u v =
     (case base_type E u of
        Type_Union i vs \<Rightarrow> Some (list_ex (union_variant_index_types_equal C E n v) vs)
      | _ \<Rightarrow> None)"

end
