(* ===== verification/Identity_Laws.thy ===== *)
theory Identity_Laws
  imports Type_Identity Layout_Laws
begin

text \<open>
  What one step of the type identity says about the layout: \<open>pair_step_align\<close> and \<open>pair_step_size\<close>
  carry equal sizes and alignments of the components over to the types.
\<close>

text \<open>A step only says yes for two types of the same kind.\<close>

lemma identical_step_simps:
  "\<not> identical_step E al eq inner nm Null y"
  "identical_step E al eq inner nm (Type_Generic a) y \<longleftrightarrow> (\<exists>b. y = Type_Generic b \<and> eq a b)"
  "identical_step E al eq inner nm (Type_Basic k) y \<longleftrightarrow> y = Type_Basic k"
  "identical_step E al eq inner nm (Type_Named e) y \<longleftrightarrow> y = Type_Named e"
  "identical_step E al eq inner nm (Type_EnumeratedArray a i c) y \<longleftrightarrow>
     (\<exists>b j l. y = Type_EnumeratedArray b j l \<and> eq i j \<and> eq a b)"
  "identical_step E al eq inner nm (Type_Array a c) y \<longleftrightarrow> (\<exists>b. y = Type_Array b c \<and> eq a b)"
  "identical_step E al eq inner nm (Type_Matrix a ro c m) y \<longleftrightarrow> (\<exists>b. y = Type_Matrix b ro c m \<and> eq a b)"
  "identical_step E al eq inner nm (Type_DynamicArray a) y \<longleftrightarrow> (\<exists>b. y = Type_DynamicArray b \<and> eq a b)"
  "identical_step E al eq inner nm (Type_FixedCapacityDynamicArray a c) y \<longleftrightarrow>
     (\<exists>b. y = Type_FixedCapacityDynamicArray b c \<and> eq a b)"
  "identical_step E al eq inner nm (Type_Slice a) y \<longleftrightarrow> (\<exists>b. y = Type_Slice b \<and> eq a b)"
  "identical_step E al eq inner nm (Type_BitSet a u lo h) y \<longleftrightarrow>
     (\<exists>b v l' h'. y = Type_BitSet b v l' h' \<and> eq a b \<and> eq u v \<and> (is_type_enum E a \<or> lo = l' \<and> h = h'))"
  "identical_step E al eq inner nm (Type_Enum x a) y \<longleftrightarrow> (\<exists>x' b. y = Type_Enum x' b \<and> enums_identical eq x a x' b)"
  "identical_step E al eq inner nm (Type_Union ui vs) y \<longleftrightarrow>
     (\<exists>uj ws. y = Type_Union uj ws \<and> union_kind ui = union_kind uj \<and>
        (union_custom_align ui \<noteq> union_custom_align uj \<longrightarrow> al (Type_Union ui vs) = al y) \<and> list_all2 eq vs ws)"
  "identical_step E al eq inner nm (Type_Struct si s fs) y \<longleftrightarrow>
     (\<exists>sj r gs. y = Type_Struct sj r gs \<and> is_raw_union si = is_raw_union sj \<and> is_packed si = is_packed sj \<and>
        is_all_or_none si = is_all_or_none sj \<and> soa_kind si = soa_kind sj \<and> soa_count si = soa_count sj \<and> eq s r \<and>
        (custom_align si \<noteq> custom_align sj \<longrightarrow> al (Type_Struct si s fs) = al y) \<and> fields_identical eq fs gs)"
  "identical_step E al eq inner nm (Type_Pointer a) y \<longleftrightarrow> (\<exists>b. y = Type_Pointer b \<and> eq a b)"
  "identical_step E al eq inner nm (Type_MultiPointer a) y \<longleftrightarrow> (\<exists>b. y = Type_MultiPointer b \<and> eq a b)"
  "identical_step E al eq inner nm (Type_SoaPointer a) y \<longleftrightarrow> (\<exists>b. y = Type_SoaPointer b \<and> eq a b)"
  "identical_step E al eq inner nm (Type_Tuple p xs) y \<longleftrightarrow> (\<exists>ys. y = Type_Tuple p ys \<and> variables_identical eq nm xs ys)"
  "identical_step E al eq inner nm (Type_Proc pi a rs) y \<longleftrightarrow>
     (\<exists>pj b ss. y = Type_Proc pj b ss \<and> are_proc_properties_identical pi pj \<and> inner a b \<and> inner rs ss)"
  "identical_step E al eq inner nm (Type_Map a w) y \<longleftrightarrow> (\<exists>b w'. y = Type_Map b w' \<and> eq a b \<and> eq w w')"
  "identical_step E al eq inner nm (Type_SimdVector a c) y \<longleftrightarrow> (\<exists>b. y = Type_SimdVector b c \<and> eq a b)"
  "identical_step E al eq inner nm (Type_BitField a bfs) y \<longleftrightarrow>
     (\<exists>b bgs. y = Type_BitField b bgs \<and> eq a b \<and> bit_fields_identical eq bfs bgs)"
  unfolding identical_step_def fields_identical_def variables_identical_def bit_fields_identical_def
  by (cases y; auto dest: list_all2_lengthD)+

subsection \<open>Identical types have the same layout\<close>

text \<open>
  Types whose layout the identity looks at: no \<^verbatim>\<open>#min_field_align\<close> or \<^verbatim>\<open>#max_field_align\<close>, which it
  ignores, and no counts or bounds that only follow from an index or element type.
\<close>

fun plain_type :: "type_env \<Rightarrow> nat \<Rightarrow> otype \<Rightarrow> bool" where
  "plain_type E 0 t = False"
| "plain_type E (Suc d) t =
     (case t of
        Type_Named e \<Rightarrow> plain_type E d (base_of E e)
      | Type_Array a c \<Rightarrow> plain_type E d a
      | Type_EnumeratedArray a i c \<Rightarrow> False
      | Type_FixedCapacityDynamicArray a c \<Rightarrow> plain_type E d a
      | Type_Struct i s fs \<Rightarrow>
          custom_min_field_align i = 0 \<and> custom_max_field_align i = 0 \<and> list_all (\<lambda>f. plain_type E d (snd f)) fs
      | Type_Union i vs \<Rightarrow> list_all (plain_type E d) vs
      | Type_Enum i b \<Rightarrow> plain_type E d b
      | Type_Tuple p vs \<Rightarrow> list_all (\<lambda>f. plain_type E d (snd f)) vs
      | Type_BitSet a u l h \<Rightarrow> if u = Null then \<not> is_type_enum E a else plain_type E d u
      | Type_SimdVector a c \<Rightarrow> plain_type E d a
      | Type_Matrix a r c m \<Rightarrow> plain_type E d a
      | Type_BitField b fs \<Rightarrow> plain_type E d b
      | _ \<Rightarrow> True)"

lemma plain_type_Suc: "plain_type E d t \<Longrightarrow> plain_type E (Suc d) t"
proof (induction d arbitrary: t)
  case (Suc d)
  have vs: "list_all (plain_type E d) vs \<Longrightarrow> list_all (plain_type E (Suc d)) vs"
    "list_all (\<lambda>f. plain_type E d (snd f)) fs \<Longrightarrow> list_all (\<lambda>f. plain_type E (Suc d) (snd f)) fs" for vs fs
    using Suc(1) by (auto simp: list_all_iff simp del: plain_type.simps)
  show ?case
    using Suc(2) unfolding plain_type.simps(2) [of E "Suc d"] plain_type.simps(2) [of E d t]
    by (cases t) (auto simp: Suc(1) vs simp del: plain_type.simps split: if_splits)
qed simp

definition pair_layout :: "build_context \<Rightarrow> type_env \<Rightarrow> nat \<Rightarrow> otype \<Rightarrow> otype \<Rightarrow> bool" where
  "pair_layout C E k x y \<longleftrightarrow>
     type_size_of_internal C E k x = type_size_of_internal C E k y \<and>
     type_align_of_internal C E k x = type_align_of_internal C E k y"

lemma pair_layout_refl [simp]: "pair_layout C E k x x"
  by (simp add: pair_layout_def)

lemma pair_layout_trans: "pair_layout C E k x y \<Longrightarrow> pair_layout C E k y z \<Longrightarrow> pair_layout C E k x z"
  by (simp add: pair_layout_def)

lemma pair_layout_sym: "pair_layout C E k x y \<Longrightarrow> pair_layout C E k y x"
  by (simp add: pair_layout_def)

text \<open>Taking off an alias does not change the layout.\<close>

lemma strip_alias_layout:
  assumes wf: "wf_type E d x" and pl: "plain_type E d x"
  shows "wf_type E d (strip_alias E x)" "plain_type E d (strip_alias E x)"
    "3 * d \<le> k \<Longrightarrow> pair_layout C E k x (strip_alias E x)"
proof -
  have "wf_type E d (strip_alias E x) \<and> plain_type E d (strip_alias E x) \<and>
    (3 * d \<le> k \<longrightarrow> pair_layout C E k x (strip_alias E x))"
  proof (cases "strip_alias E x = x")
    case False
    then obtain e where x: "x = Type_Named e" "strip_alias E x = base_of E e"
      by (cases x) (auto simp: strip_alias_def split: if_splits)
    obtain d' where d: "d = Suc d'" using wf by (cases d) auto
    have b: "wf_type E d' (base_of E e)" "plain_type E d' (base_of E e)" "base_type E x = base_type E (base_of E e)"
      using wf pl by (simp_all add: x d)
    have "pair_layout C E k x (base_of E e)" if k: "3 * d \<le> k"
    proof -
      obtain m where m: "k = Suc m" "3 * d' \<le> m" using k d by (cases k) auto
      have "same_layout C E m k (base_of E e)" by (rule layout_stable [OF b(1)]) (use m in auto)
      moreover have "type_align_of_internal C E k x = type_align_of_internal C E k (base_of E e)"
        by (metis align_base_type b(3))
      ultimately show ?thesis by (simp add: pair_layout_def same_layout_def m x size_eqs)
    qed
    with b show ?thesis
      unfolding x(2) d by (simp add: wf_type_Suc plain_type_Suc del: wf_type.simps plain_type.simps)
  qed (use wf pl in simp)
  then show "wf_type E d (strip_alias E x)" "plain_type E d (strip_alias E x)"
    "3 * d \<le> k \<Longrightarrow> pair_layout C E k x (strip_alias E x)" by blast+
qed

text \<open>Lists of components that correspond to each other.\<close>

lemma foldl_max_list_all2:
  "list_all2 (\<lambda>v w. f v = g w) vs ws \<Longrightarrow>
   foldl (\<lambda>m v. max m (f v)) (m0 :: int) vs = foldl (\<lambda>m w. max m (g w)) m0 ws"
proof (induction vs arbitrary: ws m0)
  case (Cons v vs)
  then obtain w ws' where ws: "ws = w # ws'" "f v = g w" "list_all2 (\<lambda>v w. f v = g w) vs ws'"
    by (auto simp: list_all2_Cons1)
  then show ?case using Cons.IH [OF ws(3), of "max m0 (f v)"] by simp
qed simp

lemma packed_offsets_list_all2:
  "list_all2 (\<lambda>v w. kind (fst v) = kind (fst w) \<and> s (snd v) = s (snd w)) fs gs \<Longrightarrow>
   packed_offsets s c fs = packed_offsets s c gs"
proof (induction fs arbitrary: gs c)
  case (Cons v fs)
  then obtain w gs' where "gs = w # gs'" "kind (fst v) = kind (fst w)" "s (snd v) = s (snd w)"
    "list_all2 (\<lambda>v w. kind (fst v) = kind (fst w) \<and> s (snd v) = s (snd w)) fs gs'"
    by (auto simp: list_all2_Cons1)
  then show ?case using Cons.IH by (cases v; cases w) simp
qed simp

lemma aligned_offsets_list_all2:
  "list_all2 (\<lambda>v w. kind (fst v) = kind (fst w) \<and> s (snd v) = s (snd w) \<and> a (snd v) = a (snd w)) fs gs \<Longrightarrow>
   aligned_offsets s a lo hi c fs = aligned_offsets s a lo hi c gs"
proof (induction fs arbitrary: gs c)
  case (Cons v fs)
  then obtain w gs' where "gs = w # gs'" "kind (fst v) = kind (fst w)" "s (snd v) = s (snd w)" "a (snd v) = a (snd w)"
    "list_all2 (\<lambda>v w. kind (fst v) = kind (fst w) \<and> s (snd v) = s (snd w) \<and> a (snd v) = a (snd w)) fs gs'"
    by (auto simp: list_all2_Cons1)
  then show ?case using Cons.IH by (cases v; cases w) (simp add: Let_def)
qed simp

lemma type_set_offsets_list_all2:
  assumes "list_all2 (\<lambda>v w. kind (fst v) = kind (fst w) \<and> s (snd v) = s (snd w) \<and> a (snd v) = a (snd w)) fs gs"
  shows "type_set_offsets_of s a fs p r lo hi = type_set_offsets_of s a gs p r lo hi"
proof -
  have "list_all2 (\<lambda>v w. kind (fst v) = kind (fst w) \<and> s (snd v) = s (snd w)) fs gs"
    using assms by (rule list_all2_mono) simp
  moreover have "map (\<lambda>_. 0 :: int) fs = map (\<lambda>_. 0) gs" using list_all2_lengthD [OF assms] by (simp add: map_replicate_const)
  ultimately show ?thesis
    using packed_offsets_list_all2 aligned_offsets_list_all2 [OF assms] by (simp add: type_set_offsets_of_def Let_def)
qed

lemma foldl_max_start:
  "(1::int) \<le> b \<Longrightarrow> foldl (\<lambda>m v. max m (f v)) b vs = max b (foldl (\<lambda>m v. max m (f v)) 1 vs)"
proof (induction vs arbitrary: b)
  case (Cons v vs)
  have "foldl (\<lambda>m v. max m (f v)) (max c (f v)) vs = max (max c (f v)) (foldl (\<lambda>m v. max m (f v)) 1 vs)" if "1 \<le> c" for c
    using Cons.IH [of "max c (f v)"] that by simp
  from this [of b] this [of 1] Cons.prems foldl_max_ge [of 1 f vs] show ?case
    by (auto simp: max_def)
qed simp

text \<open>The tag of a union only depends on its alignment and the number of its variants.\<close>

lemma union_tag_of_align:
  assumes "vs \<noteq> []" and "align_opt (union_custom_align i)" and "\<And>v. v \<in> set vs \<Longrightarrow> type_align_from a v = a v"
  shows "union_tag_size_from C a i vs =
    min (min (max (if length vs < 2 ^ 8 then 1 else if length vs < 2 ^ 16 then 2 else 4)
      (if union_custom_align i > 0 then max (union_custom_align i) 1 else foldl (\<lambda>m v. max m (a v)) 1 vs)) (max_align C)) 8"
proof -
  have "foldl (\<lambda>m v. max m (type_align_from a v)) b vs = foldl (\<lambda>m v. max m (a v)) b vs" for b
    by (rule foldl_max_cong) (rule assms(3))
  then have F: "foldl (\<lambda>m v. max m (type_align_from a v)) b vs = max b (foldl (\<lambda>m v. max m (a v)) 1 vs)" if "1 \<le> b" for b
    using foldl_max_start [OF that] by simp
  define F where "F = foldl (\<lambda>m v. max m (a v)) 1 vs"
  show ?thesis
    using assms(1) by (simp add: union_tag_size_from_def Let_def F F_def [symmetric])
qed

lemma pair_layoutD:
  "pair_layout C E k x y \<Longrightarrow> type_size_of_internal C E k x = type_size_of_internal C E k y"
  "pair_layout C E k x y \<Longrightarrow> type_align_of_internal C E k x = type_align_of_internal C E k y"
  by (simp_all add: pair_layout_def)

text \<open>Fields or variables that correspond to each other have the same kinds, sizes and alignments.\<close>

lemma components_pair:
  assumes st: "list_all2 P fs gs" and P: "\<And>v w. P v w \<Longrightarrow> kind (fst v) = kind (fst w) \<and> eq (snd v) (snd w)"
    and wf: "list_all (\<lambda>(f, ft). kind f = Entity_Variable \<and> wf_type E d ft) fs"
      "list_all (\<lambda>(f, ft). kind f = Entity_Variable \<and> wf_type E d ft) gs"
    and pl: "list_all (\<lambda>f. plain_type E d (snd f)) fs" "list_all (\<lambda>f. plain_type E d (snd f)) gs"
    and eq: "\<And>a b. eq a b \<Longrightarrow> wf_type E d a \<Longrightarrow> wf_type E d b \<Longrightarrow> plain_type E d a \<Longrightarrow> plain_type E d b \<Longrightarrow>
        pair_layout C E k a b"
  shows "list_all2 (\<lambda>v w. kind (fst v) = kind (fst w) \<and>
    type_size_of_internal C E k (snd v) = type_size_of_internal C E k (snd w) \<and>
    type_align_of_internal C E k (snd v) = type_align_of_internal C E k (snd w)) fs gs"
  using st
proof (rule list.rel_mono_strong)
  fix v w
  assume vw: "v \<in> set fs" "w \<in> set gs" "P v w"
  then have "pair_layout C E k (snd v) (snd w)"
    using P [OF vw(3)] wf pl by (intro eq) (auto simp: list_all_iff split_beta)
  with P [OF vw(3)] show "kind (fst v) = kind (fst w) \<and>
    type_size_of_internal C E k (snd v) = type_size_of_internal C E k (snd w) \<and>
    type_align_of_internal C E k (snd v) = type_align_of_internal C E k (snd w)"
    by (simp add: pair_layout_def)
qed

lemma variants_pair:
  assumes "list_all2 eq vs ws" and "list_all (wf_type E d) vs" "list_all (wf_type E d) ws"
    and "list_all (plain_type E d) vs" "list_all (plain_type E d) ws"
    and eq: "\<And>a b. eq a b \<Longrightarrow> wf_type E d a \<Longrightarrow> wf_type E d b \<Longrightarrow> plain_type E d a \<Longrightarrow> plain_type E d b \<Longrightarrow>
        pair_layout C E k a b"
  shows "list_all2 (pair_layout C E k) vs ws"
  using assms(1) by (rule list.rel_mono_strong) (use assms in \<open>auto simp: list_all_iff\<close>)

lemma pair_step_align:
  assumes st: "identical_step E al eq inner nm x y"
    and wf: "wf_type E (Suc d) x" "wf_type E (Suc d) y" and pl: "plain_type E (Suc d) x" "plain_type E (Suc d) y"
    and eq: "\<And>a b k. eq a b \<Longrightarrow> wf_type E d a \<Longrightarrow> wf_type E d b \<Longrightarrow> plain_type E d a \<Longrightarrow> plain_type E d b \<Longrightarrow>
        3 * d \<le> k \<Longrightarrow> pair_layout C E k a b"
    and eqN: "\<And>a b. eq a b \<Longrightarrow> a = Null \<longleftrightarrow> b = Null"
    and al: "al x = al y \<Longrightarrow> type_align_of_internal C E (Suc k) x = type_align_of_internal C E (Suc k) y"
    and k: "3 * d < k"
  shows "type_align_of_internal C E (Suc k) x = type_align_of_internal C E (Suc k) y"
proof -
  obtain m where m: "k = Suc m" "3 * d \<le> m" using k by (cases k) auto
  have pk: "type_align_of_internal C E k a = type_align_of_internal C E k b"
    if "eq a b" "wf_type E d a" "wf_type E d b" "plain_type E d a" "plain_type E d b" for a b
    using eq [OF that, of k] k by (simp add: pair_layout_def)
  show ?thesis
  proof (cases x)
    case (Type_Struct i s fs)
    with st obtain j r gs where y: "y = Type_Struct j r gs" "is_packed i = is_packed j"
      "custom_align i \<noteq> custom_align j \<longrightarrow> al x = al y" "fields_identical eq fs gs"
      by (auto simp: identical_step_simps)
    have "list_all2 (\<lambda>v w. type_align_of_internal C E k (snd v) = type_align_of_internal C E k (snd w)) fs gs"
      by (rule list_all2_mono [OF components_pair [where eq = eq and d = d and k = k and C = C, OF y(4) [unfolded fields_identical_def]]])
        (use wf pl k eq in \<open>auto simp: Type_Struct y(1)\<close>)
    from foldl_max_list_all2 [OF this, of 1] show ?thesis
      using y(2,3) al pl by (cases "custom_align i = custom_align j") (simp_all add: Type_Struct y(1) align_struct)
  next
    case (Type_Union i vs)
    with st obtain j ws where y: "y = Type_Union j ws"
      "union_custom_align i \<noteq> union_custom_align j \<longrightarrow> al x = al y" "list_all2 eq vs ws"
      by (auto simp: identical_step_simps)
    have "list_all2 (\<lambda>v w. type_align_of_internal C E k v = type_align_of_internal C E k w) vs ws"
      by (rule list_all2_mono [OF variants_pair [where k = k and C = C, OF y(3)]]) (use wf pl k eq in \<open>auto simp: Type_Union y(1) pair_layout_def\<close>)
    from foldl_max_list_all2 [OF this, of 1] list_all2_lengthD [OF this] show ?thesis
      using y(2) al by (cases "union_custom_align i = union_custom_align j") (auto simp: Type_Union y(1) align_union)
  next
    case (Type_Tuple p xs)
    with st obtain ys where y: "y = Type_Tuple p ys" "variables_identical eq nm xs ys" by (auto simp: identical_step_simps)
    have "list_all2 (\<lambda>v w. type_align_of_internal C E k (snd v) = type_align_of_internal C E k (snd w)) xs ys"
      by (rule list_all2_mono [OF components_pair [where eq = eq and d = d and k = k and C = C, OF y(2) [unfolded variables_identical_def]]])
        (use wf pl k eq in \<open>auto simp: Type_Tuple y(1)\<close>)
    from foldl_max_list_all2 [OF this, of 1] show ?thesis by (simp add: Type_Tuple y(1) align_tuple)
  next
    case (Type_SimdVector a c)
    with st obtain b where y: "y = Type_SimdVector b c" "eq a b" by (auto simp: identical_step_simps)
    have "pair_layout C E m a b" by (rule eq [OF y(2)]) (use wf pl m y in \<open>auto simp: Type_SimdVector\<close>)
    then show ?thesis by (simp add: Type_SimdVector y(1) align_eqs size_eqs m(1) pair_layout_def)
  next
    case (Type_BitSet a u l h)
    with st obtain b v l' h' where y: "y = Type_BitSet b v l' h'" "eq a b" "eq u v" "is_type_enum E a \<or> l = l' \<and> h = h'"
      by (auto simp: identical_step_simps)
    show ?thesis
    proof (cases "u = Null")
      case True
      with eqN [OF y(3)] y(4) pl show ?thesis by (auto simp: Type_BitSet y(1) align_eqs)
    next
      case False
      have "pair_layout C E k u v" by (rule eq [OF y(3)]) (use wf pl k y False eqN [OF y(3)] in \<open>auto simp: Type_BitSet\<close>)
      with False eqN [OF y(3)] show ?thesis by (simp add: Type_BitSet y(1) align_eqs type_align_from_def pair_layout_def)
    qed
  next
    case (Type_Matrix a r c mj)
    with st obtain b where y: "y = Type_Matrix b r c mj" "eq a b" by (auto simp: identical_step_simps)
    have ab: "wf_type E d a" "wf_type E d b" "pair_layout C E k a b"
      using wf eq [OF y(2)] pl k by (auto simp: Type_Matrix y(1))
    then show ?thesis using k
      by (simp add: Type_Matrix y(1) align_eqs matrix_align_from_def pair_layout_def type_size_from_eq)
  next
    case (Type_Enum i a)
    with st obtain j b where y: "y = Type_Enum j b" "eq a b" by (auto simp: identical_step_simps enums_identical_def)
    with wf pl show ?thesis by (simp add: Type_Enum align_eqs pk)
  next
    case (Type_FixedCapacityDynamicArray a c)
    with st obtain b where y: "y = Type_FixedCapacityDynamicArray b c" "eq a b" by (auto simp: identical_step_simps)
    with wf pl show ?thesis using pk [of a b] by (simp add: Type_FixedCapacityDynamicArray align_eqs)
  qed (use st wf pl k in \<open>auto simp: identical_step_simps align_eqs align_basic size_eqs m(1) intro: pk [unfolded m(1)]\<close>)
qed

lemma list_all2_last: "list_all2 P xs ys \<Longrightarrow> xs \<noteq> [] \<Longrightarrow> P (last xs) (last ys)"
  by (induction xs ys rule: list_all2_induct) auto

lemma pair_step_size:
  assumes st: "identical_step E al eq inner nm x y"
    and wf: "wf_type E (Suc d) x" "wf_type E (Suc d) y" and pl: "plain_type E (Suc d) x" "plain_type E (Suc d) y"
    and eq: "\<And>a b. eq a b \<Longrightarrow> wf_type E d a \<Longrightarrow> wf_type E d b \<Longrightarrow> plain_type E d a \<Longrightarrow> plain_type E d b \<Longrightarrow>
        pair_layout C E k a b"
    and eqN: "\<And>a b. eq a b \<Longrightarrow> a = Null \<longleftrightarrow> b = Null"
    and mp: "is_type_union_maybe_pointer E x = is_type_union_maybe_pointer E y"
    and al: "type_align_of_internal C E k x = type_align_of_internal C E k y"
      "type_align_of_internal C E (Suc k) x = type_align_of_internal C E (Suc k) y"
    and k: "3 * d \<le> k"
  shows "type_size_of_internal C E (Suc k) x = type_size_of_internal C E (Suc k) y"
proof -
  have pk: "type_size_of_internal C E k a = type_size_of_internal C E k b"
      "type_align_of_internal C E k a = type_align_of_internal C E k b"
    if "eq a b" "wf_type E d a" "wf_type E d b" "plain_type E d a" "plain_type E d b" for a b
    using eq [OF that] by (simp_all add: pair_layout_def)
  show ?thesis
  proof (cases x)
    case (Type_Struct i s fs)
    with st obtain j r gs where y: "y = Type_Struct j r gs" "is_packed i = is_packed j" "is_raw_union i = is_raw_union j"
      "fields_identical eq fs gs"
      by (auto simp: identical_step_simps)
    have fg: "list_all2 (\<lambda>v w. kind (fst v) = kind (fst w) \<and>
      type_size_of_internal C E k (snd v) = type_size_of_internal C E k (snd w) \<and>
      type_align_of_internal C E k (snd v) = type_align_of_internal C E k (snd w)) fs gs"
      by (rule components_pair [where eq = eq and d = d and k = k and C = C, OF y(4) [unfolded fields_identical_def]])
        (use wf pl eq in \<open>auto simp: Type_Struct y(1)\<close>)
    have off: "struct_offsets (type_size_of_internal C E k) (type_align_of_internal C E k) i fs =
        struct_offsets (type_size_of_internal C E k) (type_align_of_internal C E k) j gs"
      using type_set_offsets_list_all2 [OF fg] pl y by (simp add: struct_offsets_def Type_Struct)
    have mx: "foldl (\<lambda>m v. max m (type_size_of_internal C E k (snd v))) 0 fs =
        foldl (\<lambda>m v. max m (type_size_of_internal C E k (snd v))) 0 gs"
      by (rule foldl_max_list_all2 [OF list_all2_mono [OF fg]]) simp
    have "fs \<noteq> [] \<Longrightarrow> type_size_of_internal C E k (snd (last fs)) = type_size_of_internal C E k (snd (last gs))"
      using list_all2_last [OF fg] by simp
    moreover have "fs = [] \<longleftrightarrow> gs = []" using list_all2_lengthD [OF fg] by auto
    ultimately show ?thesis
      using off mx al(1) y(3) by (simp add: Type_Struct y(1) size_struct)
  next
    case (Type_Tuple p fs)
    with st obtain gs where y: "y = Type_Tuple p gs" "variables_identical eq nm fs gs" by (auto simp: identical_step_simps)
    have fg: "list_all2 (\<lambda>v w. kind (fst v) = kind (fst w) \<and>
      type_size_of_internal C E k (snd v) = type_size_of_internal C E k (snd w) \<and>
      type_align_of_internal C E k (snd v) = type_align_of_internal C E k (snd w)) fs gs"
      by (rule components_pair [where eq = eq and d = d and k = k and C = C, OF y(2) [unfolded variables_identical_def]])
        (use wf pl eq in \<open>auto simp: Type_Tuple y(1)\<close>)
    have off: "tuple_offsets (type_size_of_internal C E k) (type_align_of_internal C E k) p fs =
        tuple_offsets (type_size_of_internal C E k) (type_align_of_internal C E k) p gs"
      using type_set_offsets_list_all2 [OF fg] by (simp add: tuple_offsets_def)
    have "fs \<noteq> [] \<Longrightarrow> type_size_of_internal C E k (snd (last fs)) = type_size_of_internal C E k (snd (last gs))"
      using list_all2_last [OF fg] by simp
    moreover have "fs = [] \<longleftrightarrow> gs = []" using list_all2_lengthD [OF fg] by auto
    ultimately show ?thesis using off al(1) by (simp add: Type_Tuple y(1) size_tuple)
  next
    case (Type_Union i vs)
    with st obtain j ws where y: "y = Type_Union j ws" "list_all2 eq vs ws" by (auto simp: identical_step_simps)
    have fg: "list_all2 (pair_layout C E k) vs ws"
      by (rule variants_pair [where k = k and C = C, OF y(2)]) (use wf pl eq in \<open>auto simp: Type_Union y(1)\<close>)
    have mx: "union_payload (type_size_of_internal C E k) vs = union_payload (type_size_of_internal C E k) ws"
      unfolding union_payload_def
      by (rule foldl_max_list_all2 [OF list_all2_mono [OF fg]]) (simp add: pair_layout_def)
    have len: "length vs = length ws" using fg by (rule list_all2_lengthD)
    have "union_tag_size_from C (type_align_of_internal C E k) i vs = union_tag_size_from C (type_align_of_internal C E k) j ws"
    proof (cases "vs = []")
      case False
      then have "ws \<noteq> []" using len by auto
      have a: "type_align_from (type_align_of_internal C E k) v = type_align_of_internal C E k v" if "v \<in> set vs \<union> set ws" for v
        using that wf by (auto simp: Type_Union y(1) list_all_iff intro: type_align_from_eq)
      have X: "(if union_custom_align i > 0 then max (union_custom_align i) 1
          else foldl (\<lambda>m v. max m (type_align_of_internal C E k v)) 1 vs) =
        (if union_custom_align j > 0 then max (union_custom_align j) 1
          else foldl (\<lambda>m v. max m (type_align_of_internal C E k v)) 1 ws)"
        using al(2) False \<open>ws \<noteq> []\<close> by (simp only: Type_Union y(1) align_union if_False)
      have tag: "union_tag_size_from C (type_align_of_internal C E k) u us =
          min (min (max (if length us < 2 ^ 8 then 1 else if length us < 2 ^ 16 then 2 else 4)
            (if union_custom_align u > 0 then max (union_custom_align u) 1
             else foldl (\<lambda>m v. max m (type_align_of_internal C E k v)) 1 us)) (max_align C)) 8"
        if "us \<noteq> []" "wf_type E (Suc d) (Type_Union u us)" "set us \<subseteq> set vs \<union> set ws" for u us
        by (rule union_tag_of_align [OF that(1)]) (use that a in \<open>auto\<close>)
      show ?thesis
        unfolding tag [OF False wf(1) [unfolded Type_Union] Un_upper1]
          tag [OF \<open>ws \<noteq> []\<close> wf(2) [unfolded y(1)] Un_upper2] X len ..
    qed (use len in \<open>simp add: union_tag_size_from_def\<close>)
    moreover have "vs = [] \<longleftrightarrow> ws = []" using len by auto
    ultimately show ?thesis using mx al(1) mp
      by (cases "vs = []") (simp_all add: Type_Union y(1) size_union Let_def)
  next
    case (Type_BitSet a u l h)
    with st obtain b v l' h' where y: "y = Type_BitSet b v l' h'" "eq u v" "is_type_enum E a \<or> l = l' \<and> h = h'"
      by (auto simp: identical_step_simps)
    show ?thesis
    proof (cases "u = Null")
      case True
      with eqN [OF y(2)] y(3) pl show ?thesis by (auto simp: Type_BitSet y(1) size_eqs)
    next
      case False
      then have "wf_type E d u" "wf_type E d v" "type_size_of_internal C E k u = type_size_of_internal C E k v"
        using pk(1) [OF y(2)] wf pl eqN [OF y(2)] by (simp_all add: Type_BitSet y(1))
      with False eqN [OF y(2)] k show ?thesis by (simp add: Type_BitSet y(1) size_eqs type_size_from_eq)
    qed
  next
    case (Type_FixedCapacityDynamicArray a c)
    with st obtain b where y: "y = Type_FixedCapacityDynamicArray b c" "eq a b" by (auto simp: identical_step_simps)
    then have ab: "wf_type E d a" "wf_type E d b" using wf by (simp_all add: Type_FixedCapacityDynamicArray)
    with y pl show ?thesis using pk [of a b] type_size_from_eq [OF ab(1) k, of C] type_size_from_eq [OF ab(2) k, of C]
      by (simp add: Type_FixedCapacityDynamicArray size_array)
  next
    case (Type_Array a c)
    with st obtain b where y: "y = Type_Array b c" "eq a b" by (auto simp: identical_step_simps)
    with wf pl show ?thesis using pk [of a b] by (simp add: Type_Array size_array)
  next
    case (Type_Matrix a r c m)
    with st obtain b where y: "y = Type_Matrix b r c m" "eq a b" by (auto simp: identical_step_simps)
    with wf pl show ?thesis using pk [of a b] by (simp add: Type_Matrix size_eqs)
  next
    case (Type_SimdVector a c)
    with st obtain b where y: "y = Type_SimdVector b c" "eq a b" by (auto simp: identical_step_simps)
    with wf pl show ?thesis using pk [of a b] by (simp add: Type_SimdVector size_eqs)
  next
    case (Type_Enum i a)
    with st obtain j b where y: "y = Type_Enum j b" "eq a b" by (auto simp: identical_step_simps enums_identical_def)
    with wf pl show ?thesis using pk [of a b] by (simp add: Type_Enum size_eqs)
  qed (use st wf pl in \<open>auto simp: identical_step_simps size_eqs intro: pk\<close>)
qed


text \<open>Identical types agree on everything the layout of a union asks of a variant.\<close>

lemma internal_pointer_like:
  "are_types_identical_internal C E n x y nm \<Longrightarrow>
   is_type_internally_pointer_like E x = is_type_internally_pointer_like E y"
  by (cases n; cases x)
    (auto simp: identical_step_simps is_type_internally_pointer_like_def is_type_pointer_def is_type_multi_pointer_def
      is_type_cstring_def is_type_cstring16_def is_type_proc_def split: if_splits)

lemma strip_alias_base: "wf_type E d x \<Longrightarrow> base_type E (strip_alias E x) = base_type E x"
  by (cases d; cases x) (auto simp: strip_alias_def)

lemma pointer_like_base: "base_type E x = base_type E y \<Longrightarrow>
   is_type_internally_pointer_like E x = is_type_internally_pointer_like E y"
  by (simp add: is_type_internally_pointer_like_def is_type_pointer_def is_type_multi_pointer_def
      is_type_cstring_def is_type_cstring16_def is_type_proc_def)

lemma identical_pointer_like:
  assumes "identical_by E (\<lambda>x y. are_types_identical_internal C E n x y nm) x y" and "wf_type E d x" and "wf_type E d y"
  shows "is_type_internally_pointer_like E x = is_type_internally_pointer_like E y"
  using assms(1) internal_pointer_like [of C E n "strip_alias E x" "strip_alias E y" nm]
    pointer_like_base [OF strip_alias_base [OF assms(2)]] pointer_like_base [OF strip_alias_base [OF assms(3)]]
  by (auto simp: identical_by_def Let_def split: if_splits)

lemma identical_maybe_pointer:
  assumes st: "identical_step E al (identical_by E (\<lambda>x y. are_types_identical_internal C E n x y False)) inner nm x y"
    and wf: "wf_type E (Suc d) x" "wf_type E (Suc d) y"
  shows "is_type_union_maybe_pointer E x = is_type_union_maybe_pointer E y"
proof (cases x)
  case (Type_Union i vs)
  with st obtain j ws where y: "y = Type_Union j ws"
    "list_all2 (identical_by E (\<lambda>x y. are_types_identical_internal C E n x y False)) vs ws"
    by (auto simp: identical_step_simps)
  show ?thesis
  proof (cases vs)
    case (Cons v vs')
    with y(2) obtain w ws' where w: "ws = w # ws'"
      "identical_by E (\<lambda>x y. are_types_identical_internal C E n x y False) v w" "length vs' = length ws'"
      by (auto simp: list_all2_Cons1 dest: list_all2_lengthD)
    have "is_type_internally_pointer_like E v = is_type_internally_pointer_like E w"
      by (rule identical_pointer_like [OF w(2), of d]) (use wf in \<open>simp_all add: Type_Union y(1) Cons w(1)\<close>)
    with w(3) show ?thesis
      by (cases vs'; cases ws') (simp_all add: is_type_union_maybe_pointer_def Type_Union y(1) Cons w(1))
  qed (use y(2) in \<open>simp add: is_type_union_maybe_pointer_def Type_Union y(1)\<close>)
next
  case (Type_Named e)
  then show ?thesis using st by (simp add: identical_step_simps)
qed (use st in \<open>auto simp: identical_step_simps is_type_union_maybe_pointer_def\<close>)

end
