(* ===== verification/Identity_Properties.thy ===== *)
theory Identity_Properties
  imports Identity_Laws Layout_Properties
begin

text \<open>
  Properties of the type identity: identical types have one layout, with the exception the code
  makes; it is symmetric; and the index it gives the variants of a union fits the tag.
\<close>

lemma identical_null: "identical_by E inner a b \<Longrightarrow> a = Null \<longleftrightarrow> b = Null"
  by (auto simp: identical_by_def split: if_splits)

lemma internal_layout:
  "wf_type E d x \<Longrightarrow> wf_type E d y \<Longrightarrow> plain_type E d x \<Longrightarrow> plain_type E d y \<Longrightarrow> 3 * d \<le> n \<Longrightarrow>
   are_types_identical_internal C E n x y nm \<Longrightarrow> 3 * d \<le> k \<Longrightarrow> pair_layout C E k x y"
proof (induction d arbitrary: x y n nm k)
  case (Suc d)
  obtain n' where n: "n = Suc n'" "3 * d \<le> n'" using Suc.prems(5) by (cases n) auto
  let ?eq = "identical_by E (\<lambda>x y. are_types_identical_internal C E n' x y False)"
  show ?case
  proof (cases "x = y")
    case False
    with Suc.prems(6) have st: "identical_step E (type_align_of C E (Suc n')) ?eq
        (\<lambda>x y. are_types_identical_internal C E n' x y nm) nm x y"
      by (simp add: n(1) split: if_splits)
    have eq: "pair_layout C E k a b"
      if "?eq a b" "wf_type E d a" "wf_type E d b" "plain_type E d a" "plain_type E d b" "3 * d \<le> k" for a b k
    proof (cases "a = b")
      case False
      with that(1) have "are_types_identical_internal C E n' (strip_alias E a) (strip_alias E b) False"
        by (simp add: identical_by_def Let_def split: if_splits)
      then have "pair_layout C E k (strip_alias E a) (strip_alias E b)"
        using strip_alias_layout that n(2) by (intro Suc.IH) auto
      with strip_alias_layout(3) [OF that(2,4,6), of C] strip_alias_layout(3) [OF that(3,5,6), of C] show ?thesis
        by (simp add: pair_layout_def)
    qed simp
    have al: "type_align_of_internal C E k x = type_align_of_internal C E k y" if k: "3 * Suc d \<le> k" for k
    proof -
      obtain m where m: "k = Suc m" "3 * d < m" using k by (cases k) auto
      have sx: "same_layout C E (Suc n') k x" "same_layout C E (Suc n') k y"
        using Suc.prems(5) k by (auto intro: layout_stable [OF Suc.prems(1)] layout_stable [OF Suc.prems(2)] simp: n(1))
      show ?thesis unfolding m(1)
        by (rule pair_step_align [OF st Suc.prems(1-4) eq identical_null])
          (use sx m Suc.prems(1,2) in \<open>simp_all add: same_layout_def type_align_of_eq\<close>)
    qed
    have "type_size_of_internal C E (Suc k) x = type_size_of_internal C E (Suc k) y"
      by (rule pair_step_size [OF st Suc.prems(1-4) eq identical_null identical_maybe_pointer [OF st Suc.prems(1,2)]])
        (use al Suc.prems(7) in simp_all)
    moreover have "same_layout C E k (Suc k) x" "same_layout C E k (Suc k) y"
      using Suc.prems(7) by (auto intro: layout_stable [OF Suc.prems(1)] layout_stable [OF Suc.prems(2)])
    ultimately show ?thesis using al [OF Suc.prems(7)] by (simp add: pair_layout_def same_layout_def)
  qed simp
qed simp


text \<open>An array of a struct and an array of an alias of it.\<close>

definition alias_env :: type_env where
  "alias_env = [\<lparr>named_base = Type_Struct demo_struct_info Null demo_fields, is_type_alias = False\<rparr>,
     \<lparr>named_base = Type_Named 0, is_type_alias = True\<rparr>]"

lemma alias_env_base:
  "base_of alias_env 0 = Type_Struct demo_struct_info Null demo_fields" "base_of alias_env (Suc 0) = Type_Named 0"
  "length alias_env = 2"
  by (simp_all add: base_of_def alias_env_def)

lemma alias_env_wf:
  "wf_type alias_env (Suc (Suc (Suc (Suc (Suc (Suc 0)))))) (Type_Array (Type_Named (Suc 0)) 5)"
  "wf_type alias_env (Suc (Suc (Suc (Suc (Suc (Suc 0)))))) (Type_Array (Type_Named 0) 5)"
  "plain_type alias_env (Suc (Suc (Suc (Suc (Suc (Suc 0)))))) (Type_Array (Type_Named (Suc 0)) 5)"
  "plain_type alias_env (Suc (Suc (Suc (Suc (Suc (Suc 0)))))) (Type_Array (Type_Named 0) 5)"
  by (simp_all add: base_type_def alias_env_base align_opt_def demo_struct_info_def demo_fields_def demo_field_def
      basic_table_defs basic_flag_defs)




subsection \<open>Symmetry\<close>

text \<open>Names whose base can be reached, as the checker leaves them.\<close>

definition env_ok :: "type_env \<Rightarrow> bool" where
  "env_ok E \<longleftrightarrow> list_all (\<lambda>e. base_type E (Type_Named e) = base_type E (base_of E e)) [0..<length E]"

lemma env_ok_strip: "env_ok E \<Longrightarrow> base_type E (strip_alias E x) = base_type E x"
  by (cases x) (auto simp: strip_alias_def env_ok_def list_all_iff)

lemma internal_is_enum: "are_types_identical_internal C E n x y nm \<Longrightarrow> is_type_enum E x = is_type_enum E y"
  by (cases n; cases x) (auto simp: identical_step_simps is_type_enum_def split: if_splits)

lemma identical_is_enum:
  assumes "identical_by E (\<lambda>x y. are_types_identical_internal C E n x y nm) x y" and "env_ok E"
  shows "is_type_enum E x = is_type_enum E y"
  using assms(1) internal_is_enum [of C E n "strip_alias E x" "strip_alias E y" nm]
    env_ok_strip [OF assms(2), of x] env_ok_strip [OF assms(2), of y]
  by (auto simp: identical_by_def is_type_enum_def Let_def split: if_splits)

lemma list_all2_sym: "list_all2 P xs ys \<Longrightarrow> (\<And>x y. P x y \<Longrightarrow> Q y x) \<Longrightarrow> list_all2 Q ys xs"
  by (auto simp: list_all2_conv_all_nth)

lemma component_lists_sym:
  assumes "\<And>a b. eq a b \<Longrightarrow> eq b a"
  shows "fields_identical eq fs gs \<Longrightarrow> fields_identical eq gs fs"
    "variables_identical eq nm xs ys \<Longrightarrow> variables_identical eq nm ys xs"
    "enums_identical eq i a j b \<Longrightarrow> enums_identical eq j b i a"
    "bit_fields_identical eq bs cs \<Longrightarrow> bit_fields_identical eq cs bs"
    "list_all2 eq vs ws \<Longrightarrow> list_all2 eq ws vs"
proof -
  show "fields_identical eq fs gs \<Longrightarrow> fields_identical eq gs fs"
    unfolding fields_identical_def by (erule list_all2_sym) (auto dest: assms)
  show "variables_identical eq nm xs ys \<Longrightarrow> variables_identical eq nm ys xs"
    unfolding variables_identical_def by (erule list_all2_sym) (auto dest: assms)
  show "bit_fields_identical eq bs cs \<Longrightarrow> bit_fields_identical eq cs bs"
    unfolding bit_fields_identical_def by (erule list_all2_sym) (auto dest: assms)
  show "list_all2 eq vs ws \<Longrightarrow> list_all2 eq ws vs" by (erule list_all2_sym) (rule assms)
  have "list_all2 (\<lambda>f g. name f = name g \<and> constant_value f = constant_value g) fs gs \<Longrightarrow>
      list_all2 (\<lambda>f g. name f = name g \<and> constant_value f = constant_value g) gs fs" for fs gs :: "field list"
    by (erule list_all2_sym) simp
  then show "enums_identical eq i a j b \<Longrightarrow> enums_identical eq j b i a"
    unfolding enums_identical_def using assms by simp
qed

lemma identical_step_sym:
  assumes st: "identical_step E al eq inner nm x y" and eq: "\<And>a b. eq a b \<Longrightarrow> eq b a"
    and inner: "\<And>a b. inner a b \<Longrightarrow> inner b a" and en: "\<And>a b. eq a b \<Longrightarrow> is_type_enum E a = is_type_enum E b"
  shows "identical_step E al eq inner nm y x"
proof (cases x)
  case (Type_Struct i s fs)
  with st obtain j r gs where y: "y = Type_Struct j r gs" and q: "eq s r" "fields_identical eq fs gs"
    and p: "is_raw_union i = is_raw_union j" "is_packed i = is_packed j" "is_all_or_none i = is_all_or_none j"
      "soa_kind i = soa_kind j" "soa_count i = soa_count j" "custom_align i \<noteq> custom_align j \<longrightarrow> al x = al y"
    by (auto simp: identical_step_simps)
  from eq [OF q(1)] component_lists_sym(1) [OF eq q(2)] p show ?thesis
    by (auto simp: identical_step_simps Type_Struct y)
next
  case (Type_Union i vs)
  with st obtain j ws where y: "y = Type_Union j ws" "list_all2 eq vs ws" "union_kind i = union_kind j"
      "union_custom_align i \<noteq> union_custom_align j \<longrightarrow> al x = al y"
    by (auto simp: identical_step_simps)
  from component_lists_sym(5) [OF eq y(2)] y show ?thesis by (auto simp: identical_step_simps Type_Union)
next
  case (Type_Tuple p xs)
  with st obtain ys where y: "y = Type_Tuple p ys" "variables_identical eq nm xs ys" by (auto simp: identical_step_simps)
  from component_lists_sym(2) [OF eq y(2)] show ?thesis by (simp add: identical_step_simps Type_Tuple y(1))
next
  case (Type_Enum i a)
  with st obtain j b where y: "y = Type_Enum j b" "enums_identical eq i a j b" by (auto simp: identical_step_simps)
  from component_lists_sym(3) [OF eq y(2)] show ?thesis by (simp add: identical_step_simps Type_Enum y(1))
next
  case (Type_BitField a bs)
  with st obtain b cs where y: "y = Type_BitField b cs" "eq a b" "bit_fields_identical eq bs cs"
    by (auto simp: identical_step_simps)
  from component_lists_sym(4) [OF eq y(3)] eq [OF y(2)] show ?thesis by (simp add: identical_step_simps Type_BitField y(1))
next
  case (Type_BitSet a u l h)
  with st obtain b v l' h' where y: "y = Type_BitSet b v l' h'" "eq a b" "eq u v" "is_type_enum E a \<or> l = l' \<and> h = h'"
    by (auto simp: identical_step_simps)
  from eq [OF y(2)] eq [OF y(3)] en [OF y(2)] y(4) show ?thesis by (auto simp: identical_step_simps Type_BitSet y(1))
qed (use st in \<open>auto simp: identical_step_simps are_proc_properties_identical_def intro: eq inner\<close>)

lemma internal_sym:
  "env_ok E \<Longrightarrow> are_types_identical_internal C E n x y nm \<Longrightarrow> are_types_identical_internal C E n y x nm"
proof (induction n arbitrary: x y nm)
  case (Suc n)
  let ?eq = "identical_by E (\<lambda>x y. are_types_identical_internal C E n x y False)"
  have eq: "?eq b a" if "?eq a b" for a b
    using that Suc.IH [OF Suc.prems(1)] by (auto simp: identical_by_def Let_def split: if_splits)
  show ?case
  proof (cases "x = y")
    case False
    with Suc.prems(2) have "x \<noteq> Null" "y \<noteq> Null" and
      st: "identical_step E (type_align_of C E (Suc n)) ?eq (\<lambda>x y. are_types_identical_internal C E n x y nm) nm x y"
      by (auto split: if_splits)
    from identical_step_sym [OF st eq Suc.IH [OF Suc.prems(1)] identical_is_enum [OF _ Suc.prems(1)]]
    show ?thesis using \<open>x \<noteq> Null\<close> \<open>y \<noteq> Null\<close> False by simp
  qed simp
qed simp

lemma identical_sym: "env_ok E \<Longrightarrow> are_types_identical C E n x y \<Longrightarrow> are_types_identical C E n y x"
  using internal_sym [of E C n] by (auto simp: are_types_identical_def identical_by_def Let_def split: if_splits)

text \<open>
  Type identity does not depend on the order in which the types are compared, with
  or without the names in tuples.
\<close>

theorem identity_symmetric:
  assumes "env_ok E"
  shows "are_types_identical C E n x y = are_types_identical C E n y x \<and>
    are_types_identical_unique_tuples C E n x y = are_types_identical_unique_tuples C E n y x"
proof
  show "are_types_identical C E n x y = are_types_identical C E n y x" using identical_sym [OF assms] by blast
  show "are_types_identical_unique_tuples C E n x y = are_types_identical_unique_tuples C E n y x"
    using internal_sym [OF assms, of C n "strip_alias E x" "strip_alias E y" True]
      internal_sym [OF assms, of C n "strip_alias E y" "strip_alias E x" True]
    by (auto simp: are_types_identical_unique_tuples_def identical_by_def Let_def split: if_splits)
qed


theorem identity_symmetric_witness:
  "are_types_identical demo_target alias_env 18 (Type_Named 1) (Type_Named 0) =
   are_types_identical demo_target alias_env 18 (Type_Named 0) (Type_Named 1)"
proof -
  have "env_ok alias_env" by code_simp
  then show ?thesis using identity_symmetric by blast
qed

subsection \<open>The index of a union variant\<close>

lemma variant_position_Some: "variant_position p vs = Some k \<Longrightarrow> k < length vs \<and> p (vs ! k) \<and> list_all (\<lambda>v. \<not> p v) (take k vs)"
  by (induction p vs arbitrary: k rule: variant_position.induct) (auto split: if_splits)

lemma variant_position_None: "variant_position p vs = None \<longleftrightarrow> \<not> list_ex p vs"
  by (induction p vs rule: variant_position.induct) auto

text \<open>
  The index of a variant exists exactly for the variants of the union, is that of the
  first variant with this type, is not the index of \<^verbatim>\<open>nil\<close> (0) unless the union has none, and fits
  the tag of the union.
\<close>

theorem union_variant_index_fits:
  assumes C: "target_ok C" and wf: "wf_type E d u" and n: "3 * d \<le> n" and b: "base_type E u = Type_Union i vs"
  shows "case union_variant_index_checked C E n u v of
      None \<Rightarrow> union_is_variant_of C E n u v = Some False
    | Some k \<Rightarrow> \<exists>l tag_size. union_is_variant_of C E n u v = Some True \<and> l < length vs \<and>
        union_variant_index_types_equal C E n v (vs ! l) \<and>
        list_all (\<lambda>vt. \<not> union_variant_index_types_equal C E n v vt) (take l vs) \<and>
        k = int l + (if union_kind i = UnionType_no_nil then 0 else 1) \<and>
        union_tag_size C E n u = Some tag_size \<and> 0 \<le> k \<and> k < 2 ^ (8 * nat tag_size)"
proof (cases "variant_position (union_variant_index_types_equal C E n v) vs")
  case None
  then show ?thesis
    using variant_position_None [of "union_variant_index_types_equal C E n v" vs]
    by (simp add: union_variant_index_checked_def union_is_variant_of_def b)
next
  case (Some l)
  note l = variant_position_Some [OF Some]
  have ex: "list_ex (union_variant_index_types_equal C E n v) vs"
    using variant_position_None [of "union_variant_index_types_equal C E n v" vs] Some by auto
  have ca: "align_opt (union_custom_align i)" and len: "length vs < 2 ^ 32" by (rule wf_base_union [OF wf b], simp)+
  have vs: "vs \<noteq> []" using l by auto
  have a: "is_pow2 (type_align_from (type_align_of_internal C E n) w)" if "w \<in> set vs" for w
    using union_variants_ok [OF C wf n b that] by (simp add: layout_ok_def)
  let ?tag = "union_tag_size_from C (type_align_of_internal C E n) i vs"
  have fit: "length vs < 2 ^ (8 * nat ?tag)" by (rule union_tag_ok(3) [OF vs len a ca C])
  then have "int (length vs) < 2 ^ (8 * nat ?tag)"
    by (metis of_nat_less_iff of_nat_numeral of_nat_power)
  with l have "int l + 1 < 2 ^ (8 * nat ?tag)" by linarith
  moreover have "l < 2 ^ (8 * nat ?tag)" using l fit by linarith
  ultimately show ?thesis
    using Some l ex by (auto simp: union_variant_index_checked_def union_is_variant_of_def union_tag_size_def b)
qed

theorem union_variant_index_fits_witness:
  "case union_variant_index_checked demo_target demo_env 18 (Type_Named 1) (Type_Basic (Fixed Basic_u16)) of
     None \<Rightarrow> union_is_variant_of demo_target demo_env 18 (Type_Named 1) (Type_Basic (Fixed Basic_u16)) = Some False
   | Some k \<Rightarrow> 0 \<le> k"
  using union_variant_index_fits [OF demo_target_ok demo_wf(2) _ demo_base_type(2), of 18 "Type_Basic (Fixed Basic_u16)"]
  by (auto split: option.splits)

end
