(* ===== verification/Import_Order.thy ===== *)
theory Import_Order
  imports Priority_Queue Ptr_Map Ptr_Set "HOL-Library.Product_Lexorder"
begin

text \<open>
  The order in which packages are checked (\<^verbatim>\<open>src/checker.cpp\<close>): \<open>add_import_dependency_node\<close> and
  \<open>generate_import_dependency_graph\<close> build a graph with a node for each package and an edge for each
  import, and the first part of \<open>check_import_entities\<close> takes the nodes from a priority queue, reports
  import cycles (\<open>find_import_path\<close>) and lists the packages. The compiler stops with an
  error message or with a failed \<^verbatim>\<open>GB_ASSERT\<close>; both are values of \<open>import_failure\<close>.

  Packages, scopes, declarations and graph nodes are addressed by pointers. \<open>string_map\<close> is used through
  its contract, a partial map. The global scope flag of a package's scope is kept with the package.
\<close>

subsection \<open>Data\<close>

text \<open>
  The declarations of a file as far as imports go. An import declaration has an address and the full
  path it resolved to; a \<open>when\<close> statement has the statements of its body, if any, and an else part.
\<close>

datatype ast_decl =
  Import_Decl ptr string
| When_Stmt "ast_decl list option" "ast_decl option"
| Block_Stmt "ast_decl list"
| Other_Decl

record ast_file =
  decls :: "ast_decl list"
  file_imports :: "ast_decl list"

record ast_package =
  pkg_id :: int
  fullpath :: string
  global_scope :: bool
  pkg_scope :: ptr
  files :: "ast_file list"

record import_program =
  packages :: "ptr list"
  package_at :: "ptr \<Rightarrow> ast_package"
  package_map :: "string \<rightharpoonup> ptr"

record import_graph_node =
  node_pkg :: ptr
  node_scope :: ptr
  preds :: ptr_set
  succs :: ptr_set
  heap_index :: nat
  deps_left :: int

type_synonym import_nodes = "ptr \<Rightarrow> import_graph_node"

text \<open>
  The mutable state: the map from packages to nodes, the nodes and how many were allocated, the
  \<open>package\<close> of each import declaration and the \<open>imported\<close> set of each scope.
\<close>

record import_state =
  node_map :: "ptr ptr_map"
  import_nodes :: import_nodes
  nodes_made :: nat
  decl_package :: "ptr \<Rightarrow> ptr"
  imported :: "ptr \<Rightarrow> ptr_set"

datatype import_failure =
  Assertion_failed
| Unable_to_find_package ptr string

abbreviation asserted :: "'a option \<Rightarrow> ('a \<Rightarrow> import_failure + 'b) \<Rightarrow> import_failure + 'b" where
  "asserted r f \<equiv> bind_res (or_fail Assertion_failed r) f"

subsection \<open>The graph\<close>

definition is_package_name_reserved :: "string \<Rightarrow> bool" where
  "is_package_name_reserved name =
     (if name = ''builtin'' then True else if name = ''intrinsics'' then True else False)"

definition import_graph_node_create :: "import_program \<Rightarrow> ptr \<Rightarrow> import_graph_node" where
  "import_graph_node_create P p =
     \<lparr>node_pkg = p, node_scope = pkg_scope (package_at P p), preds = ptr_set_empty, succs = ptr_set_empty,
      heap_index = 0, deps_left = 0\<rparr>"

definition import_graph_node_set_add :: "ptr_set \<Rightarrow> ptr \<Rightarrow> ptr_set option" where
  "import_graph_node_set_add s n = ptr_set_add s n"

text \<open>One import declaration of package \<open>parent_pkg\<close>.\<close>

definition add_import :: "import_program \<Rightarrow> ptr \<Rightarrow> ptr \<Rightarrow> string \<Rightarrow> import_state \<Rightarrow> import_failure + import_state" where
  "add_import P parent_pkg decl path st =
     (if is_package_name_reserved path then Inr st
      else
        case package_map P path of
          None \<Rightarrow> Inl (Unable_to_find_package decl path)
        | Some child_pkg \<Rightarrow>
            if pkg_scope (package_at P child_pkg) = 0 then Inl Assertion_failed
            else
              let st = st\<lparr>decl_package := (decl_package st)(decl := child_pkg)\<rparr> in
              asserted (map_must_get (node_map st) child_pkg) (\<lambda>child.
              asserted (map_must_get (node_map st) parent_pkg) (\<lambda>parent.
              let ns = import_nodes st in
              asserted (import_graph_node_set_add (succs (ns parent)) child) (\<lambda>s.
              let ns = ns(parent := (ns parent)\<lparr>succs := s\<rparr>) in
              asserted (import_graph_node_set_add (preds (ns child)) parent) (\<lambda>p.
              let ns = ns(child := (ns child)\<lparr>preds := p\<rparr>); scope = node_scope (ns parent) in
              asserted (ptr_set_add (imported st scope) (node_scope (ns child))) (\<lambda>i.
              Inr (st\<lparr>import_nodes := ns, imported := (imported st)(scope := i)\<rparr>)))))))"

text \<open>
  \<open>add_import_dependency_node\<close> walks a declaration; \<open>parent_pkg\<close> is the package of the file it is in.
\<close>

fun add_import_dependency_node ::
    "import_program \<Rightarrow> ptr \<Rightarrow> ast_decl \<Rightarrow> import_state \<Rightarrow> import_failure + import_state"
  and add_import_dependency_stmts ::
    "import_program \<Rightarrow> ptr \<Rightarrow> ast_decl list \<Rightarrow> import_state \<Rightarrow> import_failure + import_state"
where
  "add_import_dependency_node P parent_pkg (Import_Decl decl path) st = add_import P parent_pkg decl path st"
| "add_import_dependency_node P parent_pkg (When_Stmt body else_stmt) st =
     bind_res
       (case body of
          None \<Rightarrow> Inr st
        | Some stmts \<Rightarrow> add_import_dependency_stmts P parent_pkg stmts st)
       (\<lambda>st.
         case else_stmt of
           None \<Rightarrow> Inr st
         | Some (Block_Stmt stmts) \<Rightarrow> add_import_dependency_stmts P parent_pkg stmts st
         | Some (When_Stmt b e) \<Rightarrow> add_import_dependency_node P parent_pkg (When_Stmt b e) st
         | Some _ \<Rightarrow> Inr st)"
| "add_import_dependency_node P parent_pkg _ st = Inr st"
| "add_import_dependency_stmts P parent_pkg [] st = Inr st"
| "add_import_dependency_stmts P parent_pkg (d # ds) st =
     bind_res (add_import_dependency_node P parent_pkg d st) (add_import_dependency_stmts P parent_pkg ds)"

text \<open>The nodes get the addresses \<open>alloc 0, alloc 1, \<dots>\<close>.\<close>

definition add_package_node :: "import_program \<Rightarrow> (nat \<Rightarrow> ptr) \<Rightarrow> ptr \<Rightarrow> import_state \<Rightarrow> import_failure + import_state" where
  "add_package_node P alloc p st =
     (let n = alloc (nodes_made st) in
      asserted (map_set 0 (node_map st) p n) (\<lambda>m.
      Inr (st\<lparr>node_map := m, nodes_made := nodes_made st + 1,
        import_nodes := (import_nodes st)(n := import_graph_node_create P p)\<rparr>)))"

fun number_nodes :: "nat \<Rightarrow> ptr list \<Rightarrow> import_nodes \<Rightarrow> import_nodes" where
  "number_nodes i [] ns = ns"
| "number_nodes i (n # G) ns =
     number_nodes (Suc i) G (ns(n := (ns n)\<lparr>heap_index := i, deps_left := int (count (succs (ns n)))\<rparr>))"

definition initial_state :: "ptr ptr_map \<Rightarrow> import_state" where
  "initial_state m =
     \<lparr>node_map = m, import_nodes = (\<lambda>_. \<lparr>node_pkg = 0, node_scope = 0, preds = ptr_set_empty,
        succs = ptr_set_empty, heap_index = 0, deps_left = 0\<rparr>),
      nodes_made = 0, decl_package = (\<lambda>_. 0), imported = (\<lambda>_. ptr_set_empty)\<rparr>"

definition generate_import_dependency_graph ::
  "import_program \<Rightarrow> (nat \<Rightarrow> ptr) \<Rightarrow> import_failure + ptr list \<times> import_state" where
  "generate_import_dependency_graph P alloc =
     asserted (map_init 0 (2 * length (packages P))) (\<lambda>m.
     bind_res (fold_res (add_package_node P alloc) (packages P) (initial_state m)) (\<lambda>st.
     bind_res
       (fold_res (\<lambda>p. fold_res (\<lambda>f. fold_res (add_import_dependency_node P p) (decls f))
          (files (package_at P p))) (packages P) st) (\<lambda>st.
     let G = map snd (map_entries (node_map st)) in
     Inr (G, st\<lparr>import_nodes := number_nodes 0 G (import_nodes st)\<rparr>))))"

subsection \<open>Looking for a cycle\<close>

text \<open>
  \<open>find_import_path\<close> searches depth first for a chain of imports from \<open>start\<close> to \<open>end\<close>. The result is
  the chain backwards, each package with the declaration that imports it; it is empty if there is
  none. The first argument bounds the depth of the calls. \<open>packages_of\<close> is \<open>decl_package\<close>.
\<close>

type_synonym import_path = "(ptr \<times> ptr) list"

fun find_import_path :: "nat \<Rightarrow> import_program \<Rightarrow> (ptr \<Rightarrow> ptr) \<Rightarrow> ptr \<Rightarrow> ptr \<Rightarrow> ptr_set \<Rightarrow> (import_path \<times> ptr_set) option"
  and find_import_path_decls ::
    "nat \<Rightarrow> import_program \<Rightarrow> (ptr \<Rightarrow> ptr) \<Rightarrow> ast_decl list \<Rightarrow> ptr \<Rightarrow> ptr_set \<Rightarrow> (import_path \<times> ptr_set) option"
where
  "find_import_path 0 P packages_of start target visited = None"
| "find_import_path (Suc f) P packages_of start target visited =
     (case ptr_set_update visited start of
        None \<Rightarrow> None
      | Some (visited, seen) \<Rightarrow>
          if seen then Some ([], visited)
          else
            case package_map P (fullpath (package_at P start)) of
              None \<Rightarrow> Some ([], visited)
            | Some p \<Rightarrow>
                if p = 0 then None
                else find_import_path_decls f P packages_of (concat (map file_imports (files (package_at P p)))) target visited)"
| "find_import_path_decls f P packages_of [] target visited = Some ([], visited)"
| "find_import_path_decls f P packages_of (d # ds) target visited =
     (case d of
        Import_Decl decl _ \<Rightarrow>
          let p = packages_of decl in
          if p = 0 \<or> pkg_scope (package_at P p) = 0 then find_import_path_decls f P packages_of ds target visited
          else if p = target then Some ([(p, decl)], visited)
          else
            (case find_import_path f P packages_of p target visited of
               None \<Rightarrow> None
             | Some (next_path, visited) \<Rightarrow>
                 if next_path \<noteq> [] then Some (next_path @ [(p, decl)], visited)
                 else find_import_path_decls f P packages_of ds target visited)
      | _ \<Rightarrow> find_import_path_decls f P packages_of ds target visited)"

subsection \<open>Sorting\<close>

type_synonym import_queue = "(ptr, import_nodes) priority_queue"

text \<open>
  The comparison. Its two assertions (the nodes and their scopes differ) hold for the queues of a
  well-formed program; see \<open>import_queue_ok\<close>.
\<close>

definition import_graph_node_cmp :: "import_program \<Rightarrow> import_queue \<Rightarrow> nat \<Rightarrow> nat \<Rightarrow> int" where
  "import_graph_node_cmp P pq i j =
     (let x = mem pq (queue pq ! i); y = mem pq (queue pq ! j);
          xg = global_scope (package_at P (node_pkg x)); yg = global_scope (package_at P (node_pkg y))
      in if xg \<noteq> yg then (if xg then -1 else 1)
         else if xg \<and> yg then
           (if pkg_id (package_at P (node_pkg x)) < pkg_id (package_at P (node_pkg y)) then 1 else -1)
         else if deps_left x < deps_left y then -1
         else if deps_left x > deps_left y then 1
         else 0)"

definition import_graph_node_swap :: "import_queue \<Rightarrow> nat \<Rightarrow> nat \<Rightarrow> import_queue" where
  "import_graph_node_swap pq i j =
     (let x = queue pq ! i; y = queue pq ! j;
          m = (mem pq)(x := (mem pq x)\<lparr>heap_index := j\<rparr>);
          m = m(y := (m y)\<lparr>heap_index := i\<rparr>)
      in pq\<lparr>queue := (queue pq)[i := y, j := x], mem := m\<rparr>)"

text \<open>The diagnostics, each at the declaration of the item it is reported for.\<close>

datatype import_error =
  Cyclic_importation "ptr \<times> ptr" \<comment> \<open>"Cyclic importation of ..."\<close>
| Import_refers_to "ptr \<times> ptr" \<comment> \<open>"... refers to"\<close>
| Import_cycle_end "ptr \<times> ptr"

fun report_imports :: "ptr \<times> ptr \<Rightarrow> import_path \<Rightarrow> import_error list" where
  "report_imports item [] = [Import_cycle_end item]"
| "report_imports item (next # path) = Import_refers_to item # report_imports next path"

definition report_import_cycle :: "import_path \<Rightarrow> import_error list" where
  "report_import_cycle path =
     (if length path > 1 then Cyclic_importation (last path) # report_imports (last path) path else [])"

definition release_importer :: "import_program \<Rightarrow> ptr \<Rightarrow> import_queue \<Rightarrow> import_queue" where
  "release_importer P p pq =
     (let m = (mem pq)(p := (mem pq p)\<lparr>deps_left := max (deps_left (mem pq p) - 1) 0\<rparr>)
      in priority_queue_fix (import_graph_node_cmp P) import_graph_node_swap (pq\<lparr>mem := m\<rparr>) (heap_index (m p)))"

record sort_state =
  pkg_queue :: import_queue
  pkgs_emitted :: ptr_set
  package_order :: "ptr list"
  import_errors :: "import_error list"

definition import_errors_of ::
  "nat \<Rightarrow> import_program \<Rightarrow> (ptr \<Rightarrow> ptr) \<Rightarrow> import_nodes \<Rightarrow> ptr \<Rightarrow> import_failure + import_error list" where
  "import_errors_of f P packages_of ns n =
     (if deps_left (ns n) > 0 then
        asserted (find_import_path f P packages_of (node_pkg (ns n)) (node_pkg (ns n)) ptr_set_empty)
          (\<lambda>(path, _). Inr (report_import_cycle path))
      else Inr [])"

text \<open>One round of the loop. Packages that were emitted before are not listed again.\<close>

definition sort_step ::
  "nat \<Rightarrow> import_program \<Rightarrow> (ptr \<Rightarrow> ptr) \<Rightarrow> sort_state \<Rightarrow> import_failure + sort_state" where
  "sort_step f P packages_of s =
     asserted (priority_queue_pop (import_graph_node_cmp P) import_graph_node_swap (pkg_queue s)) (\<lambda>(q, n).
     bind_res (import_errors_of f P packages_of (mem q) n) (\<lambda>errs.
     let p = node_pkg (mem q n);
         q = fold (release_importer P) (ptr_set_elems (preds (mem q n))) q;
         s = s\<lparr>pkg_queue := q, import_errors := import_errors s @ errs\<rparr>
     in if p = 0 then Inr s
        else
          asserted (ptr_set_update (pkgs_emitted s) p) (\<lambda>(em, seen).
          if seen then Inr (s\<lparr>pkgs_emitted := em\<rparr>)
          else Inr (s\<lparr>pkgs_emitted := em, package_order := package_order s @ [n]\<rparr>))))"

text \<open>
  Every round takes one node off the queue: as many rounds as there are nodes empty it, and
  \<open>Assertion_failed\<close> for missing rounds is never returned.
\<close>

fun sort_loop ::
  "nat \<Rightarrow> nat \<Rightarrow> import_program \<Rightarrow> (ptr \<Rightarrow> ptr) \<Rightarrow> sort_state \<Rightarrow> import_failure + sort_state" where
  "sort_loop rounds f P packages_of s =
     (if length (queue (pkg_queue s)) > 0 then
        (case rounds of
           0 \<Rightarrow> Inl Assertion_failed
         | Suc r \<Rightarrow> bind_res (sort_step f P packages_of s) (sort_loop r f P packages_of))
      else Inr s)"

declare sort_loop.simps [simp del]

definition sort_packages :: "import_program \<Rightarrow> (nat \<Rightarrow> ptr) \<Rightarrow> import_failure + ptr list \<times> import_error list" where
  "sort_packages P alloc =
     bind_res (generate_import_dependency_graph P alloc) (\<lambda>(dep_graph, st).
     let q = priority_queue_create (import_graph_node_cmp P) import_graph_node_swap dep_graph (import_nodes st)
     in bind_res
          (sort_loop (length dep_graph) (Suc (length (packages P))) P (decl_package st)
            \<lparr>pkg_queue = q, pkgs_emitted = ptr_set_empty, package_order = [], import_errors = []\<rparr>)
          (\<lambda>s. Inr (map (\<lambda>n. node_pkg (mem (pkg_queue s) n)) (package_order s), import_errors s)))"

end
