(* ===== verification/Import_Graph.thy ===== *)
theory Import_Graph
  imports Import_Order
begin

text \<open>
  What \<open>generate_import_dependency_graph\<close> builds: the walk over the declarations is a loop over the
  import declarations it meets (\<open>program_imports\<close>), and after it the nodes stand for the relation
  \<open>import_rel\<close> between packages; and \<open>find_import_path\<close> decides reachability in a graph.
\<close>

subsection \<open>The import declarations of a program\<close>

fun imports_of :: "ast_decl \<Rightarrow> (ptr \<times> string) list"
  and imports_of_stmts :: "ast_decl list \<Rightarrow> (ptr \<times> string) list" where
  "imports_of (Import_Decl decl path) = [(decl, path)]"
| "imports_of (When_Stmt body else_stmt) =
     (case body of None \<Rightarrow> [] | Some stmts \<Rightarrow> imports_of_stmts stmts) @
     (case else_stmt of
        None \<Rightarrow> []
      | Some (Block_Stmt stmts) \<Rightarrow> imports_of_stmts stmts
      | Some (When_Stmt b e) \<Rightarrow> imports_of (When_Stmt b e)
      | Some _ \<Rightarrow> [])"
| "imports_of _ = []"
| "imports_of_stmts [] = []"
| "imports_of_stmts (d # ds) = imports_of d @ imports_of_stmts ds"

lemma imports_of_stmts_concat: "imports_of_stmts ds = concat (map imports_of ds)"
  by (induction ds) simp_all

lemma add_import_dependency_fold:
  "add_import_dependency_node P p d st = fold_res (\<lambda>(decl, path). add_import P p decl path) (imports_of d) st"
  "add_import_dependency_stmts P p ds st =
    fold_res (\<lambda>(decl, path). add_import P p decl path) (imports_of_stmts ds) st"
proof (induction P p d st and P p ds st rule: add_import_dependency_node_add_import_dependency_stmts.induct)
  case (1 P parent_pkg decl path st)
  then show ?case by (cases "add_import P parent_pkg decl path st") simp_all
next
  case (2 P parent_pkg body else_stmt st)
  let ?f = "\<lambda>(decl, path). add_import P parent_pkg decl path"
  have b: "(case body of None \<Rightarrow> Inr st | Some stmts \<Rightarrow> add_import_dependency_stmts P parent_pkg stmts st) =
    fold_res ?f (case body of None \<Rightarrow> [] | Some stmts \<Rightarrow> imports_of_stmts stmts) st"
    using 2(1) by (cases body) simp_all
  have e: "(case else_stmt of
        None \<Rightarrow> Inr st
      | Some (Block_Stmt stmts) \<Rightarrow> add_import_dependency_stmts P parent_pkg stmts st
      | Some (When_Stmt b e) \<Rightarrow> add_import_dependency_node P parent_pkg (When_Stmt b e) st
      | Some _ \<Rightarrow> Inr st) =
    fold_res ?f (case else_stmt of
        None \<Rightarrow> []
      | Some (Block_Stmt stmts) \<Rightarrow> imports_of_stmts stmts
      | Some (When_Stmt b e) \<Rightarrow> imports_of (When_Stmt b e)
      | Some _ \<Rightarrow> []) st" for st
  proof (cases else_stmt)
    case (Some d)
    show ?thesis
    proof (cases d)
      case (When_Stmt b e)
      show ?thesis unfolding Some When_Stmt option.case ast_decl.case by (rule 2(2) [OF Some When_Stmt])
    next
      case (Block_Stmt stmts)
      show ?thesis unfolding Some Block_Stmt option.case ast_decl.case by (rule 2(3) [OF Some Block_Stmt])
    qed (simp_all add: Some)
  qed simp
  show ?case
    by (subst add_import_dependency_node.simps(2), subst imports_of.simps(2)) (simp only: fold_res_append b e)
next
  case (5 P parent_pkg d ds st)
  then show ?case by (auto simp: fold_res_append bind_res_def split: sum.split)
qed simp_all

definition decl_imports :: "import_program \<Rightarrow> ptr \<Rightarrow> (ptr \<times> string) list" where
  "decl_imports P p = concat (map (\<lambda>f. imports_of_stmts (decls f)) (files (package_at P p)))"

definition program_imports :: "import_program \<Rightarrow> (ptr \<times> ptr \<times> string) list" where
  "program_imports P = concat (map (\<lambda>p. map (Pair p) (decl_imports P p)) (packages P))"

lemma add_all_imports:
  "fold_res (\<lambda>p. fold_res (\<lambda>f. fold_res (add_import_dependency_node P p) (decls f)) (files (package_at P p)))
     ps st =
   fold_res (\<lambda>(p, decl, path). add_import P p decl path)
     (concat (map (\<lambda>p. map (Pair p) (decl_imports P p)) ps)) st"
proof -
  have decls: "fold_res (add_import_dependency_node P p) ds st =
      fold_res (\<lambda>(decl, path). add_import P p decl path) (imports_of_stmts ds) st" for p ds st
    by (induction ds arbitrary: st)
       (simp_all add: fold_res_append add_import_dependency_fold bind_res_def split: sum.split)

  have files: "fold_res (\<lambda>f. fold_res (add_import_dependency_node P p) (decls f)) fs st =
      fold_res (\<lambda>(decl, path). add_import P p decl path) (concat (map (\<lambda>f. imports_of_stmts (decls f)) fs)) st" for p fs st
    by (induction fs arbitrary: st) (simp_all add: decls fold_res_append bind_res_def split: sum.split)
  show ?thesis
    by (induction ps arbitrary: st)
       (simp_all add: files fold_res_append fold_res_map decl_imports_def bind_res_def split: sum.split)
qed

subsection \<open>The import relation\<close>

definition import_rel :: "import_program \<Rightarrow> (ptr \<times> ptr) set" where
  "import_rel P =
     {(p, q). p \<in> set (packages P) \<and>
        (\<exists>decl path. (decl, path) \<in> set (decl_imports P p) \<and> \<not> is_package_name_reserved path \<and>
          package_map P path = Some q)}"

text \<open>
  What the pass needs of the program: packages, their scopes and the node addresses are distinct
  pointers (no reserved key of the hash tables), the map of packages leads to packages and finds each
  under its own path, and global packages have different numbers.
\<close>

definition well_formed_imports :: "import_program \<Rightarrow> (nat \<Rightarrow> ptr) \<Rightarrow> bool" where
  "well_formed_imports P alloc \<longleftrightarrow>
     distinct (packages P) \<and> length (packages P) \<le> 2 ^ 31 \<and>
     inj_on alloc {..<length (packages P)} \<and> (\<forall>i<length (packages P). live (alloc i)) \<and>
     (\<forall>p\<in>set (packages P). live p \<and> live (pkg_scope (package_at P p)) \<and>
        package_map P (fullpath (package_at P p)) = Some p) \<and>
     inj_on (\<lambda>p. pkg_scope (package_at P p)) (set (packages P)) \<and>
     (\<forall>path p. package_map P path = Some p \<longrightarrow> p \<in> set (packages P)) \<and>
     inj_on (\<lambda>p. pkg_id (package_at P p)) {p \<in> set (packages P). global_scope (package_at P p)}"

subsection \<open>The graph invariant\<close>

definition node_represents ::
  "import_program \<Rightarrow> (ptr \<Rightarrow> ptr) \<Rightarrow> (ptr \<times> ptr) set \<Rightarrow> ptr \<Rightarrow> import_graph_node \<Rightarrow> bool" where
  "node_represents P nd E p n \<longleftrightarrow>
     node_pkg n = p \<and> node_scope n = pkg_scope (package_at P p) \<and> ptr_set_ok (succs n) \<and> ptr_set_ok (preds n) \<and>
     ptr_set_abs (succs n) = nd ` (E `` {p}) \<and> ptr_set_abs (preds n) = nd ` (E\<inverse> `` {p})"

text \<open>\<open>nd\<close> gives each package its node; the sets of the nodes are those of the relation \<open>E\<close>.\<close>

definition graph_represents ::
  "import_program \<Rightarrow> (ptr \<Rightarrow> ptr) \<Rightarrow> (ptr \<times> ptr) set \<Rightarrow> import_nodes \<Rightarrow> bool" where
  "graph_represents P nd E ns \<longleftrightarrow> (\<forall>p\<in>set (packages P). node_represents P nd E p (ns (nd p)))"

definition nodes_placed :: "import_program \<Rightarrow> (ptr \<Rightarrow> ptr) \<Rightarrow> bool" where
  "nodes_placed P nd \<longleftrightarrow> inj_on nd (set (packages P)) \<and> (\<forall>p\<in>set (packages P). live (nd p))"

definition import_inv ::
  "import_program \<Rightarrow> (ptr \<Rightarrow> ptr) \<Rightarrow> (ptr \<times> ptr) set \<Rightarrow> import_state \<Rightarrow> bool" where
  "import_inv P nd E st \<longleftrightarrow>
     nodes_placed P nd \<and> E \<subseteq> set (packages P) \<times> set (packages P) \<and>
     map_ok (node_map st) \<and> map_abs (node_map st) = (\<lambda>p. if p \<in> set (packages P) then Some (nd p) else None) \<and>
     graph_represents P nd E (import_nodes st) \<and>
     (\<forall>p\<in>set (packages P). let i = imported st (pkg_scope (package_at P p)) in
        ptr_set_ok i \<and> ptr_set_abs i = (\<lambda>q. pkg_scope (package_at P q)) ` (E `` {p}))"

lemma wf_packages:
  assumes "well_formed_imports P alloc"
  shows "card (set (packages P)) \<le> 2 ^ 32" and "p \<in> set (packages P) \<Longrightarrow> live p"
    and "p \<in> set (packages P) \<Longrightarrow> live (pkg_scope (package_at P p))"
    and "p \<in> set (packages P) \<Longrightarrow> package_map P (fullpath (package_at P p)) = Some p"
    and "package_map P path = Some q \<Longrightarrow> q \<in> set (packages P)"
    and "p \<in> set (packages P) \<Longrightarrow> q \<in> set (packages P) \<Longrightarrow>
      pkg_scope (package_at P p) = pkg_scope (package_at P q) \<longleftrightarrow> p = q"
  using assms card_length [of "packages P"] unfolding well_formed_imports_def inj_on_def by auto

lemma wf_alloc:
  assumes "well_formed_imports P alloc" and "i < length (packages P)"
  shows "live (alloc i)" and "j < length (packages P) \<Longrightarrow> alloc i = alloc j \<longleftrightarrow> i = j"
proof -
  have "inj_on alloc {..<length (packages P)}" using assms(1) by (simp add: well_formed_imports_def)
  then show "j < length (packages P) \<Longrightarrow> alloc i = alloc j \<longleftrightarrow> i = j"
    using assms(2) inj_on_eq_iff [of alloc "{..<length (packages P)}" i j] by simp
  show "live (alloc i)" using assms by (simp add: well_formed_imports_def)
qed

text \<open>A set of images of packages never outgrows the pointer set.\<close>

lemma image_card:
  assumes "well_formed_imports P alloc" and "A \<subseteq> f ` set (packages P)"
  shows "card A \<le> 2 ^ 32"
proof -
  have "card A \<le> card (set (packages P))" using assms(2) by (rule surj_card_le [rotated]) simp
  with wf_packages(1) [OF assms(1)] show ?thesis by linarith
qed

lemma import_rel_sub: "well_formed_imports P alloc \<Longrightarrow> import_rel P \<subseteq> set (packages P) \<times> set (packages P)"
  using wf_packages(5) by (fastforce simp: import_rel_def)

lemma add_import_inv:
  assumes wf: "well_formed_imports P alloc" and inv: "import_inv P nd E st" and p: "p \<in> set (packages P)"
    and path: "\<not> is_package_name_reserved path" "package_map P path = Some q"
  shows "\<exists>st'. add_import P p decl path st = Inr st' \<and> import_inv P nd (insert (p, q) E) st' \<and>
    decl_package st' = (decl_package st)(decl := q)"
proof -
  have q: "q \<in> set (packages P)" by (rule wf_packages(5) [OF wf path(2)])
  have inj: "nd a = nd b \<longleftrightarrow> a = b" if "a \<in> set (packages P)" "b \<in> set (packages P)" for a b
    using inv that by (auto simp: import_inv_def nodes_placed_def inj_on_def)
  have lv: "live (nd p)" "live (nd q)" using inv p q by (simp_all add: import_inv_def nodes_placed_def)
  have sub: "E \<subseteq> set (packages P) \<times> set (packages P)" using inv by (simp add: import_inv_def)
  have get: "map_must_get (node_map st) a = Some (nd a)" if "a \<in> set (packages P)" for a
  proof -
    have "map_ok (node_map st)" using inv by (simp add: import_inv_def)
    from map_get_correct [OF this wf_packages(2) [OF wf that]] inv that show ?thesis
      by (simp add: import_inv_def map_must_get_def)
  qed
  let ?ns = "import_nodes st"
  have rp: "node_represents P nd E a (?ns (nd a))" if "a \<in> set (packages P)" for a
    using inv that by (simp add: import_inv_def graph_represents_def)
  have card: "card (insert (nd a) (nd ` (E `` {b}))) \<le> 2 ^ 32" "card (insert (nd a) (nd ` (E\<inverse> `` {b}))) \<le> 2 ^ 32"
    if "a \<in> set (packages P)" for a b
    by (rule image_card [OF wf, where f = nd], use that sub in blast)+
  obtain s where s: "ptr_set_add (succs (?ns (nd p))) (nd q) = Some s" "ptr_set_ok s"
      "ptr_set_abs s = insert (nd q) (nd ` (E `` {p}))"
    using ptr_set_add_total [of "succs (?ns (nd p))", OF _ lv(2)] rp [OF p] card(1) [OF q, of p]
    by (auto simp: node_represents_def)
  let ?ns1 = "?ns(nd p := (?ns (nd p))\<lparr>succs := s\<rparr>)"
  have pr: "preds (?ns1 (nd q)) = preds (?ns (nd q))" by simp
  obtain r where r: "ptr_set_add (preds (?ns1 (nd q))) (nd p) = Some r" "ptr_set_ok r"
      "ptr_set_abs r = insert (nd p) (nd ` (E\<inverse> `` {q}))"
    using ptr_set_add_total [of "preds (?ns (nd q))", OF _ lv(1)] rp [OF q] card(2) [OF p, of q] unfolding pr
    by (auto simp: node_represents_def)
  let ?ns2 = "?ns1(nd q := (?ns1 (nd q))\<lparr>preds := r\<rparr>)"
  let ?sc = "\<lambda>p. pkg_scope (package_at P p)"
  have scp: "node_scope (?ns2 (nd p)) = ?sc p" "node_scope (?ns2 (nd q)) = ?sc q"
    using rp [OF p] rp [OF q] inj [OF p q] by (auto simp: node_represents_def)
  have im: "ptr_set_ok (imported st (?sc a)) \<and> ptr_set_abs (imported st (?sc a)) = ?sc ` (E `` {a})"
    if "a \<in> set (packages P)" for a
    using inv that by (simp add: import_inv_def Let_def)
  have "card (insert (?sc q) (?sc ` (E `` {p}))) \<le> 2 ^ 32"
    by (rule image_card [OF wf, where f = ?sc]) (use q sub in auto)
  then obtain i where i: "ptr_set_add (imported st (?sc p)) (?sc q) = Some i" "ptr_set_ok i"
      "ptr_set_abs i = insert (?sc q) (?sc ` (E `` {p}))"
    using ptr_set_add_total [of "imported st (?sc p)", OF _ wf_packages(3) [OF wf q]] im [OF p] by auto
  let ?st = "st\<lparr>decl_package := (decl_package st)(decl := q), import_nodes := ?ns2,
    imported := (imported st)(?sc p := i)\<rparr>"
  have "add_import P p decl path st = Inr ?st"
    using path get [OF p] get [OF q] s(1) r(1) i(1) scp wf_packages(3) [OF wf q]
    by (cases "nd p = nd q") (simp_all add: add_import_def import_graph_node_set_add_def Let_def live_nonzero)
  moreover have "node_represents P nd (insert (p, q) E) a (?ns2 (nd a))" if a: "a \<in> set (packages P)" for a
    using rp [OF a] inj [OF a p] inj [OF a q] s(2,3) r(2,3)
    by (cases "a = p"; cases "a = q") (auto simp: node_represents_def)
  moreover have "ptr_set_ok (((imported st)(?sc p := i)) (?sc a)) \<and>
      ptr_set_abs (((imported st)(?sc p := i)) (?sc a)) = ?sc ` (insert (p, q) E `` {a})"
    if a: "a \<in> set (packages P)" for a
    using im [OF a] i(2,3) wf_packages(6) [OF wf a p] by (cases "a = p") auto
  ultimately show ?thesis
    using inv p q sub by (auto simp: import_inv_def graph_represents_def Let_def)
qed

text \<open>The last failing import, if there is one, decides the outcome of the loop over the imports.\<close>

definition missing_import :: "import_program \<Rightarrow> ptr \<times> ptr \<times> string \<Rightarrow> bool" where
  "missing_import P i = (case i of (p, decl, path) \<Rightarrow> \<not> is_package_name_reserved path \<and> package_map P path = None)"

definition rel_of :: "import_program \<Rightarrow> (ptr \<times> ptr \<times> string) list \<Rightarrow> (ptr \<times> ptr) set" where
  "rel_of P is = {(p, q). \<exists>decl path. (p, decl, path) \<in> set is \<and> \<not> is_package_name_reserved path \<and>
     package_map P path = Some q}"

text \<open>The package that the loop stores for each declaration; the last of several wins.\<close>

fun packages_after :: "import_program \<Rightarrow> (ptr \<times> ptr \<times> string) list \<Rightarrow> (ptr \<Rightarrow> ptr) \<Rightarrow> ptr \<Rightarrow> ptr" where
  "packages_after P [] pk = pk"
| "packages_after P ((p, decl, path) # is) pk =
     packages_after P is
       (if is_package_name_reserved path then pk
        else case package_map P path of None \<Rightarrow> pk | Some q \<Rightarrow> pk(decl := q))"

lemma add_imports_inv:
  assumes "well_formed_imports P alloc" and "import_inv P nd E st"
    and "\<forall>i\<in>set is. fst i \<in> set (packages P)" and "\<not> list_ex (missing_import P) is"
  shows "\<exists>st'. fold_res (\<lambda>(p, decl, path). add_import P p decl path) is st = Inr st' \<and>
    import_inv P nd (E \<union> rel_of P is) st' \<and> decl_package st' = packages_after P is (decl_package st)"
  using assms(2-4)
proof (induction "is" arbitrary: st E)
  case Nil
  then show ?case by (simp add: rel_of_def)
next
  case (Cons i "is")
  obtain p decl path where i: "i = (p, decl, path)" by (cases i)
  show ?case
  proof (cases "is_package_name_reserved path")
    case True
    then have "rel_of P (i # is) = rel_of P is" by (auto simp: rel_of_def i)
    with True Cons show ?thesis by (simp add: i add_import_def)
  next
    case False
    with Cons.prems(3) obtain q where q: "package_map P path = Some q" by (auto simp: missing_import_def i)
    have p: "p \<in> set (packages P)" using Cons.prems(2) by (simp add: i)
    obtain st1 where st1: "add_import P p decl path st = Inr st1" "import_inv P nd (insert (p, q) E) st1"
      "decl_package st1 = (decl_package st)(decl := q)"
      using add_import_inv [OF assms(1) Cons.prems(1) p False q] by blast
    have "insert (p, q) E \<union> rel_of P is = E \<union> rel_of P (i # is)" using False q by (auto simp: rel_of_def i)
    moreover have "\<forall>i\<in>set is. fst i \<in> set (packages P)" "\<not> list_ex (missing_import P) is"
      using Cons.prems(2,3) by simp_all
    moreover have "packages_after P (i # is) (decl_package st) = packages_after P is (decl_package st1)"
      using False q st1(3) by (simp add: i)
    moreover have "fold_res (\<lambda>(p, decl, path). add_import P p decl path) (i # is) st =
        fold_res (\<lambda>(p, decl, path). add_import P p decl path) is st1"
      using st1(1) by (simp add: i)
    ultimately show ?thesis using Cons.IH [OF st1(2)] by simp
  qed
qed

lemma add_imports_missing:
  assumes "well_formed_imports P alloc" and "import_inv P nd E st"
    and "\<forall>i\<in>set is. fst i \<in> set (packages P)" and "find (missing_import P) is = Some (p, decl, path)"
  shows "fold_res (\<lambda>(p, decl, path). add_import P p decl path) is st = Inl (Unable_to_find_package decl path)"
proof -
  obtain k where k: "k < length is" "is ! k = (p, decl, path)" "missing_import P (is ! k)"
    "\<forall>j<k. \<not> missing_import P (is ! j)"
    using assms(4) unfolding find_Some_iff by metis
  then have split: "is = take k is @ (p, decl, path) # drop (Suc k) is" by (metis id_take_nth_drop)
  have "\<not> list_ex (missing_import P) (take k is)"
    using k(1,4) by (simp add: list_ex_length)
  moreover have "\<forall>i\<in>set (take k is). fst i \<in> set (packages P)" using assms(3) by (auto dest: in_set_takeD)
  ultimately obtain st' where "fold_res (\<lambda>(p, decl, path). add_import P p decl path) (take k is) st = Inr st'"
    using add_imports_inv [OF assms(1,2)] by blast
  moreover have "add_import P p decl path st' = Inl (Unable_to_find_package decl path)"
    using k(2,3) by (simp add: add_import_def missing_import_def)
  ultimately show ?thesis by (subst split) (simp add: fold_res_append)
qed

subsection \<open>The nodes of the packages\<close>

definition nodes_inv :: "import_program \<Rightarrow> (nat \<Rightarrow> ptr) \<Rightarrow> ptr list \<Rightarrow> import_state \<Rightarrow> bool" where
  "nodes_inv P alloc ps st \<longleftrightarrow>
     nodes_made st = length ps \<and> map_ok (node_map st) \<and> dom (map_abs (node_map st)) = set ps \<and>
     (\<forall>i<length ps. map_abs (node_map st) (ps ! i) = Some (alloc i) \<and>
        import_nodes st (alloc i) = import_graph_node_create P (ps ! i)) \<and>
     decl_package st = (\<lambda>_. 0) \<and> imported st = (\<lambda>_. ptr_set_empty)"

lemma add_package_node_inv:
  assumes wf: "well_formed_imports P alloc" and inv: "nodes_inv P alloc ps st" and split: "packages P = ps @ p # rest"
  shows "\<exists>st'. add_package_node P alloc p st = Inr st' \<and> nodes_inv P alloc (ps @ [p]) st'"
proof -
  have p: "p \<in> set (packages P)" "p \<notin> set ps" "length ps < length (packages P)"
    using wf split by (auto simp: well_formed_imports_def)
  have "card (dom (map_abs (node_map st))) \<le> length ps" "length (packages P) \<le> 2 ^ 31"
    using inv wf card_length [of ps] by (simp_all add: nodes_inv_def well_formed_imports_def)
  moreover have "(2 :: nat) ^ 31 < 2 ^ 32" by simp
  ultimately have "card (dom (map_abs (node_map st))) < 2 ^ 32" using p(3) by linarith
  moreover have ok: "map_ok (node_map st)" using inv by (simp add: nodes_inv_def)
  ultimately obtain m where m: "map_set 0 (node_map st) p (alloc (length ps)) = Some m" "map_ok m"
      "map_abs m = (map_abs (node_map st))(p \<mapsto> alloc (length ps))"
    using map_set_total [OF ok wf_packages(2) [OF wf p(1)], of 0 "alloc (length ps)"] by blast
  have fresh: "alloc i \<noteq> alloc (length ps)" if "i < length ps" for i
    using wf_alloc(2) [OF wf _ p(3), of i] p(3) that by simp
  have other: "ps ! i \<noteq> p" if "i < length ps" for i using p(2) that by (metis nth_mem)
  let ?st = "st\<lparr>node_map := m, nodes_made := nodes_made st + 1,
    import_nodes := (import_nodes st)(alloc (length ps) := import_graph_node_create P p)\<rparr>"
  have made: "nodes_made st = length ps" using inv by (simp add: nodes_inv_def)
  have "add_package_node P alloc p st = Inr ?st" using m(1) by (simp add: add_package_node_def Let_def made)
  moreover have "nodes_inv P alloc (ps @ [p]) ?st"
    using inv m(2,3) fresh other made by (simp add: nodes_inv_def nth_append less_Suc_eq)
  ultimately show ?thesis by blast
qed

definition nd_of :: "import_program \<Rightarrow> import_state \<Rightarrow> ptr \<Rightarrow> ptr" where
  "nd_of P st p = the (map_abs (node_map st) p)"

lemma package_nodes:
  assumes wf: "well_formed_imports P alloc"
  obtains m st where "map_init 0 (2 * length (packages P)) = Some m"
    and "fold_res (add_package_node P alloc) (packages P) (initial_state m) = Inr st"
    and "import_inv P (nd_of P st) {} st" and "decl_package st = (\<lambda>_. 0)"
proof -
  obtain m :: "ptr ptr_map" where m: "map_init 0 (2 * length (packages P)) = Some m" "map_ok m" "map_abs m = Map.empty"
  proof -
    have "2 * length (packages P) \<le> 2 ^ 32" using wf by (simp add: well_formed_imports_def)
    then show ?thesis by (rule map_init_total) (rule that)
  qed
  have "nodes_inv P alloc [] (initial_state m)" using m by (simp add: nodes_inv_def initial_state_def)
  then have "\<exists>st. fold_res (add_package_node P alloc) (packages P) (initial_state m) = Inr st \<and>
      nodes_inv P alloc ([] @ packages P) st"
    by (rule fold_res_prefixes [rotated]) (simp add: add_package_node_inv [OF wf])
  then obtain st where st: "fold_res (add_package_node P alloc) (packages P) (initial_state m) = Inr st"
    "nodes_inv P alloc (packages P) st" by auto
  have at: "map_abs (node_map st) p = Some (nd_of P st p) \<and> import_nodes st (nd_of P st p) = import_graph_node_create P p \<and>
      (\<exists>i<length (packages P). packages P ! i = p \<and> nd_of P st p = alloc i)"
    if "p \<in> set (packages P)" for p
  proof -
    from that obtain i where i: "i < length (packages P)" "packages P ! i = p" by (auto simp: in_set_conv_nth)
    then have "map_abs (node_map st) p = Some (alloc i)" "import_nodes st (alloc i) = import_graph_node_create P p"
      using st(2) by (auto simp: nodes_inv_def)
    with i show ?thesis by (auto simp: nd_of_def)
  qed
  have "nodes_placed P (nd_of P st)"
  proof -
    have "p = q" if "p \<in> set (packages P)" "q \<in> set (packages P)" "nd_of P st p = nd_of P st q" for p q
      using at [OF that(1)] at [OF that(2)] that(3) wf_alloc(2) [OF wf] by metis
    moreover have "live (nd_of P st p)" if "p \<in> set (packages P)" for p
      using at [OF that] wf_alloc(1) [OF wf] by metis
    ultimately show ?thesis by (auto simp: nodes_placed_def inj_on_def)
  qed
  moreover have "map_abs (node_map st) = (\<lambda>p. if p \<in> set (packages P) then Some (nd_of P st p) else None)"
  proof
    fix p show "map_abs (node_map st) p = (if p \<in> set (packages P) then Some (nd_of P st p) else None)"
      using at [of p] st(2) by (cases "p \<in> set (packages P)") (auto simp: nodes_inv_def)
  qed
  ultimately have "import_inv P (nd_of P st) {} st"
    using st(2) at
    by (simp add: import_inv_def nodes_inv_def graph_represents_def node_represents_def import_graph_node_create_def Let_def)
  moreover have "decl_package st = (\<lambda>_. 0)" using st(2) by (simp add: nodes_inv_def)
  ultimately show ?thesis by (rule that [OF m(1) st(1)])
qed

subsection \<open>The whole graph\<close>

lemma number_nodes_other: "n \<notin> set G \<Longrightarrow> number_nodes i G ns n = ns n"
  by (induction i G ns rule: number_nodes.induct) auto

lemma number_nodes_at:
  "distinct G \<Longrightarrow> k < length G \<Longrightarrow> number_nodes i G ns (G ! k) =
    (ns (G ! k))\<lparr>heap_index := i + k, deps_left := int (count (succs (ns (G ! k))))\<rparr>"
proof (induction G arbitrary: i k ns)
  case (Cons n G)
  then show ?case by (cases k) (auto simp: number_nodes_other nth_eq_iff_index_eq)
qed simp

lemma set_program_imports:
  "(p, i) \<in> set (program_imports P) \<longleftrightarrow> p \<in> set (packages P) \<and> i \<in> set (decl_imports P p)"
  by (auto simp: program_imports_def)

lemma rel_of_program: "rel_of P (program_imports P) = import_rel P"
  by (auto simp: rel_of_def import_rel_def set_program_imports)

lemma card_rel:
  assumes "inj_on nd U" and "E \<subseteq> U \<times> U"
  shows "card (nd ` (E `` {p})) = card (E `` {p})"
  by (rule card_image, rule inj_on_subset [OF assms(1)]) (use assms(2) in auto)

lemma import_graph_generated:
  assumes wf: "well_formed_imports P alloc" and found: "\<not> list_ex (missing_import P) (program_imports P)"
  obtains G st nd where "generate_import_dependency_graph P alloc = Inr (G, st)"
    and "nodes_placed P nd" and "graph_represents P nd (import_rel P) (import_nodes st)"
    and "distinct G" and "set G = nd ` set (packages P)"
    and "\<forall>k<length G. heap_index (import_nodes st (G ! k)) = k"
    and "\<forall>p\<in>set (packages P). deps_left (import_nodes st (nd p)) = int (card (import_rel P `` {p}))"
    and "decl_package st = packages_after P (program_imports P) (\<lambda>_. 0)"
proof -
  obtain m st0 where m: "map_init 0 (2 * length (packages P)) = Some m"
    and st0: "fold_res (add_package_node P alloc) (packages P) (initial_state m) = Inr st0"
    and inv0: "import_inv P (nd_of P st0) {} st0" and dp0: "decl_package st0 = (\<lambda>_. 0)"
    by (rule package_nodes [OF wf])
  have from_pkgs: "\<forall>i\<in>set (program_imports P). fst i \<in> set (packages P)" by (auto simp: set_program_imports)
  obtain st1 where st1: "fold_res (\<lambda>(p, decl, path). add_import P p decl path) (program_imports P) st0 = Inr st1"
    and inv: "import_inv P (nd_of P st0) (import_rel P) st1"
    and dp: "decl_package st1 = packages_after P (program_imports P) (\<lambda>_. 0)"
    using add_imports_inv [OF wf inv0 from_pkgs found] by (auto simp: rel_of_program dp0)
  define nd where "nd = nd_of P st0"
  note inv = inv [folded nd_def]
  let ?G = "map snd (map_entries (node_map st1))" and ?U = "set (packages P)"
  let ?st = "st1\<lparr>import_nodes := number_nodes 0 ?G (import_nodes st1)\<rparr>"
  have ok: "map_ok (node_map st1)" and inj: "inj_on nd ?U" and sub: "import_rel P \<subseteq> ?U \<times> ?U"
    and abs: "map_abs (node_map st1) = (\<lambda>p. if p \<in> ?U then Some (nd p) else None)"
    and rep: "graph_represents P nd (import_rel P) (import_nodes st1)"
    using inv by (simp_all add: import_inv_def nodes_placed_def)
  have entries: "set (map_entries (node_map st1)) = {(p, nd p) |p. p \<in> ?U}"
    using map_entries_set [OF ok] by (auto simp: abs split: if_splits)
  have setG: "set ?G = nd ` ?U" by (force simp: entries)
  have G: "?G = map nd (map fst (map_entries (node_map st1)))"
    using entries by (auto intro!: nth_equalityI simp: set_eq_iff dest!: nth_mem)
  have "set (map fst (map_entries (node_map st1))) = ?U" by (force simp: entries)
  then have distG: "distinct ?G"
    unfolding G distinct_map [of nd] using map_entries_distinct [OF ok] inj by simp
  have at: "number_nodes 0 ?G (import_nodes st1) (?G ! k) =
      (import_nodes st1 (?G ! k))\<lparr>heap_index := k, deps_left := int (count (succs (import_nodes st1 (?G ! k))))\<rparr>"
    if "k < length ?G" for k
    using number_nodes_at [OF distG that, of 0] by simp
  have at_nd: "\<exists>k. number_nodes 0 ?G (import_nodes st1) (nd p) =
      (import_nodes st1 (nd p))\<lparr>heap_index := k, deps_left := int (count (succs (import_nodes st1 (nd p))))\<rparr>"
    if "p \<in> ?U" for p
  proof -
    have "nd p \<in> set ?G" using that setG by blast
    then obtain k where "k < length ?G" "?G ! k = nd p" by (metis in_set_conv_nth)
    with at show ?thesis by metis
  qed
  have "generate_import_dependency_graph P alloc = Inr (?G, ?st)"
    using m st0 st1 by (simp add: generate_import_dependency_graph_def add_all_imports Let_def flip: program_imports_def)
  moreover have "nodes_placed P nd" using inv by (simp add: import_inv_def)
  moreover have "graph_represents P nd (import_rel P) (import_nodes ?st)"
    unfolding graph_represents_def
  proof
    fix p assume "p \<in> ?U"
    with at_nd [OF this] rep show "node_represents P nd (import_rel P) p (import_nodes ?st (nd p))"
      by (auto simp: graph_represents_def node_represents_def)
  qed
  moreover have "\<forall>k<length ?G. heap_index (import_nodes ?st (?G ! k)) = k" using at by simp
  moreover have "\<forall>p\<in>?U. deps_left (import_nodes ?st (nd p)) = int (card (import_rel P `` {p}))"
  proof
    fix p assume p: "p \<in> ?U"
    have s: "ptr_set_ok (succs (import_nodes st1 (nd p)))"
      "ptr_set_abs (succs (import_nodes st1 (nd p))) = nd ` (import_rel P `` {p})"
      using rep p by (simp_all add: graph_represents_def node_represents_def)
    show "deps_left (import_nodes ?st (nd p)) = int (card (import_rel P `` {p}))"
      using at_nd [OF p] ps.size_of [OF s(1)] by (auto simp: s(2) card_rel [OF inj sub])
  qed
  moreover have "decl_package ?st = packages_after P (program_imports P) (\<lambda>_. 0)" using dp by simp
  ultimately show ?thesis using distG setG by (intro that [of ?G ?st nd])
qed

lemma import_graph_missing:
  assumes wf: "well_formed_imports P alloc"
    and miss: "find (missing_import P) (program_imports P) = Some (p, decl, path)"
  shows "generate_import_dependency_graph P alloc = Inl (Unable_to_find_package decl path)"
proof -
  obtain m st0 where m: "map_init 0 (2 * length (packages P)) = Some m"
    and st0: "fold_res (add_package_node P alloc) (packages P) (initial_state m) = Inr st0"
    and inv0: "import_inv P (nd_of P st0) {} st0"
    by (rule package_nodes [OF wf])
  have "\<forall>i\<in>set (program_imports P). fst i \<in> set (packages P)" by (auto simp: set_program_imports)
  from add_imports_missing [OF wf inv0 this miss] show ?thesis
    using m st0 by (simp add: generate_import_dependency_graph_def add_all_imports flip: program_imports_def)
qed

end
