(* ===== verification/Import_Cycles.thy ===== *)
theory Import_Cycles
  imports Import_Graph
begin

text \<open>
  The depth-first search \<open>find_import_path\<close> decides whether an import path exists: it finds one
  exactly if there is one, and a package is on a cycle exactly if the search from it to itself succeeds.
\<close>

subsection \<open>Import chains\<close>

definition file_import_list :: "import_program \<Rightarrow> ptr \<Rightarrow> ast_decl list" where
  "file_import_list P p = concat (map file_imports (files (package_at P p)))"

text \<open>The packages that the search goes to from \<open>p\<close>, with the declarations that lead there.\<close>

definition import_targets :: "import_program \<Rightarrow> (ptr \<Rightarrow> ptr) \<Rightarrow> ast_decl list \<Rightarrow> (ptr \<times> ptr) set" where
  "import_targets P pk ds =
     {(q, decl). (\<exists>path. Import_Decl decl path \<in> set ds) \<and> q = pk decl \<and> q \<noteq> 0 \<and> pkg_scope (package_at P q) \<noteq> 0}"

definition search_rel :: "import_program \<Rightarrow> (ptr \<Rightarrow> ptr) \<Rightarrow> (ptr \<times> ptr) set" where
  "search_rel P pk = {(p, q). \<exists>decl. (q, decl) \<in> import_targets P pk (file_import_list P p)}"

text \<open>A chain from \<open>p\<close> to \<open>q\<close>: each item is imported by the package before it.\<close>

fun import_chain :: "import_program \<Rightarrow> (ptr \<Rightarrow> ptr) \<Rightarrow> ptr \<Rightarrow> import_path \<Rightarrow> ptr \<Rightarrow> bool" where
  "import_chain P pk p [] q \<longleftrightarrow> False"
| "import_chain P pk p [i] q \<longleftrightarrow> i \<in> import_targets P pk (file_import_list P p) \<and> fst i = q"
| "import_chain P pk p (i # j # is) q \<longleftrightarrow>
     i \<in> import_targets P pk (file_import_list P p) \<and> import_chain P pk (fst i) (j # is) q"

lemma import_chain_Cons:
  "import_chain P pk p (i # is) q \<longleftrightarrow> i \<in> import_targets P pk (file_import_list P p) \<and>
    (if is = [] then fst i = q else import_chain P pk (fst i) is q)"
  by (cases "is") simp_all

lemma import_target_rel:
  "i \<in> import_targets P pk (file_import_list P p) \<Longrightarrow> (p, fst i) \<in> search_rel P pk"
  by (cases i) (auto simp: search_rel_def)

lemma import_chain_trancl: "import_chain P pk p is q \<Longrightarrow> (p, q) \<in> (search_rel P pk)\<^sup>+"
proof (induction P pk p "is" q rule: import_chain.induct)
  case (3 P pk p i j "is" q)
  then have "(p, fst i) \<in> search_rel P pk" by (simp add: import_target_rel)
  with 3 show ?case by (auto intro: trancl_into_trancl2)
qed (auto intro: r_into_trancl import_target_rel)

lemma import_targets_Cons:
  "import_targets P pk (d # ds) = import_targets P pk [d] \<union> import_targets P pk ds"
  by (auto simp: import_targets_def)

lemma import_targets_Nil [simp]: "import_targets P pk [] = {}"
  by (simp add: import_targets_def)

lemma import_targets_mono: "set ds \<subseteq> set es \<Longrightarrow> import_targets P pk ds \<subseteq> import_targets P pk es"
  by (auto simp: import_targets_def)

subsection \<open>The search\<close>

text \<open>
  What holds after a search with the visited set grown from \<open>V\<close> to \<open>W\<close>: a path found is a chain; after
  a failed search the new packages have all their targets in \<open>W\<close>, and none of them is the goal.
\<close>

definition closed_in :: "import_program \<Rightarrow> (ptr \<Rightarrow> ptr) \<Rightarrow> ptr set \<Rightarrow> ptr \<Rightarrow> (ptr \<times> ptr) set \<Rightarrow> bool" where
  "closed_in P pk W target T \<longleftrightarrow> (\<forall>(q, decl)\<in>T. q \<in> W \<and> q \<noteq> target)"

lemma closed_in_mono: "closed_in P pk V target T \<Longrightarrow> V \<subseteq> W \<Longrightarrow> closed_in P pk W target T"
  by (auto simp: closed_in_def)

definition search_ok :: "import_program \<Rightarrow> (ptr \<Rightarrow> ptr) \<Rightarrow> ptr set \<Rightarrow> ptr \<Rightarrow> ptr_set \<Rightarrow> ptr_set \<Rightarrow> bool" where
  "search_ok P pk U target visited visited' \<longleftrightarrow>
     ptr_set_ok visited' \<and> ptr_set_abs visited \<subseteq> ptr_set_abs visited' \<and> ptr_set_abs visited' \<subseteq> U"

definition explored :: "import_program \<Rightarrow> (ptr \<Rightarrow> ptr) \<Rightarrow> ptr \<Rightarrow> ptr_set \<Rightarrow> ptr_set \<Rightarrow> bool" where
  "explored P pk target visited visited' \<longleftrightarrow>
     (\<forall>p\<in>ptr_set_abs visited' - ptr_set_abs visited.
        closed_in P pk (ptr_set_abs visited') target (import_targets P pk (file_import_list P p)))"

lemma explored_trans:
  assumes "explored P pk target v1 v2" and "explored P pk target v2 v3" and "ptr_set_abs v2 \<subseteq> ptr_set_abs v3"
  shows "explored P pk target v1 v3"
  using assms closed_in_mono unfolding explored_def by (metis DiffE DiffI)

definition search_spec ::
  "import_program \<Rightarrow> (ptr \<Rightarrow> ptr) \<Rightarrow> ptr set \<Rightarrow> nat \<Rightarrow> bool" where
  "search_spec P pk U f \<longleftrightarrow>
     (\<forall>start target visited.
        start \<in> U \<and> ptr_set_ok visited \<and> ptr_set_abs visited \<subseteq> U \<and> card (U - ptr_set_abs visited) < f \<longrightarrow>
        (\<exists>path visited'. find_import_path f P pk start target visited = Some (path, visited') \<and>
           search_ok P pk U target visited visited' \<and>
           (path \<noteq> [] \<longrightarrow> import_chain P pk start (rev path) target) \<and>
           (path = [] \<longrightarrow> start \<in> ptr_set_abs visited' \<and> explored P pk target visited visited')))"

definition targets_within :: "import_program \<Rightarrow> (ptr \<Rightarrow> ptr) \<Rightarrow> bool" where
  "targets_within P pk \<longleftrightarrow>
     (\<forall>p\<in>set (packages P). \<forall>(q, decl)\<in>import_targets P pk (file_import_list P p). q \<in> set (packages P))"

lemma find_import_path_decls_ok:
  assumes within: "targets_within P pk" and spec: "search_spec P pk (set (packages P)) f"
    and p: "p \<in> set (packages P)"
    and "set ds \<subseteq> set (file_import_list P p)" and "ptr_set_ok visited" and "ptr_set_abs visited \<subseteq> set (packages P)"
    and "card (set (packages P) - ptr_set_abs visited) < f"
  shows "\<exists>path visited'. find_import_path_decls f P pk ds target visited = Some (path, visited') \<and>
    search_ok P pk (set (packages P)) target visited visited' \<and>
    (path \<noteq> [] \<longrightarrow> import_chain P pk p (rev path) target) \<and>
    (path = [] \<longrightarrow> closed_in P pk (ptr_set_abs visited') target (import_targets P pk ds) \<and>
      explored P pk target visited visited')"
  using assms(4-)
proof (induction ds arbitrary: visited)
  case Nil
  then show ?case by (simp add: search_ok_def closed_in_def explored_def)
next
  case (Cons d ds)
  let ?U = "set (packages P)"
  have rest: "set ds \<subseteq> set (file_import_list P p)" using Cons.prems(1) by simp
  have tc: "import_targets P pk (d # ds) = import_targets P pk [d] \<union> import_targets P pk ds"
    by (rule import_targets_Cons)
  have skip: ?case if "import_targets P pk [d] = {}"
    and "find_import_path_decls f P pk (d # ds) target visited = find_import_path_decls f P pk ds target visited"
    using Cons.IH [OF rest Cons.prems(2-4)] that by (simp add: tc)
  show ?case
  proof (cases d)
    case (Import_Decl decl path)
    let ?q = "pk decl"
    show ?thesis
    proof (cases "?q = 0 \<or> pkg_scope (package_at P ?q) = 0")
      case True
      then show ?thesis by (intro skip) (auto simp: Import_Decl import_targets_def)
    next
      case False
      then have here: "import_targets P pk [d] = {(?q, decl)}" by (auto simp: Import_Decl import_targets_def)
      have step: "(?q, decl) \<in> import_targets P pk (file_import_list P p)"
        using import_targets_mono [of "[d]" "file_import_list P p" P pk] Cons.prems(1) by (auto simp: here)
      show ?thesis
      proof (cases "?q = target")
        case True
        then show ?thesis
          using False step Cons.prems by (auto simp: Import_Decl search_ok_def Let_def import_chain_Cons)
      next
        case neq: False
        have "?q \<in> ?U" using within p step by (auto simp: targets_within_def)
        with spec Cons.prems obtain next_path v1 where
          v1: "find_import_path f P pk ?q target visited = Some (next_path, v1)"
            "search_ok P pk ?U target visited v1" "next_path \<noteq> [] \<longrightarrow> import_chain P pk ?q (rev next_path) target"
            "next_path = [] \<longrightarrow> ?q \<in> ptr_set_abs v1 \<and> explored P pk target visited v1"
          unfolding search_spec_def by blast
        show ?thesis
        proof (cases "next_path = []")
          case found: False
          then show ?thesis
            using False neq v1 step by (simp add: Import_Decl Let_def import_chain_Cons)
        next
          case none: True
          have "card (?U - ptr_set_abs v1) \<le> card (?U - ptr_set_abs visited)"
            using v1(2) by (intro card_mono) (auto simp: search_ok_def)
          with Cons.prems(4) have "card (?U - ptr_set_abs v1) < f" by linarith
          moreover have "ptr_set_ok v1" "ptr_set_abs v1 \<subseteq> ?U" using v1(2) by (simp_all add: search_ok_def)
          ultimately obtain path' v2 where v2:
            "find_import_path_decls f P pk ds target v1 = Some (path', v2)"
            "search_ok P pk ?U target v1 v2" "path' \<noteq> [] \<longrightarrow> import_chain P pk p (rev path') target"
            "path' = [] \<longrightarrow> closed_in P pk (ptr_set_abs v2) target (import_targets P pk ds) \<and> explored P pk target v1 v2"
            using Cons.IH [OF rest] by blast
          have eq: "find_import_path_decls f P pk (d # ds) target visited = Some (path', v2)"
            using False neq v1(1) v2(1) none by (simp add: Import_Decl Let_def)
          have ok: "search_ok P pk ?U target visited v2" using v1(2) v2(2) by (auto simp: search_ok_def)
          have "closed_in P pk (ptr_set_abs v2) target (import_targets P pk (d # ds))" if "path' = []"
            using v2(2,4) v1(4) that none neq
            by (auto simp: tc here closed_in_def search_ok_def)
          moreover have "explored P pk target visited v2" if "path' = []"
            using explored_trans [of P pk target visited v1 v2] v1(4) v2(2,4) that none by (simp add: search_ok_def)
          ultimately show ?thesis using eq ok v2(3) by blast
        qed
      qed
    qed
  qed (rule skip; simp add: import_targets_def)+
qed

lemma find_import_path_spec:
  assumes wf: "well_formed_imports P alloc" and within: "targets_within P pk"
  shows "search_spec P pk (set (packages P)) f"
proof (induction f)
  case 0
  show ?case by (simp add: search_spec_def)
next
  case (Suc f)
  let ?U = "set (packages P)"
  show ?case
    unfolding search_spec_def
  proof (intro allI impI, elim conjE)
    fix start target visited
    assume start: "start \<in> ?U" and ok: "ptr_set_ok visited" and sub: "ptr_set_abs visited \<subseteq> ?U"
      and fuel: "card (?U - ptr_set_abs visited) < Suc f"
    have "card (insert start (ptr_set_abs visited)) \<le> 2 ^ 32"
      by (rule image_card [OF wf, where f = id]) (use start sub in auto)
    with ok wf_packages(2) [OF wf start] obtain v1 where
      v1: "ptr_set_update visited start = Some (v1, start \<in> ptr_set_abs visited)" "ptr_set_ok v1"
        "ptr_set_abs v1 = insert start (ptr_set_abs visited)"
      using ptr_set_update_total by blast
    show "\<exists>path visited'. find_import_path (Suc f) P pk start target visited = Some (path, visited') \<and>
        search_ok P pk ?U target visited visited' \<and>
        (path \<noteq> [] \<longrightarrow> import_chain P pk start (rev path) target) \<and>
        (path = [] \<longrightarrow> start \<in> ptr_set_abs visited' \<and> explored P pk target visited visited')"
    proof (cases "start \<in> ptr_set_abs visited")
      case True
      with v1 sub show ?thesis by (auto simp: search_ok_def explored_def)
    next
      case False
      have eq: "find_import_path (Suc f) P pk start target visited =
          find_import_path_decls f P pk (file_import_list P start) target v1"
        using v1(1) False wf_packages(4) [OF wf start] wf_packages(2) [OF wf start]
        by (simp add: file_import_list_def live_nonzero)
      have "?U - ptr_set_abs v1 = (?U - ptr_set_abs visited) - {start}" using v1(3) by auto
      then have "card (?U - ptr_set_abs v1) = card (?U - ptr_set_abs visited) - 1" using start False by simp
      moreover have "0 < card (?U - ptr_set_abs visited)" using start False by (auto simp: card_gt_0_iff)
      ultimately have "card (?U - ptr_set_abs v1) < f" using fuel by linarith
      with find_import_path_decls_ok [OF within Suc.IH start, of "file_import_list P start" v1 target] v1(2,3) start sub
      obtain path v2 where v2:
        "find_import_path_decls f P pk (file_import_list P start) target v1 = Some (path, v2)"
        "search_ok P pk ?U target v1 v2" "path \<noteq> [] \<longrightarrow> import_chain P pk start (rev path) target"
        "path = [] \<longrightarrow> closed_in P pk (ptr_set_abs v2) target (import_targets P pk (file_import_list P start)) \<and>
          explored P pk target v1 v2"
        by auto
      have "search_ok P pk ?U target visited v2" using v2(2) v1(3) by (auto simp: search_ok_def)
      moreover have "start \<in> ptr_set_abs v2 \<and> explored P pk target visited v2" if "path = []"
        using v2(2,4) v1(3) that by (auto simp: search_ok_def explored_def)
      ultimately show ?thesis unfolding eq using v2(1,3) by blast
    qed
  qed
qed

text \<open>A set closed under the search relation without an edge to the goal does not reach it.\<close>

lemma closed_not_reached:
  assumes "\<And>p. p \<in> W \<Longrightarrow> closed_in P pk W target (import_targets P pk (file_import_list P p))" and "p \<in> W"
  shows "(p, target) \<notin> (search_rel P pk)\<^sup>+"
proof -
  have "q \<in> W \<and> q \<noteq> target" if "(p, q) \<in> (search_rel P pk)\<^sup>+" for q
    using that
  proof (induction rule: trancl_induct)
    case (base q)
    with assms(1) [OF assms(2)] show ?case by (auto simp: search_rel_def closed_in_def)
  next
    case (step q r)
    with assms(1) [of q] show ?case by (auto simp: search_rel_def closed_in_def)
  qed
  then show ?thesis by blast
qed

lemma find_import_path_cycle:
  assumes wf: "well_formed_imports P alloc" and within: "targets_within P pk" and p: "p \<in> set (packages P)"
  shows "\<exists>path visited. find_import_path (Suc (length (packages P))) P pk p target ptr_set_empty = Some (path, visited) \<and>
    (path \<noteq> [] \<longleftrightarrow> (p, target) \<in> (search_rel P pk)\<^sup>+) \<and> (path \<noteq> [] \<longrightarrow> import_chain P pk p (rev path) target)"
proof -
  have "card (set (packages P) - ptr_set_abs ptr_set_empty) < Suc (length (packages P))"
    by (simp add: card_length less_Suc_eq_le)
  with find_import_path_spec [OF assms(1,2)] p obtain path v where
    v: "find_import_path (Suc (length (packages P))) P pk p target ptr_set_empty = Some (path, v)"
      "path \<noteq> [] \<longrightarrow> import_chain P pk p (rev path) target"
      "path = [] \<longrightarrow> p \<in> ptr_set_abs v \<and> explored P pk target ptr_set_empty v"
    unfolding search_spec_def by (metis empty_subsetI ps.empty)
  have "(p, target) \<notin> (search_rel P pk)\<^sup>+" if "path = []"
    by (rule closed_not_reached [of "ptr_set_abs v"]) (use v(3) that in \<open>auto simp: explored_def\<close>)
  with v import_chain_trancl show ?thesis by blast
qed

end
