(* ===== verification/Package_Order.thy ===== *)
theory Package_Order
  imports Import_Cycles
begin

text \<open>
  The sort of the packages: what the priority queue keeps, what each round does, and what the
  order and the reported errors say about the import relation.
\<close>

subsection \<open>The queue\<close>

text \<open>The key that the comparison orders by: global packages first, by falling number.\<close>

definition import_rank :: "import_program \<Rightarrow> import_nodes \<Rightarrow> ptr \<Rightarrow> int \<times> int" where
  "import_rank P ns n =
     (let p = package_at P (node_pkg (ns n))
      in if global_scope p then (0, - pkg_id p) else (1, deps_left (ns n)))"

definition import_key_cmp :: "import_program \<Rightarrow> import_queue \<Rightarrow> nat \<Rightarrow> nat \<Rightarrow> int" where
  "import_key_cmp P pq i j =
     (let x = import_rank P (mem pq) (queue pq ! i); y = import_rank P (mem pq) (queue pq ! j)
      in if x < y then -1 else if y < x then 1 else 0)"

interpretation iq: pq_client "import_key_cmp P" import_graph_node_swap "import_rank P" for P
  by unfold_locales
     (auto simp: import_key_cmp_def import_graph_node_swap_def import_rank_def Let_def swap_at_def)

lemma graph_represents_cong:
  assumes "\<And>n. node_pkg (ns' n) = node_pkg (ns n) \<and> node_scope (ns' n) = node_scope (ns n) \<and>
    succs (ns' n) = succs (ns n) \<and> preds (ns' n) = preds (ns n)"
  shows "graph_represents P nd E ns' = graph_represents P nd E ns"
  by (simp add: graph_represents_def node_represents_def assms)

text \<open>
  The queue holds nodes of packages, each once and at the position it stores; a node that has left
  the queue stores a position beyond its end.
\<close>

definition import_queue_ok ::
  "import_program \<Rightarrow> (ptr \<Rightarrow> ptr) \<Rightarrow> (ptr \<times> ptr) set \<Rightarrow> import_queue \<Rightarrow> bool" where
  "import_queue_ok P nd E q \<longleftrightarrow>
     graph_represents P nd E (mem q) \<and> distinct (queue q) \<and> set (queue q) \<subseteq> nd ` set (packages P) \<and>
     (\<forall>k<length (queue q). heap_index (mem q (queue q ! k)) = k) \<and>
     (\<forall>n\<in>nd ` set (packages P) - set (queue q). length (queue q) \<le> heap_index (mem q n))"

lemma swap_mem:
  assumes "i < length (queue q)" and "j < length (queue q)" and "distinct (queue q)"
  shows "mem (import_graph_node_swap q i j) n =
    (mem q n)\<lparr>heap_index := (if n = queue q ! j then i else if n = queue q ! i then j else heap_index (mem q n))\<rparr>"
  by (simp add: import_graph_node_swap_def Let_def)

lemma queue_swap: "queue (import_graph_node_swap q i j) = swap_at (queue q) i j"
  by (simp add: import_graph_node_swap_def Let_def swap_at_def)

lemma import_queue_swap_closed: "swap_closed import_graph_node_swap (import_queue_ok P nd E)"
  unfolding swap_closed_def
proof (intro allI impI, elim conjE)
  fix q :: import_queue and i j
  assume ij: "i < length (queue q)" "j < length (queue q)" and ok: "import_queue_ok P nd E q"
  let ?q = "import_graph_node_swap q i j"
  have d: "distinct (queue q)" using ok by (simp add: import_queue_ok_def)
  note mem = swap_mem [OF ij d]
  have set: "set (queue ?q) = set (queue q)" unfolding queue_swap by (rule set_swap_at [OF ij])
  have "heap_index (mem ?q (queue ?q ! k)) = k" if k: "k < length (queue q)" for k
  proof -
    have "queue ?q ! k = queue q ! (if k = i then j else if k = j then i else k)"
      using ij k by (simp add: queue_swap nth_swap_at)
    then show ?thesis
      using ok ij k d by (auto simp: mem import_queue_ok_def nth_eq_iff_index_eq)
  qed
  moreover have "graph_represents P nd E (mem ?q)"
    using ok graph_represents_cong [of "mem ?q" "mem q"] by (simp add: mem import_queue_ok_def)
  moreover have "heap_index (mem ?q n) = heap_index (mem q n)" if "n \<notin> set (queue q)" for n
    using that ij by (auto simp: mem)
  ultimately show "import_queue_ok P nd E ?q"
    using ok ij d by (simp add: import_queue_ok_def set) (simp add: queue_swap distinct_swap_at)
qed

lemma queue_node:
  assumes "import_queue_ok P nd E q" and "p \<in> set (packages P)"
  shows "node_represents P nd E p (mem q (nd p))"
  using assms by (simp add: import_queue_ok_def graph_represents_def)

text \<open>On such queues the comparison of the code orders by the key.\<close>

lemma import_cmp_agrees:
  assumes wf: "well_formed_imports P alloc"
  shows "iq.agrees P (import_queue_ok P nd E) (import_graph_node_cmp P)"
  unfolding iq.agrees_def
proof (intro conjI import_queue_swap_closed allI impI, elim conjE)
  fix q :: import_queue and i j
  assume ok: "import_queue_ok P nd E q" and ij: "i < length (queue q)" "j < length (queue q)" "i \<noteq> j"
  have "queue q ! i \<in> nd ` set (packages P)" "queue q ! j \<in> nd ` set (packages P)"
    using ok ij by (auto simp: import_queue_ok_def)
  then obtain x y where x: "x \<in> set (packages P)" "queue q ! i = nd x" and y: "y \<in> set (packages P)" "queue q ! j = nd y"
    by blast
  have "queue q ! i \<noteq> queue q ! j" using ok ij by (simp add: import_queue_ok_def nth_eq_iff_index_eq)
  with x y have "x \<noteq> y" by auto
  moreover have "inj_on (\<lambda>p. pkg_id (package_at P p)) {p \<in> set (packages P). global_scope (package_at P p)}"
    using wf by (simp add: well_formed_imports_def)
  ultimately have "pkg_id (package_at P x) \<noteq> pkg_id (package_at P y)"
    if "global_scope (package_at P x)" "global_scope (package_at P y)"
    using x(1) y(1) that by (metis (mono_tags, lifting) inj_onD mem_Collect_eq)
  moreover have "node_pkg (mem q (nd x)) = x" "node_pkg (mem q (nd y)) = y"
    using queue_node [OF ok x(1)] queue_node [OF ok y(1)] by (simp_all add: node_represents_def)
  ultimately show "import_graph_node_cmp P q i j = import_key_cmp P q i j"
    by (auto simp: import_graph_node_cmp_def import_key_cmp_def import_rank_def Let_def x(2) y(2))
qed

lemma queue_position:
  assumes "import_queue_ok P nd E q" and "n \<in> nd ` set (packages P)"
  shows "n \<in> set (queue q) \<Longrightarrow> heap_index (mem q n) < length (queue q) \<and> queue q ! heap_index (mem q n) = n"
    and "n \<notin> set (queue q) \<Longrightarrow> length (queue q) \<le> heap_index (mem q n)"
  using assms by (auto simp: import_queue_ok_def in_set_conv_nth)

subsection \<open>One importer is released\<close>

definition import_heap :: "import_program \<Rightarrow> (ptr \<Rightarrow> ptr) \<Rightarrow> (ptr \<times> ptr) set \<Rightarrow> import_queue \<Rightarrow> bool" where
  "import_heap P nd E q \<longleftrightarrow> import_queue_ok P nd E q \<and> iq.is_heap P q"

lemma heap_but_changed:
  assumes "iq.is_heap P q" and "i < length (queue q)" and "queue q' = queue q"
    and "\<And>k. k < length (queue q) \<Longrightarrow> k \<noteq> i \<Longrightarrow> iq.rk P q' k = iq.rk P q k"
  shows "iq.heap_but_at P i q'"
  unfolding iq.heap_but_at_def assms(3)
proof (intro conjI allI impI, goal_cases)
  case (1 k)
  then have "(k - 1) div 2 < length (queue q)" by (auto simp: less_Suc_eq_le)
  with 1 iq.is_heap_but_at [OF assms(1,2)] show ?case by (simp add: assms(4) iq.heap_but_at_def)
next
  case (2 k)
  then have "0 < i" "i < k" by auto
  then have "(i - 1) div 2 < i" by simp
  with \<open>i < k\<close> assms(2) have *: "(i - 1) div 2 < length (queue q)" "(i - 1) div 2 \<noteq> i" "k \<noteq> i" by auto
  with 2 iq.is_heap_but_at [OF assms(1,2)] show ?case by (simp add: assms(4) iq.heap_but_at_def)
qed

lemma release_importer_ok:
  assumes wf: "well_formed_imports P alloc" and q: "import_heap P nd E q" and n: "n \<in> nd ` set (packages P)"
  shows "import_heap P nd E (release_importer P n q) \<and> mset (queue (release_importer P n q)) = mset (queue q) \<and>
    (\<forall>x. deps_left (mem (release_importer P n q) x) =
      (if x = n then max (deps_left (mem q x) - 1) 0 else deps_left (mem q x)))"
proof -
  define m where "m = (mem q)(n := (mem q n)\<lparr>deps_left := max (deps_left (mem q n) - 1) 0\<rparr>)"
  let ?q = "q\<lparr>mem := m\<rparr>" and ?i = "heap_index (mem q n)"
  have ok: "import_queue_ok P nd E q" and heap: "iq.is_heap P q" using q by (simp_all add: import_heap_def)
  have "heap_index (m x) = heap_index (mem q x)" for x by (simp add: m_def)
  moreover have "graph_represents P nd E m"
    using ok graph_represents_cong [of m "mem q"] by (simp add: m_def import_queue_ok_def)
  ultimately have ok1: "import_queue_ok P nd E ?q" using ok by (simp add: import_queue_ok_def)
  have eq: "release_importer P n q = priority_queue_fix (import_key_cmp P) import_graph_node_swap ?q ?i"
    using iq.fix_agrees [OF import_cmp_agrees [OF wf] ok1]
    by (simp add: release_importer_def m_def Let_def)
  have "iq.is_heap P (priority_queue_fix (import_key_cmp P) import_graph_node_swap ?q ?i)"
  proof (cases "n \<in> set (queue q)")
    case True
    note at = queue_position(1) [OF ok n True]
    have "queue q ! k \<noteq> n" if "k < length (queue q)" "k \<noteq> ?i" for k
      using ok at that by (metis import_queue_ok_def nth_eq_iff_index_eq)
    then have "iq.rk P ?q k = iq.rk P q k" if "k < length (queue q)" "k \<noteq> ?i" for k
      using that by (simp add: iq.rk_def import_rank_def m_def Let_def)
    then have "iq.heap_but_at P ?i ?q" using at by (intro heap_but_changed [OF heap]) auto
    with at show ?thesis by (intro iq.fix_heap) auto
  next
    case False
    note at = queue_position(2) [OF ok n False]
    have "import_rank P m x = import_rank P (mem q) x" if "x \<in> set (queue q)" for x
      using False that by (auto simp: import_rank_def m_def Let_def)
    then have "iq.is_heap P ?q" using heap by (intro iq.is_heap_cong [of ?q q]) auto
    with at show ?thesis by (simp add: iq.fix_outside)
  qed
  moreover have "import_queue_ok P nd E (priority_queue_fix (import_key_cmp P) import_graph_node_swap ?q ?i)"
    by (rule iq.fix_keeps [where Q = "import_queue_ok P nd E", OF import_queue_swap_closed ok1])
  moreover have "mset (queue (priority_queue_fix (import_key_cmp P) import_graph_node_swap ?q ?i)) = mset (queue q)"
    by (rule iq.fix_keeps [where Q = "\<lambda>r. mset (queue r) = mset (queue q)", OF iq.swap_closed_mset]) simp
  moreover have "swap_closed import_graph_node_swap (\<lambda>r. \<forall>x. deps_left (mem r x) = deps_left (m x))"
    by (auto simp: swap_closed_def import_graph_node_swap_def Let_def)
  then have "\<forall>x. deps_left (mem (priority_queue_fix (import_key_cmp P) import_graph_node_swap ?q ?i) x) = deps_left (m x)"
    by (rule iq.fix_keeps [where Q = "\<lambda>r. \<forall>x. deps_left (mem r x) = deps_left (m x)"]) simp
  ultimately show ?thesis unfolding eq by (simp add: import_heap_def m_def)
qed

lemma release_importers_ok:
  assumes wf: "well_formed_imports P alloc" and "import_heap P nd E q" and "distinct ns"
    and "set ns \<subseteq> nd ` set (packages P)"
  shows "import_heap P nd E (fold (release_importer P) ns q) \<and>
    mset (queue (fold (release_importer P) ns q)) = mset (queue q) \<and>
    (\<forall>x. deps_left (mem (fold (release_importer P) ns q) x) =
      (if x \<in> set ns then max (deps_left (mem q x) - 1) 0 else deps_left (mem q x)))"
  using assms(2-)
proof (induction ns arbitrary: q)
  case (Cons n ns)
  have n: "n \<in> nd ` set (packages P)" using Cons.prems(3) by simp
  note r = release_importer_ok [OF wf Cons.prems(1) n]
  have "import_heap P nd E (release_importer P n q)" using r by blast
  from Cons.IH [OF this] Cons.prems(2,3) r show ?case by simp
qed simp

subsection \<open>One round\<close>

definition queued :: "import_program \<Rightarrow> (ptr \<Rightarrow> ptr) \<Rightarrow> import_queue \<Rightarrow> ptr set" where
  "queued P nd q = {p \<in> set (packages P). nd p \<in> set (queue q)}"

text \<open>
  The count of a queued package is the number of its imports that are still queued, and the packages
  emitted are those no longer queued.
\<close>

definition sort_inv ::
  "import_program \<Rightarrow> (ptr \<Rightarrow> ptr) \<Rightarrow> (ptr \<times> ptr) set \<Rightarrow> sort_state \<Rightarrow> bool" where
  "sort_inv P nd E s \<longleftrightarrow>
     import_heap P nd E (pkg_queue s) \<and>
     (\<forall>p\<in>queued P nd (pkg_queue s).
        deps_left (mem (pkg_queue s) (nd p)) = int (card (E `` {p} \<inter> queued P nd (pkg_queue s)))) \<and>
     ptr_set_ok (pkgs_emitted s) \<and> ptr_set_abs (pkgs_emitted s) = set (packages P) - queued P nd (pkg_queue s)"

text \<open>The package a round may take: a global one if there is one, or one with the fewest imports left.\<close>

definition choice_ok :: "import_program \<Rightarrow> (ptr \<times> ptr) set \<Rightarrow> ptr \<Rightarrow> ptr set \<Rightarrow> bool" where
  "choice_ok P E p Q \<longleftrightarrow>
     p \<in> Q \<and> (global_scope (package_at P p) \<or>
       (\<forall>r\<in>Q. \<not> global_scope (package_at P r) \<and> card (E `` {p} \<inter> Q) \<le> card (E `` {r} \<inter> Q)))"

text \<open>The errors of a round: none if no import is left, otherwise the report of the path found.\<close>

definition round_errors ::
  "import_program \<Rightarrow> (ptr \<Rightarrow> ptr) \<Rightarrow> (ptr \<times> ptr) set \<Rightarrow> ptr \<Rightarrow> ptr set \<Rightarrow> import_error list \<Rightarrow> bool" where
  "round_errors P pk E p Q errs \<longleftrightarrow>
     (if E `` {p} \<inter> Q = {} then errs = []
      else \<exists>path. errs = report_import_cycle path \<and> (path \<noteq> [] \<longleftrightarrow> (p, p) \<in> (search_rel P pk)\<^sup>+) \<and>
        (path \<noteq> [] \<longrightarrow> import_chain P pk p (rev path) p))"

lemma queue_pop_ok:
  assumes wf: "well_formed_imports P alloc" and q: "import_heap P nd E q" and placed: "nodes_placed P nd"
    and ne: "queue q \<noteq> []"
  obtains q' p where "priority_queue_pop (import_graph_node_cmp P) import_graph_node_swap q = Some (q', nd p)"
    and "p \<in> queued P nd q" and "import_heap P nd E q'" and "queued P nd q' = queued P nd q - {p}"
    and "\<forall>n. deps_left (mem q' n) = deps_left (mem q n)"
    and "\<forall>r\<in>queued P nd q. import_rank P (mem q) (nd p) \<le> import_rank P (mem q) (nd r)"
    and "length (queue q) = Suc (length (queue q'))"
proof -
  have ok: "import_queue_ok P nd E q" and heap: "iq.is_heap P q" using q by (simp_all add: import_heap_def)
  obtain q' n where pop: "priority_queue_pop (import_key_cmp P) import_graph_node_swap q = Some (q', n)"
    and ms: "mset (queue q) = add_mset n (mset (queue q'))" and heap': "iq.is_heap P q'"
    and least: "\<forall>y\<in>set (queue q). import_rank P (mem q) n \<le> import_rank P (mem q) y"
    and mem': "mem q' = mem (iq.pop_state P q)" and queue': "queue q' = butlast (queue (iq.pop_state P q))"
    by (rule iq.pop_correct [OF heap ne])
  let ?s = "iq.pop_state P q"
  have ok_s: "import_queue_ok P nd E ?s"
    by (rule iq.pop_state_keeps [where Q = "import_queue_ok P nd E", OF ne import_queue_swap_closed ok])
  have "swap_closed import_graph_node_swap (\<lambda>r. \<forall>x. deps_left (mem r x) = deps_left (mem q x))"
    by (auto simp: swap_closed_def import_graph_node_swap_def Let_def)
  then have deps: "\<forall>x. deps_left (mem ?s x) = deps_left (mem q x)"
    by (rule iq.pop_state_keeps [where Q = "\<lambda>r. \<forall>x. deps_left (mem r x) = deps_left (mem q x)", OF ne]) simp
  have mss: "mset (queue ?s) = mset (queue q)"
    by (rule iq.pop_state_keeps [where Q = "\<lambda>r. mset (queue r) = mset (queue q)", OF ne iq.swap_closed_mset]) simp
  have set: "set (queue q) = insert n (set (queue q'))" using ms by (metis set_mset_add_mset_insert set_mset_mset)
  have dist: "distinct (queue q)" using ok by (simp add: import_queue_ok_def)
  have notin: "n \<notin> set (queue q')"
  proof
    assume "n \<in> set (queue q')"
    then have "n \<in># mset (queue q')" by simp
    with ms have "2 \<le> Multiset.count (mset (queue q)) n" by simp
    with dist show False by (simp add: distinct_count_atmost_1 split: if_splits)
  qed
  have sets: "set (queue ?s) = set (queue q)" using mss by (rule mset_eq_setD)
  have ne_s: "queue ?s \<noteq> []" using mss ne by auto
  have len: "length (queue q') = length (queue ?s) - 1" by (simp add: queue')
  have nU: "n \<in> nd ` set (packages P)" using ok set by (auto simp: import_queue_ok_def)
  then obtain p where p: "p \<in> set (packages P)" "n = nd p" by blast
  have inj: "nd a = nd b \<longleftrightarrow> a = b" if "a \<in> set (packages P)" "b \<in> set (packages P)" for a b
    using placed that by (auto simp: nodes_placed_def inj_on_def)
  have "import_queue_ok P nd E q'"
    unfolding import_queue_ok_def
  proof (intro conjI)
    show "graph_represents P nd E (mem q')" using ok_s by (simp add: import_queue_ok_def mem')
    show "distinct (queue q')" using ok_s by (simp add: import_queue_ok_def queue' distinct_butlast)
    show "set (queue q') \<subseteq> nd ` set (packages P)" using ok set by (auto simp: import_queue_ok_def)
    show "\<forall>k<length (queue q'). heap_index (mem q' (queue q' ! k)) = k"
      using ok_s by (simp add: import_queue_ok_def queue' mem' nth_butlast)
    show "\<forall>m\<in>nd ` set (packages P) - set (queue q'). length (queue q') \<le> heap_index (mem q' m)"
    proof
      fix m assume m: "m \<in> nd ` set (packages P) - set (queue q')"
      show "length (queue q') \<le> heap_index (mem q' m)"
      proof (cases "m = n")
        case True
        have "n \<in> set (queue ?s)" by (simp add: sets set)
        note at = queue_position(1) [OF ok_s nU this]
        show ?thesis
        proof (rule ccontr)
          assume "\<not> ?thesis"
          then have "heap_index (mem ?s n) < length (queue q')" by (simp add: True mem')
          moreover from this at have "queue q' ! heap_index (mem ?s n) = n" by (simp add: queue' nth_butlast)
          ultimately show False using notin by (metis nth_mem)
        qed
      next
        case False
        with m set have "m \<notin> set (queue ?s)" by (simp add: sets)
        with queue_position(2) [OF ok_s _ this] m len show ?thesis by (simp add: mem')
      qed
    qed
  qed
  with heap' have ok': "import_heap P nd E q'" by (simp add: import_heap_def)
  have "queued P nd q' = queued P nd q - {p}"
    using set notin p inj by (auto simp: queued_def)
  moreover have "priority_queue_pop (import_graph_node_cmp P) import_graph_node_swap q = Some (q', nd p)"
    using pop p(2) iq.pop_agrees [OF import_cmp_agrees [OF wf] ok] by simp
  moreover have "p \<in> queued P nd q" using p set by (simp add: queued_def)
  moreover have "length (queue q) = Suc (length (queue q'))" using ms by (metis size_mset size_add_mset)
  ultimately show ?thesis
    using least p(2) deps by (intro that [OF _ _ ok']) (auto simp: mem' queued_def)
qed

lemma rank_choice:
  assumes inv: "sort_inv P nd E s" and p: "p \<in> queued P nd (pkg_queue s)"
    and least: "\<forall>r\<in>queued P nd (pkg_queue s).
      import_rank P (mem (pkg_queue s)) (nd p) \<le> import_rank P (mem (pkg_queue s)) (nd r)"
  shows "choice_ok P E p (queued P nd (pkg_queue s))"
proof -
  let ?q = "pkg_queue s" and ?Q = "queued P nd (pkg_queue s)"
  have ok: "import_queue_ok P nd E ?q" using inv by (simp add: sort_inv_def import_heap_def)
  have pkg: "node_pkg (mem ?q (nd r)) = r" if "r \<in> ?Q" for r
    using queue_node [OF ok, of r] that by (simp add: queued_def node_represents_def)
  have deps: "deps_left (mem ?q (nd r)) = int (card (E `` {r} \<inter> ?Q))" if "r \<in> ?Q" for r
    using inv that by (simp add: sort_inv_def)
  have "\<not> global_scope (package_at P r) \<and> card (E `` {p} \<inter> ?Q) \<le> card (E `` {r} \<inter> ?Q)"
    if "\<not> global_scope (package_at P p)" "r \<in> ?Q" for r
    using bspec [OF least that(2)] that(1)
    by (auto simp: import_rank_def Let_def pkg [OF p] pkg [OF that(2)] deps [OF p] deps [OF that(2)] split: if_splits)
  with p show ?thesis by (auto simp: choice_ok_def)
qed

lemma sort_step_ok:
  assumes wf: "well_formed_imports P alloc" and placed: "nodes_placed P nd" and within: "targets_within P pk"
    and sub: "E \<subseteq> set (packages P) \<times> set (packages P)"
    and inv: "sort_inv P nd E s" and ne: "queue (pkg_queue s) \<noteq> []"
  obtains s' p errs where "sort_step (Suc (length (packages P))) P pk s = Inr s'" and "sort_inv P nd E s'"
    and "choice_ok P E p (queued P nd (pkg_queue s))"
    and "queued P nd (pkg_queue s') = queued P nd (pkg_queue s) - {p}"
    and "length (queue (pkg_queue s)) = Suc (length (queue (pkg_queue s')))"
    and "package_order s' = package_order s @ [nd p]" and "import_errors s' = import_errors s @ errs"
    and "round_errors P pk E p (queued P nd (pkg_queue s)) errs"
proof -
  let ?q = "pkg_queue s" and ?Q = "queued P nd (pkg_queue s)"
  have heap: "import_heap P nd E ?q" using inv by (simp add: sort_inv_def)
  obtain q1 p where pop: "priority_queue_pop (import_graph_node_cmp P) import_graph_node_swap ?q = Some (q1, nd p)"
    and p: "p \<in> ?Q" and heap1: "import_heap P nd E q1" and Q1: "queued P nd q1 = ?Q - {p}"
    and deps1: "\<forall>n. deps_left (mem q1 n) = deps_left (mem ?q n)"
    and least: "\<forall>r\<in>?Q. import_rank P (mem ?q) (nd p) \<le> import_rank P (mem ?q) (nd r)"
    and len: "length (queue ?q) = Suc (length (queue q1))"
    by (rule queue_pop_ok [OF wf heap placed ne])
  have pU: "p \<in> set (packages P)" using p by (simp add: queued_def)
  have inj: "nd a = nd b \<longleftrightarrow> a = b" if "a \<in> set (packages P)" "b \<in> set (packages P)" for a b
    using placed that by (auto simp: nodes_placed_def inj_on_def)
  have ok1: "import_queue_ok P nd E q1" using heap1 by (simp add: import_heap_def)
  have node: "node_represents P nd E p (mem q1 (nd p))" by (rule queue_node [OF ok1 pU])
  let ?ns = "ptr_set_elems (preds (mem q1 (nd p)))"
  have ns: "distinct ?ns" "set ?ns = nd ` (E\<inverse> `` {p})"
    using node ps.elems by (auto simp: node_represents_def)
  have nsU: "set ?ns \<subseteq> nd ` set (packages P)" using ns(2) sub by auto
  let ?q2 = "fold (release_importer P) ?ns q1"
  note rel = release_importers_ok [OF wf heap1 ns(1) nsU]
  have set2: "set (queue ?q2) = set (queue q1)" using rel by (metis mset_eq_setD)
  then have Q2: "queued P nd ?q2 = ?Q - {p}" using Q1 by (simp add: queued_def)
  have len2: "length (queue ?q2) = length (queue q1)" using rel by (metis size_mset)
  have count: "deps_left (mem ?q2 (nd r)) = int (card (E `` {r} \<inter> (?Q - {p})))" if r: "r \<in> ?Q - {p}" for r
  proof -
    have rU: "r \<in> set (packages P)" using r by (simp add: queued_def)
    have before: "deps_left (mem q1 (nd r)) = int (card (E `` {r} \<inter> ?Q))"
      using inv r deps1 by (simp add: sort_inv_def)
    have "nd r \<in> set ?ns \<longleftrightarrow> (r, p) \<in> E"
    proof
      assume "nd r \<in> set ?ns"
      then obtain a where a: "nd r = nd a" "(a, p) \<in> E" by (auto simp: ns(2))
      with sub inj [OF rU, of a] show "(r, p) \<in> E" by auto
    qed (auto simp: ns(2))
    moreover have "E `` {r} \<inter> (?Q - {p}) = (E `` {r} \<inter> ?Q) - {p}" by blast
    moreover have "p \<in> E `` {r} \<inter> ?Q \<longleftrightarrow> (r, p) \<in> E" using p by auto
    moreover have fin: "finite (E `` {r} \<inter> ?Q)" by (simp add: queued_def)
    moreover have "0 < card (E `` {r} \<inter> ?Q)" if "(r, p) \<in> E" using that p fin by (auto simp: card_gt_0_iff)
    ultimately show ?thesis using rel before by (auto simp: card_Diff_singleton_if of_nat_diff max_def)
  qed
  have before_p: "deps_left (mem q1 (nd p)) = int (card (E `` {p} \<inter> ?Q))"
    using inv p deps1 by (simp add: sort_inv_def)
  have pkg: "node_pkg (mem q1 (nd p)) = p" using node by (simp add: node_represents_def)
  obtain path v where path: "find_import_path (Suc (length (packages P))) P pk p p ptr_set_empty = Some (path, v)"
    "path \<noteq> [] \<longleftrightarrow> (p, p) \<in> (search_rel P pk)\<^sup>+" "path \<noteq> [] \<longrightarrow> import_chain P pk p (rev path) p"
    using find_import_path_cycle [OF wf within pU] by blast
  define errs where "errs = (if E `` {p} \<inter> ?Q = {} then [] else report_import_cycle path)"
  have fin: "finite (E `` {p} \<inter> ?Q)" by (simp add: queued_def)
  have errs: "import_errors_of (Suc (length (packages P))) P pk (mem q1) (nd p) = Inr errs"
    using path(1) fin by (auto simp: import_errors_of_def errs_def before_p pkg card_gt_0_iff simp del: find_import_path.simps)
  have round: "round_errors P pk E p ?Q errs" using path(2,3) by (auto simp: round_errors_def errs_def)
  have em: "ptr_set_ok (pkgs_emitted s)" "ptr_set_abs (pkgs_emitted s) = set (packages P) - ?Q"
    using inv by (simp_all add: sort_inv_def)
  have "card (insert p (ptr_set_abs (pkgs_emitted s))) \<le> 2 ^ 32"
    by (rule image_card [OF wf, where f = id]) (use pU em in auto)
  then obtain em' where em': "ptr_set_update (pkgs_emitted s) p = Some (em', p \<in> ptr_set_abs (pkgs_emitted s))"
    "ptr_set_ok em'" "ptr_set_abs em' = insert p (ptr_set_abs (pkgs_emitted s))"
    using ptr_set_update_total [OF em(1) wf_packages(2) [OF wf pU]] by blast
  let ?s = "s\<lparr>pkg_queue := ?q2, pkgs_emitted := em', package_order := package_order s @ [nd p],
    import_errors := import_errors s @ errs\<rparr>"
  have "sort_step (Suc (length (packages P))) P pk s = Inr ?s"
    using pop errs em'(1) em(2) p pkg live_nonzero [OF wf_packages(2) [OF wf pU]]
    by (simp add: sort_step_def Let_def del: find_import_path.simps)
  moreover have "sort_inv P nd E ?s"
    using rel count Q2 em'(2,3) em(2) p pU by (auto simp: sort_inv_def)
  moreover have "choice_ok P E p ?Q" by (rule rank_choice [OF inv p least])
  ultimately show ?thesis
    using Q2 len len2 round by (intro that [of ?s p errs]) auto
qed

subsection \<open>The loop\<close>

text \<open>The rounds of the loop: the packages taken, each from those that are left, and the errors.\<close>

fun rounds_ok ::
  "import_program \<Rightarrow> (ptr \<Rightarrow> ptr) \<Rightarrow> (ptr \<times> ptr) set \<Rightarrow> ptr list \<Rightarrow> import_error list \<Rightarrow> bool" where
  "rounds_ok P pk E [] errs \<longleftrightarrow> errs = []"
| "rounds_ok P pk E (p # ps) errs \<longleftrightarrow>
     choice_ok P E p (set (p # ps)) \<and>
     (\<exists>e es. errs = e @ es \<and> round_errors P pk E p (set (p # ps)) e \<and> rounds_ok P pk E ps es)"

lemma sort_loop_ok:
  assumes wf: "well_formed_imports P alloc" and placed: "nodes_placed P nd" and within: "targets_within P pk"
    and sub: "E \<subseteq> set (packages P) \<times> set (packages P)"
    and "sort_inv P nd E s" and "length (queue (pkg_queue s)) \<le> r"
  shows "\<exists>s' ps errs. sort_loop r (Suc (length (packages P))) P pk s = Inr s' \<and> distinct ps \<and>
    set ps = queued P nd (pkg_queue s) \<and> graph_represents P nd E (mem (pkg_queue s')) \<and>
    package_order s' = package_order s @ map nd ps \<and>
    import_errors s' = import_errors s @ errs \<and> rounds_ok P pk E ps errs"
  using assms(5,6)
proof (induction r arbitrary: s)
  case 0
  then show ?case
    by (intro exI [of _ s] exI [of _ "[]"])
       (simp add: sort_loop.simps sort_inv_def import_heap_def import_queue_ok_def queued_def)
next
  case (Suc r)
  let ?f = "Suc (length (packages P))"
  show ?case
  proof (cases "queue (pkg_queue s) = []")
    case True
    with Suc.prems(1) show ?thesis
      by (intro exI [of _ s] exI [of _ "[]"])
         (simp add: sort_loop.simps sort_inv_def import_heap_def import_queue_ok_def queued_def)
  next
    case False
    obtain s1 p e where s1: "sort_step ?f P pk s = Inr s1" "sort_inv P nd E s1"
        "choice_ok P E p (queued P nd (pkg_queue s))"
        "queued P nd (pkg_queue s1) = queued P nd (pkg_queue s) - {p}"
        "length (queue (pkg_queue s)) = Suc (length (queue (pkg_queue s1)))"
        "package_order s1 = package_order s @ [nd p]" "import_errors s1 = import_errors s @ e"
        "round_errors P pk E p (queued P nd (pkg_queue s)) e"
      by (rule sort_step_ok [OF wf placed within sub Suc.prems(1) False])
    from Suc.IH [OF s1(2)] s1(5) Suc.prems(2) obtain s' ps errs where
      s': "sort_loop r ?f P pk s1 = Inr s'" "distinct ps" "set ps = queued P nd (pkg_queue s1)"
        "graph_represents P nd E (mem (pkg_queue s'))" "package_order s' = package_order s1 @ map nd ps"
        "import_errors s' = import_errors s1 @ errs" "rounds_ok P pk E ps errs"
      by auto
    have p: "p \<in> queued P nd (pkg_queue s)" using s1(3) by (simp add: choice_ok_def)
    have set: "set (p # ps) = queued P nd (pkg_queue s)" using s'(3) s1(4) p by auto
    have "p \<notin> set ps" using s'(3) s1(4) by auto
    moreover have "sort_loop (Suc r) ?f P pk s = Inr s'" using False s1(1) s'(1) by (simp add: sort_loop.simps)
    moreover have "rounds_ok P pk E (p # ps) (e @ errs)"
      using s1(3,8) s'(7) unfolding rounds_ok.simps set by blast
    ultimately show ?thesis
      using s' s1(6,7) set
      by (intro exI [of _ s'] exI [of _ "p # ps"] exI [of _ "e @ errs"]) simp
  qed
qed

subsection \<open>What the rounds mean for the order and the errors\<close>

text \<open>In an acyclic relation every nonempty finite set has an element without successors in it.\<close>

lemma acyclic_last:
  assumes "acyclic E" and "finite Q" and "Q \<noteq> {}" and "finite E"
  shows "\<exists>p\<in>Q. E `` {p} \<inter> Q = {}"
proof -
  have "wf (E\<inverse>)" using assms(1,4) by (intro finite_acyclic_wf_converse)
  then obtain p where "p \<in> Q" "\<forall>q. (q, p) \<in> E\<inverse> \<longrightarrow> q \<notin> Q" using assms(3) by (auto simp: wf_eq_minimal)
  then show ?thesis by blast
qed

lemma rounds_ok_acyclic:
  assumes "acyclic E" and "finite E" and "rounds_ok P pk E ps errs" and "\<forall>p\<in>set ps. (p, p) \<notin> (search_rel P pk)\<^sup>+"
  shows "errs = []"
    and "xs @ p # ys = ps \<Longrightarrow> \<not> global_scope (package_at P p) \<Longrightarrow> E `` {p} \<inter> set (p # ys) = {}"
proof -
  have none: "round_errors P pk E p Q e \<Longrightarrow> (p, p) \<notin> (search_rel P pk)\<^sup>+ \<Longrightarrow> e = []" for p Q e
    by (auto simp: round_errors_def report_import_cycle_def split: if_splits)
  show "errs = []"
    using assms(3,4)
  proof (induction ps arbitrary: errs)
    case (Cons p ps)
    then obtain e es where es: "errs = e @ es" "round_errors P pk E p (set (p # ps)) e" "rounds_ok P pk E ps es" by auto
    have "e = []" using none [OF es(2)] Cons.prems(2) by simp
    with Cons.IH [OF es(3)] Cons.prems(2) es(1) show ?case by simp
  qed simp
  assume "xs @ p # ys = ps" and local: "\<not> global_scope (package_at P p)"
  then have "rounds_ok P pk E (xs @ p # ys) errs" using assms(3) by simp
  then have "choice_ok P E p (set (p # ys))"
    by (induction xs arbitrary: errs) auto
  with local have least: "\<forall>r\<in>set (p # ys). card (E `` {p} \<inter> set (p # ys)) \<le> card (E `` {r} \<inter> set (p # ys))"
    by (simp add: choice_ok_def)
  obtain r where r: "r \<in> set (p # ys)" "E `` {r} \<inter> set (p # ys) = {}"
    using acyclic_last [OF assms(1) _ _ assms(2), of "set (p # ys)"] by auto
  with least have "card (E `` {p} \<inter> set (p # ys)) = 0" by (metis card.empty le_zero_eq)
  then show "E `` {p} \<inter> set (p # ys) = {}" by simp
qed

text \<open>
  A cycle is reported in the round that takes its first package: at that time the next package of the
  cycle is still queued, so the search is made, and it succeeds with at least two imports.
\<close>

lemma rounds_ok_cyclic:
  assumes "rounds_ok P pk E ps errs" and "C \<subseteq> set ps" and "C \<noteq> {}"
    and "\<And>p. p \<in> C \<Longrightarrow> (p, p) \<in> (search_rel P pk)\<^sup>+ \<and> (p, p) \<notin> search_rel P pk \<and> E `` {p} \<inter> C \<noteq> {}"
  shows "errs \<noteq> []"
  using assms(1,2)
proof (induction ps arbitrary: errs)
  case Nil
  with assms(3) show ?case by simp
next
  case (Cons p ps)
  then obtain e es where es: "errs = e @ es" "round_errors P pk E p (set (p # ps)) e" "rounds_ok P pk E ps es" by auto
  show ?case
  proof (cases "p \<in> C")
    case True
    note p = assms(4) [OF True]
    with Cons.prems(2) have ne: "E `` {p} \<inter> set (p # ps) \<noteq> {}" by blast
    have "\<exists>path. e = report_import_cycle path \<and> (path \<noteq> [] \<longleftrightarrow> (p, p) \<in> (search_rel P pk)\<^sup>+) \<and>
        (path \<noteq> [] \<longrightarrow> import_chain P pk p (rev path) p)"
      using es(2) ne unfolding round_errors_def by (simp only: if_False)
    with p obtain path where path: "e = report_import_cycle path" "path \<noteq> []" "import_chain P pk p (rev path) p"
      by blast
    have "length path \<noteq> 1"
    proof
      assume "length path = 1"
      then obtain i where "path = [i]" by (metis One_nat_def length_0_conv length_Suc_conv)
      with path(3) have "i \<in> import_targets P pk (file_import_list P p)" "fst i = p" by simp_all
      with import_target_rel [of i P pk p] p show False by simp
    qed
    with path(2) have "1 < length path" by (cases path) auto
    with path(1) es(1) show ?thesis by (simp add: report_import_cycle_def)
  next
    case False
    with Cons.prems(2) have "C \<subseteq> set ps" by auto
    with Cons.IH [OF es(3)] es(1) show ?thesis by simp
  qed
qed

subsection \<open>The packages of the declarations\<close>

text \<open>
  What the parser guarantees: the import list of the files of a package holds the import declarations
  of its declarations, and an address belongs to one declaration.
\<close>

definition imports_listed :: "import_program \<Rightarrow> bool" where
  "imports_listed P \<longleftrightarrow>
     (\<forall>p\<in>set (packages P). \<forall>decl path.
        Import_Decl decl path \<in> set (file_import_list P p) \<longleftrightarrow> (decl, path) \<in> set (decl_imports P p)) \<and>
     (\<forall>(p, decl, path)\<in>set (program_imports P). \<forall>(p', decl', path')\<in>set (program_imports P).
        decl = decl' \<longrightarrow> path = path')"

lemma packages_after_other:
  "\<forall>(p, d, path)\<in>set is. d \<noteq> decl \<Longrightarrow> packages_after P is pk decl = pk decl"
  by (induction P "is" pk rule: packages_after.induct) (auto split: option.split)

lemma packages_after_at:
  assumes "\<exists>p. (p, decl, path) \<in> set is" and "\<forall>(p, d, path')\<in>set is. d = decl \<longrightarrow> path' = path"
  shows "packages_after P is pk decl =
    (if is_package_name_reserved path then pk decl
     else case package_map P path of None \<Rightarrow> pk decl | Some q \<Rightarrow> q)"
  using assms
proof (induction "is" arbitrary: pk)
  case (Cons i "is")
  obtain p' d path' where i: "i = (p', d, path')" by (cases i)
  show ?case
  proof (cases "\<exists>p path'. (p, decl, path') \<in> set is")
    case True
    then have "\<exists>p. (p, decl, path) \<in> set is" using Cons.prems(2) by force
    then have IH: "packages_after P is pk' decl = (if is_package_name_reserved path then pk' decl
       else case package_map P path of None \<Rightarrow> pk' decl | Some q \<Rightarrow> q)" for pk'
      using Cons.IH Cons.prems(2) by simp
    show ?thesis using Cons.prems(2) by (auto simp: i IH split: option.split)
  next
    case False
    then have "packages_after P is pk' decl = pk' decl" for pk' by (intro packages_after_other) auto
    with False Cons.prems show ?thesis by (auto simp: i split: option.split)
  qed
qed simp

lemma search_rel_imports:
  assumes wf: "well_formed_imports P alloc" and listed: "imports_listed P"
    and found: "\<not> list_ex (missing_import P) (program_imports P)" and p: "p \<in> set (packages P)"
  shows "(p, q) \<in> search_rel P (packages_after P (program_imports P) (\<lambda>_. 0)) \<longleftrightarrow> (p, q) \<in> import_rel P"
proof -
  let ?pk = "packages_after P (program_imports P) (\<lambda>_. 0)"
  have at: "?pk decl = (if is_package_name_reserved path then 0 else the (package_map P path)) \<and>
      (\<not> is_package_name_reserved path \<longrightarrow> package_map P path \<noteq> None)"
    if "(decl, path) \<in> set (decl_imports P p)" for decl path
  proof -
    have i: "(p, decl, path) \<in> set (program_imports P)" using that p by (simp add: set_program_imports)
    have only: "\<forall>(p', d, path')\<in>set (program_imports P). d = decl \<longrightarrow> path' = path"
      using listed i unfolding imports_listed_def by fastforce
    have "\<exists>p. (p, decl, path) \<in> set (program_imports P)" using i by blast
    from packages_after_at [OF this only] found i show ?thesis
      by (auto simp: missing_import_def list_ex_iff split: option.split)
  qed
  have list: "Import_Decl decl path \<in> set (file_import_list P p) \<longleftrightarrow> (decl, path) \<in> set (decl_imports P p)" for decl path
    using listed p by (simp add: imports_listed_def)
  have ok: "q \<noteq> 0 \<and> pkg_scope (package_at P q) \<noteq> 0" if "package_map P path = Some q" for path q
    using wf_packages(2,3) [OF wf wf_packages(5) [OF wf that]] by (simp add: live_nonzero)
  show ?thesis
  proof
    assume "(p, q) \<in> search_rel P ?pk"
    then obtain decl path where d: "(decl, path) \<in> set (decl_imports P p)" "q = ?pk decl" "q \<noteq> 0"
      by (auto simp: search_rel_def import_targets_def list)
    with at [OF d(1)] p show "(p, q) \<in> import_rel P" by (auto simp: import_rel_def split: if_splits)
  next
    assume "(p, q) \<in> import_rel P"
    then obtain decl path where d: "(decl, path) \<in> set (decl_imports P p)" "\<not> is_package_name_reserved path"
      "package_map P path = Some q" by (auto simp: import_rel_def)
    with at [OF d(1)] ok [OF d(3)] show "(p, q) \<in> search_rel P ?pk"
      by (auto simp: search_rel_def import_targets_def list)
  qed
qed

lemma search_rel_trancl:
  assumes "\<forall>p\<in>U. \<forall>q. (p, q) \<in> search_rel P pk \<longleftrightarrow> (p, q) \<in> E" and "E \<subseteq> U \<times> U" and "p \<in> U"
  shows "(p, q) \<in> (search_rel P pk)\<^sup>+ \<longleftrightarrow> (p, q) \<in> E\<^sup>+"
proof
  assume "(p, q) \<in> (search_rel P pk)\<^sup>+"
  then have "(p, q) \<in> E\<^sup>+ \<and> q \<in> U"
  proof (induction rule: trancl_induct)
    case (base q)
    with assms show ?case by auto
  next
    case (step q r)
    with assms(1,2) show ?case by (auto intro: trancl_into_trancl)
  qed
  then show "(p, q) \<in> E\<^sup>+" by blast
next
  assume "(p, q) \<in> E\<^sup>+"
  moreover have "E \<subseteq> search_rel P pk" using assms(1,2) by auto
  ultimately show "(p, q) \<in> (search_rel P pk)\<^sup>+" using trancl_mono by blast
qed

subsection \<open>The whole pass\<close>

lemma sort_packages_rounds:
  assumes wf: "well_formed_imports P alloc" and listed: "imports_listed P"
    and found: "\<not> list_ex (missing_import P) (program_imports P)"
  obtains order errs pk where "sort_packages P alloc = Inr (order, errs)" and "distinct order"
    and "set order = set (packages P)" and "rounds_ok P pk (import_rel P) order errs"
    and "\<forall>p\<in>set (packages P). \<forall>q. (p, q) \<in> search_rel P pk \<longleftrightarrow> (p, q) \<in> import_rel P"
proof -
  let ?U = "set (packages P)" and ?E = "import_rel P" and ?pk = "packages_after P (program_imports P) (\<lambda>_. 0)"
  obtain G st nd where G: "generate_import_dependency_graph P alloc = Inr (G, st)"
    and placed: "nodes_placed P nd" and rep: "graph_represents P nd ?E (import_nodes st)"
    and dist: "distinct G" and setG: "set G = nd ` ?U"
    and idx: "\<forall>k<length G. heap_index (import_nodes st (G ! k)) = k"
    and deps: "\<forall>p\<in>?U. deps_left (import_nodes st (nd p)) = int (card (?E `` {p}))"
    and pk: "decl_package st = ?pk"
    by (rule import_graph_generated [OF wf found])
  have sub: "?E \<subseteq> ?U \<times> ?U" by (rule import_rel_sub [OF wf])
  note search = search_rel_imports [OF wf listed found]
  have within: "targets_within P ?pk"
  proof -
    have "q \<in> ?U" if "p \<in> ?U" "(q, decl) \<in> import_targets P ?pk (file_import_list P p)" for p q decl
    proof -
      have "(p, q) \<in> search_rel P ?pk" using that(2) by (auto simp: search_rel_def)
      with search [OF that(1)] sub show ?thesis by auto
    qed
    then show ?thesis by (auto simp: targets_within_def)
  qed
  have base: "import_queue_ok P nd ?E \<lparr>queue = G, mem = import_nodes st\<rparr>"
    using rep dist setG idx by (simp add: import_queue_ok_def)
  let ?q = "priority_queue_create (import_graph_node_cmp P) import_graph_node_swap G (import_nodes st)"
  have eq: "?q = priority_queue_create (import_key_cmp P) import_graph_node_swap G (import_nodes st)"
    by (rule iq.create_agrees [OF import_cmp_agrees [OF wf] base])
  have heap: "import_heap P nd ?E ?q"
    unfolding import_heap_def eq
    using iq.create_heap(1) iq.create_heap(3) [where Q = "import_queue_ok P nd ?E", OF import_queue_swap_closed base]
    by blast
  have "mset (queue ?q) = mset G" unfolding eq by (rule iq.create_heap(2))
  then have setq: "set (queue ?q) = nd ` ?U" and lenq: "length (queue ?q) = length G"
    using setG by (metis mset_eq_setD, metis size_mset)
  have all: "queued P nd ?q = ?U" by (auto simp: queued_def setq)
  have "swap_closed import_graph_node_swap (\<lambda>r. \<forall>x. deps_left (mem r x) = deps_left (import_nodes st x))"
    by (auto simp: swap_closed_def import_graph_node_swap_def Let_def)
  then have "\<forall>x. deps_left (mem ?q x) = deps_left (import_nodes st x)"
    unfolding eq
    by (rule iq.create_heap(3) [where Q = "\<lambda>r. \<forall>x. deps_left (mem r x) = deps_left (import_nodes st x)"]) simp
  moreover have "?E `` {p} \<inter> ?U = ?E `` {p}" for p using sub by auto
  ultimately have inv: "sort_inv P nd ?E
      \<lparr>pkg_queue = ?q, pkgs_emitted = ptr_set_empty, package_order = [], import_errors = []\<rparr>"
    using heap deps by (simp add: sort_inv_def all)
  obtain s' ps errs where s': "sort_loop (length G) (Suc (length (packages P))) P ?pk
        \<lparr>pkg_queue = ?q, pkgs_emitted = ptr_set_empty, package_order = [], import_errors = []\<rparr> = Inr s'"
      "distinct ps" "set ps = ?U" "graph_represents P nd ?E (mem (pkg_queue s'))" "package_order s' = map nd ps"
      "import_errors s' = errs" "rounds_ok P ?pk ?E ps errs"
    using sort_loop_ok [OF wf placed within sub inv, of "length G"] by (auto simp: lenq all)
  have "map (\<lambda>n. node_pkg (mem (pkg_queue s') n)) (map nd ps) = ps"
    using s'(3,4) by (auto simp: graph_represents_def node_represents_def intro!: map_idI)
  then have "sort_packages P alloc = Inr (ps, errs)"
    using G s'(1,5,6) by (simp add: sort_packages_def pk Let_def)
  then show ?thesis using s'(2,3,7) search by (intro that [of ps errs ?pk]) auto
qed

text \<open>A package on a cycle is followed by another one on it.\<close>

lemma cycle_next: "(p, p) \<in> E\<^sup>+ \<Longrightarrow> \<exists>q. (p, q) \<in> E \<and> (q, q) \<in> E\<^sup>+"
  by (metis trancl_trans tranclD rtrancl_into_trancl1 rtranclD r_into_trancl)

subsection \<open>A program with imports\<close>

text \<open>A main package that imports a library and, under \<open>when\<close>, the core package, which the library imports too.\<close>

definition demo_package :: "ptr \<Rightarrow> ast_package" where
  "demo_package p =
     (if p = 64 then \<lparr>pkg_id = 1, fullpath = ''main'', global_scope = False, pkg_scope = 65, files =
        [\<lparr>decls = [Import_Decl 1 ''lib'', When_Stmt (Some [Import_Decl 2 ''core'', Import_Decl 3 ''intrinsics'']) None],
          file_imports = [Import_Decl 1 ''lib'', Import_Decl 2 ''core'', Import_Decl 3 ''intrinsics'']\<rparr>]\<rparr>
      else if p = 128 then \<lparr>pkg_id = 2, fullpath = ''lib'', global_scope = False, pkg_scope = 129, files =
        [\<lparr>decls = [Other_Decl, Import_Decl 4 ''core''], file_imports = [Import_Decl 4 ''core'']\<rparr>]\<rparr>
      else \<lparr>pkg_id = 3, fullpath = ''core'', global_scope = False, pkg_scope = 193, files = []\<rparr>)"

definition demo_imports :: import_program where
  "demo_imports = \<lparr>packages = [64, 128, 192], package_at = demo_package,
     package_map = [''main'' \<mapsto> 64, ''lib'' \<mapsto> 128, ''core'' \<mapsto> 192]\<rparr>"

definition demo_node :: "nat \<Rightarrow> ptr" where
  "demo_node i = (if i = 0 then 1000 else if i = 1 then 1008 else 1016)"

lemma less_3: "i < (3 :: nat) \<longleftrightarrow> i = 0 \<or> i = 1 \<or> i = 2"
  by auto

lemma demo_packages: "packages demo_imports = [64, 128, 192]" "package_at demo_imports = demo_package"
  by (simp_all add: demo_imports_def)

lemma demo_imports_wf: "well_formed_imports demo_imports demo_node"
proof -
  have n: "length (packages demo_imports) = 3" by (simp add: demo_packages)
  show ?thesis
    unfolding well_formed_imports_def n
  proof (intro conjI)
    show "inj_on demo_node {..<3}" by (auto simp: inj_on_def less_3 demo_node_def)
    show "\<forall>i<3. live (demo_node i)" by (auto simp: less_3 demo_node_def live_def TOMBSTONE_def)
    show "inj_on (\<lambda>p. pkg_scope (package_at demo_imports p)) (set (packages demo_imports))"
      by (auto simp: inj_on_def demo_packages demo_package_def)
    show "inj_on (\<lambda>p. pkg_id (package_at demo_imports p)) {p \<in> set (packages demo_imports). global_scope (package_at demo_imports p)}"
      by (auto simp: inj_on_def demo_packages demo_package_def)
    show "\<forall>path p. package_map demo_imports path = Some p \<longrightarrow> p \<in> set (packages demo_imports)"
      by (auto simp: demo_imports_def split: if_splits)
    show "\<forall>p\<in>set (packages demo_imports). live p \<and> live (pkg_scope (package_at demo_imports p)) \<and>
        package_map demo_imports (fullpath (package_at demo_imports p)) = Some p"
      by (auto simp: demo_imports_def demo_package_def live_def TOMBSTONE_def)
  qed (simp_all add: demo_packages)
qed

lemma demo_decl_imports:
  "decl_imports demo_imports 64 = [(1, ''lib''), (2, ''core''), (3, ''intrinsics'')]"
  "decl_imports demo_imports 128 = [(4, ''core'')]" "decl_imports demo_imports 192 = []"
  by (simp_all add: decl_imports_def demo_packages demo_package_def)

lemma demo_program_imports:
  "program_imports demo_imports = [(64, 1, ''lib''), (64, 2, ''core''), (64, 3, ''intrinsics''), (128, 4, ''core'')]"
  by (simp add: program_imports_def demo_packages demo_decl_imports)

lemma demo_package_map: "package_map demo_imports = [''main'' \<mapsto> 64, ''lib'' \<mapsto> 128, ''core'' \<mapsto> 192]"
  by (simp add: demo_imports_def)

lemma rel_of_Cons:
  "rel_of P ((p, decl, path) # is) =
    (if is_package_name_reserved path then {} else case package_map P path of None \<Rightarrow> {} | Some q \<Rightarrow> {(p, q)}) \<union> rel_of P is"
  "rel_of P [] = {}"
  by (auto simp: rel_of_def split: option.splits)

lemma demo_import_rel: "import_rel demo_imports = {(64, 128), (64, 192), (128, 192)}"
proof -
  have "rel_of demo_imports (program_imports demo_imports) = {(64, 128), (64, 192), (128, 192)}"
    by (simp add: demo_program_imports rel_of_Cons is_package_name_reserved_def demo_package_map insert_commute)
  then show ?thesis by (simp add: rel_of_program)
qed

lemma demo_imports_listed: "imports_listed demo_imports"
  unfolding imports_listed_def demo_program_imports
  by (auto simp: demo_packages demo_decl_imports file_import_list_def demo_package_def)

lemma demo_found: "\<not> list_ex (missing_import demo_imports) (program_imports demo_imports)"
  by (simp add: demo_program_imports missing_import_def is_package_name_reserved_def demo_package_map)

lemma demo_acyclic: "acyclic (import_rel demo_imports)"
  by (rule acyclicI_order [of _ "\<lambda>p. - uint p"]) (auto simp: demo_import_rel)

text \<open>A package whose second import leads nowhere.\<close>

definition demo_missing :: import_program where
  "demo_missing = \<lparr>packages = [192],
     package_at = (\<lambda>_. \<lparr>pkg_id = 3, fullpath = ''core'', global_scope = False, pkg_scope = 193, files =
       [\<lparr>decls = [Import_Decl 7 ''builtin'', Import_Decl 8 ''gone''],
         file_imports = [Import_Decl 7 ''builtin'', Import_Decl 8 ''gone'']\<rparr>]\<rparr>),
     package_map = [''core'' \<mapsto> 192]\<rparr>"

lemma demo_missing_wf: "well_formed_imports demo_missing demo_node"
  by (auto simp: well_formed_imports_def demo_missing_def demo_node_def live_def TOMBSTONE_def inj_on_def split: if_splits)

subsection \<open>Properties\<close>

text \<open>
  Property C14. Packages are ordered by their imports. For every well-formed program whose imports are all found and
  not cyclic, building the import graph (through \<open>when\<close> statements, skipping the reserved names) and
  sorting it with the priority queue fails no assertion and reports no error. The order contains each package once,
  and every package that is not global comes after all the packages it imports.
\<close>

theorem package_order_respects_imports:
  assumes "well_formed_imports P alloc" and "imports_listed P"
    and "\<not> list_ex (missing_import P) (program_imports P)" and "acyclic (import_rel P)"
  shows "\<exists>order. sort_packages P alloc = Inr (order, []) \<and> mset order = mset (packages P) \<and>
    (\<forall>before p after. order = before @ p # after \<longrightarrow> \<not> global_scope (package_at P p) \<longrightarrow>
      import_rel P `` {p} \<subseteq> set before)"
proof -
  obtain order errs pk where order: "sort_packages P alloc = Inr (order, errs)" "distinct order"
    "set order = set (packages P)" "rounds_ok P pk (import_rel P) order errs"
    and search: "\<forall>p\<in>set (packages P). \<forall>q. (p, q) \<in> search_rel P pk \<longleftrightarrow> (p, q) \<in> import_rel P"
    by (rule sort_packages_rounds [OF assms(1-3)])
  have sub: "import_rel P \<subseteq> set (packages P) \<times> set (packages P)" by (rule import_rel_sub [OF assms(1)])
  then have fin: "finite (import_rel P)" by (rule finite_subset) simp
  have none: "\<forall>p\<in>set order. (p, p) \<notin> (search_rel P pk)\<^sup>+"
    using search_rel_trancl [OF search sub] assms(4) order(3) by (auto simp: acyclic_def)
  note ok = rounds_ok_acyclic [OF assms(4) fin order(4) none]
  have "import_rel P `` {p} \<subseteq> set before"
    if "order = before @ p # after" "\<not> global_scope (package_at P p)" for before p after
    using ok(2) [OF that(1) [symmetric] that(2)] sub order(3) that(1) by auto
  moreover have "mset order = mset (packages P)"
    using order(2,3) assms(1) by (simp add: set_eq_iff_mset_eq_distinct well_formed_imports_def)
  ultimately show ?thesis using order(1) ok(1) by blast
qed

theorem package_order_respects_imports_witness:
  "\<exists>order. sort_packages demo_imports demo_node = Inr (order, []) \<and> mset order = {#64, 128, 192#} \<and>
    (\<forall>before after. order = before @ 64 # after \<longrightarrow> {128, 192} \<subseteq> set before)"
proof -
  obtain order where order: "sort_packages demo_imports demo_node = Inr (order, [])" "mset order = mset (packages demo_imports)"
    "\<forall>before p after. order = before @ p # after \<longrightarrow> \<not> global_scope (package_at demo_imports p) \<longrightarrow>
      import_rel demo_imports `` {p} \<subseteq> set before"
    using package_order_respects_imports [OF demo_imports_wf demo_imports_listed demo_found demo_acyclic] by blast
  have "\<not> global_scope (package_at demo_imports 64)" "import_rel demo_imports `` {64} = {128, 192}"
    by (auto simp: demo_import_rel demo_packages demo_package_def)
  with order(3) have "\<forall>before after. order = before @ 64 # after \<longrightarrow> {128, 192} \<subseteq> set before" by metis
  with order(1,2) show ?thesis by (auto simp: demo_imports_def)
qed

text \<open>
  Property C15. Import cycles are reported, and only cycles. For every well-formed program whose imports are
  all found and none of whose packages imports itself, the pass returns an order of all packages, and
  it reports an error exactly if the import relation has a cycle. (A package that imports only itself is on a path of
  length one, which the code does not report.)
\<close>

theorem import_cycles_reported:
  assumes "well_formed_imports P alloc" and "imports_listed P"
    and "\<not> list_ex (missing_import P) (program_imports P)" and "irrefl (import_rel P)"
  shows "\<exists>order errs. sort_packages P alloc = Inr (order, errs) \<and> mset order = mset (packages P) \<and>
    (errs = [] \<longleftrightarrow> acyclic (import_rel P))"
proof -
  obtain order errs pk where order: "sort_packages P alloc = Inr (order, errs)" "distinct order"
    "set order = set (packages P)" "rounds_ok P pk (import_rel P) order errs"
    and search: "\<forall>p\<in>set (packages P). \<forall>q. (p, q) \<in> search_rel P pk \<longleftrightarrow> (p, q) \<in> import_rel P"
    by (rule sort_packages_rounds [OF assms(1-3)])
  have sub: "import_rel P \<subseteq> set (packages P) \<times> set (packages P)" by (rule import_rel_sub [OF assms(1)])
  then have fin: "finite (import_rel P)" by (rule finite_subset) simp
  note trancl = search_rel_trancl [OF search sub]
  have "errs = []" if "acyclic (import_rel P)"
    by (rule rounds_ok_acyclic(1) [OF that fin order(4)]) (use trancl that order(3) in \<open>auto simp: acyclic_def\<close>)
  moreover have "errs \<noteq> []" if cyc: "\<not> acyclic (import_rel P)"
  proof (rule rounds_ok_cyclic [OF order(4), where C = "{p. (p, p) \<in> (import_rel P)\<^sup>+}"])
    have in_U: "p \<in> set (packages P)" if "(p, p) \<in> (import_rel P)\<^sup>+" for p
      using that sub by (auto dest!: tranclD)
    then show "{p. (p, p) \<in> (import_rel P)\<^sup>+} \<subseteq> set order" using order(3) by auto
    show "{p. (p, p) \<in> (import_rel P)\<^sup>+} \<noteq> {}" using cyc by (auto simp: acyclic_def)
    fix p assume "p \<in> {p. (p, p) \<in> (import_rel P)\<^sup>+}"
    then have p: "(p, p) \<in> (import_rel P)\<^sup>+" by simp
    with assms(4) trancl [OF in_U [OF p]] bspec [OF search in_U [OF p]] cycle_next [OF p]
    show "(p, p) \<in> (search_rel P pk)\<^sup>+ \<and> (p, p) \<notin> search_rel P pk \<and>
        import_rel P `` {p} \<inter> {p. (p, p) \<in> (import_rel P)\<^sup>+} \<noteq> {}"
      by (auto simp: irrefl_def)
  qed
  moreover have "mset order = mset (packages P)"
    using order(2,3) assms(1) by (simp add: set_eq_iff_mset_eq_distinct well_formed_imports_def)
  ultimately show ?thesis using order(1) by blast
qed

theorem import_cycles_reported_witness:
  "\<exists>order errs. sort_packages demo_imports demo_node = Inr (order, errs) \<and> (errs = [] \<longleftrightarrow> acyclic (import_rel demo_imports))"
proof -
  have "irrefl (import_rel demo_imports)" by (auto simp: irrefl_def demo_import_rel)
  from import_cycles_reported [OF demo_imports_wf demo_imports_listed demo_found this] show ?thesis by blast
qed

text \<open>
  Property C16. A missing package stops the compiler. If some import leads to no package, the pass returns no order: it stops with
  the message for the first such import in source order, having failed no assertion before it. An import
  of a reserved name is never missing.
\<close>

theorem missing_package_stops:
  assumes "well_formed_imports P alloc" and "find (missing_import P) (program_imports P) = Some (p, decl, path)"
  shows "sort_packages P alloc = Inl (Unable_to_find_package decl path)"
  using import_graph_missing [OF assms] by (simp add: sort_packages_def)

theorem missing_package_stops_witness:
  "sort_packages demo_missing demo_node = Inl (Unable_to_find_package 8 ''gone'')"
proof -
  have "find (missing_import demo_missing) (program_imports demo_missing) = Some (192, 8, ''gone'')"
    by (simp add: demo_missing_def program_imports_def decl_imports_def missing_import_def is_package_name_reserved_def)
  from missing_package_stops [OF demo_missing_wf this] show ?thesis .
qed

text \<open>
  Property C17. The search for an import path. With a visited set, the search from a package returns within as many nested
  calls as there are packages; it finds a path exactly if the target can be reached through import
  declarations, and the path it returns, read backwards, is a chain of imports from the package to the target.
\<close>

theorem import_path_search:
  assumes "well_formed_imports P alloc" and "targets_within P packages_of" and "p \<in> set (packages P)"
  shows "\<exists>path visited.
    find_import_path (Suc (length (packages P))) P packages_of p target ptr_set_empty = Some (path, visited) \<and>
    (path \<noteq> [] \<longleftrightarrow> (p, target) \<in> (search_rel P packages_of)\<^sup>+) \<and>
    (path \<noteq> [] \<longrightarrow> import_chain P packages_of p (rev path) target)"
  by (rule find_import_path_cycle [OF assms])

theorem import_path_search_witness:
  "\<exists>path visited. find_import_path 4 demo_imports (\<lambda>d. if d = 1 then 128 else if d = 2 \<or> d = 4 then 192 else 0)
      64 192 ptr_set_empty = Some (path, visited) \<and> path \<noteq> []"
proof -
  let ?pk = "\<lambda>d :: ptr. if d = 1 then 128 else if d = 2 \<or> d = 4 then 192 else 0 :: ptr"
  have "targets_within demo_imports ?pk"
    by (auto simp: targets_within_def import_targets_def demo_packages)
  moreover have "(192, 2) \<in> import_targets demo_imports ?pk (file_import_list demo_imports 64)"
    by (auto simp: import_targets_def file_import_list_def demo_packages demo_package_def)
  then have "(64, 192) \<in> (search_rel demo_imports ?pk)\<^sup>+" by (auto simp: search_rel_def)
  moreover have n: "Suc (length (packages demo_imports)) = 4" by (simp add: demo_packages)
  ultimately show ?thesis
    using import_path_search [OF demo_imports_wf, of ?pk 64 192, unfolded n] by (simp add: demo_packages) blast
qed

end
