(* ===== verification/Big_Int.thy ===== *)
theory Big_Int
  imports Odin_Prelude "HOL-Library.Word" "HOL-Library.Signed_Division"
begin

unbundle bit_operations_syntax

text \<open>
  The integers of compile-time constants: \<^verbatim>\<open>src/big_int.cpp\<close> over the multiple-precision integers of
  \<^verbatim>\<open>src/libtommath\<close>. An \<open>mp_int\<close> is the integer it stands for; the functions \<open>mp_\<dots>\<close> are those of
  libtommath with their documented results, an error return (\<^verbatim>\<open>MP_VAL\<close>) being \<open>None\<close>; then the
  destination keeps what it held, which is 0 for a new integer. Strings are lists of bytes. A failed assertion
  and a read behind the end of a string are \<open>None\<close>.
\<close>

subsection \<open>libtommath\<close>

definition mp_div :: "int \<Rightarrow> int \<Rightarrow> (int \<times> int) option" where
  "mp_div a b = (if b = 0 then None else Some (a sdiv b, a smod b))"

definition mp_mul_2d :: "int \<Rightarrow> int \<Rightarrow> int option" where
  "mp_mul_2d a b = (if b < 0 then None else Some (a * 2 ^ nat b))"

text \<open>The low bits of the magnitude, with the sign.\<close>

definition mp_mod_2d :: "int \<Rightarrow> int \<Rightarrow> int option" where
  "mp_mod_2d a b = (if b < 0 then None else Some (sgn a * (\<bar>a\<bar> mod 2 ^ nat b)))"

definition mp_div_2d :: "int \<Rightarrow> int \<Rightarrow> (int \<times> int) option" where
  "mp_div_2d a b =
     (if b < 0 then None else Some (sgn a * (\<bar>a\<bar> div 2 ^ nat b), sgn a * (\<bar>a\<bar> mod 2 ^ nat b)))"

definition mp_complement :: "int \<Rightarrow> int" where
  "mp_complement a = (if a > 0 then - a else \<bar>a\<bar>) - 1"

definition mp_2expt :: "int \<Rightarrow> int" where
  "mp_2expt b = 2 ^ nat b"

fun count_bits :: "nat \<Rightarrow> nat" where
  "count_bits n = (if n = 0 then 0 else Suc (count_bits (n div 2)))"

declare count_bits.simps [simp del]

definition mp_count_bits :: "int \<Rightarrow> int" where
  "mp_count_bits a = int (count_bits (nat \<bar>a\<bar>))"

text \<open>The number of 60-bit digits in use.\<close>

definition mp_used :: "int \<Rightarrow> int" where
  "mp_used a = (mp_count_bits a + 59) div 60"

text \<open>The magnitude cut to the width, negated as a word for a negative number.\<close>

definition mp_get_u32 :: "int \<Rightarrow> 32 word" where
  "mp_get_u32 a = (let res = word_of_int \<bar>a\<bar> in if a < 0 then - res else res)"

definition mp_get_i64 :: "int \<Rightarrow> 64 word" where
  "mp_get_i64 a = (let res = word_of_int \<bar>a\<bar> in if a < 0 then - res else res)"

subsection \<open>Conversions\<close>

definition big_int_from_u64 :: "64 word \<Rightarrow> int" where
  "big_int_from_u64 x = uint x"

definition big_int_from_i64 :: "64 word \<Rightarrow> int" where
  "big_int_from_i64 x = sint x"

definition big_int_make :: "int \<Rightarrow> bool \<Rightarrow> int" where
  "big_int_make b absolute = (if absolute then \<bar>b\<bar> else b)"

definition big_int_make_abs :: "int \<Rightarrow> int" where
  "big_int_make_abs b = big_int_make b True"

definition big_int_sign :: "int \<Rightarrow> int" where
  "big_int_sign x = (if x = 0 then 0 else if x > 0 then 1 else -1)"

definition big_int_is_neg :: "int \<Rightarrow> bool" where
  "big_int_is_neg x = (x < 0)"

definition big_int_can_be_represented_in_64_bits :: "int \<Rightarrow> bool" where
  "big_int_can_be_represented_in_64_bits x = (mp_count_bits x \<le> 64)"

text \<open>\<^verbatim>\<open>mp_get_u64\<close> is \<^verbatim>\<open>mp_get_i64\<close> read as unsigned.\<close>

definition big_int_to_u64 :: "int \<Rightarrow> 64 word option" where
  "big_int_to_u64 x = (if x < 0 then None else Some (mp_get_i64 x))"

definition big_int_to_i64 :: "int \<Rightarrow> 64 word" where
  "big_int_to_i64 x = mp_get_i64 x"

definition big_int_cmp :: "int \<Rightarrow> int \<Rightarrow> int" where
  "big_int_cmp x y = (if x < y then -1 else if x > y then 1 else 0)"

definition big_int_cmp_zero :: "int \<Rightarrow> int" where
  "big_int_cmp_zero x = (if x = 0 then 0 else if x < 0 then -1 else 1)"

definition big_int_log2 :: "int \<Rightarrow> int" where
  "big_int_log2 x = mp_count_bits x - 1"

subsection \<open>Arithmetic\<close>

text \<open>
  A shift takes the low 32 bits of its right operand, as a C \<open>int\<close>; \<open>dst\<close> is what the destination
  holds before.
\<close>

definition big_int_shl :: "int \<Rightarrow> int \<Rightarrow> int \<Rightarrow> int" where
  "big_int_shl dst x y = (case mp_mul_2d x (sint (mp_get_u32 y)) of None \<Rightarrow> dst | Some z \<Rightarrow> z)"

definition big_int_shr :: "int \<Rightarrow> int \<Rightarrow> int \<Rightarrow> int" where
  "big_int_shr dst x y =
     (case mp_div_2d x (sint (mp_get_u32 y)) of
        None \<Rightarrow> dst
      | Some (q, rem) \<Rightarrow> if x < 0 \<and> rem \<noteq> 0 then q - 1 else q)"

definition big_int_shl_eq :: "int \<Rightarrow> int \<Rightarrow> int" where
  "big_int_shl_eq dst x = big_int_shl dst dst x"

definition big_int_shr_eq :: "int \<Rightarrow> int \<Rightarrow> int" where
  "big_int_shr_eq dst x = big_int_shr dst dst x"

definition big_int_exp_u64 :: "int \<Rightarrow> int \<Rightarrow> 64 word \<Rightarrow> int \<times> bool" where
  "big_int_exp_u64 dst x y = (if uint y > 2 ^ 31 - 1 then (dst, False) else (x ^ nat (uint y), True))"

definition big_int_quo_rem :: "int \<Rightarrow> int \<Rightarrow> int \<times> int" where
  "big_int_quo_rem x y = (case mp_div x y of None \<Rightarrow> (0, 0) | Some qr \<Rightarrow> qr)"

definition big_int_quo :: "int \<Rightarrow> int \<Rightarrow> int" where
  "big_int_quo x y = fst (big_int_quo_rem x y)"

definition big_int_rem :: "int \<Rightarrow> int \<Rightarrow> int" where
  "big_int_rem x y = snd (big_int_quo_rem x y)"

definition big_int_mod_mod :: "int \<Rightarrow> int \<Rightarrow> int" where
  "big_int_mod_mod x y =
     (let q = big_int_rem x y;
          q = q + y
      in big_int_rem q y)"

definition big_int_euclidean_mod :: "int \<Rightarrow> int \<Rightarrow> int" where
  "big_int_euclidean_mod x y =
     (let (q, z) = big_int_quo_rem x y
      in if z < 0 then (if y < 0 then z - y else z + y) else z)"

definition big_int_and_not :: "int \<Rightarrow> int \<Rightarrow> int" where
  "big_int_and_not x y =
     (if x = 0 then y
      else if y = 0 then x
      else if (x < 0) = (y < 0) then
        (if x < 0 then
           let x1 = big_int_make_abs x - 1;
               y1 = big_int_make_abs y - 1;
               ny1 = mp_complement y1
           in x1 AND ny1
         else
           let ny = mp_complement y in x AND ny)
      else if x < 0 then
        let x1 = big_int_make_abs x - 1;
            y1 = big_int_make_abs y;
            z1 = x1 OR y1
        in z1 + 1
      else
        let x1 = big_int_make_abs x;
            y1 = big_int_make_abs y - 1
        in x1 AND y1)"

text \<open>The complement at a width; \<open>bit_count\<close> is a C \<open>int\<close>.\<close>

definition big_int_not :: "int \<Rightarrow> int \<Rightarrow> bool \<Rightarrow> int option" where
  "big_int_not x bit_count is_signed =
     (if bit_count < 0 then None
      else if bit_count = 0 then Some 0
      else if big_int_is_neg x then
        mp_mod_2d (- x - 1) bit_count
      else
        let mask = mp_2expt bit_count - 1 in
        case mp_mod_2d x bit_count of
          None \<Rightarrow> None
        | Some v \<Rightarrow>
            let dst = v XOR mask in
            if is_signed then
              let pmask = mp_2expt (bit_count - 1);
                  pmask_minus_one = pmask - 1;
                  a = dst AND pmask_minus_one;
                  b = dst AND pmask
              in Some (a - b)
            else Some dst)"

subsection \<open>Reading a literal\<close>

abbreviation ch :: "char \<Rightarrow> 8 word" where
  "ch c \<equiv> of_char c"

definition u64_digit_value :: "8 word \<Rightarrow> int" where
  "u64_digit_value r =
     (if ch (CHR ''0'') \<le> r \<and> r \<le> ch (CHR ''9'') then uint (r - ch (CHR ''0''))
      else if ch (CHR ''a'') \<le> r \<and> r \<le> ch (CHR ''f'') then uint (r - ch (CHR ''a'')) + 10
      else if ch (CHR ''A'') \<le> r \<and> r \<le> ch (CHR ''F'') then uint (r - ch (CHR ''A'')) + 10
      else 16)"

definition gb_char_is_digit :: "8 word \<Rightarrow> bool" where
  "gb_char_is_digit c = (ch (CHR ''0'') \<le> c \<and> c \<le> ch (CHR ''9''))"

text \<open>The base and whether there is a prefix.\<close>

definition literal_base :: "8 word list \<Rightarrow> int \<times> bool" where
  "literal_base s =
     (if length s > 2 \<and> s ! 0 = ch (CHR ''0'') then
        (if s ! 1 = ch (CHR ''b'') then (2, True)
         else if s ! 1 = ch (CHR ''o'') then (8, True)
         else if s ! 1 = ch (CHR ''d'') then (10, True)
         else if s ! 1 = ch (CHR ''z'') then (12, True)
         else if s ! 1 = ch (CHR ''x'') then (16, True)
         else if s ! 1 = ch (CHR ''h'') then (16, True)
         else (10, False))
      else (10, False))"

text \<open>
  The loop over the digits ends at a second sign, or with the value, the sign, whether all is well so far and
  the bytes from the one that stopped it on.
\<close>

datatype digit_scan = Double_Sign int | Scanned int bool bool "8 word list"

fun scan_digits :: "int \<Rightarrow> 8 word list \<Rightarrow> int \<Rightarrow> bool \<Rightarrow> digit_scan" where
  "scan_digits base [] dst is_negative = Scanned dst is_negative True []"
| "scan_digits base (r # rs) dst is_negative =
     (if r = ch (CHR ''-'') then
        (if is_negative then Double_Sign dst else scan_digits base rs dst True)
      else if r = ch (CHR ''_'') then scan_digits base rs dst is_negative
      else
        let v = u64_digit_value r in
        if v \<ge> base then
          Scanned dst is_negative (r = ch (CHR ''e'') \<or> r = ch (CHR ''E'')) (r # rs)
        else scan_digits base rs (dst * base + v) is_negative)"

text \<open>The exponent wraps at 64 bits; its second result tells whether all bytes were digits.\<close>

fun scan_decimal_exponent :: "8 word list \<Rightarrow> 64 word \<Rightarrow> 64 word \<times> bool" where
  "scan_decimal_exponent [] n = (n, True)"
| "scan_decimal_exponent (r # rs) n =
     (if r = ch (CHR ''_'') then scan_decimal_exponent rs n
      else if gb_char_is_digit r then scan_decimal_exponent rs (n * 10 + word_of_int (u64_digit_value r))
      else (n, False))"

text \<open>
  The value and the success flag. A byte read behind the end of the text makes the result
  \<open>None\<close>, as do the two assertions on the exponent. \<open>big_int_exp_u64\<close> sets the flag anew.
\<close>

definition big_int_from_string :: "8 word list \<Rightarrow> (int \<times> bool) option" where
  "big_int_from_string s =
     (let (base, has_prefix) = literal_base s;
          bytes = (if has_prefix then drop 2 s else s)
      in case scan_digits base bytes 0 False of
           Double_Sign dst \<Rightarrow> Some (dst, False)
         | Scanned dst is_negative success rest \<Rightarrow>
             (if rest \<noteq> [] \<and> (hd rest = ch (CHR ''e'') \<or> hd rest = ch (CHR ''E'')) then
                let digits = tl rest in
                if base \<noteq> 10 then None
                else if digits = [] then None
                else if hd digits = ch (CHR ''-'') then None
                else
                  let digits = (if hd digits = ch (CHR ''+'') then tl digits else digits);
                      (n, ok) = scan_decimal_exponent digits 0
                  in if uint n > 308 then Some (dst, False)
                     else
                       let (tmp, success) = big_int_exp_u64 0 base n;
                           dst = dst * tmp
                       in Some (if is_negative then - dst else dst, success)
              else Some (if is_negative then - dst else dst, success)))"

subsection \<open>Writing an integer\<close>

definition digit_to_char :: "int \<Rightarrow> 8 word" where
  "digit_to_char digit =
     (if digit \<le> 9 then word_of_int digit + ch (CHR ''0'')
      else if digit \<le> 15 then word_of_int digit + ch (CHR ''a'')
      else ch (CHR ''0''))"

text \<open>The digits, the lowest first; the loop ends because the callers' base is 10.\<close>

function push_digits :: "int \<Rightarrow> int \<Rightarrow> 8 word list \<Rightarrow> 8 word list" where
  "push_digits b v buf =
     (if b \<le> v \<and> 1 < b then push_digits b (big_int_quo v b) (buf @ [digit_to_char (big_int_rem v b)])
      else buf @ [digit_to_char (big_int_rem v b)])"
  by pat_completeness auto
termination
proof (relation "measure (\<lambda>(b, v, buf). nat v)")
  fix b v :: int and buf :: "8 word list"
  assume "b \<le> v \<and> 1 < b"
  moreover from this have "v sdiv b < v"
    by (simp add: signed_divide_int_def int_div_less_self)
  ultimately show "((b, big_int_quo v b, buf @ [digit_to_char (big_int_rem v b)]), b, v, buf)
      \<in> measure (\<lambda>(b, v, buf). nat v)"
    by (simp add: big_int_quo_def big_int_quo_rem_def mp_div_def)
qed simp

declare push_digits.simps [simp del]

definition reverse_digits :: "nat \<Rightarrow> 8 word list \<Rightarrow> 8 word list" where
  "reverse_digits first_word_idx buf =
     fold (\<lambda>i buf. swap_at buf i (length buf + first_word_idx - i - 1)) [first_word_idx..<length buf div 2] buf"

text \<open>Numbers of 498 digits of 60 bits and more are printed through floating point: \<open>approximate\<close>.\<close>

definition big_int_to_string :: "(int \<Rightarrow> 8 word list) \<Rightarrow> int \<Rightarrow> int \<Rightarrow> 8 word list option" where
  "big_int_to_string approximate x base =
     (if base > 16 then None
      else if x = 0 then Some [ch (CHR ''0'')]
      else if mp_used x \<ge> 498 then Some (approximate x)
      else
        let buf = (if x < 0 then [ch (CHR ''-'')] else []);
            v = \<bar>x\<bar>;
            first_word_idx = length buf
        in Some (reverse_digits first_word_idx (push_digits base v buf)))"

end
