(* ===== verification/Exact_Value.thy ===== *)
theory Exact_Value
  imports Big_Int Token Utf8
begin

text \<open>
  The values of constant expressions (\<^verbatim>\<open>src/exact_value.cpp\<close>). The tagged union \<open>ExactValue\<close> is a datatype;
  reading a member that is not the one stored, a \<^verbatim>\<open>GB_PANIC\<close>, a compiler error and a failed assertion are \<open>None\<close>.
  Arithmetic on \<open>f64\<close> is that of the C library and the machine; it comes as a record of operations on an
  abstract type of floats. Syntax trees and types are pointers. String texts are not null.
\<close>

subsection \<open>Values\<close>

record 'f f64_ops =
  f_add :: "'f \<Rightarrow> 'f \<Rightarrow> 'f"
  f_sub :: "'f \<Rightarrow> 'f \<Rightarrow> 'f"
  f_mul :: "'f \<Rightarrow> 'f \<Rightarrow> 'f"
  f_div :: "'f \<Rightarrow> 'f \<Rightarrow> 'f"
  f_mod :: "'f \<Rightarrow> 'f \<Rightarrow> 'f"
  f_neg :: "'f \<Rightarrow> 'f"
  f_eq :: "'f \<Rightarrow> 'f \<Rightarrow> bool"
  f_less :: "'f \<Rightarrow> 'f \<Rightarrow> bool"
  f_isnan :: "'f \<Rightarrow> bool"
  f_of_int :: "int \<Rightarrow> 'f"
  f_to_i64 :: "'f \<Rightarrow> 64 word"
  f_to_f32 :: "'f \<Rightarrow> 'f"
  f_of_f16 :: "16 word \<Rightarrow> 'f"
  f_of_f32 :: "32 word \<Rightarrow> 'f"
  f_of_f64 :: "64 word \<Rightarrow> 'f"
  f_strtod :: "8 word list \<Rightarrow> 'f \<times> bool"

datatype 'f exact_value =
  ExactValue_Invalid
| ExactValue_Bool bool
| ExactValue_String "8 word list"
| ExactValue_Integer int
| ExactValue_Float 'f
| ExactValue_Complex 'f 'f
| ExactValue_Quaternion 'f 'f 'f 'f
| ExactValue_Pointer "64 word"
| ExactValue_Compound ptr
| ExactValue_Procedure ptr
| ExactValue_Typeid ptr
| ExactValue_String16 "16 word list"

definition exact_value_i64 :: "64 word \<Rightarrow> 'f exact_value" where
  "exact_value_i64 i = ExactValue_Integer (big_int_from_i64 i)"

definition exact_value_u64 :: "64 word \<Rightarrow> 'f exact_value" where
  "exact_value_u64 i = ExactValue_Integer (big_int_from_u64 i)"

subsection \<open>Literals\<close>

definition exact_value_integer_from_string :: "8 word list \<Rightarrow> 'f exact_value option" where
  "exact_value_integer_from_string s =
     map_option (\<lambda>(i, success). if success then ExactValue_Integer i else ExactValue_Invalid) (big_int_from_string s)"

text \<open>The text that is given to \<open>strtod\<close>.\<close>

definition float_text :: "8 word list \<Rightarrow> 8 word list" where
  "float_text s = map (\<lambda>c. if c = ch (CHR ''E'') then ch (CHR ''e'') else c) (filter (\<lambda>c. c \<noteq> ch (CHR ''_'')) s)"

definition float_from_string :: "'f f64_ops \<Rightarrow> 8 word list \<Rightarrow> 'f \<times> bool" where
  "float_from_string F s = f_strtod F (float_text s)"

fun u64_digits :: "int \<Rightarrow> 8 word list \<Rightarrow> 64 word \<Rightarrow> 64 word" where
  "u64_digits base [] res = res"
| "u64_digits base (r # rs) res =
     (if r = ch (CHR ''_'') then u64_digits base rs res
      else if u64_digit_value r \<ge> base then res
      else u64_digits base rs (res * word_of_int base + word_of_int (u64_digit_value r)))"

definition u64_from_string :: "8 word list \<Rightarrow> 64 word" where
  "u64_from_string s = (let (base, has_prefix) = literal_base s in u64_digits base (if has_prefix then drop 2 s else s) 0)"

definition exact_value_float_from_string :: "'f f64_ops \<Rightarrow> 8 word list \<Rightarrow> 'f exact_value option" where
  "exact_value_float_from_string F s =
     (if length s > 2 \<and> s ! 0 = ch (CHR ''0'') \<and> s ! 1 = ch (CHR ''h'') then
        let digit_count = length (filter (\<lambda>c. c \<noteq> ch (CHR ''_'')) (drop 2 s));
            u = u64_from_string s
        in Some (ExactValue_Float
             (if digit_count = 4 then f_of_f16 F (ucast u)
              else if digit_count = 8 then f_of_f32 F (ucast u)
              else f_of_f64 F u))
      else if ch (CHR ''.'') \<notin> set s \<and> ch (CHR ''-'') \<notin> set s then exact_value_integer_from_string s
      else
        let (f, success) = float_from_string F s
        in Some (if success then ExactValue_Float f else ExactValue_Invalid))"

definition exact_value_from_basic_literal :: "'f f64_ops \<Rightarrow> token_kind \<Rightarrow> 8 word list \<Rightarrow> 'f exact_value option" where
  "exact_value_from_basic_literal F kind s =
     (case kind of
        Literal Token_String \<Rightarrow> Some (ExactValue_String s)
      | Literal Token_Integer \<Rightarrow> exact_value_integer_from_string s
      | Literal Token_Float \<Rightarrow> exact_value_float_from_string F s
      | Literal Token_Imag \<Rightarrow>
          (if s = [] then None
           else
             let last_rune = last s;
                 z = f_of_int F 0;
                 (imag, success) = float_from_string F (butlast s)
             in if last_rune = ch (CHR ''i'') then Some (ExactValue_Complex z imag)
                else if last_rune = ch (CHR ''j'') then Some (ExactValue_Quaternion z z imag z)
                else if last_rune = ch (CHR ''k'') then Some (ExactValue_Quaternion z z z imag)
                else None)
      | Literal Token_Rune \<Rightarrow>
          (let r = (if length s = 1 then uint (s ! 0) else snd (utf8_decode s))
           in Some (exact_value_i64 (word_of_int r)))
      | _ \<Rightarrow> Some ExactValue_Invalid)"

subsection \<open>Conversions\<close>

definition exact_value_to_integer :: "'f f64_ops \<Rightarrow> 'f exact_value \<Rightarrow> 'f exact_value" where
  "exact_value_to_integer F v =
     (case v of
        ExactValue_Bool b \<Rightarrow> exact_value_i64 (if b then 1 else 0)
      | ExactValue_Integer i \<Rightarrow> v
      | ExactValue_Float x \<Rightarrow>
          let i = f_to_i64 F x; f = f_of_int F (sint i)
          in if f_eq F f x then exact_value_i64 i else ExactValue_Invalid
      | ExactValue_Pointer p \<Rightarrow> exact_value_i64 p
      | _ \<Rightarrow> ExactValue_Invalid)"

definition exact_value_to_float :: "'f f64_ops \<Rightarrow> 'f exact_value \<Rightarrow> 'f exact_value" where
  "exact_value_to_float F v =
     (case v of
        ExactValue_Integer i \<Rightarrow> ExactValue_Float (f_of_int F i)
      | ExactValue_Float x \<Rightarrow> v
      | _ \<Rightarrow> ExactValue_Invalid)"

definition exact_value_to_complex :: "'f f64_ops \<Rightarrow> 'f exact_value \<Rightarrow> 'f exact_value" where
  "exact_value_to_complex F v =
     (case v of
        ExactValue_Integer i \<Rightarrow> ExactValue_Complex (f_of_int F i) (f_of_int F 0)
      | ExactValue_Float x \<Rightarrow> ExactValue_Complex x (f_of_int F 0)
      | ExactValue_Complex r i \<Rightarrow> v
      | _ \<Rightarrow> ExactValue_Invalid)"

definition exact_value_to_quaternion :: "'f f64_ops \<Rightarrow> 'f exact_value \<Rightarrow> 'f exact_value" where
  "exact_value_to_quaternion F v =
     (let z = f_of_int F 0 in
      case v of
        ExactValue_Integer i \<Rightarrow> ExactValue_Quaternion (f_of_int F i) z z z
      | ExactValue_Float x \<Rightarrow> ExactValue_Quaternion x z z z
      | ExactValue_Complex r i \<Rightarrow> ExactValue_Quaternion r i z z
      | ExactValue_Quaternion r i j k \<Rightarrow> v
      | _ \<Rightarrow> ExactValue_Invalid)"

definition exact_value_real :: "'f exact_value \<Rightarrow> 'f exact_value" where
  "exact_value_real v =
     (case v of
        ExactValue_Integer i \<Rightarrow> v
      | ExactValue_Float x \<Rightarrow> v
      | ExactValue_Complex r i \<Rightarrow> ExactValue_Float r
      | ExactValue_Quaternion r i j k \<Rightarrow> ExactValue_Float r
      | _ \<Rightarrow> ExactValue_Invalid)"

definition exact_value_imag :: "'f exact_value \<Rightarrow> 'f exact_value" where
  "exact_value_imag v =
     (case v of
        ExactValue_Integer i \<Rightarrow> exact_value_i64 0
      | ExactValue_Float x \<Rightarrow> exact_value_i64 0
      | ExactValue_Complex r i \<Rightarrow> ExactValue_Float i
      | ExactValue_Quaternion r i j k \<Rightarrow> ExactValue_Float i
      | _ \<Rightarrow> ExactValue_Invalid)"

definition exact_value_jmag :: "'f exact_value \<Rightarrow> 'f exact_value" where
  "exact_value_jmag v =
     (case v of
        ExactValue_Integer i \<Rightarrow> exact_value_i64 0
      | ExactValue_Float x \<Rightarrow> exact_value_i64 0
      | ExactValue_Complex r i \<Rightarrow> exact_value_i64 0
      | ExactValue_Quaternion r i j k \<Rightarrow> ExactValue_Float j
      | _ \<Rightarrow> ExactValue_Invalid)"

definition exact_value_kmag :: "'f exact_value \<Rightarrow> 'f exact_value" where
  "exact_value_kmag v =
     (case v of
        ExactValue_Integer i \<Rightarrow> exact_value_i64 0
      | ExactValue_Float x \<Rightarrow> exact_value_i64 0
      | ExactValue_Complex r i \<Rightarrow> exact_value_i64 0
      | ExactValue_Quaternion r i j k \<Rightarrow> ExactValue_Float k
      | _ \<Rightarrow> ExactValue_Invalid)"

definition exact_value_to_i64 :: "'f f64_ops \<Rightarrow> 'f exact_value \<Rightarrow> 64 word" where
  "exact_value_to_i64 F v =
     (case exact_value_to_integer F v of ExactValue_Integer i \<Rightarrow> big_int_to_i64 i | _ \<Rightarrow> 0)"

definition exact_value_to_u64 :: "'f f64_ops \<Rightarrow> 'f exact_value \<Rightarrow> 64 word option" where
  "exact_value_to_u64 F v =
     (case exact_value_to_integer F v of ExactValue_Integer i \<Rightarrow> big_int_to_u64 i | _ \<Rightarrow> Some 0)"

definition exact_value_to_f64 :: "'f f64_ops \<Rightarrow> 'f exact_value \<Rightarrow> 'f" where
  "exact_value_to_f64 F v =
     (case exact_value_to_float F v of ExactValue_Float x \<Rightarrow> x | _ \<Rightarrow> f_of_int F 0)"

subsection \<open>Unary operators\<close>

definition exact_unary_operator_value ::
  "'f f64_ops \<Rightarrow> token_kind \<Rightarrow> 'f exact_value \<Rightarrow> int \<Rightarrow> bool \<Rightarrow> 'f exact_value option" where
  "exact_unary_operator_value F op v precision is_unsigned =
     (case op of
        Operator Token_Add \<Rightarrow>
          (case v of
             ExactValue_Invalid \<Rightarrow> Some v
           | ExactValue_Integer i \<Rightarrow> Some v
           | ExactValue_Float x \<Rightarrow> Some v
           | ExactValue_Complex r i \<Rightarrow> Some v
           | ExactValue_Quaternion r i j k \<Rightarrow> Some v
           | _ \<Rightarrow> Some ExactValue_Invalid)
      | Operator Token_Sub \<Rightarrow>
          (case v of
             ExactValue_Invalid \<Rightarrow> Some v
           | ExactValue_Integer i \<Rightarrow> Some (ExactValue_Integer (- i))
           | ExactValue_Float x \<Rightarrow> Some (ExactValue_Float (f_neg F x))
           | ExactValue_Complex r i \<Rightarrow> Some (ExactValue_Complex (f_neg F r) (f_neg F i))
           | ExactValue_Quaternion r i j k \<Rightarrow>
               Some (ExactValue_Quaternion (f_neg F r) (f_neg F i) (f_neg F j) (f_neg F k))
           | _ \<Rightarrow> Some ExactValue_Invalid)
      | Operator Token_Xor \<Rightarrow>
          (case v of
             ExactValue_Invalid \<Rightarrow> Some v
           | ExactValue_Integer i \<Rightarrow>
               if precision = 0 then None
               else map_option ExactValue_Integer (big_int_not i precision (\<not> is_unsigned))
           | _ \<Rightarrow> Some ExactValue_Invalid)
      | Operator Token_Not \<Rightarrow>
          (case v of
             ExactValue_Invalid \<Rightarrow> Some v
           | ExactValue_Bool b \<Rightarrow> Some (ExactValue_Bool (\<not> b))
           | _ \<Rightarrow> Some ExactValue_Invalid)
      | _ \<Rightarrow> Some ExactValue_Invalid)"

subsection \<open>Bringing two values to one kind\<close>

definition exact_value_order :: "'f exact_value \<Rightarrow> int option" where
  "exact_value_order v =
     (case v of
        ExactValue_Invalid \<Rightarrow> Some 0
      | ExactValue_Compound n \<Rightarrow> Some 0
      | ExactValue_Bool b \<Rightarrow> Some 1
      | ExactValue_String s \<Rightarrow> Some 1
      | ExactValue_String16 s \<Rightarrow> Some 1
      | ExactValue_Integer i \<Rightarrow> Some 2
      | ExactValue_Float x \<Rightarrow> Some 3
      | ExactValue_Complex r i \<Rightarrow> Some 4
      | ExactValue_Quaternion r i j k \<Rightarrow> Some 5
      | ExactValue_Pointer p \<Rightarrow> Some 6
      | ExactValue_Procedure n \<Rightarrow> Some 7
      | ExactValue_Typeid t \<Rightarrow> None)"

text \<open>The switch, for values in order: \<open>x\<close> is brought to the kind of \<open>y\<close>.\<close>

definition match_ordered :: "'f f64_ops \<Rightarrow> 'f exact_value \<Rightarrow> 'f exact_value \<Rightarrow> ('f exact_value \<times> 'f exact_value) option" where
  "match_ordered F x y =
     (case x of
        ExactValue_Invalid \<Rightarrow> Some (x, x)
      | ExactValue_Integer i \<Rightarrow>
          (case y of
             ExactValue_Integer j \<Rightarrow> Some (x, y)
           | ExactValue_Float f \<Rightarrow> Some (ExactValue_Float (f_of_int F i), y)
           | ExactValue_Complex a b \<Rightarrow> Some (ExactValue_Complex (f_of_int F i) (f_of_int F 0), y)
           | ExactValue_Quaternion a b c d \<Rightarrow>
               Some (ExactValue_Quaternion (f_of_int F i) (f_of_int F 0) (f_of_int F 0) (f_of_int F 0), y)
           | _ \<Rightarrow> None)
      | ExactValue_Float f \<Rightarrow>
          (case y of
             ExactValue_Float g \<Rightarrow> Some (x, y)
           | ExactValue_Complex a b \<Rightarrow> Some (exact_value_to_complex F x, y)
           | ExactValue_Quaternion a b c d \<Rightarrow> Some (exact_value_to_quaternion F x, y)
           | _ \<Rightarrow> None)
      | ExactValue_Complex r i \<Rightarrow>
          (case y of
             ExactValue_Complex a b \<Rightarrow> Some (x, y)
           | ExactValue_Quaternion a b c d \<Rightarrow> Some (exact_value_to_quaternion F x, y)
           | _ \<Rightarrow> None)
      | _ \<Rightarrow> Some (x, y))"

definition match_exact_values :: "'f f64_ops \<Rightarrow> 'f exact_value \<Rightarrow> 'f exact_value \<Rightarrow> ('f exact_value \<times> 'f exact_value) option" where
  "match_exact_values F x y =
     Option.bind (exact_value_order y) (\<lambda>oy. Option.bind (exact_value_order x) (\<lambda>ox.
       if oy < ox then map_option prod.swap (match_ordered F y x) else match_ordered F x y))"

subsection \<open>Binary operators\<close>

text \<open>Reading a member of the union.\<close>

definition value_bool :: "'f exact_value \<Rightarrow> bool option" where
  "value_bool v = (case v of ExactValue_Bool b \<Rightarrow> Some b | _ \<Rightarrow> None)"

definition value_string :: "'f exact_value \<Rightarrow> 8 word list option" where
  "value_string v = (case v of ExactValue_String s \<Rightarrow> Some s | _ \<Rightarrow> None)"

definition value_string16 :: "'f exact_value \<Rightarrow> 16 word list option" where
  "value_string16 v = (case v of ExactValue_String16 s \<Rightarrow> Some s | _ \<Rightarrow> None)"

definition value_integer :: "'f exact_value \<Rightarrow> int option" where
  "value_integer v = (case v of ExactValue_Integer i \<Rightarrow> Some i | _ \<Rightarrow> None)"

definition value_float :: "'f exact_value \<Rightarrow> 'f option" where
  "value_float v = (case v of ExactValue_Float x \<Rightarrow> Some x | _ \<Rightarrow> None)"

definition value_complex :: "'f exact_value \<Rightarrow> ('f \<times> 'f) option" where
  "value_complex v = (case v of ExactValue_Complex r i \<Rightarrow> Some (r, i) | _ \<Rightarrow> None)"

definition value_quaternion :: "'f exact_value \<Rightarrow> ('f \<times> 'f \<times> 'f \<times> 'f) option" where
  "value_quaternion v = (case v of ExactValue_Quaternion r i j k \<Rightarrow> Some (r, i, j, k) | _ \<Rightarrow> None)"

definition bool_operator :: "operator_kind \<Rightarrow> bool \<Rightarrow> bool \<Rightarrow> 'f exact_value" where
  "bool_operator op x y =
     (case op of
        Token_CmpAnd \<Rightarrow> ExactValue_Bool (x \<and> y)
      | Token_CmpOr \<Rightarrow> ExactValue_Bool (x \<or> y)
      | Token_And \<Rightarrow> ExactValue_Bool (x \<and> y)
      | Token_Or \<Rightarrow> ExactValue_Bool (x \<or> y)
      | Token_AndNot \<Rightarrow> ExactValue_Bool (x \<and> \<not> y)
      | Token_Xor \<Rightarrow> ExactValue_Bool ((x \<and> \<not> y) \<or> (\<not> x \<and> y))
      | _ \<Rightarrow> ExactValue_Invalid)"

definition integer_operator :: "'f f64_ops \<Rightarrow> token_kind \<Rightarrow> int \<Rightarrow> int \<Rightarrow> 'f exact_value" where
  "integer_operator F op a b =
     (case op of
        Operator Token_Add \<Rightarrow> ExactValue_Integer (a + b)
      | Operator Token_Sub \<Rightarrow> ExactValue_Integer (a - b)
      | Operator Token_Mul \<Rightarrow> ExactValue_Integer (a * b)
      | Operator Token_Quo \<Rightarrow> ExactValue_Float (f_mod F (f_of_int F a) (f_of_int F b))
      | AssignOp Token_QuoEq \<Rightarrow> ExactValue_Integer (big_int_quo a b)
      | Operator Token_Mod \<Rightarrow> ExactValue_Integer (big_int_rem a b)
      | Operator Token_ModMod \<Rightarrow> ExactValue_Integer (big_int_mod_mod a b)
      | Operator Token_And \<Rightarrow> ExactValue_Integer (a AND b)
      | Operator Token_Or \<Rightarrow> ExactValue_Integer (a OR b)
      | Operator Token_Xor \<Rightarrow> ExactValue_Integer (a XOR b)
      | Operator Token_AndNot \<Rightarrow> ExactValue_Integer (big_int_and_not a b)
      | Operator Token_Shl \<Rightarrow> ExactValue_Integer (big_int_shl 0 a b)
      | Operator Token_Shr \<Rightarrow> ExactValue_Integer (big_int_shr 0 a b)
      | _ \<Rightarrow> ExactValue_Invalid)"

definition float_operator :: "'f f64_ops \<Rightarrow> token_kind \<Rightarrow> 'f \<Rightarrow> 'f \<Rightarrow> 'f exact_value" where
  "float_operator F op a b =
     (case op of
        Operator Token_Add \<Rightarrow> ExactValue_Float (f_add F a b)
      | Operator Token_Sub \<Rightarrow> ExactValue_Float (f_sub F a b)
      | Operator Token_Mul \<Rightarrow> ExactValue_Float (f_mul F a b)
      | Operator Token_Quo \<Rightarrow> ExactValue_Float (f_div F a b)
      | _ \<Rightarrow> ExactValue_Invalid)"

definition complex_operator :: "'f f64_ops \<Rightarrow> token_kind \<Rightarrow> 'f \<times> 'f \<Rightarrow> 'f \<times> 'f \<Rightarrow> 'f exact_value" where
  "complex_operator F op x y =
     (let (a, b) = x; (c, d) = y; add = f_add F; sub = f_sub F; mul = f_mul F
      in case op of
           Operator Token_Add \<Rightarrow> ExactValue_Complex (add a c) (add b d)
         | Operator Token_Sub \<Rightarrow> ExactValue_Complex (sub a c) (sub b d)
         | Operator Token_Mul \<Rightarrow>
             ExactValue_Complex (sub (mul a c) (mul b d)) (add (mul b c) (mul a d))
         | Operator Token_Quo \<Rightarrow>
             let s = add (mul c c) (mul d d)
             in ExactValue_Complex (f_div F (add (mul a c) (mul b d)) s) (f_div F (sub (mul b c) (mul a d)) s)
         | _ \<Rightarrow> ExactValue_Invalid)"

definition quaternion_operator ::
  "'f f64_ops \<Rightarrow> token_kind \<Rightarrow> 'f \<times> 'f \<times> 'f \<times> 'f \<Rightarrow> 'f \<times> 'f \<times> 'f \<times> 'f \<Rightarrow> 'f exact_value" where
  "quaternion_operator F op x y =
     (let (xr, xi, xj, xk) = x; (yr, yi, yj, yk) = y; add = f_add F; sub = f_sub F; mul = f_mul F; neg = f_neg F
      in case op of
           Operator Token_Add \<Rightarrow> ExactValue_Quaternion (add xr yr) (add xi yi) (add xj yj) (add xk yk)
         | Operator Token_Sub \<Rightarrow> ExactValue_Quaternion (sub xr yr) (sub xi yi) (sub xj yj) (sub xk yk)
         | Operator Token_Mul \<Rightarrow>
             ExactValue_Quaternion
               (sub (sub (sub (mul xr yr) (mul xi yi)) (mul xj yj)) (mul xk yk))
               (sub (add (add (mul xr yi) (mul xi yr)) (mul xj yk)) (mul xk yj))
               (add (add (sub (mul xr yj) (mul xi yk)) (mul xj yr)) (mul xk yi))
               (add (sub (add (mul xr yk) (mul xi yj)) (mul xj yi)) (mul xk yr))
         | Operator Token_Quo \<Rightarrow>
             let invmag2 = f_div F (f_of_int F 1) (add (add (add (mul yr yr) (mul yi yi)) (mul yj yj)) (mul yk yk))
             in ExactValue_Quaternion
                  (mul (sub (sub (sub (mul xr yr) (mul xi (neg yi))) (mul xj (neg yj))) (mul xk (neg yk))) invmag2)
                  (mul (sub (add (add (mul xr (neg yi)) (mul xi yr)) (mul xj (neg yk))) (mul xk (neg yj))) invmag2)
                  (mul (add (add (sub (mul xr (neg yj)) (mul xi (neg yk))) (mul xj yr)) (mul xk (neg yi))) invmag2)
                  (mul (add (sub (add (mul xr (neg yk)) (mul xi (neg yj))) (mul xj (neg yi))) (mul xk yr)) invmag2)
         | _ \<Rightarrow> ExactValue_Invalid)"

definition exact_binary_operator_value ::
  "'f f64_ops \<Rightarrow> token_kind \<Rightarrow> 'f exact_value \<Rightarrow> 'f exact_value \<Rightarrow> 'f exact_value option" where
  "exact_binary_operator_value F op x y =
     Option.bind (match_exact_values F x y) (\<lambda>(x, y).
     case x of
       ExactValue_Invalid \<Rightarrow> Some x
     | ExactValue_Bool a \<Rightarrow>
         (case op of
            Operator k \<Rightarrow>
              if k \<in> {Token_CmpAnd, Token_CmpOr, Token_And, Token_Or, Token_AndNot, Token_Xor}
              then map_option (bool_operator k a) (value_bool y) else Some ExactValue_Invalid
          | _ \<Rightarrow> Some ExactValue_Invalid)
     | ExactValue_Integer a \<Rightarrow> map_option (integer_operator F op a) (value_integer y)
     | ExactValue_Float a \<Rightarrow> map_option (float_operator F op a) (value_float y)
     | ExactValue_Complex a b \<Rightarrow>
         map_option (complex_operator F op (a, b)) (value_complex (exact_value_to_complex F y))
     | ExactValue_Quaternion a b c d \<Rightarrow>
         map_option (quaternion_operator F op (a, b, c, d)) (value_quaternion (exact_value_to_quaternion F y))
     | ExactValue_String a \<Rightarrow>
         if op \<noteq> Operator Token_Add then Some ExactValue_Invalid
         else map_option (\<lambda>b. ExactValue_String (a @ b)) (value_string y)
     | ExactValue_String16 a \<Rightarrow>
         if op \<noteq> Operator Token_Add then Some ExactValue_Invalid
         else map_option (\<lambda>b. ExactValue_String16 (a @ b)) (value_string16 y)
     | _ \<Rightarrow> Some ExactValue_Invalid)"

definition exact_value_add :: "'f f64_ops \<Rightarrow> 'f exact_value \<Rightarrow> 'f exact_value \<Rightarrow> 'f exact_value option" where
  "exact_value_add F = exact_binary_operator_value F (Operator Token_Add)"

definition exact_value_sub :: "'f f64_ops \<Rightarrow> 'f exact_value \<Rightarrow> 'f exact_value \<Rightarrow> 'f exact_value option" where
  "exact_value_sub F = exact_binary_operator_value F (Operator Token_Sub)"

definition exact_value_mul :: "'f f64_ops \<Rightarrow> 'f exact_value \<Rightarrow> 'f exact_value \<Rightarrow> 'f exact_value option" where
  "exact_value_mul F = exact_binary_operator_value F (Operator Token_Mul)"

definition exact_value_quo :: "'f f64_ops \<Rightarrow> 'f exact_value \<Rightarrow> 'f exact_value \<Rightarrow> 'f exact_value option" where
  "exact_value_quo F = exact_binary_operator_value F (Operator Token_Quo)"

definition exact_value_shift :: "'f f64_ops \<Rightarrow> token_kind \<Rightarrow> 'f exact_value \<Rightarrow> 'f exact_value \<Rightarrow> 'f exact_value option" where
  "exact_value_shift F op = exact_binary_operator_value F op"

definition exact_value_increment_one :: "'f f64_ops \<Rightarrow> 'f exact_value \<Rightarrow> 'f exact_value option" where
  "exact_value_increment_one F x = exact_binary_operator_value F (Operator Token_Add) x (exact_value_i64 1)"

subsection \<open>Comparisons\<close>

definition cmp_f64 :: "'f f64_ops \<Rightarrow> 'f \<Rightarrow> 'f \<Rightarrow> int" where
  "cmp_f64 F a b = of_bool (f_less F b a) - of_bool (f_less F a b)"

text \<open>\<open>memcmp\<close>, then the lengths.\<close>

fun string_compare :: "8 word list \<Rightarrow> 8 word list \<Rightarrow> int" where
  "string_compare [] [] = 0"
| "string_compare [] (b # bs) = - int (length (b # bs))"
| "string_compare (a # as) [] = int (length (a # as))"
| "string_compare (a # as) (b # bs) = (if a < b then -1 else if b < a then 1 else string_compare as bs)"

text \<open>The bytes of UTF-16 text, the low byte of each unit first.\<close>

definition bytes_of_string16 :: "16 word list \<Rightarrow> 8 word list" where
  "bytes_of_string16 s = concat (map (\<lambda>u. [ucast u, ucast (drop_bit 8 u)]) s)"

definition string16_compare :: "16 word list \<Rightarrow> 16 word list \<Rightarrow> int" where
  "string16_compare a b =
     (let n = min (length a) (length b);
          res = string_compare (take (2 * n) (bytes_of_string16 a)) (take (2 * n) (bytes_of_string16 b))
      in if res = 0 then int (length a) - int (length b) else res)"

text \<open>The equality of UTF-16 texts compares as many bytes as there are units.\<close>

definition str_eq16 :: "16 word list \<Rightarrow> 16 word list \<Rightarrow> bool" where
  "str_eq16 a b =
     (if length a \<noteq> length b then False
      else if length a = 0 then True
      else take (length a) (bytes_of_string16 a) = take (length a) (bytes_of_string16 b))"

text \<open>A comparison operator on the result of a three-way comparison.\<close>

definition compare_by :: "comparison_kind \<Rightarrow> int \<Rightarrow> bool" where
  "compare_by op cmp =
     (case op of
        Token_CmpEq \<Rightarrow> cmp = 0
      | Token_NotEq \<Rightarrow> cmp \<noteq> 0
      | Token_Lt \<Rightarrow> cmp < 0
      | Token_LtEq \<Rightarrow> cmp \<le> 0
      | Token_Gt \<Rightarrow> cmp > 0
      | Token_GtEq \<Rightarrow> cmp \<ge> 0)"

text \<open>Comparing two addresses or truth values: only equality.\<close>

definition compare_equal :: "comparison_kind \<Rightarrow> bool \<Rightarrow> bool option" where
  "compare_equal op eq = (case op of Token_CmpEq \<Rightarrow> Some eq | Token_NotEq \<Rightarrow> Some (\<not> eq) | _ \<Rightarrow> None)"

text \<open>Compound literals are compared by their syntax trees: \<open>compound\<close>.\<close>

definition compare_exact_values ::
  "'f f64_ops \<Rightarrow> (token_kind \<Rightarrow> 'f exact_value \<Rightarrow> 'f exact_value \<Rightarrow> bool option) \<Rightarrow> token_kind \<Rightarrow>
     'f exact_value \<Rightarrow> 'f exact_value \<Rightarrow> bool option" where
  "compare_exact_values F compound op x y =
     Option.bind (match_exact_values F x y) (\<lambda>(x, y).
     case x of
       ExactValue_Invalid \<Rightarrow> Some False
     | ExactValue_Compound n \<Rightarrow>
         if op \<noteq> Comparison Token_CmpEq \<and> op \<noteq> Comparison Token_NotEq then Some False
         else if \<not> (case y of ExactValue_Compound m \<Rightarrow> True | _ \<Rightarrow> False) then Some False
         else compound op x y
     | ExactValue_Float a \<Rightarrow>
         Option.bind (value_float y) (\<lambda>b.
         if f_isnan F a \<or> f_isnan F b then Some (op = Comparison Token_NotEq)
         else case op of Comparison k \<Rightarrow> Some (compare_by k (cmp_f64 F a b)) | _ \<Rightarrow> None)
     | _ \<Rightarrow>
         (case op of
            Comparison k \<Rightarrow>
              (case x of
                 ExactValue_Bool a \<Rightarrow> Option.bind (value_bool y) (\<lambda>b. compare_equal k (a = b))
               | ExactValue_Integer a \<Rightarrow> map_option (\<lambda>b. compare_by k (big_int_cmp a b)) (value_integer y)
               | ExactValue_Complex a b \<Rightarrow>
                   Option.bind (value_complex y) (\<lambda>(c, d).
                     compare_equal k (cmp_f64 F a c = 0 \<and> cmp_f64 F b d = 0))
               | ExactValue_String a \<Rightarrow> map_option (\<lambda>b. compare_by k (string_compare a b)) (value_string y)
               | ExactValue_String16 a \<Rightarrow>
                   map_option (\<lambda>b. if k = Token_CmpEq then str_eq16 a b
                     else if k = Token_NotEq then \<not> str_eq16 a b
                     else compare_by k (string16_compare a b)) (value_string16 y)
               | ExactValue_Pointer a \<Rightarrow>
                   (case y of
                      ExactValue_Pointer b \<Rightarrow>
                        Some (compare_by k (if sint a < sint b then -1 else if sint b < sint a then 1 else 0))
                    | _ \<Rightarrow> None)
               | ExactValue_Procedure a \<Rightarrow>
                   (case y of ExactValue_Procedure b \<Rightarrow> compare_equal k (a = b) | _ \<Rightarrow> None)
               | ExactValue_Typeid a \<Rightarrow>
                   (case y of ExactValue_Typeid b \<Rightarrow> compare_equal k (a = b) | _ \<Rightarrow> None)
               | _ \<Rightarrow> None)
          | _ \<Rightarrow> None))"

end
