(* ===== verification/Const_Check.thy ===== *)
theory Const_Check
  imports Exact_Value Type_Layout
begin

text \<open>
  Whether a constant can be represented in a type (\<^verbatim>\<open>check_representable_as_constant\<close> in
  \<^verbatim>\<open>src/check_expr.cpp\<close>, with the tables of integer bounds of \<^verbatim>\<open>src/common.cpp\<close>). The answer comes with
  the value stored through \<open>out_value\<close>; a panic, and a table read out of its bounds, are \<open>None\<close>.
\<close>

subsection \<open>Bounds of the integers\<close>

text \<open>Indexed by the size of the integer in bytes.\<close>

definition signed_integer_mins :: "64 word list" where
  "signed_integer_mins = [0, - 128, - 32768, 0, - 2147483648, 0, 0, 0, - 9223372036854775807 - 1]"

definition signed_integer_maxs :: "64 word list" where
  "signed_integer_maxs = [0, 127, 32767, 0, 2147483647, 0, 0, 0, 9223372036854775807]"

definition unsigned_integer_maxs :: "64 word list" where
  "unsigned_integer_maxs = [0, 255, 65535, 0, 4294967295, 0, 0, 0, 18446744073709551615]"

definition table_entry :: "64 word list \<Rightarrow> int \<Rightarrow> 64 word option" where
  "table_entry xs i = (if 0 \<le> i \<and> i < int (length xs) then Some (xs ! nat i) else None)"

text \<open>\<open>umax\<close>, \<open>imin\<close> and \<open>imax\<close> for the unsigned and the signed integers of \<open>n\<close> bits.\<close>

definition big_bounds :: "int \<Rightarrow> int \<times> int \<times> int" where
  "big_bounds n =
     (let umax = big_int_shl_eq 1 n - 1;
          imin = - big_int_shl_eq 1 (n - 1);
          imax = big_int_shl_eq 1 (n - 1) - 1
      in (umax, imin, imax))"

text \<open>The groups of the switch over the integer types.\<close>

definition narrow_signed :: "basic_kind \<Rightarrow> bool" where
  "narrow_signed k \<longleftrightarrow>
     k \<in> {Fixed Basic_rune, Fixed Basic_i8, Fixed Basic_i16, Fixed Basic_i32, Fixed Basic_i64, Target Basic_int,
          Endian Basic_i16le, Endian Basic_i32le, Endian Basic_i64le,
          Endian Basic_i16be, Endian Basic_i32be, Endian Basic_i64be}"

definition wide_signed :: "basic_kind \<Rightarrow> bool" where
  "wide_signed k \<longleftrightarrow> k \<in> {Fixed Basic_i128, Endian Basic_i128le, Endian Basic_i128be}"

definition narrow_unsigned :: "basic_kind \<Rightarrow> bool" where
  "narrow_unsigned k \<longleftrightarrow>
     k \<in> {Fixed Basic_u8, Fixed Basic_u16, Fixed Basic_u32, Fixed Basic_u64, Target Basic_uint, Target Basic_uintptr,
          Endian Basic_u16le, Endian Basic_u32le, Endian Basic_u64le,
          Endian Basic_u16be, Endian Basic_u32be, Endian Basic_u64be}"

definition wide_unsigned :: "basic_kind \<Rightarrow> bool" where
  "wide_unsigned k \<longleftrightarrow> k \<in> {Fixed Basic_u128, Endian Basic_u128le, Endian Basic_u128be}"

text \<open>
  The range test for an integer type of \<open>byte_size\<close> bytes; \<open>bit_field_bit_size\<close> is the width of the bit
  field whose value is checked, 0 outside bit fields.
\<close>

definition integer_in_range :: "int \<Rightarrow> int \<Rightarrow> basic_kind \<Rightarrow> int \<Rightarrow> bool option" where
  "integer_in_range bit_field_bit_size byte_size k i =
     (let in_field = bit_field_bit_size > 0;
          (umax, imin, imax) =
            (if in_field then big_bounds (min (8 * byte_size) bit_field_bit_size) else big_bounds 128);
          signed_range = Some (big_int_cmp imin i \<le> 0 \<and> big_int_cmp i imax \<le> 0);
          unsigned_range = Some (\<not> i < 0 \<and> big_int_cmp i umax \<le> 0)
      in if narrow_signed k then
           (if in_field then signed_range
            else if \<not> big_int_can_be_represented_in_64_bits i then Some False
            else
              let val64 = big_int_to_i64 i in
              Option.bind (table_entry signed_integer_mins byte_size) (\<lambda>imin_64.
              Option.bind (table_entry signed_integer_maxs byte_size) (\<lambda>imax_64.
              Some (imin_64 <=s val64 \<and> val64 <=s imax_64))))
         else if wide_signed k then signed_range
         else if narrow_unsigned k then
           (if in_field then unsigned_range
            else if big_int_is_neg i then Some False
            else if \<not> big_int_can_be_represented_in_64_bits i then Some False
            else
              Option.bind (big_int_to_u64 i) (\<lambda>val64.
              Option.bind (table_entry unsigned_integer_maxs byte_size) (\<lambda>umax_64.
              Some (val64 \<le> umax_64))))
         else if wide_unsigned k then unsigned_range
         else if k = Untyped Basic_UntypedInteger then Some True
         else None)"

subsection \<open>Floats\<close>

definition check_update_float_precision ::
  "'f f64_ops \<Rightarrow> type_env \<Rightarrow> 'f exact_value \<Rightarrow> otype \<Rightarrow> 'f exact_value \<times> bool" where
  "check_update_float_precision F E v t =
     (case core_type E t of
        Type_Basic k \<Rightarrow>
          if k \<in> {Fixed Basic_f16, Endian Basic_f16le, Endian Basic_f16be,
                  Fixed Basic_f32, Endian Basic_f32le, Endian Basic_f32be} then
            let x_64 = exact_value_to_f64 F v;
                x_32 = f_to_f32 F x_64
            in if \<not> f_eq F x_32 x_64 then (ExactValue_Float x_32, True) else (v, False)
          else (v, False)
      | _ \<Rightarrow> (v, False))"

subsection \<open>Representable constants\<close>

text \<open>The kind of a basic type.\<close>

definition basic_of :: "otype \<Rightarrow> basic_kind option" where
  "basic_of t = (case t of Type_Basic k \<Rightarrow> Some k | _ \<Rightarrow> None)"

definition is_invalid :: "'f exact_value \<Rightarrow> bool" where
  "is_invalid v = (case v of ExactValue_Invalid \<Rightarrow> True | _ \<Rightarrow> False)"

text \<open>The branch of complex numbers.\<close>

definition representable_complex ::
  "'f f64_ops \<Rightarrow> basic_kind \<Rightarrow> 'f exact_value \<Rightarrow> 'f exact_value \<Rightarrow> (bool \<times> 'f exact_value) option" where
  "representable_complex F k in_value out_value =
     (case exact_value_to_complex F in_value of
        ExactValue_Complex a b \<Rightarrow>
          (let v = ExactValue_Complex a b in
           if k \<in> {Fixed Basic_complex32, Fixed Basic_complex64, Fixed Basic_complex128} then
             let real = exact_value_real v; imag = exact_value_imag v
             in if \<not> is_invalid real \<and> \<not> is_invalid imag then
                  Some (True, ExactValue_Complex (exact_value_to_f64 F real) (exact_value_to_f64 F imag))
                else Some (False, out_value)
           else if k = Untyped Basic_UntypedComplex then Some (True, out_value)
           else None)
      | _ \<Rightarrow> Some (False, out_value))"

definition representable_quaternion ::
  "'f f64_ops \<Rightarrow> basic_kind \<Rightarrow> 'f exact_value \<Rightarrow> 'f exact_value \<Rightarrow> (bool \<times> 'f exact_value) option" where
  "representable_quaternion F k in_value out_value =
     (case exact_value_to_quaternion F in_value of
        ExactValue_Quaternion a b c d \<Rightarrow>
          (let v = ExactValue_Quaternion a b c d in
           if k \<in> {Fixed Basic_quaternion64, Fixed Basic_quaternion128, Fixed Basic_quaternion256} then
             let real = exact_value_real v; imag = exact_value_imag v;
                 jmag = exact_value_jmag v; kmag = exact_value_kmag v
             in if \<not> is_invalid real \<and> \<not> is_invalid imag then
                  Some (True, ExactValue_Quaternion (exact_value_to_f64 F real) (exact_value_to_f64 F imag)
                    (exact_value_to_f64 F jmag) (exact_value_to_f64 F kmag))
                else Some (False, out_value)
           else if k = Untyped Basic_UntypedComplex then Some (True, exact_value_to_quaternion F out_value)
           else if k = Untyped Basic_UntypedQuaternion then Some (True, out_value)
           else None)
      | _ \<Rightarrow> Some (False, out_value))"

text \<open>\<open>elems_count\<close> is the number of elements of a compound literal.\<close>

definition check_representable_as_constant ::
  "'f f64_ops \<Rightarrow> build_context \<Rightarrow> type_env \<Rightarrow> nat \<Rightarrow> (ptr \<Rightarrow> nat) \<Rightarrow> int \<Rightarrow> 'f exact_value \<Rightarrow> otype \<Rightarrow>
     'f exact_value \<Rightarrow> (bool \<times> 'f exact_value) option" where
  "check_representable_as_constant F C E n elems_count bit_field_bit_size in_value type0 out_value =
     (if is_invalid in_value then Some (True, out_value)
      else
        let t = core_type E type0 in
        if t = t_invalid then Some (False, out_value)
        else if is_type_boolean E t then
          Some (case in_value of ExactValue_Bool b \<Rightarrow> True | _ \<Rightarrow> False, out_value)
        else if is_type_string E t then
          Some (case in_value of
              ExactValue_String16 s \<Rightarrow> is_type_string16 E t \<or> is_type_cstring16 E t
            | ExactValue_String s \<Rightarrow> True
            | _ \<Rightarrow> False, out_value)
        else if is_type_integer E t \<or> is_type_rune E t then
          (case exact_value_to_integer F in_value of
             ExactValue_Integer i \<Rightarrow>
               if is_type_untyped E t then Some (True, ExactValue_Integer i)
               else
                 Option.bind (basic_of t) (\<lambda>k.
                 map_option (\<lambda>b. (b, ExactValue_Integer i))
                   (integer_in_range bit_field_bit_size (type_size_of C E n t) k i))
           | _ \<Rightarrow> Some (False, out_value))
        else if is_type_float E t then
          (case exact_value_to_float F in_value of
             ExactValue_Float x \<Rightarrow>
               (let out = fst (check_update_float_precision F E (ExactValue_Float x) t) in
                Option.bind (basic_of t) (\<lambda>k.
                if k \<in> {Fixed Basic_f16, Endian Basic_f16le, Endian Basic_f16be,
                        Fixed Basic_f32, Endian Basic_f32le, Endian Basic_f32be,
                        Fixed Basic_f64, Endian Basic_f64le, Endian Basic_f64be, Untyped Basic_UntypedFloat}
                then Some (True, out) else None))
           | _ \<Rightarrow> Some (False, out_value))
        else if is_type_complex E t then
          Option.bind (basic_of t) (\<lambda>k. representable_complex F k in_value out_value)
        else if is_type_quaternion E t then
          Option.bind (basic_of t) (\<lambda>k. representable_quaternion F k in_value out_value)
        else if is_type_pointer E t then
          (case in_value of
             ExactValue_Pointer p \<Rightarrow> Some (True, out_value)
           | ExactValue_Integer i \<Rightarrow> Some (False, out_value)
           | ExactValue_String s \<Rightarrow> Some (False, out_value)
           | ExactValue_String16 s \<Rightarrow> Some (False, out_value)
           | _ \<Rightarrow> Some (False, in_value))
        else if is_type_bit_set E t then
          Some (case in_value of ExactValue_Integer i \<Rightarrow> True | _ \<Rightarrow> False, out_value)
        else if is_type_typeid E t then
          (case in_value of
             ExactValue_Compound cl \<Rightarrow>
               if elems_count cl = 0 then Some (True, ExactValue_Typeid 0) else Some (False, out_value)
           | ExactValue_Typeid x \<Rightarrow> Some (True, in_value)
           | _ \<Rightarrow> Some (False, out_value))
        else Some (False, out_value))"

end
