(* ===== verification/Big_Int_Laws.thy ===== *)
theory Big_Int_Laws
  imports Big_Int
begin

text \<open>
  What the big-integer operations compute: division laws, arithmetic shifts, the complement at a width,
  and reading and writing decimal numbers.
\<close>

subsection \<open>Division\<close>

lemma count_bits_le: "count_bits n \<le> k \<longleftrightarrow> n < 2 ^ k"
proof (induction k arbitrary: n)
  case 0
  show ?case by (subst count_bits.simps) simp
next
  case (Suc k)
  have "count_bits n \<le> Suc k \<longleftrightarrow> count_bits (n div 2) \<le> k" 
    by (cases "n = 0") (simp_all add: count_bits.simps [of n], simp add: count_bits.simps)
  also have "\<dots> \<longleftrightarrow> n div 2 < 2 ^ k" by (rule Suc.IH)
  also have "\<dots> \<longleftrightarrow> n < 2 ^ Suc k" by (simp add: div_less_iff_less_mult mult.commute)
  finally show ?case .
qed

lemma mp_count_bits_le: "mp_count_bits x \<le> int k \<longleftrightarrow> \<bar>x\<bar> < 2 ^ k"
  by (simp add: mp_count_bits_def count_bits_le nat_less_iff)

lemma quo_rem_simps:
  "y \<noteq> 0 \<Longrightarrow> big_int_quo x y = x sdiv y" "y \<noteq> 0 \<Longrightarrow> big_int_rem x y = x smod y"
  "big_int_quo x 0 = 0" "big_int_rem x 0 = 0"
  by (simp_all add: big_int_quo_def big_int_rem_def big_int_quo_rem_def mp_div_def)

lemma quo_rem_law:
  "y \<noteq> 0 \<Longrightarrow> x = y * big_int_quo x y + big_int_rem x y"
  by (simp add: quo_rem_simps mult_sdiv_smod_eq)

lemma rem_abs: "y \<noteq> 0 \<Longrightarrow> big_int_rem x y = sgn x * (\<bar>x\<bar> mod \<bar>y\<bar>)"
  by (simp add: quo_rem_simps signed_modulo_int_def)

lemma mod_mod_floored:
  assumes "y \<noteq> 0"
  shows "big_int_mod_mod x y = x mod y"
proof -
  have rem: "big_int_rem z y mod y = z mod y" for z
  proof -
    have "z = y * big_int_quo z y + big_int_rem z y" by (rule quo_rem_law [OF assms])
    then have "z mod y = (y * big_int_quo z y + big_int_rem z y) mod y" by simp
    then show ?thesis by simp
  qed
  let ?r = "big_int_rem x y + y"
  have same: "big_int_rem ?r y mod y = x mod y" using rem [of ?r] rem [of x] by simp
  have b: "\<bar>big_int_rem z y\<bar> < \<bar>y\<bar>" for z
    using assms by (simp add: rem_abs abs_mult abs_sgn_eq)
  have sgn: "0 \<le> z \<Longrightarrow> 0 \<le> big_int_rem z y" "z \<le> 0 \<Longrightarrow> big_int_rem z y \<le> 0" for z
    using assms by (auto simp: rem_abs sgn_if)
  have "big_int_rem ?r y = big_int_rem ?r y mod y"
  proof (cases "0 < y")
    case True
    then have "0 \<le> ?r" using b [of x] by linarith
    with True b [of ?r] sgn(1) [of ?r] show ?thesis by simp
  next
    case False
    with assms have "y < 0" by simp
    then have "?r \<le> 0" using b [of x] by linarith
    with \<open>y < 0\<close> b [of ?r] sgn(2) [of ?r] show ?thesis by (simp add: mod_neg_neg_trivial)
  qed
  with same show ?thesis by (simp add: big_int_mod_mod_def Let_def)
qed

lemma euclidean_mod:
  assumes "y \<noteq> 0"
  shows "big_int_euclidean_mod x y = x mod \<bar>y\<bar>"
proof -
  have "big_int_euclidean_mod x y = (let z = big_int_rem x y in if z < 0 then z + \<bar>y\<bar> else z)"
    by (simp add: big_int_euclidean_mod_def big_int_rem_def split_beta Let_def)
  also have "\<dots> = x mod \<bar>y\<bar>"
  proof (cases "x < 0")
    case True
    have "x mod \<bar>y\<bar> = (if \<bar>x\<bar> mod \<bar>y\<bar> = 0 then 0 else \<bar>y\<bar> - \<bar>x\<bar> mod \<bar>y\<bar>)"
      using True zmod_zminus1_eq_if [of "\<bar>x\<bar>" "\<bar>y\<bar>"] by simp
    moreover have "0 \<le> \<bar>x\<bar> mod \<bar>y\<bar>" using assms by simp
    moreover have "big_int_rem x y = - (\<bar>x\<bar> mod \<bar>y\<bar>)" using True assms by (simp add: rem_abs)
    ultimately show ?thesis by (simp only: Let_def) (auto split: if_splits)
  next
    case False
    then have "big_int_rem x y = x mod \<bar>y\<bar>" using assms by (cases "x = 0") (simp_all add: rem_abs sgn_if)
    moreover have "0 \<le> x mod \<bar>y\<bar>" using assms by simp
    ultimately show ?thesis by (simp add: Let_def)
  qed
  finally show ?thesis .
qed

subsection \<open>Shifts\<close>

lemma mp_get_i64_word: "mp_get_i64 x = word_of_int x"
  by (simp add: mp_get_i64_def Let_def)

lemma mp_get_u32_word: "mp_get_u32 x = word_of_int x"
  by (simp add: mp_get_u32_def Let_def)

lemma shift_count:
  assumes "0 \<le> y" and "y < 2 ^ 31"
  shows "sint (mp_get_u32 y) = y"
  using assms by (simp add: mp_get_u32_word sint_sbintrunc' signed_take_bit_int_eq_self)

lemma shl_mult: "0 \<le> y \<Longrightarrow> y < 2 ^ 31 \<Longrightarrow> big_int_shl dst x y = x * 2 ^ nat y"
  by (simp add: big_int_shl_def shift_count mp_mul_2d_def)

lemma shr_floor:
  assumes "0 \<le> y" and "y < 2 ^ 31"
  shows "big_int_shr dst x y = x div 2 ^ nat y"
proof (cases "x < 0")
  case False
  with assms show ?thesis by (cases "x = 0") (simp_all add: big_int_shr_def shift_count mp_div_2d_def)
next
  case True
  then have "x div 2 ^ nat y = (if \<bar>x\<bar> mod 2 ^ nat y = 0 then - (\<bar>x\<bar> div 2 ^ nat y) else - (\<bar>x\<bar> div 2 ^ nat y) - 1)"
    using zdiv_zminus1_eq_if [of "2 ^ nat y" "\<bar>x\<bar>"] by simp
  with True assms show ?thesis by (simp add: big_int_shr_def shift_count mp_div_2d_def)
qed

subsection \<open>Bits\<close>

lemma mp_complement_nonneg: "0 \<le> a \<Longrightarrow> mp_complement a = NOT a"
  by (auto simp: mp_complement_def not_int_def)

lemma abs_minus_one: "x < 0 \<Longrightarrow> \<bar>x\<bar> - 1 = NOT (x :: int)"
  by (simp add: not_int_def)

lemma and_not_eq:
  "big_int_and_not x y =
    (if x = 0 then y else if 0 < x then x AND NOT y
     else if y = 0 then x else if y < 0 then NOT x AND y else - (x AND NOT y))"
proof -
  consider "x = 0 \<or> y = 0" | "0 < x" "0 < y" | "0 < x" "y < 0" | "x < 0" "y < 0" | "x < 0" "0 < y"
    by linarith
  then show ?thesis
  proof cases
    case 1
    then show ?thesis by (auto simp: big_int_and_not_def)
  next
    case 2
    then show ?thesis by (simp add: big_int_and_not_def mp_complement_nonneg)
  next
    case 3
    then have "big_int_and_not x y = x AND (\<bar>y\<bar> - 1)"
      by (simp add: big_int_and_not_def big_int_make_abs_def big_int_make_def)
    with 3 show ?thesis by (simp only: abs_minus_one [OF 3(2)]) simp
  next
    case 4
    then have "big_int_and_not x y = (\<bar>x\<bar> - 1) AND mp_complement (\<bar>y\<bar> - 1)"
      by (simp add: big_int_and_not_def big_int_make_abs_def big_int_make_def)
    also have "mp_complement (\<bar>y\<bar> - 1) = NOT (\<bar>y\<bar> - 1)" using 4 by (intro mp_complement_nonneg) simp
    finally show ?thesis using 4 by (simp only: abs_minus_one [OF 4(1)] abs_minus_one [OF 4(2)]) simp
  next
    case 5
    then have "big_int_and_not x y = ((\<bar>x\<bar> - 1) OR y) + 1"
      by (simp add: big_int_and_not_def big_int_make_abs_def big_int_make_def)
    also have "\<dots> = (NOT x OR y) + 1" by (simp only: abs_minus_one [OF 5(1)])
    also have "\<dots> = - NOT (NOT x OR y)" by (simp add: not_int_def)
    also have "NOT (NOT x OR y) = x AND NOT y" by simp
    finally show ?thesis using 5 by simp
  qed
qed

lemma mask_xor: "0 \<le> v \<Longrightarrow> v < 2 ^ n \<Longrightarrow> v XOR (2 ^ n - 1) = 2 ^ n - 1 - (v :: int)"
proof -
  assume v: "0 \<le> v" "v < 2 ^ n"
  then have t: "take_bit n v = v" by (simp add: take_bit_int_eq_self)
  have "v XOR mask n = mask n - v"
  proof -
    have "mask n XOR take_bit n v = take_bit n (NOT v)"
      by (rule bit_eqI) (auto simp: bit_simps)
    also have "\<dots> = mask n - take_bit n v" by (simp add: take_bit_not_eq_mask_diff)
    finally show ?thesis using t by (simp add: xor.commute)
  qed
  then show ?thesis by (simp add: mask_eq_exp_minus_1)
qed

lemma and_not_correct_iff: "big_int_and_not x y = x AND NOT y \<longleftrightarrow> 0 < x \<or> y = 0 \<or> x = y"
proof -
  consider "x = 0" | "0 < x" | "x < 0" "y = 0" | "x < 0" "y < 0" | "x < 0" "0 < y" by linarith
  then show ?thesis
  proof cases
    case 4
    let ?a = "NOT x" and ?b = "NOT y"
    have "x AND NOT y = NOT ?a AND ?b" by simp
    have eq: "?a AND NOT ?b = NOT ?a AND ?b \<longleftrightarrow> ?a = ?b"
    proof
      assume *: "?a AND NOT ?b = NOT ?a AND ?b"
      show "?a = ?b"
      proof (rule bit_eqI)
        fix n
        from * have "bit (?a AND NOT ?b) n = bit (NOT ?a AND ?b) n" by simp
        then show "bit ?a n = bit ?b n" by (auto simp: bit_simps)
      qed
    qed simp
    then show ?thesis using 4 by (simp add: and_not_eq not_int_def)
  next
    case 5
    then have neg: "x AND NOT y < 0" by simp
    have "- z \<noteq> z" if "z < 0" for z :: int using that by simp
    from this [OF neg] 5 show ?thesis by (simp add: and_not_eq)
  qed (auto simp: and_not_eq)
qed

lemma mp_mod_2d_nonneg: "0 \<le> x \<Longrightarrow> 0 \<le> b \<Longrightarrow> mp_mod_2d x b = Some (x mod 2 ^ nat b)"
  by (cases "x = 0") (simp_all add: mp_mod_2d_def sgn_if)

text \<open>For a value of the type, the complement at the width of the type is the complement.\<close>

lemma big_int_not_unsigned:
  assumes "0 < n" and "0 \<le> x" and "x < 2 ^ n"
  shows "big_int_not x (int n) False = Some (2 ^ n - 1 - x)"
  using assms by (simp add: big_int_not_def big_int_is_neg_def mp_mod_2d_nonneg mp_2expt_def mask_xor)

lemma split_sign_bit:
  fixes d :: int
  assumes "0 < n" and "0 \<le> d" and "d < 2 ^ n"
  shows "(d AND (2 ^ (n - 1) - 1)) - (d AND 2 ^ (n - 1)) = (if d < 2 ^ (n - 1) then d else d - 2 ^ n)"
proof -
  obtain m where n: "n = Suc m" using assms(1) by (cases n) auto
  have "d AND (2 ^ m - 1) = take_bit m d" by (simp only: take_bit_eq_mask mask_eq_exp_minus_1)
  then have low: "d AND (2 ^ m - 1) = d mod 2 ^ m" by (simp only: take_bit_eq_mod)
  have high: "d AND 2 ^ m = of_bool (bit d m) * 2 ^ m"
    by (rule bit_eqI) (auto simp: bit_simps)
  have bit: "bit d m \<longleftrightarrow> 2 ^ m \<le> d"
  proof (cases "2 ^ m \<le> d")
    case True
    then have "d div 2 ^ m = (d - 2 ^ m) div 2 ^ m + 1" by (intro div_pos_geq) simp_all
    also have "(d - 2 ^ m) div 2 ^ m = 0" using True assms(3) by (intro div_pos_pos_trivial) (simp_all add: n)
    finally show ?thesis using True by (simp add: bit_iff_odd)
  next
    case False
    with assms(2) show ?thesis by (simp add: bit_iff_odd)
  qed
  show ?thesis
  proof (cases "2 ^ m \<le> d")
    case True
    have "d mod 2 ^ m = (d - 2 ^ m) mod 2 ^ m" by simp
    also have "\<dots> = d - 2 ^ m" using True assms(3) by (intro mod_pos_pos_trivial) (simp_all add: n)
    finally show ?thesis using True by (simp add: n low high bit)
  next
    case False
    with assms(2) show ?thesis by (simp add: n low high bit)
  qed
qed

lemma big_int_not_signed:
  assumes "0 < n" and "- (2 ^ (n - 1)) \<le> x" and "x < 2 ^ (n - 1)"
  shows "big_int_not x (int n) True = Some (- x - 1)"
proof (cases "x < 0")
  case True
  have "(2 :: int) ^ (n - 1) < 2 ^ n" using assms(1) by (intro power_strict_increasing) auto
  then have "- x - 1 < 2 ^ n" using assms(2) by linarith
  with True assms(1) show ?thesis by (simp add: big_int_not_def big_int_is_neg_def mp_mod_2d_nonneg)
next
  case False
  have pow: "(2 :: int) ^ n = 2 * 2 ^ (n - 1)" using assms(1) by (cases n) simp_all
  then have x: "x < 2 ^ n" using assms(3) False by linarith
  let ?d = "2 ^ n - 1 - x"
  have d: "0 \<le> ?d" "?d < 2 ^ n" using False x by auto
  have "big_int_not x (int n) True = Some ((?d AND (2 ^ (n - 1) - 1)) - (?d AND 2 ^ (n - 1)))"
    using False x assms(1)
    by (simp add: big_int_not_def big_int_is_neg_def mp_mod_2d_nonneg mp_2expt_def mask_xor nat_diff_distrib Let_def)
  also have "\<dots> = Some (- x - 1)"
    unfolding split_sign_bit [OF assms(1) d] using assms(3) pow by simp
  finally show ?thesis .
qed

subsection \<open>Decimal numbers\<close>

text \<open>The decimal digits of a number, the highest first.\<close>

function decimal :: "int \<Rightarrow> 8 word list" where
  "decimal v = (if 10 \<le> v then decimal (v div 10) @ [digit_to_char (v mod 10)] else [digit_to_char (v mod 10)])"
  by pat_completeness auto
termination by (relation "measure nat") auto

declare decimal.simps [simp del]

lemma push_digits_decimal: "0 \<le> v \<Longrightarrow> push_digits 10 v buf = buf @ rev (decimal v)"
proof (induction v arbitrary: buf rule: decimal.induct)
  case (1 v)
  have *: "big_int_quo v 10 = v div 10" "big_int_rem v 10 = v mod 10"
    using 1(2) by (cases "v = 0"; simp add: quo_rem_simps signed_divide_int_def signed_modulo_int_def sgn_if)+
  show ?case
  proof (cases "10 \<le> v")
    case True
    with 1 show ?thesis
      by (simp add: push_digits.simps [of 10 v] decimal.simps [of v] * pos_imp_zdiv_nonneg_iff)
  next
    case False
    then show ?thesis by (simp add: push_digits.simps [of 10 v] decimal.simps [of v] *)
  qed
qed

lemma swap_prefix:
  assumes "k \<le> length xs div 2"
  shows "fold (\<lambda>i buf. swap_at buf i (length buf + 0 - i - 1)) [0..<k] xs =
    map (\<lambda>j. if j < k \<or> length xs - k \<le> j then xs ! (length xs - 1 - j) else xs ! j) [0..<length xs]"
  using assms
proof (induction k)
  case 0
  show ?case by (rule nth_equalityI) auto
next
  case (Suc k)
  let ?n = "length xs"
  let ?ys = "map (\<lambda>j. if j < k \<or> ?n - k \<le> j then xs ! (?n - 1 - j) else xs ! j) [0..<?n]"
  have k: "k < ?n" "?n - k - 1 < ?n" "k < ?n - k - 1 \<or> k = ?n - k - 1" using Suc.prems by auto
  have "fold (\<lambda>i buf. swap_at buf i (length buf + 0 - i - 1)) [0..<Suc k] xs = swap_at ?ys k (?n - k - 1)"
    using Suc by simp
  also have "\<dots> = map (\<lambda>j. if j < Suc k \<or> ?n - Suc k \<le> j then xs ! (?n - 1 - j) else xs ! j) [0..<?n]"
  proof (rule nth_equalityI)
    fix j assume "j < length (swap_at ?ys k (?n - k - 1))"
    then have j: "j < ?n" by simp
    consider "j = k" | "j = ?n - k - 1" "j \<noteq> k" | "j \<noteq> k" "j \<noteq> ?n - k - 1" by blast
    then show "swap_at ?ys k (?n - k - 1) ! j =
        map (\<lambda>j. if j < Suc k \<or> ?n - Suc k \<le> j then xs ! (?n - 1 - j) else xs ! j) [0..<?n] ! j"
    proof cases
      case 1
      have "\<not> ?n - k - 1 < k" "\<not> ?n - k \<le> ?n - k - 1" using k by auto
      with 1 k j show ?thesis by (auto simp: nth_swap_at)
    next
      case 2
      have "\<not> ?n - k \<le> k" using k 2 by auto
      with 2 k j show ?thesis by (simp add: nth_swap_at)
    next
      case 3
      with k j have "(j < Suc k \<or> ?n - Suc k \<le> j) = (j < k \<or> ?n - k \<le> j)" by auto
      with 3 k j show ?thesis by (simp add: nth_swap_at)
    qed
  qed simp
  finally show ?case .
qed

lemma reverse_digits_rev: "reverse_digits 0 xs = rev xs"
proof -
  have "reverse_digits 0 xs = map (\<lambda>j. if j < length xs div 2 \<or> length xs - length xs div 2 \<le> j
      then xs ! (length xs - 1 - j) else xs ! j) [0..<length xs]"
    unfolding reverse_digits_def by (rule swap_prefix) simp
  also have "\<dots> = rev xs"
  proof (rule nth_equalityI)
    fix j assume "j < length (map (\<lambda>j. if j < length xs div 2 \<or> length xs - length xs div 2 \<le> j
      then xs ! (length xs - 1 - j) else xs ! j) [0..<length xs])"
    then have j: "j < length xs" by simp
    have "j = length xs - 1 - j" if "\<not> j < length xs div 2" "\<not> length xs - length xs div 2 \<le> j"
      using that j by presburger
    with j show "map (\<lambda>j. if j < length xs div 2 \<or> length xs - length xs div 2 \<le> j
      then xs ! (length xs - 1 - j) else xs ! j) [0..<length xs] ! j = rev xs ! j"
      by (auto simp: rev_nth)
  qed simp
  finally show ?thesis .
qed

lemma to_string_decimal:
  assumes "0 \<le> x" and "mp_used x < 498"
  shows "big_int_to_string approximate x 10 = Some (decimal x)"
  using assms
  by (cases "x = 0")
     (simp_all add: big_int_to_string_def push_digits_decimal reverse_digits_rev decimal.simps [of 0] digit_to_char_def)

lemma decimal_digit:
  assumes "0 \<le> d" and "d < 10"
  shows "u64_digit_value (digit_to_char d) = d" and "digit_to_char d \<noteq> ch (CHR ''-'')"
    and "digit_to_char d \<noteq> ch (CHR ''_'')" and "digit_to_char d = ch (CHR ''0'') \<longleftrightarrow> d = 0"
proof -
  let ?ok = "\<lambda>d. u64_digit_value (digit_to_char d) = d \<and> digit_to_char d \<noteq> ch (CHR ''-'') \<and>
    digit_to_char d \<noteq> ch (CHR ''_'') \<and> (digit_to_char d = ch (CHR ''0'') \<longleftrightarrow> d = 0)"
  have "\<forall>d\<in>set [0, 1, 2, 3, 4, 5, 6, 7, 8, 9]. ?ok d"
    by (simp add: u64_digit_value_def digit_to_char_def)
  moreover from assms have "d = 0 \<or> d = 1 \<or> d = 2 \<or> d = 3 \<or> d = 4 \<or> d = 5 \<or> d = 6 \<or> d = 7 \<or> d = 8 \<or> d = 9"
    by presburger
  then have "d \<in> set [0, 1, 2, 3, 4, 5, 6, 7, 8, 9]" by simp
  ultimately have "?ok d" by (rule bspec)
  then show "u64_digit_value (digit_to_char d) = d" "digit_to_char d \<noteq> ch (CHR ''-'')"
    "digit_to_char d \<noteq> ch (CHR ''_'')" "digit_to_char d = ch (CHR ''0'') \<longleftrightarrow> d = 0"
    by blast+
qed

lemma scan_decimal:
  "0 \<le> v \<Longrightarrow> scan_digits 10 (decimal v @ rest) dst neg = scan_digits 10 rest (dst * 10 ^ length (decimal v) + v) neg"
proof (induction v arbitrary: dst rest rule: decimal.induct)
  case (1 v)
  have d: "0 \<le> v mod 10" "v mod 10 < 10" by simp_all
  note digit = decimal_digit [OF d]
  have one: "scan_digits 10 (digit_to_char (v mod 10) # rest) dst neg = scan_digits 10 rest (dst * 10 + v mod 10) neg" for dst rest
  proof -
    have "\<not> 10 \<le> v mod 10" using d by linarith
    then show ?thesis using digit(1-3) by (simp add: Let_def)
  qed
  show ?case
  proof (cases "10 \<le> v")
    case True
    with 1 have "scan_digits 10 (decimal v @ rest) dst neg =
        scan_digits 10 (digit_to_char (v mod 10) # rest) (dst * 10 ^ length (decimal (v div 10)) + v div 10) neg"
      by (simp add: decimal.simps [of v] pos_imp_zdiv_nonneg_iff)
    also have "\<dots> = scan_digits 10 rest (dst * 10 ^ length (decimal v) + v) neg"
      unfolding one using True by (simp add: decimal.simps [of v] algebra_simps)
    finally show ?thesis .
  next
    case False
    with 1(2) one show ?thesis by (simp add: decimal.simps [of v])
  qed
qed

lemma decimal_head: "0 \<le> v \<Longrightarrow> decimal v ! 0 = ch (CHR ''0'') \<Longrightarrow> v = 0"
proof (induction v rule: decimal.induct)
  case (1 v)
  have ne: "decimal u \<noteq> []" for u by (subst decimal.simps) simp
  show ?case
  proof (cases "10 \<le> v")
    case True
    then have "decimal v ! 0 = decimal (v div 10) ! 0" using ne [of "v div 10"] by (simp add: decimal.simps [of v] nth_append)
    with 1 True have "v div 10 = 0" by (simp add: pos_imp_zdiv_nonneg_iff)
    with True show ?thesis by simp
  next
    case False
    with 1(2,3) decimal_digit(4) [of v] show ?thesis by (simp add: decimal.simps [of v])
  qed
qed

lemma read_decimal:
  assumes "0 \<le> x"
  shows "big_int_from_string (decimal x) = Some (x, True)"
proof -
  have "literal_base (decimal x) = (10, False)"
    using decimal_head [OF assms] by (auto simp: literal_base_def decimal.simps [of 0])
  moreover have "scan_digits 10 (decimal x) 0 False = Scanned x False True []"
    using scan_decimal [OF assms, of "[]" 0 False] by simp
  ultimately show ?thesis by (simp add: big_int_from_string_def)
qed

end
