(* ===== verification/Const_Bounds.thy ===== *)
theory Const_Bounds
  imports Const_Check Big_Int_Laws
begin

text \<open>
  What the range test of \<open>check_representable_as_constant\<close> accepts, in terms of the size of the type: the
  lemmas on its tables and its two kinds of comparison (on 64-bit words and on big integers).
\<close>

subsection \<open>Sizes of the integer types\<close>

text \<open>The size in bytes of a basic type for a target.\<close>

definition integer_size :: "build_context \<Rightarrow> basic_kind \<Rightarrow> int" where
  "integer_size C k = (case k of Target Basic_int \<Rightarrow> int_size C | Target Basic_uint \<Rightarrow> int_size C
     | Target Basic_uintptr \<Rightarrow> ptr_size C | _ \<Rightarrow> basic_size k)"

text \<open>Targets have integers and pointers of 4 or 8 bytes.\<close>

definition word_target :: "build_context \<Rightarrow> bool" where
  "word_target C \<longleftrightarrow> int_size C \<in> {4, 8} \<and> ptr_size C \<in> {4, 8}"

lemmas integer_groups = narrow_signed_def wide_signed_def narrow_unsigned_def wide_unsigned_def

lemma size_of_integer:
  "narrow_signed k \<or> wide_signed k \<or> narrow_unsigned k \<or> wide_unsigned k \<Longrightarrow>
     type_size_of C E n (Type_Basic k) = integer_size C k"
  by (auto simp: integer_groups type_size_of_def type_size_from_def integer_size_def)

lemma narrow_size:
  "narrow_signed k \<or> narrow_unsigned k \<Longrightarrow> word_target C \<Longrightarrow> integer_size C k \<in> {1, 2, 4, 8}"
  by (auto simp: integer_groups integer_size_def word_target_def basic_table_defs)

lemma wide_size: "wide_signed k \<or> wide_unsigned k \<Longrightarrow> integer_size C k = 16"
  by (auto simp: integer_groups integer_size_def basic_table_defs)

lemma integer_type_flags:
  assumes "narrow_signed k \<or> wide_signed k \<or> narrow_unsigned k \<or> wide_unsigned k"
  shows "\<not> is_type_boolean E (Type_Basic k)" "\<not> is_type_string E (Type_Basic k)"
    "is_type_integer E (Type_Basic k) \<or> is_type_rune E (Type_Basic k)" "\<not> is_type_untyped E (Type_Basic k)"
    "Type_Basic k \<noteq> t_invalid"
  using assms
  by (auto simp: integer_groups is_type_boolean_def is_type_string_def is_type_integer_def is_type_rune_def
      is_type_untyped_def t_invalid_def base_type_def basic_table_defs basic_flag_defs)

lemma groups_disjoint:
  "wide_signed k \<Longrightarrow> \<not> narrow_signed k" "narrow_unsigned k \<Longrightarrow> \<not> narrow_signed k"
  "narrow_unsigned k \<Longrightarrow> \<not> wide_signed k" "wide_unsigned k \<Longrightarrow> \<not> narrow_signed k"
  "wide_unsigned k \<Longrightarrow> \<not> wide_signed k" "wide_unsigned k \<Longrightarrow> \<not> narrow_unsigned k"
  by (auto simp: integer_groups)

text \<open>For an integer constant and an integer type, the check is the range test.\<close>

lemma representable_integer:
  assumes "core_type E t = Type_Basic k" and "narrow_signed k \<or> wide_signed k \<or> narrow_unsigned k \<or> wide_unsigned k"
  shows "check_representable_as_constant F C E n elems bf (ExactValue_Integer i) t out =
    map_option (\<lambda>b. (b, ExactValue_Integer i)) (integer_in_range bf (integer_size C k) k i)"
  using assms(1) integer_type_flags [OF assms(2)] size_of_integer [OF assms(2)]
  by (simp add: check_representable_as_constant_def is_invalid_def exact_value_to_integer_def basic_of_def)

subsection \<open>The two comparisons\<close>

lemma big_bounds_pow:
  "0 < n \<Longrightarrow> n < 2 ^ 31 \<Longrightarrow> big_bounds n = (2 ^ nat n - 1, - (2 ^ nat (n - 1)), 2 ^ nat (n - 1) - 1)"
  by (simp add: big_bounds_def big_int_shl_eq_def shl_mult)

lemma big_int_cmp_le: "big_int_cmp x y \<le> 0 \<longleftrightarrow> x \<le> y"
  by (simp add: big_int_cmp_def)

lemma in_64_bits: "big_int_can_be_represented_in_64_bits i \<longleftrightarrow> \<bar>i\<bar> < 2 ^ 64"
  using mp_count_bits_le [of i 64] by (simp add: big_int_can_be_represented_in_64_bits_def)

lemma unsigned_entry:
  assumes "s \<in> {1, 2, 4, 8}"
  shows "\<exists>m. table_entry unsigned_integer_maxs s = Some m \<and> uint m = 2 ^ nat (8 * s) - 1"
  using assms by (auto simp: table_entry_def unsigned_integer_maxs_def)

lemma signed_entries:
  assumes "s \<in> {1, 2, 4, 8}"
  shows "\<exists>a b. table_entry signed_integer_mins s = Some a \<and> table_entry signed_integer_maxs s = Some b \<and>
    sint a = - (2 ^ nat (8 * s - 1)) \<and> sint b = 2 ^ nat (8 * s - 1) - 1"
  using assms by (auto simp: table_entry_def signed_integer_mins_def signed_integer_maxs_def)

text \<open>A number of at most 64 bits and its sign, read as a 64-bit two's complement number.\<close>

lemma wrapped_sint:
  assumes "\<bar>i\<bar> < 2 ^ 64"
  shows "sint (word_of_int i :: 64 word) =
    (if i < - (2 ^ 63) then i + 2 ^ 64 else if i < 2 ^ 63 then i else i - 2 ^ 64)"
proof -
  have "sint (word_of_int i :: 64 word) = (i + 2 ^ 63) mod 2 ^ 64 - 2 ^ 63"
    by (simp add: sint_sbintrunc' signed_take_bit_eq_take_bit_shift take_bit_eq_mod)
  moreover have "(i + 2 ^ 63) mod 2 ^ 64 = i + 2 ^ 63 + 2 ^ 64" if "i < - (2 ^ 63)"
    using that assms mod_pos_pos_trivial [of "i + 2 ^ 63 + 2 ^ 64" "2 ^ 64"] mod_add_self2 [of "i + 2 ^ 63" "2 ^ 64"]
    by simp
  moreover have "(i + 2 ^ 63) mod 2 ^ 64 = i + 2 ^ 63" if "\<not> i < - (2 ^ 63)" and "i < 2 ^ 63"
    using that by (intro mod_pos_pos_trivial) simp_all
  moreover have "(i + 2 ^ 63) mod 2 ^ 64 = i + 2 ^ 63 - 2 ^ 64" if "\<not> i < 2 ^ 63"
    using that assms mod_pos_pos_trivial [of "i + 2 ^ 63 - 2 ^ 64" "2 ^ 64"] minus_mod_self2 [of "i + 2 ^ 63" "2 ^ 64"]
    by simp
  ultimately show ?thesis by auto
qed

subsection \<open>Outside bit fields\<close>

lemma narrow_unsigned_range:
  assumes "narrow_unsigned k" and "word_target C"
  shows "integer_in_range 0 (integer_size C k) k i = Some (0 \<le> i \<and> i < 2 ^ nat (8 * integer_size C k))"
proof -
  define s where "s = integer_size C k"
  have s: "s \<in> {1, 2, 4, 8}" using narrow_size assms by (auto simp: s_def)
  obtain m where m: "table_entry unsigned_integer_maxs s = Some m" "uint m = 2 ^ nat (8 * s) - 1"
    using unsigned_entry [OF s] by blast
  have le: "(2 :: int) ^ nat (8 * s) \<le> 2 ^ 64" using s by (intro power_increasing) auto
  have "uint (word_of_int i :: 64 word) = i" if "0 \<le> i" "\<bar>i\<bar> < 2 ^ 64"
    using that by (simp add: uint_word_of_int)
  with m le show ?thesis
    using groups_disjoint [of k] assms(1)
    by (auto simp: integer_in_range_def s_def [symmetric] in_64_bits big_int_is_neg_def big_int_to_u64_def
        mp_get_i64_word word_le_def)
qed

lemma narrow_signed_range:
  assumes "narrow_signed k" and "word_target C"
  shows "integer_in_range 0 (integer_size C k) k i =
    (let h = 2 ^ nat (8 * integer_size C k - 1) in
     Some (- h \<le> i \<and> i < h \<or> 2 ^ 64 - h \<le> i \<and> i < 2 ^ 64 \<or> - (2 ^ 64) < i \<and> i < - (2 ^ 64) + h))"
proof -
  define s where "s = integer_size C k"
  define h :: int where "h = 2 ^ nat (8 * s - 1)"
  have s: "s \<in> {1, 2, 4, 8}" using narrow_size assms by (auto simp: s_def)
  obtain a b where ab: "table_entry signed_integer_mins s = Some a" "table_entry signed_integer_maxs s = Some b"
    "sint a = - h" "sint b = h - 1"
    using signed_entries [OF s] unfolding h_def by blast
  have h: "0 < h" "h \<le> 2 ^ 63" unfolding h_def using s by (auto intro: power_increasing)
  have "integer_in_range 0 s k i =
    (if \<bar>i\<bar> < 2 ^ 64 then Some (- h \<le> sint (word_of_int i :: 64 word) \<and> sint (word_of_int i :: 64 word) \<le> h - 1)
     else Some False)"
    using assms(1) ab
    by (simp add: integer_in_range_def in_64_bits big_int_to_i64_def mp_get_i64_word word_sle_eq Let_def)
  also have "\<dots> = Some (- h \<le> i \<and> i < h \<or> 2 ^ 64 - h \<le> i \<and> i < 2 ^ 64 \<or> - (2 ^ 64) < i \<and> i < - (2 ^ 64) + h)"
    using h wrapped_sint [of i] by auto
  finally show ?thesis by (simp only: s_def h_def Let_def)
qed

lemma wide_range:
  "wide_unsigned k \<Longrightarrow> integer_in_range 0 16 k i = Some (0 \<le> i \<and> i < 2 ^ 128)"
  "wide_signed k \<Longrightarrow> integer_in_range 0 16 k i = Some (- (2 ^ 127) \<le> i \<and> i < 2 ^ 127)"
  using groups_disjoint [of k] by (auto simp: integer_in_range_def big_bounds_pow big_int_cmp_le)

subsection \<open>In bit fields\<close>

lemma field_range:
  assumes "0 < bf" and "0 < s" and "s \<le> 16"
  shows "narrow_unsigned k \<or> wide_unsigned k \<Longrightarrow>
      integer_in_range bf s k i = Some (0 \<le> i \<and> i < 2 ^ nat (min (8 * s) bf))"
    and "narrow_signed k \<or> wide_signed k \<Longrightarrow>
      integer_in_range bf s k i = Some (- (2 ^ nat (min (8 * s) bf - 1)) \<le> i \<and> i < 2 ^ nat (min (8 * s) bf - 1))"
proof -
  have "0 < min (8 * s) bf" "min (8 * s) bf < 2 ^ 31" using assms by auto
  note b = big_bounds_pow [OF this]
  show "narrow_unsigned k \<or> wide_unsigned k \<Longrightarrow>
      integer_in_range bf s k i = Some (0 \<le> i \<and> i < 2 ^ nat (min (8 * s) bf))"
    using groups_disjoint [of k] assms(1) by (auto simp: integer_in_range_def b big_int_cmp_le Let_def)
  show "narrow_signed k \<or> wide_signed k \<Longrightarrow>
      integer_in_range bf s k i = Some (- (2 ^ nat (min (8 * s) bf - 1)) \<le> i \<and> i < 2 ^ nat (min (8 * s) bf - 1))"
    using groups_disjoint [of k] assms(1) by (auto simp: integer_in_range_def b big_int_cmp_le Let_def)
qed

end
