(* ===== verification/Constant_Properties.thy ===== *)
theory Constant_Properties
  imports Const_Bounds "HOL-Library.List_Lexorder"
begin

text \<open>
  What constant expressions evaluate to: which integer constants fit a type, that integer arithmetic is that
  of the integers, the kinds of mixed expressions, comparisons, and the printing of integers.
\<close>

subsection \<open>Integer constants in integer types\<close>

text \<open>The number of bits of a value of an integer type, in a bit field of \<open>bf\<close> bits or outside one.\<close>

definition value_bits :: "build_context \<Rightarrow> int \<Rightarrow> basic_kind \<Rightarrow> int" where
  "value_bits C bf k = (if bf > 0 then min (8 * integer_size C k) bf else 8 * integer_size C k)"

definition value_range :: "build_context \<Rightarrow> int \<Rightarrow> basic_kind \<Rightarrow> int \<times> int" where
  "value_range C bf k =
     (let n = value_bits C bf k in
      if narrow_unsigned k \<or> wide_unsigned k then (0, 2 ^ nat n) else (- (2 ^ nat (n - 1)), 2 ^ nat (n - 1)))"

lemma range_test:
  assumes "narrow_unsigned k \<or> wide_unsigned k \<or> wide_signed k \<or> narrow_signed k \<and> 0 < bf"
    and "word_target C" and "0 \<le> bf"
  shows "integer_in_range bf (integer_size C k) k i = (case value_range C bf k of (lo, hi) \<Rightarrow> Some (lo \<le> i \<and> i < hi))"
proof (cases "bf = 0")
  case True
  then show ?thesis
    using assms narrow_unsigned_range [of k C i] wide_range [of k i] wide_size [of k C] groups_disjoint [of k]
    by (auto simp: value_bits_def value_range_def)
next
  case False
  moreover have "0 < integer_size C k" "integer_size C k \<le> 16"
    using assms narrow_size [of k C] wide_size [of k C] by auto
  moreover have "0 < bf" using False assms(3) by simp
  moreover have "narrow_signed k \<or> wide_signed k" if "\<not> (narrow_unsigned k \<or> wide_unsigned k)"
    using that assms(1) by blast
  ultimately show ?thesis
    using field_range [of bf "integer_size C k" k i]
    by (cases "narrow_unsigned k \<or> wide_unsigned k") (simp_all add: value_bits_def value_range_def Let_def)
qed

text \<open>
  Property C18. An integer constant is accepted for an unsigned type, for a 128-bit signed type and for any
  integer bit field exactly if it is in the range of that many bits, and it is stored unchanged.
\<close>

theorem integer_constants_exact:
  assumes "core_type E t = Type_Basic k" and "word_target C" and "0 \<le> bf"
    and "narrow_unsigned k \<or> wide_unsigned k \<or> wide_signed k \<or> narrow_signed k \<and> 0 < bf"
    and "value_range C bf k = (lo, hi)"
  shows "check_representable_as_constant F C E n elems bf (ExactValue_Integer i) t out =
    Some (lo \<le> i \<and> i < hi, ExactValue_Integer i)"
proof -
  have "narrow_signed k \<or> wide_signed k \<or> narrow_unsigned k \<or> wide_unsigned k" using assms(4) by blast
  note check = representable_integer [OF assms(1) this]
  show ?thesis unfolding check range_test [OF assms(4,2,3)] assms(5) by simp
qed

text \<open>
  Property C33. Outside bit fields a signed type of \<open>n \<le> 64\<close> bits accepts the constants of its range, and those
  whose magnitude is below \<open>2^64\<close> and that are in the range modulo \<open>2^64\<close>: the test for 64 bits is made on the
  magnitude, and the comparison on the wrapped value.
\<close>

theorem signed_constants_wrap:
  assumes "core_type E t = Type_Basic k" and "narrow_signed k" and "word_target C"
    and "h = 2 ^ nat (8 * type_size_of C E n (Type_Basic k) - 1)"
  shows "check_representable_as_constant F C E n elems 0 (ExactValue_Integer i) t out =
    Some (- h \<le> i \<and> i < h \<or> 2 ^ 64 - h \<le> i \<and> i < 2 ^ 64 \<or> - (2 ^ 64) < i \<and> i < - (2 ^ 64) + h, ExactValue_Integer i)"
proof -
  have k: "narrow_signed k \<or> wide_signed k \<or> narrow_unsigned k \<or> wide_unsigned k" using assms(2) by blast
  show ?thesis
    unfolding representable_integer [OF assms(1) k] narrow_signed_range [OF assms(2,3)] assms(4) size_of_integer [OF k]
    by (simp add: Let_def)
qed

subsection \<open>Arithmetic\<close>

lemma integer_binary:
  "exact_binary_operator_value F op (ExactValue_Integer x) (ExactValue_Integer y) = Some (integer_operator F op x y)"
  by (simp add: exact_binary_operator_value_def match_exact_values_def match_ordered_def exact_value_order_def
      value_integer_def)

text \<open>
  Integer constants are computed in the integers: sums, differences, products; division truncates
  and the remainder belongs to it, \<open>%%\<close> is the remainder of the floored division, and shifts are products and
  floored quotients by powers of two.
\<close>

theorem integer_arithmetic:
  fixes F :: "'f f64_ops" and x y :: int
  defines "binary op \<equiv> exact_binary_operator_value F op (ExactValue_Integer x) (ExactValue_Integer y)"
  shows "binary (Operator Token_Add) = Some (ExactValue_Integer (x + y)) \<and>
    binary (Operator Token_Sub) = Some (ExactValue_Integer (x - y)) \<and>
    binary (Operator Token_Mul) = Some (ExactValue_Integer (x * y)) \<and>
    (y \<noteq> 0 \<longrightarrow>
      (\<exists>q r. binary (AssignOp Token_QuoEq) = Some (ExactValue_Integer q) \<and>
        binary (Operator Token_Mod) = Some (ExactValue_Integer r) \<and>
        x = y * q + r \<and> \<bar>r\<bar> < \<bar>y\<bar> \<and> (r = 0 \<or> sgn r = sgn x)) \<and>
      binary (Operator Token_ModMod) = Some (ExactValue_Integer (x mod y))) \<and>
    (0 \<le> y \<and> y < 2 ^ 31 \<longrightarrow>
      binary (Operator Token_Shl) = Some (ExactValue_Integer (x * 2 ^ nat y)) \<and>
      binary (Operator Token_Shr) = Some (ExactValue_Integer (x div 2 ^ nat y)))"
proof -
  have b: "binary op = Some (integer_operator F op x y)" for op unfolding binary_def by (rule integer_binary)
  have r: "\<bar>big_int_rem x y\<bar> < \<bar>y\<bar>" "big_int_rem x y = 0 \<or> sgn (big_int_rem x y) = sgn x" if "y \<noteq> 0"
  proof -
    have "0 \<le> \<bar>x\<bar> mod \<bar>y\<bar>" "\<bar>x\<bar> mod \<bar>y\<bar> < \<bar>y\<bar>" using that by simp_all
    then show "\<bar>big_int_rem x y\<bar> < \<bar>y\<bar>" "big_int_rem x y = 0 \<or> sgn (big_int_rem x y) = sgn x"
      unfolding rem_abs [OF that] by (auto simp: abs_mult sgn_mult abs_sgn_eq sgn_1_pos)
  qed
  show ?thesis
    unfolding b using r quo_rem_law [of y x] by (auto simp: integer_operator_def mod_mod_floored shl_mult shr_floor)
qed

text \<open>
  Property C19. The complement of a constant of an unsigned or signed type of \<open>n\<close> bits is the complement of its
  \<open>n\<close> bits, read in that type.
\<close>

theorem complement_of_width:
  fixes w :: "'a::len word"
  shows "exact_unary_operator_value F (Operator Token_Xor) (ExactValue_Integer (uint w)) (int LENGTH('a)) True =
      Some (ExactValue_Integer (uint (NOT w))) \<and>
    exact_unary_operator_value F (Operator Token_Xor) (ExactValue_Integer (sint w)) (int LENGTH('a)) False =
      Some (ExactValue_Integer (sint (NOT w)))"
proof -
  have n: "0 < LENGTH('a)" by simp
  have u: "big_int_not (uint w) (int LENGTH('a)) False = Some (uint (NOT w))"
    using big_int_not_unsigned [OF n uint_ge_0 uint_bounded] by (simp add: unsigned_not_eq take_bit_not_eq_mask_diff mask_eq_exp_minus_1 take_bit_int_eq_self [OF uint_ge_0 uint_bounded])
  have s: "big_int_not (sint w) (int LENGTH('a)) True = Some (sint (NOT w))"
  proof -
    have "(2 :: int) ^ (LENGTH('a) - 1) \<le> 2 ^ LENGTH('a)" by (rule power_increasing) simp_all
    then have "signed_take_bit LENGTH('a) (NOT (sint w)) = NOT (sint w)"
      unfolding not_int_def using sint_ge [of w] sint_lt [of w] by (intro signed_take_bit_int_eq_self) linarith+
    then show ?thesis using big_int_not_signed [OF n sint_ge sint_lt] by (simp add: signed_not_eq not_int_def)
  qed
  show ?thesis by (simp add: exact_unary_operator_value_def u s)
qed

text \<open>
  Property C34. The operator \<open>&~\<close> on integer constants is the bitwise one exactly if the left operand is positive,
  the right one is zero, or both are equal.
\<close>

theorem and_not_partly_correct:
  "exact_binary_operator_value F (Operator Token_AndNot) (ExactValue_Integer x) (ExactValue_Integer y) =
     Some (ExactValue_Integer (x AND NOT y)) \<longleftrightarrow> 0 < x \<or> y = 0 \<or> x = y"
  by (simp add: integer_binary integer_operator_def and_not_correct_iff)

subsection \<open>Kinds\<close>

definition is_numeric_value :: "'f exact_value \<Rightarrow> bool" where
  "is_numeric_value v = (case v of ExactValue_Integer i \<Rightarrow> True | ExactValue_Float x \<Rightarrow> True
     | ExactValue_Complex r i \<Rightarrow> True | ExactValue_Quaternion r i j k \<Rightarrow> True | _ \<Rightarrow> False)"

text \<open>
  A sum, a difference or a product of two numeric constants is a numeric constant, of the larger
  of the two kinds in the order integer, float, complex, quaternion.
\<close>

theorem numeric_operator_kind:
  assumes "is_numeric_value x" and "is_numeric_value y" and "op \<in> {Token_Add, Token_Sub, Token_Mul}"
  shows "\<exists>z a b. exact_binary_operator_value F (Operator op) x y = Some z \<and> is_numeric_value z \<and>
    exact_value_order x = Some a \<and> exact_value_order y = Some b \<and> exact_value_order z = Some (max a b)"
  using assms
  by (cases x; cases y)
     (auto simp: is_numeric_value_def exact_binary_operator_value_def match_exact_values_def match_ordered_def exact_value_order_def
       integer_operator_def float_operator_def complex_operator_def quaternion_operator_def value_integer_def value_float_def
       value_complex_def value_quaternion_def exact_value_to_complex_def exact_value_to_quaternion_def Let_def)

subsection \<open>Comparisons\<close>

definition relates :: "comparison_kind \<Rightarrow> 'a::linorder \<Rightarrow> 'a \<Rightarrow> bool" where
  "relates op a b =
     (case op of Token_CmpEq \<Rightarrow> a = b | Token_NotEq \<Rightarrow> a \<noteq> b | Token_Lt \<Rightarrow> a < b | Token_LtEq \<Rightarrow> a \<le> b
      | Token_Gt \<Rightarrow> b < a | Token_GtEq \<Rightarrow> b \<le> a)"

lemma string_compare_order:
  "string_compare a b < 0 \<longleftrightarrow> a < b" "string_compare a b = 0 \<longleftrightarrow> a = b"
  by (induction a b rule: string_compare.induct) auto

lemma compare_by_relates:
  "(cmp < 0 \<longleftrightarrow> a < b) \<Longrightarrow> (cmp = 0 \<longleftrightarrow> a = b) \<Longrightarrow> compare_by op cmp = relates op a b"
  for cmp :: int
  by (cases op) (auto simp: compare_by_def relates_def)

text \<open>
  Constant integers are compared as integers and constant strings by the lexicographic order of
  their bytes, for each of the six comparison operators.
\<close>

theorem constants_compared:
  shows "compare_exact_values F compound (Comparison op) (ExactValue_Integer x) (ExactValue_Integer y) = Some (relates op x y) \<and>
    compare_exact_values F compound (Comparison op) (ExactValue_String a) (ExactValue_String b) = Some (relates op a b)"
proof -
  have "compare_by op (big_int_cmp x y) = relates op x y"
    by (rule compare_by_relates) (auto simp: big_int_cmp_def)
  moreover have "compare_by op (string_compare a b) = relates op a b"
    by (rule compare_by_relates) (simp_all add: string_compare_order)
  ultimately show ?thesis
    by (simp add: compare_exact_values_def match_exact_values_def match_ordered_def exact_value_order_def
        value_integer_def value_string_def)
qed

text \<open>
  Property C35. The equality of UTF-16 constants compares only the first half of their bytes: texts of
  equal length with the same first half are equal, whatever follows.
\<close>

theorem utf16_equality_half:
  assumes "length x = length u" and "length y = length u"
  shows "compare_exact_values F compound (Comparison Token_CmpEq) (ExactValue_String16 (u @ x)) (ExactValue_String16 (u @ y)) =
    Some True"
proof -
  have len: "length (bytes_of_string16 v) = 2 * length v" for v
    by (induction v) (simp_all add: bytes_of_string16_def)
  have "bytes_of_string16 (u @ v) = bytes_of_string16 u @ bytes_of_string16 v" for v
    by (simp add: bytes_of_string16_def)
  then have "str_eq16 (u @ x) (u @ y)" using assms by (simp add: str_eq16_def len)
  then show ?thesis
    by (simp add: compare_exact_values_def match_exact_values_def match_ordered_def exact_value_order_def value_string16_def)
qed

subsection \<open>Printing\<close>

text \<open>
  Property C20. A natural number printed in base 10 (below the size from which it is printed through floating
  point) is read back by the literal parser.
\<close>

theorem integer_print_parse:
  assumes "0 \<le> x" and "mp_used x < 498"
  shows "\<exists>s. big_int_to_string approximate x 10 = Some s \<and> exact_value_integer_from_string s = Some (ExactValue_Integer x)"
  by (rule exI [of _ "decimal x"])
     (simp add: to_string_decimal [OF assms] read_decimal [OF assms(1)] exact_value_integer_from_string_def)

subsection \<open>Instances\<close>

text \<open>Whole numbers as floats; a 64-bit target.\<close>

definition whole_floats :: "int f64_ops" where
  "whole_floats = \<lparr> f_add = (+), f_sub = (-), f_mul = (*), f_div = (div), f_mod = (mod), f_neg = uminus, f_eq = (=),
     f_less = (<), f_isnan = (\<lambda>x. False), f_of_int = (\<lambda>i. i), f_to_i64 = word_of_int, f_to_f32 = (\<lambda>x. x),
     f_of_f16 = uint, f_of_f32 = uint, f_of_f64 = uint, f_strtod = (\<lambda>s. (0, s = [])) \<rparr>"

definition wide_target :: build_context where
  "wide_target = \<lparr> ptr_size = 8, int_size = 8, max_align = 16, max_simd_align = 32, endian_big = False \<rparr>"

lemma wide_target_ok: "word_target wide_target"
  by (simp add: word_target_def wide_target_def)

lemma basic_core: "core_type [] (Type_Basic k) = Type_Basic k"
  by (simp add: core_type_def)

theorem integer_constants_exact_witness:
  "check_representable_as_constant whole_floats wide_target [] 0 (\<lambda>n. 0) 0 (ExactValue_Integer 256)
     (Type_Basic (Fixed Basic_u8)) ExactValue_Invalid = Some (False, ExactValue_Integer 256) \<and>
   check_representable_as_constant whole_floats wide_target [] 0 (\<lambda>n. 0) 3 (ExactValue_Integer (- 4))
     (Type_Basic (Fixed Basic_i8)) ExactValue_Invalid = Some (True, ExactValue_Integer (- 4))"
proof -
  have u: "value_range wide_target 0 (Fixed Basic_u8) = (0, 256)"
    by (simp add: value_range_def value_bits_def integer_size_def basic_table_defs integer_groups)
  have s: "value_range wide_target 3 (Fixed Basic_i8) = (- 4, 4)"
    by (simp add: value_range_def value_bits_def integer_size_def basic_table_defs integer_groups)
  show ?thesis
    using integer_constants_exact [where F = whole_floats, OF basic_core wide_target_ok _ _ u]
      integer_constants_exact [where F = whole_floats, OF basic_core wide_target_ok _ _ s]
    by (simp add: integer_groups)
qed

theorem signed_constants_wrap_witness:
  "check_representable_as_constant whole_floats wide_target [] 0 (\<lambda>n. 0) 0 (ExactValue_Integer (2 ^ 64 - 1))
     (Type_Basic (Fixed Basic_i8)) ExactValue_Invalid = Some (True, ExactValue_Integer (2 ^ 64 - 1)) \<and>
   check_representable_as_constant whole_floats wide_target [] 0 (\<lambda>n. 0) 0 (ExactValue_Integer (2 ^ 63))
     (Type_Basic (Fixed Basic_i64)) ExactValue_Invalid = Some (True, ExactValue_Integer (2 ^ 63)) \<and>
   check_representable_as_constant whole_floats wide_target [] 0 (\<lambda>n. 0) 0 (ExactValue_Integer 128)
     (Type_Basic (Fixed Basic_i8)) ExactValue_Invalid = Some (False, ExactValue_Integer 128)"
  using signed_constants_wrap [where F = whole_floats and k = "Fixed Basic_i8" and C = wide_target, OF basic_core]
    signed_constants_wrap [where F = whole_floats and k = "Fixed Basic_i64" and C = wide_target, OF basic_core]
  by (simp add: wide_target_ok integer_groups size_of_integer integer_size_def basic_table_defs)

theorem integer_arithmetic_witness:
  "exact_binary_operator_value whole_floats (Operator Token_ModMod) (ExactValue_Integer (- 7)) (ExactValue_Integer 3) =
     Some (ExactValue_Integer 2) \<and>
   exact_binary_operator_value whole_floats (Operator Token_Shr) (ExactValue_Integer (- 7)) (ExactValue_Integer 3) =
     Some (ExactValue_Integer (- 1))"
  using integer_arithmetic [of whole_floats "- 7" 3] by simp

theorem numeric_operator_kind_witness:
  "\<exists>z. exact_binary_operator_value whole_floats (Operator Token_Mul) (ExactValue_Integer 3) (ExactValue_Complex 1 2) = Some z \<and>
     exact_value_order z = Some 4"
  using numeric_operator_kind [of "ExactValue_Integer 3" "ExactValue_Complex 1 2" Token_Mul whole_floats]
  by (auto simp: is_numeric_value_def exact_value_order_def)

theorem utf16_equality_half_witness:
  "compare_exact_values whole_floats (\<lambda>op x y. None) (Comparison Token_CmpEq) (ExactValue_String16 [0x61, 0x62])
     (ExactValue_String16 [0x61, 0x63]) = Some True"
  using utf16_equality_half [of "[0x62]" "[0x61]" "[0x63]" whole_floats "\<lambda>op x y. None"] by simp

theorem integer_print_parse_witness:
  "\<exists>s. big_int_to_string (\<lambda>x. []) 1234 10 = Some s \<and> exact_value_integer_from_string s = Some (ExactValue_Integer 1234)"
proof (rule integer_print_parse)
  show "mp_used 1234 < 498"
    using count_bits_le [of 1234 11] by (simp add: mp_used_def mp_count_bits_def)
qed simp

end
