(* ===== verification/Parser_State.thy ===== *)
theory Parser_State
  imports Token_Stream
begin

text \<open>
  The token cursor of the parser (\<^verbatim>\<open>src/parser.cpp\<close>): reading on, comments and newlines, peeking, expecting a
  token. Diagnostics are counted; a parser that stops the process (\<open>exit_with_errors\<close>) or does not return
  is on the left of a sum.
\<close>

subsection \<open>State\<close>

text \<open>
  The part of \<open>AstFile\<close> the cursor and the expression parser use. \<open>strict\<close> is whether the strict style is asked
  for (the build flag or the vet flag); \<open>syntax_errors\<close> counts the reported syntax errors.
\<close>

record ast_file =
  source :: "byte list"
  tokens :: "token list"
  curr_token_index :: nat
  prev_token_index :: nat
  curr_token :: token
  prev_token :: token
  expr_level :: int
  allow_newline :: bool
  allow_range :: bool
  allow_in_expr :: bool
  allow_type :: bool
  strict :: bool
  lead_comment :: "token list option"
  line_comment :: "token list option"
  comments :: "token list list"
  fix_count :: nat
  fix_prev_pos :: token_pos
  syntax_errors :: nat

datatype parser_stop = Exit_With_Errors | Never_Returns | Out_Of_Fuel | Crash

type_synonym 'a parsed = "parser_stop + ('a \<times> ast_file)"

definition syntax_error :: "ast_file \<Rightarrow> ast_file" where
  "syntax_error f = f\<lparr>syntax_errors := syntax_errors f + 1\<rparr>"

definition syntax_error_if :: "bool \<Rightarrow> ast_file \<Rightarrow> ast_file" where
  "syntax_error_if b f = (if b then syntax_error f else f)"

definition curr_kind :: "ast_file \<Rightarrow> token_kind" where
  "curr_kind f = tkind (curr_token f)"

definition file_allow_newline :: "ast_file \<Rightarrow> bool" where
  "file_allow_newline f = (\<not> strict f)"

definition ignore_newlines :: "ast_file \<Rightarrow> bool" where
  "ignore_newlines f = (expr_level f > 0)"

text \<open>The file as \<open>init_ast_file\<close> leaves it; with no bytes or an invalid token the cursor is not set.\<close>

definition no_token :: token where
  "no_token = \<lparr>tkind = Token_Invalid, tstring = Slice 0 0, pos = \<lparr>file_id = 0, offset = 0, line = 0, column = 0\<rparr>\<rparr>"

definition new_ast_file :: "bool \<Rightarrow> byte list \<Rightarrow> token list \<Rightarrow> token \<Rightarrow> ast_file" where
  "new_ast_file is_strict d toks first =
     \<lparr>source = d, tokens = toks, curr_token_index = 0, prev_token_index = 0, curr_token = first, prev_token = first,
      expr_level = 0, allow_newline = False, allow_range = False, allow_in_expr = False, allow_type = False,
      strict = is_strict, lead_comment = None, line_comment = None, comments = [], fix_count = 0,
      fix_prev_pos = pos no_token, syntax_errors = 0\<rparr>"

definition init_ast_file ::
  "keyword_tables \<Rightarrow> (int \<Rightarrow> utf8proc_category) \<Rightarrow> int \<Rightarrow> bool \<Rightarrow> byte list \<Rightarrow> parse_file_error \<times> ast_file" where
  "init_ast_file kw cat fid is_strict d =
     (let (toks, err, t) = tokenize_file kw cat fid d
      in (err, new_ast_file is_strict d toks (if d = [] \<or> err \<noteq> ParseFile_None then no_token else toks ! 0)))"

lemma bind_res_InrE:
  assumes "bind_res r k = Inr y"
  obtains x where "r = Inr x" and "k x = Inr y"
  using assms by (cases r) auto

subsection \<open>Reading on\<close>

definition next_token0 :: "ast_file \<Rightarrow> bool \<times> ast_file" where
  "next_token0 f =
     (if curr_token_index f + 1 < length (tokens f) then
        (True, f\<lparr>curr_token_index := curr_token_index f + 1, curr_token := tokens f ! (curr_token_index f + 1)\<rparr>)
      else (False, syntax_error f))"

text \<open>How many tokens are left behind the current one.\<close>

definition tokens_left :: "ast_file \<Rightarrow> nat" where
  "tokens_left f = length (tokens f) - (curr_token_index f + 1)"

lemma next_token0_left: "next_token0 f = (True, f') \<Longrightarrow> tokens_left f' < tokens_left f"
  by (auto simp: next_token0_def tokens_left_def split: if_splits)

text \<open>The line a comment ends on, and the comment.\<close>

definition comment_end_line :: "ast_file \<Rightarrow> token \<Rightarrow> int" where
  "comment_end_line f tok =
     (let text = token_bytes tok (source f) in
      line (pos tok) +
        (if length text > 1 \<and> text ! 1 = 0x2a then int (length (filter (\<lambda>c. c = 0x0a) (drop 2 text))) else 0))"

definition consume_comment :: "ast_file \<Rightarrow> bool \<times> token \<times> int \<times> ast_file" where
  "consume_comment f =
     (let tok = curr_token f; end_line = comment_end_line f tok; (ok, f') = next_token0 f in (ok, tok, end_line, f'))"

text \<open>The loop of \<open>consume_comment_group\<close>; at the last token it would not end.\<close>

function consume_comments :: "int \<Rightarrow> token list \<Rightarrow> int \<Rightarrow> ast_file \<Rightarrow> (token list \<times> int) parsed" where
  "consume_comments n acc end_line f =
     (if curr_kind f = Token_Comment \<and> line (pos (curr_token f)) \<le> end_line + n then
        let (ok, tok, end_line', f') = consume_comment f in
        if ok then consume_comments n (acc @ [tok]) end_line' f' else Inl Never_Returns
      else Inr ((acc, end_line), f))"
  by pat_completeness auto
termination
  by (relation "measure (\<lambda>(n, acc, end_line, f). tokens_left f)")
     (auto simp: consume_comment_def Let_def split_beta next_token0_left prod_eq_iff)

declare consume_comments.simps [simp del]

definition consume_comment_group :: "ast_file \<Rightarrow> int \<Rightarrow> (token list option \<times> int) parsed" where
  "consume_comment_group f n =
     (let first = (if curr_token_index f = 1 \<and> tkind (prev_token f) = Token_Comment \<and>
                      line (pos (prev_token f)) + 1 = line (pos (curr_token f)) then [prev_token f] else [])
      in bind_res (consume_comments n first (line (pos (curr_token f))) f) (\<lambda>((list, end_line), f).
           if list \<noteq> [] then Inr ((Some list, end_line), f\<lparr>comments := comments f @ [list]\<rparr>)
           else Inr ((None, end_line), f)))"

lemma consume_comments_left: "consume_comments n acc el f = Inr (r, f') \<Longrightarrow> tokens_left f' \<le> tokens_left f"
proof (induction n acc el f rule: consume_comments.induct)
  case (1 n acc el f)
  show ?case
  proof (cases "curr_kind f = Token_Comment \<and> line (pos (curr_token f)) \<le> el + n")
    case True
    obtain ok tok el' g where c: "consume_comment f = (ok, tok, el', g)" by (metis prod_cases4)
    then have "tokens_left g < tokens_left f" if ok
      using that next_token0_left [of f g] by (auto simp: consume_comment_def Let_def split: prod.splits)
    with 1(1) [OF True] 1(2) True c show ?thesis
      by (cases ok) (force simp: consume_comments.simps [of n acc el f])+
  next
    case False
    with 1(2) show ?thesis by (auto simp: consume_comments.simps [of n acc el f])
  qed
qed

lemma consume_comment_group_left:
  assumes "consume_comment_group f n = Inr (r, f')"
  shows "tokens_left f' \<le> tokens_left f"
proof -
  obtain first list el g where g: "consume_comments n first (line (pos (curr_token f))) f = Inr ((list, el), g)"
    and "f' = g \<or> f' = g\<lparr>comments := comments g @ [list]\<rparr>"
    using assms unfolding consume_comment_group_def Let_def
    by (elim bind_res_InrE) (auto split: if_splits prod.splits)
  then have "tokens_left f' = tokens_left g" by (auto simp: tokens_left_def)
  with consume_comments_left [OF g] show ?thesis by simp
qed

lemma consume_comments_progress:
  assumes "consume_comments n acc el f = Inr (r, f')" and "curr_kind f = Token_Comment" and "line (pos (curr_token f)) \<le> el + n"
  shows "tokens_left f' < tokens_left f"
proof -
  obtain ok tok el' g where c: "consume_comment f = (ok, tok, el', g)" by (metis prod_cases4)
  with assms have "ok" "consume_comments n (acc @ [tok]) el' g = Inr (r, f')"
    by (auto simp: consume_comments.simps [of n acc el f] split: if_splits)
  with c consume_comments_left [OF this(2)] next_token0_left [of f g] show ?thesis
    by (auto simp: consume_comment_def Let_def split: prod.splits)
qed

lemma consume_comment_group_progress:
  assumes "consume_comment_group f n = Inr (r, f')" and "curr_kind f = Token_Comment" and "0 \<le> n"
  shows "tokens_left f' < tokens_left f"
proof -
  obtain first list el g where g: "consume_comments n first (line (pos (curr_token f))) f = Inr ((list, el), g)"
    and "f' = g \<or> f' = g\<lparr>comments := comments g @ [list]\<rparr>"
    using assms(1) unfolding consume_comment_group_def Let_def
    by (elim bind_res_InrE) (auto split: if_splits prod.splits)
  then have "tokens_left f' = tokens_left g" by (auto simp: tokens_left_def)
  with consume_comments_progress [OF g assms(2)] assms(3) show ?thesis by simp
qed

lemma bind_res_cong [fundef_cong]:
  "r = s \<Longrightarrow> (\<And>x. s = Inr x \<Longrightarrow> f x = g x) \<Longrightarrow> bind_res r f = bind_res s g"
  by (cases s) simp_all

text \<open>The groups of comments before the next token; the last one and the line it ends on are kept.\<close>

function comment_groups :: "token list option \<Rightarrow> int \<Rightarrow> ast_file \<Rightarrow> (token list option \<times> int) parsed" where
  "comment_groups comment end_line f =
     (if curr_kind f = Token_Comment then
        bind_res (consume_comment_group f 1) (\<lambda>(g, f). comment_groups (fst g) (snd g) f)
      else Inr ((comment, end_line), f))"
  by pat_completeness auto
termination
  by (relation "measure (\<lambda>(comment, end_line, f). tokens_left f)") (auto dest: consume_comment_group_progress)

declare comment_groups.simps [simp del]

definition consume_comment_groups :: "ast_file \<Rightarrow> token \<Rightarrow> parser_stop + ast_file" where
  "consume_comment_groups f prev =
     (if curr_kind f \<noteq> Token_Comment then Inr f
      else
        bind_res
          (if line (pos (curr_token f)) = line (pos prev) then
             bind_res (consume_comment_group f 0) (\<lambda>((comment, end_line), f).
               let l = line (pos (curr_token f)) in
               Inr (comment, if l \<noteq> end_line \<or> l = line (pos prev) + 1 \<or> curr_kind f = Token_EOF
                             then f\<lparr>line_comment := comment\<rparr> else f))
           else Inr (None, f)) (\<lambda>(comment, f).
        bind_res (comment_groups comment (-1) f) (\<lambda>((comment, end_line), f).
          let f = (if end_line + 1 = line (pos (curr_token f)) \<or> end_line < 0 then f\<lparr>lead_comment := comment\<rparr> else f)
          in if curr_kind f = Token_Comment then Inl Crash else Inr f)))"

lemma comment_groups_left: "comment_groups c el f = Inr (r, f') \<Longrightarrow> tokens_left f' \<le> tokens_left f"
proof (induction c el f rule: comment_groups.induct)
  case (1 c el f)
  show ?case
  proof (cases "curr_kind f = Token_Comment")
    case True
    with 1(2) obtain c' el' g where g: "consume_comment_group f 1 = Inr ((c', el'), g)" "comment_groups c' el' g = Inr (r, f')"
      by (auto simp: comment_groups.simps [of c el f] elim!: bind_res_InrE)
    with 1(1) [OF True g(1) refl] consume_comment_group_left [OF g(1)] show ?thesis by fastforce
  next
    case False
    with 1(2) show ?thesis by (simp add: comment_groups.simps [of c el f])
  qed
qed

lemma tokens_left_updates [simp]:
  "tokens_left (f\<lparr>line_comment := c\<rparr>) = tokens_left f" "tokens_left (f\<lparr>lead_comment := c\<rparr>) = tokens_left f"
  "tokens_left (f\<lparr>prev_token := t\<rparr>) = tokens_left f" "tokens_left (f\<lparr>prev_token_index := i\<rparr>) = tokens_left f"
  "tokens_left (syntax_error f) = tokens_left f"
  by (simp_all add: tokens_left_def syntax_error_def)

lemma consume_comment_groups_left: "consume_comment_groups f prev = Inr f' \<Longrightarrow> tokens_left f' \<le> tokens_left f"
  unfolding consume_comment_groups_def Let_def
  by (auto elim!: bind_res_InrE split: if_splits dest!: consume_comment_group_left comment_groups_left)

function advance_token :: "ast_file \<Rightarrow> token parsed" where
  "advance_token f =
     (let prev = curr_token f;
          f1 = f\<lparr>lead_comment := None, line_comment := None, prev_token_index := curr_token_index f, prev_token := prev\<rparr>;
          (ok, f2) = next_token0 f1
      in if \<not> ok then Inr (prev, f2)
         else
           bind_res (consume_comment_groups f2 prev) (\<lambda>f3.
           if token_is_newline (curr_token f3) \<and> ignore_newlines f3
           then bind_res (advance_token f3) (\<lambda>(t, f4). Inr (prev, f4))
           else Inr (prev, f3)))"
  by pat_completeness auto
termination
  by (relation "measure tokens_left")
     (auto dest!: consume_comment_groups_left next_token0_left [OF sym] intro: le_less_trans)

declare advance_token.simps [simp del]

subsection \<open>Looking ahead and expecting tokens\<close>

definition peek_token :: "ast_file \<Rightarrow> token option" where
  "peek_token f = find (\<lambda>t. tkind t \<noteq> Token_Comment) (drop (curr_token_index f + 1) (tokens f))"

definition peek_token_n :: "ast_file \<Rightarrow> nat \<Rightarrow> token option" where
  "peek_token_n f n =
     (let ts = filter (\<lambda>t. tkind t \<noteq> Token_Comment) (drop (curr_token_index f + 1) (tokens f))
      in if n < length ts then Some (ts ! n) else None)"

definition skip_possible_newline :: "ast_file \<Rightarrow> bool parsed" where
  "skip_possible_newline f =
     (if token_is_newline (curr_token f) then bind_res (advance_token f) (\<lambda>(t, f). Inr (True, f)) else Inr (False, f))"

text \<open>The error token of a missing token has kind \<open>Token_Invalid\<close> and is on line 0.\<close>

definition skip_possible_newline_for_literal :: "ast_file \<Rightarrow> bool \<Rightarrow> bool \<Rightarrow> bool parsed" where
  "skip_possible_newline_for_literal f strict_style ignore_strict_style =
     (let curr = curr_token f in
      if token_is_newline curr then
        let (next_line, next) = (case peek_token f of None \<Rightarrow> (0, Token_Invalid) | Some t \<Rightarrow> (line (pos t), tkind t)) in
        if line (pos curr) + 1 \<ge> next_line then
          if next = Delimiter Token_OpenBrace \<or> next = Keyword Token_else then
            let f = syntax_error_if (strict_style \<and> \<not> ignore_strict_style) f
            in bind_res (advance_token f) (\<lambda>(t, f). Inr (True, f))
          else if next = Keyword Token_where then bind_res (advance_token f) (\<lambda>(t, f). Inr (True, f))
          else Inr (False, f)
        else Inr (False, f)
      else Inr (False, f))"

definition expect_token :: "token_kind \<Rightarrow> ast_file \<Rightarrow> token parsed" where
  "expect_token kind f =
     (let prev = curr_token f in
      if tkind prev \<noteq> kind then
        if tkind prev = Token_EOF then Inl Exit_With_Errors
        else bind_res (advance_token (syntax_error f)) (\<lambda>(t, f). Inr (prev, f))
      else bind_res (advance_token f) (\<lambda>(t, f). Inr (prev, f)))"

definition allow_token :: "token_kind \<Rightarrow> ast_file \<Rightarrow> bool parsed" where
  "allow_token kind f =
     (if curr_kind f = kind then bind_res (advance_token f) (\<lambda>(t, f). Inr (True, f)) else Inr (False, f))"

definition is_token_range :: "token_kind \<Rightarrow> bool" where
  "is_token_range k \<longleftrightarrow> k \<in> {Delimiter Token_Ellipsis, Delimiter Token_RangeFull, Delimiter Token_RangeHalf}"

text \<open>The flag that marks \<^verbatim>\<open>..\<close> for rewriting is not modelled.\<close>

definition bad_operator :: "ast_file \<Rightarrow> token_kind \<Rightarrow> bool" where
  "bad_operator f k =
     (if (k = Keyword Token_in \<or> k = Keyword Token_not_in) \<and> (expr_level f \<ge> 0 \<or> allow_in_expr f) then False
      else if k = Keyword Token_if \<or> k = Keyword Token_when then False
      else if k \<in> {Keyword Token_or_else, Keyword Token_or_return, Keyword Token_or_break, Keyword Token_or_continue} then False
      else if \<not> token_is_operator k then True
      else \<not> allow_range f \<and> is_token_range k)"

definition expect_operator :: "ast_file \<Rightarrow> token parsed" where
  "expect_operator f =
     (let prev = curr_token f;
          f = syntax_error_if (bad_operator f (tkind prev)) f;
          f = syntax_error_if (tkind prev = Delimiter Token_Ellipsis) f
      in bind_res (advance_token f) (\<lambda>(t, f). Inr (prev, f)))"

definition allow_field_separator :: "ast_file \<Rightarrow> bool parsed" where
  "allow_field_separator f =
     (let tok = curr_token f in
      bind_res (allow_token (Delimiter Token_Comma) f) (\<lambda>(b, f).
      if b then Inr (True, f)
      else if tkind tok = Delimiter Token_Semicolon then
        let ok = (file_allow_newline f \<and> token_is_newline tok \<and>
          (case peek_token f of
             None \<Rightarrow> False
           | Some t \<Rightarrow> tkind t = Delimiter Token_CloseBrace \<or> tkind t = Delimiter Token_CloseParen))
        in bind_res (advance_token (syntax_error_if (\<not> ok) f)) (\<lambda>(t, f). Inr (True, f))
      else Inr (False, f)))"

definition expect_closing :: "token_kind \<Rightarrow> ast_file \<Rightarrow> token parsed" where
  "expect_closing kind f =
     (if curr_kind f \<noteq> kind \<and> token_is_newline (curr_token f) then
        bind_res (advance_token (syntax_error_if (allow_newline f) f)) (\<lambda>(t, f). expect_token kind f)
      else expect_token kind f)"

text \<open>\<open>fix_advance_to_next_stmt\<close>: skip to where the next statement may start.\<close>

definition PARSER_MAX_FIX_COUNT :: nat where
  "PARSER_MAX_FIX_COUNT = 6"

definition starts_statement :: "token_kind \<Rightarrow> bool" where
  "starts_statement k \<longleftrightarrow>
     k \<in> {Keyword Token_package, Keyword Token_foreign, Keyword Token_import, Keyword Token_if, Keyword Token_for,
          Keyword Token_when, Keyword Token_return, Keyword Token_switch, Keyword Token_defer, Keyword Token_using,
          Keyword Token_break, Keyword Token_continue, Keyword Token_fallthrough, Operator Token_Hash}"

definition token_pos_less :: "token_pos \<Rightarrow> token_pos \<Rightarrow> bool" where
  "token_pos_less a b \<longleftrightarrow>
     offset a < offset b \<or>
     offset a = offset b \<and> (line a < line b \<or> line a = line b \<and> column a < column b)"

definition token_pos_eq :: "token_pos \<Rightarrow> token_pos \<Rightarrow> bool" where
  "token_pos_eq a b \<longleftrightarrow> offset a = offset b \<and> line a = line b \<and> column a = column b"

text \<open>Where the cursor does not move the loop does not end.\<close>

function fix_advance_to_next_stmt :: "ast_file \<Rightarrow> parser_stop + ast_file" where
  "fix_advance_to_next_stmt f =
     (let k = curr_kind f; p = pos (curr_token f) in
      if k = Token_EOF \<or> k = Delimiter Token_Semicolon then Inr f
      else if starts_statement k \<and> token_pos_eq p (fix_prev_pos f) \<and> fix_count f < PARSER_MAX_FIX_COUNT
      then Inr (f\<lparr>fix_count := fix_count f + 1\<rparr>)
      else if starts_statement k \<and> token_pos_less (fix_prev_pos f) p
      then Inr (f\<lparr>fix_prev_pos := p, fix_count := 0\<rparr>)
      else
        bind_res (advance_token f) (\<lambda>(t, f').
          if tokens_left f' < tokens_left f then fix_advance_to_next_stmt f' else Inl Never_Returns))"
  by pat_completeness auto
termination by (relation "measure tokens_left") auto

declare fix_advance_to_next_stmt.simps [simp del]

end
