(* ===== verification/Expr_Parser.thy ===== *)
theory Expr_Parser
  imports Parser_State
begin

text \<open>
  The expression parser (\<^verbatim>\<open>src/parser.cpp\<close>): operands, calls, compound literals, postfix operators, unary
  operators, and binary operators by precedence climbing. Null pointers are \<open>None\<close>. The recursion between
  expressions is unrolled \<open>n\<close> times (\<open>Out_Of_Fuel\<close> beyond); the functions below it take the parser of
  expressions as the argument \<open>pb\<close> and use \<open>n\<close> for their own loops.
\<close>

subsection \<open>Syntax trees\<close>

text \<open>
  The nodes of expressions. Nodes built by the parsers of types, directives and procedures are \<open>Ast_Other\<close>
  with their kind (as far as it is looked at), first token and identity. \<open>Ast_BlankIdent\<close> is the identifier
  that stands for a missing one.
\<close>

datatype other_kind =
  Ast_ArrayType | Ast_StructType | Ast_UnionType | Ast_EnumType | Ast_FixedCapacityDynamicArrayType
| Ast_DynamicArrayType | Ast_MapType | Ast_BitSetType | Ast_MatrixType | Ast_MultiPointerType | Ast_OtherNode

datatype ast =
  Ast_BadExpr token token
| Ast_Ident token
| Ast_BlankIdent token
| Ast_Implicit token
| Ast_Uninit token
| Ast_BasicLit token
| Ast_ParenExpr "ast option" token token
| Ast_UnaryExpr token "ast option"
| Ast_BinaryExpr token ast ast
| Ast_TernaryIfExpr "ast option" "ast option" "ast option"
| Ast_TernaryWhenExpr "ast option" "ast option" "ast option"
| Ast_OrElseExpr "ast option" token "ast option"
| Ast_OrReturnExpr ast token
| Ast_OrBranchExpr ast token "ast option"
| Ast_SelectorExpr token ast ast
| Ast_ImplicitSelectorExpr token ast
| Ast_SelectorCallExpr token ast ast
| Ast_TypeAssertion ast token "ast option"
| Ast_IndexExpr ast "ast option" token token
| Ast_SliceExpr ast token token token "ast option" "ast option"
| Ast_MatrixIndexExpr ast token token token "ast option" "ast option"
| Ast_DerefExpr ast token
| Ast_TypeCast token ast "ast option"
| Ast_AutoCast token "ast option"
| Ast_CallExpr ast "ast option list" token token "token option"
| Ast_FieldValue "ast option" "ast option" token
| Ast_CompoundLit "ast option" "ast option list" token token
| Ast_Other other_kind token nat

text \<open>The first token of a node, for error messages and bad expressions; a null node is not looked into.\<close>

fun ast_token :: "ast \<Rightarrow> token option" where
  "ast_token (Ast_BadExpr b e) = Some b"
| "ast_token (Ast_Ident t) = Some t"
| "ast_token (Ast_BlankIdent t) = Some t"
| "ast_token (Ast_Implicit t) = Some t"
| "ast_token (Ast_Uninit t) = Some t"
| "ast_token (Ast_BasicLit t) = Some t"
| "ast_token (Ast_ParenExpr e open close) = Some open"
| "ast_token (Ast_UnaryExpr op e) = Some op"
| "ast_token (Ast_BinaryExpr op l r) = ast_token l"
| "ast_token (Ast_TernaryIfExpr x c y) = (case x of None \<Rightarrow> None | Some x \<Rightarrow> ast_token x)"
| "ast_token (Ast_TernaryWhenExpr x c y) = (case x of None \<Rightarrow> None | Some x \<Rightarrow> ast_token x)"
| "ast_token (Ast_OrElseExpr x t y) = (case x of None \<Rightarrow> None | Some x \<Rightarrow> ast_token x)"
| "ast_token (Ast_OrReturnExpr e t) = ast_token e"
| "ast_token (Ast_OrBranchExpr e t l) = ast_token e"
| "ast_token (Ast_SelectorExpr t e s) = ast_token e"
| "ast_token (Ast_ImplicitSelectorExpr t s) = ast_token s"
| "ast_token (Ast_SelectorCallExpr t e c) = ast_token e"
| "ast_token (Ast_TypeAssertion e d t) = ast_token e"
| "ast_token (Ast_IndexExpr e i open close) = ast_token e"
| "ast_token (Ast_SliceExpr e open close i l h) = ast_token e"
| "ast_token (Ast_MatrixIndexExpr e open close i r c) = ast_token e"
| "ast_token (Ast_DerefExpr e t) = Some t"
| "ast_token (Ast_TypeCast t ty e) = Some t"
| "ast_token (Ast_AutoCast t e) = Some t"
| "ast_token (Ast_CallExpr p args open close el) = ast_token p"
| "ast_token (Ast_FieldValue x v eq) = (case x of None \<Rightarrow> Some eq | Some x \<Rightarrow> ast_token x)"
| "ast_token (Ast_CompoundLit ty es open close) = (case ty of None \<Rightarrow> Some open | Some ty \<Rightarrow> ast_token ty)"
| "ast_token (Ast_Other k t i) = Some t"

fun unparen :: "ast \<Rightarrow> ast option" where
  "unparen (Ast_ParenExpr e open close) = (case e of None \<Rightarrow> None | Some e \<Rightarrow> unparen e)"
| "unparen e = Some e"

definition unparen_expr :: "ast option \<Rightarrow> ast option" where
  "unparen_expr node = Option.bind node unparen"

fun strip_or_return :: "ast \<Rightarrow> ast option" where
  "strip_or_return (Ast_OrReturnExpr e t) = strip_or_return e"
| "strip_or_return (Ast_OrBranchExpr e t l) = strip_or_return e"
| "strip_or_return (Ast_ParenExpr e open close) = (case e of None \<Rightarrow> None | Some e \<Rightarrow> strip_or_return e)"
| "strip_or_return e = Some e"

definition strip_or_return_expr :: "ast option \<Rightarrow> ast option" where
  "strip_or_return_expr node = Option.bind node strip_or_return"

definition is_or_expr :: "ast option \<Rightarrow> bool" where
  "is_or_expr e = (case e of Some (Ast_OrReturnExpr x t) \<Rightarrow> True | Some (Ast_OrBranchExpr x t l) \<Rightarrow> True | _ \<Rightarrow> False)"

text \<open>A null pointer within parentheses is read: \<open>None\<close>.\<close>

definition is_literal_type :: "ast \<Rightarrow> bool option" where
  "is_literal_type node =
     map_option (\<lambda>node. case node of
         Ast_BadExpr b e \<Rightarrow> True | Ast_Ident t \<Rightarrow> True | Ast_BlankIdent t \<Rightarrow> True | Ast_SelectorExpr t e s \<Rightarrow> True
       | Ast_CallExpr p as open close el \<Rightarrow> True | Ast_Other k t i \<Rightarrow> k \<noteq> Ast_OtherNode | _ \<Rightarrow> False)
     (unparen node)"

definition is_ast_range :: "ast option \<Rightarrow> bool" where
  "is_ast_range e = (case e of Some (Ast_BinaryExpr op l r) \<Rightarrow> is_token_range (tkind op) | _ \<Rightarrow> False)"

subsection \<open>Building nodes\<close>

text \<open>
  Parsers of the rest of the language: types, and the operands that are types, directives, procedures and
  inline assembly; \<open>literal_ok\<close> tells that the text of a literal denotes a value.
\<close>

record parsers =
  parse_type :: "ast_file \<Rightarrow> ast parsed"
  parse_other_operand :: "bool \<Rightarrow> ast_file \<Rightarrow> ast option parsed"
  literal_ok :: "token \<Rightarrow> bool"

type_synonym expr_parser = "bool \<Rightarrow> int \<Rightarrow> ast_file \<Rightarrow> ast option parsed"

definition ast_unary_expr :: "ast_file \<Rightarrow> token \<Rightarrow> ast option \<Rightarrow> ast \<times> ast_file" where
  "ast_unary_expr f op e = (Ast_UnaryExpr op e, syntax_error_if (is_or_expr e) f)"

definition ast_binary_expr :: "ast_file \<Rightarrow> token \<Rightarrow> ast option \<Rightarrow> ast option \<Rightarrow> ast \<times> ast_file" where
  "ast_binary_expr f op left right =
     (let f = syntax_error_if (left = None) f;
          f = syntax_error_if (right = None) f;
          f = syntax_error_if (is_or_expr left) f;
          f = syntax_error_if (is_or_expr right) f;
          operand = (\<lambda>e. case e of None \<Rightarrow> Ast_BadExpr op op | Some e \<Rightarrow> e)
      in (Ast_BinaryExpr op (operand left) (operand right), f))"

definition ast_basic_lit :: "parsers \<Rightarrow> ast_file \<Rightarrow> token \<Rightarrow> ast \<times> ast_file" where
  "ast_basic_lit X f tok = (Ast_BasicLit tok, syntax_error_if (\<not> literal_ok X tok) f)"

definition parse_check_or_return :: "ast \<Rightarrow> ast_file \<Rightarrow> ast_file" where
  "parse_check_or_return operand f = syntax_error_if (is_or_expr (Some operand)) f"

definition parse_ident :: "ast_file \<Rightarrow> ast parsed" where
  "parse_ident f =
     (let tok = curr_token f in
      if tkind tok = Literal Token_Ident then bind_res (advance_token f) (\<lambda>(t, f). Inr (Ast_Ident tok, f))
      else bind_res (expect_token (Literal Token_Ident) f) (\<lambda>(t, f). Inr (Ast_BlankIdent tok, f)))"

subsection \<open>Values and lists of values\<close>

definition parse_expr :: "expr_parser \<Rightarrow> bool \<Rightarrow> ast_file \<Rightarrow> ast option parsed" where
  "parse_expr pb lhs f = pb lhs (0 + 1) f"

definition parse_value :: "expr_parser \<Rightarrow> ast_file \<Rightarrow> ast option parsed" where
  "parse_value pb f =
     (let prev_allow_range = allow_range f in
      bind_res (parse_expr pb False (f\<lparr>allow_range := True\<rparr>)) (\<lambda>(value, f).
      Inr (value, f\<lparr>allow_range := prev_allow_range\<rparr>)))"

primrec parse_element_list :: "expr_parser \<Rightarrow> nat \<Rightarrow> ast option list \<Rightarrow> ast_file \<Rightarrow> ast option list parsed" where
  "parse_element_list pb 0 elems f = Inl Out_Of_Fuel"
| "parse_element_list pb (Suc n) elems f =
     (if curr_kind f \<noteq> Delimiter Token_CloseBrace \<and> curr_kind f \<noteq> Token_EOF then
        bind_res (parse_value pb f) (\<lambda>(elem, f).
        bind_res (if curr_kind f = Operator Token_Eq then
                    bind_res (expect_token (Operator Token_Eq) f) (\<lambda>(eq, f).
                    bind_res (parse_value pb f) (\<lambda>(value, f).
                    Inr (Some (Ast_FieldValue elem value eq), f)))
                  else Inr (elem, f)) (\<lambda>(elem, f).
        bind_res (allow_field_separator f) (\<lambda>(more, f).
        if more then parse_element_list pb n (elems @ [elem]) f else Inr (elems @ [elem], f))))
      else Inr (elems, f))"

definition parse_literal_value :: "expr_parser \<Rightarrow> nat \<Rightarrow> ast option \<Rightarrow> ast_file \<Rightarrow> ast parsed" where
  "parse_literal_value pb n type f =
     bind_res (expect_token (Delimiter Token_OpenBrace) f) (\<lambda>(open, f).
     let level = expr_level f; f = f\<lparr>expr_level := 0\<rparr> in
     bind_res (if curr_kind f \<noteq> Delimiter Token_CloseBrace then parse_element_list pb n [] f else Inr ([], f)) (\<lambda>(elems, f).
     bind_res (expect_closing (Delimiter Token_CloseBrace) (f\<lparr>expr_level := level\<rparr>)) (\<lambda>(close, f).
     Inr (Ast_CompoundLit type elems open close, f))))"

subsection \<open>Calls\<close>

text \<open>The loop over the arguments, with the last ellipsis and whether one was seen.\<close>

primrec call_args ::
  "expr_parser \<Rightarrow> nat \<Rightarrow> ast option list \<Rightarrow> token option \<Rightarrow> bool \<Rightarrow> ast_file \<Rightarrow> (ast option list \<times> token option) parsed" where
  "call_args pb 0 args ellipsis seen_ellipsis f = Inl Out_Of_Fuel"
| "call_args pb (Suc n) args ellipsis seen_ellipsis f =
     (if curr_kind f \<noteq> Delimiter Token_CloseParen \<and> curr_kind f \<noteq> Token_EOF then
        let f = syntax_error_if (curr_kind f = Delimiter Token_Comma \<or> curr_kind f = Operator Token_Eq) f;
            prefix_ellipsis = (curr_kind f = Delimiter Token_Ellipsis)
        in
        bind_res (if prefix_ellipsis then
                    bind_res (expect_token (Delimiter Token_Ellipsis) f) (\<lambda>(t, f). Inr (Some t, f))
                  else Inr (ellipsis, f)) (\<lambda>(ellipsis, f).
        bind_res (parse_expr pb False f) (\<lambda>(arg, f).
        bind_res (if curr_kind f = Operator Token_Eq then
                    bind_res (expect_token (Operator Token_Eq) f) (\<lambda>(eq, f).
                    bind_res (parse_value pb (syntax_error_if prefix_ellipsis f)) (\<lambda>(value, f).
                    Inr (Some (Ast_FieldValue arg value eq), f)))
                  else Inr (arg, syntax_error_if seen_ellipsis f)) (\<lambda>(arg, f).
        let seen_ellipsis = (seen_ellipsis \<or> (case ellipsis of None \<Rightarrow> False | Some t \<Rightarrow> line (pos t) \<noteq> 0)) in
        bind_res (allow_field_separator f) (\<lambda>(more, f).
        if more then call_args pb n (args @ [arg]) ellipsis seen_ellipsis f else Inr ((args @ [arg], ellipsis), f)))))
      else Inr ((args, ellipsis), f))"

definition call_node :: "ast \<Rightarrow> ast option list \<Rightarrow> token \<Rightarrow> token \<Rightarrow> token option \<Rightarrow> ast" where
  "call_node operand args open close ellipsis =
     (let call = Ast_CallExpr operand args open close ellipsis in
      case unparen operand of
        Some (Ast_SelectorExpr t e s) \<Rightarrow>
          if tkind t = Operator Token_ArrowRight then Ast_SelectorCallExpr t (Ast_SelectorExpr t e s) call else call
      | _ \<Rightarrow> call)"

definition parse_call_expr :: "expr_parser \<Rightarrow> nat \<Rightarrow> ast \<Rightarrow> ast_file \<Rightarrow> ast parsed" where
  "parse_call_expr pb n operand f =
     (let prev_expr_level = expr_level f; prev_allow_newline = allow_newline f;
          f = f\<lparr>expr_level := 0, allow_newline := file_allow_newline f\<rparr>
      in
      bind_res (expect_token (Delimiter Token_OpenParen) f) (\<lambda>(open_paren, f).
      bind_res (call_args pb n [] None False f) (\<lambda>((args, ellipsis), f).
      bind_res (expect_closing (Delimiter Token_CloseParen)
                 (f\<lparr>allow_newline := prev_allow_newline, expr_level := prev_expr_level\<rparr>)) (\<lambda>(close_paren, f).
      Inr (call_node operand args open_paren close_paren ellipsis, f)))))"

subsection \<open>Postfix operators\<close>

definition index_stops :: "token_kind \<Rightarrow> bool" where
  "index_stops k \<longleftrightarrow> is_token_range k \<or> k = Delimiter Token_Colon"

text \<open>What is between the brackets: an index or a bound, and with a colon or a comma, another one.\<close>

definition bracket_indices :: "expr_parser \<Rightarrow> ast_file \<Rightarrow> (ast option \<times> token option \<times> ast option) parsed" where
  "bracket_indices pb f =
     bind_res (if index_stops (curr_kind f) then Inr (None, f) else parse_expr pb False f) (\<lambda>(low, f).
     let k = curr_kind f in
     if is_token_range k \<or> k = Delimiter Token_Comma \<or> k = Delimiter Token_Colon then
       bind_res (advance_token (syntax_error_if (is_token_range k) f)) (\<lambda>(interval, f).
       if curr_kind f \<noteq> Delimiter Token_CloseBracket \<and> curr_kind f \<noteq> Token_EOF then
         bind_res (parse_expr pb False f) (\<lambda>(high, f). Inr ((low, Some interval, high), f))
       else Inr ((low, Some interval, None), f))
     else Inr ((low, None, None), f))"

definition bracket_node ::
  "ast \<Rightarrow> token \<Rightarrow> token \<Rightarrow> ast option \<times> token option \<times> ast option \<Rightarrow> ast_file \<Rightarrow> ast \<times> ast_file" where
  "bracket_node operand open close indices f =
     (let (low, interval, high) = indices in
      case interval of
        Some t \<Rightarrow>
          if tkind t = Delimiter Token_Comma then
            let f = syntax_error_if (low = None \<or> high = None) f
            in (Ast_MatrixIndexExpr operand open close t low high, parse_check_or_return operand f)
          else (Ast_SliceExpr operand open close t low high, parse_check_or_return operand f)
      | None \<Rightarrow> (Ast_IndexExpr operand low open close, parse_check_or_return operand f))"

text \<open>With nothing between the brackets, \<open>expr_level\<close> stays raised.\<close>

definition bracket_body :: "expr_parser \<Rightarrow> ast \<Rightarrow> ast_file \<Rightarrow> ast parsed" where
  "bracket_body pb operand f =
     bind_res (expect_token (Delimiter Token_OpenBracket) (f\<lparr>expr_level := expr_level f + 1\<rparr>)) (\<lambda>(open, f).
     if curr_kind f = Delimiter Token_CloseBracket then
       bind_res (expect_token (Delimiter Token_CloseBracket) (syntax_error f)) (\<lambda>(close, f).
       Inr (Ast_IndexExpr operand None open close, f))
     else
       bind_res (bracket_indices pb f) (\<lambda>(indices, f).
       bind_res (expect_token (Delimiter Token_CloseBracket) (f\<lparr>expr_level := expr_level f - 1\<rparr>)) (\<lambda>(close, f).
       Inr (bracket_node operand open close indices f))))"

definition parse_bracket :: "expr_parser \<Rightarrow> ast \<Rightarrow> ast_file \<Rightarrow> ast parsed" where
  "parse_bracket pb operand f =
     (let prev_allow_range = allow_range f in
      bind_res (bracket_body pb operand (f\<lparr>allow_range := False\<rparr>)) (\<lambda>(e, f).
      Inr (e, f\<lparr>allow_range := prev_allow_range\<rparr>)))"

text \<open>A period behind an operand.\<close>

definition parse_period :: "parsers \<Rightarrow> ast \<Rightarrow> ast_file \<Rightarrow> ast parsed" where
  "parse_period X operand f =
     bind_res (advance_token f) (\<lambda>(tok, f).
     if curr_kind f = Literal Token_Ident then
       bind_res (parse_ident (parse_check_or_return operand f)) (\<lambda>(sel, f). Inr (Ast_SelectorExpr tok operand sel, f))
     else if curr_kind f = Delimiter Token_OpenParen then
       bind_res (expect_token (Delimiter Token_OpenParen) (parse_check_or_return operand f)) (\<lambda>(open, f).
       bind_res (parse_type X f) (\<lambda>(type, f).
       bind_res (expect_token (Delimiter Token_CloseParen) f) (\<lambda>(close, f).
       Inr (Ast_TypeAssertion operand tok (Some type), f))))
     else if curr_kind f = Operator Token_Question then
       bind_res (expect_token (Operator Token_Question) (parse_check_or_return operand f)) (\<lambda>(question, f).
       let (type, f) = ast_unary_expr f question None in
       Inr (Ast_TypeAssertion operand tok (Some type), f))
     else
       bind_res (advance_token (syntax_error f)) (\<lambda>(t, f).
       case ast_token operand of
         None \<Rightarrow> Inl Crash
       | Some b \<Rightarrow> Inr (Ast_BadExpr b (curr_token f), f)))"

text \<open>One turn of the loop over the postfix operators: the new operand, or \<open>None\<close> where the loop ends.\<close>

definition postfix_step ::
  "parsers \<Rightarrow> expr_parser \<Rightarrow> nat \<Rightarrow> bool \<Rightarrow> ast \<Rightarrow> ast_file \<Rightarrow> ast option parsed" where
  "postfix_step X pb n lhs operand f =
     (let k = curr_kind f; node = (\<lambda>r. bind_res r (\<lambda>(e, f). Inr (Some e, f))) in
      if k = Delimiter Token_OpenParen then node (parse_call_expr pb n operand (parse_check_or_return operand f))
      else if k = Delimiter Token_Period then node (parse_period X operand f)
      else if k = Operator Token_ArrowRight then
        bind_res (advance_token (parse_check_or_return operand f)) (\<lambda>(tok, f).
        bind_res (parse_ident f) (\<lambda>(sel, f). Inr (Some (Ast_SelectorExpr tok operand sel), f)))
      else if k = Delimiter Token_OpenBracket then node (parse_bracket pb operand f)
      else if k = Operator Token_Pointer then
        bind_res (expect_token (Operator Token_Pointer) (parse_check_or_return operand f)) (\<lambda>(tok, f).
        Inr (Some (Ast_DerefExpr operand tok), f))
      else if k = Keyword Token_or_return then
        bind_res (expect_token (Keyword Token_or_return) f) (\<lambda>(tok, f). Inr (Some (Ast_OrReturnExpr operand tok), f))
      else if k = Keyword Token_or_break \<or> k = Keyword Token_or_continue then
        bind_res (advance_token f) (\<lambda>(tok, f).
        if curr_kind f = Literal Token_Ident then
          bind_res (parse_ident f) (\<lambda>(label, f). Inr (Some (Ast_OrBranchExpr operand tok (Some label)), f))
        else Inr (Some (Ast_OrBranchExpr operand tok None), f))
      else if k = Delimiter Token_OpenBrace then
        if lhs then Inr (None, f)
        else
          (case is_literal_type operand of
             None \<Rightarrow> Inl Crash
           | Some b \<Rightarrow>
               if b \<and> expr_level f \<ge> 0 then node (parse_literal_value pb n (Some operand) f) else Inr (None, f))
      else if k = Operator Token_Increment \<or> k = Operator Token_Decrement then
        if lhs then Inr (None, f)
        else bind_res (advance_token f) (\<lambda>(tok, f). Inr (Some operand, syntax_error f))
      else Inr (None, f))"

primrec postfix_loop :: "parsers \<Rightarrow> expr_parser \<Rightarrow> nat \<Rightarrow> bool \<Rightarrow> ast \<Rightarrow> ast_file \<Rightarrow> ast parsed" where
  "postfix_loop X pb 0 lhs operand f = Inl Out_Of_Fuel"
| "postfix_loop X pb (Suc n) lhs operand f =
     bind_res (postfix_step X pb n lhs operand f) (\<lambda>(r, f).
     case r of None \<Rightarrow> Inr (operand, f) | Some e \<Rightarrow> postfix_loop X pb n False e f)"

definition parse_atom_expr :: "parsers \<Rightarrow> expr_parser \<Rightarrow> nat \<Rightarrow> ast option \<Rightarrow> bool \<Rightarrow> ast_file \<Rightarrow> ast option parsed" where
  "parse_atom_expr X pb n operand lhs f =
     (case operand of
        Some e \<Rightarrow> bind_res (postfix_loop X pb n lhs e f) (\<lambda>(e, f). Inr (Some e, f))
      | None \<Rightarrow>
          if allow_type f then Inr (None, f)
          else
            let begin = curr_token f in
            bind_res (fix_advance_to_next_stmt (syntax_error f)) (\<lambda>f.
            bind_res (postfix_loop X pb n lhs (Ast_BadExpr begin (curr_token f)) f) (\<lambda>(e, f). Inr (Some e, f))))"

subsection \<open>Operands\<close>

definition parse_paren :: "expr_parser \<Rightarrow> ast_file \<Rightarrow> ast parsed" where
  "parse_paren pb f =
     bind_res (expect_token (Delimiter Token_OpenParen) f) (\<lambda>(open, f).
     if tkind (prev_token f) = Delimiter Token_CloseParen then
       bind_res (expect_token (Delimiter Token_CloseParen) f) (\<lambda>(close, f).
       Inr (Ast_BadExpr open close, syntax_error f))
     else
       let prev_expr_level = expr_level f; prev_allow_newline = allow_newline f;
           f = (if expr_level f < 0 then f\<lparr>allow_newline := False\<rparr> else f);
           f = f\<lparr>expr_level := max (expr_level f) 0 + 1\<rparr>
       in
       bind_res (parse_expr pb False f) (\<lambda>(operand, f).
       bind_res (expect_token (Delimiter Token_CloseParen)
                  (f\<lparr>allow_newline := prev_allow_newline, expr_level := prev_expr_level\<rparr>)) (\<lambda>(close, f).
       Inr (Ast_ParenExpr operand open close, f))))"

text \<open>The tokens that begin an operand of the other parsers.\<close>

definition other_operand :: "token_kind \<Rightarrow> bool" where
  "other_operand k \<longleftrightarrow>
     k \<in> {Keyword Token_distinct, Operator Token_Hash, Keyword Token_proc, Operator Token_Dollar, Keyword Token_typeid,
          Operator Token_Pointer, Operator Token_Mul, Delimiter Token_OpenBracket, Keyword Token_map, Keyword Token_matrix,
          Keyword Token_bit_field, Keyword Token_struct, Keyword Token_union, Keyword Token_enum, Keyword Token_bit_set,
          Keyword Token_asm}"

definition parse_operand :: "parsers \<Rightarrow> expr_parser \<Rightarrow> nat \<Rightarrow> bool \<Rightarrow> ast_file \<Rightarrow> ast option parsed" where
  "parse_operand X pb n lhs f =
     (let k = curr_kind f; node = (\<lambda>r. bind_res r (\<lambda>(e, f). Inr (Some e, f))) in
      if k = Literal Token_Ident then node (parse_ident f)
      else if k = Operator Token_Uninit then
        node (bind_res (expect_token (Operator Token_Uninit) f) (\<lambda>(t, f). Inr (Ast_Uninit t, f)))
      else if k = Keyword Token_context then
        node (bind_res (expect_token (Keyword Token_context) f) (\<lambda>(t, f). Inr (Ast_Implicit t, f)))
      else if k \<in> {Literal Token_Integer, Literal Token_Float, Literal Token_Imag, Literal Token_Rune, Literal Token_String} then
        node (bind_res (advance_token f) (\<lambda>(t, f). Inr (ast_basic_lit X f t)))
      else if k = Delimiter Token_OpenBrace then
        if lhs then Inr (None, f) else node (parse_literal_value pb n None f)
      else if k = Delimiter Token_OpenParen then node (parse_paren pb f)
      else if other_operand k then parse_other_operand X lhs f
      else Inr (None, f))"

subsection \<open>Unary operators\<close>

definition is_prefix_operator :: "token_kind \<Rightarrow> bool" where
  "is_prefix_operator k \<longleftrightarrow>
     k \<in> {Operator Token_Add, Operator Token_Sub, Operator Token_Xor, Operator Token_And, Operator Token_Not,
          Operator Token_MulMul, Operator Token_Mul}"

primrec parse_unary_expr :: "parsers \<Rightarrow> expr_parser \<Rightarrow> nat \<Rightarrow> bool \<Rightarrow> ast_file \<Rightarrow> ast option parsed" where
  "parse_unary_expr X pb 0 lhs f = Inl Out_Of_Fuel"
| "parse_unary_expr X pb (Suc n) lhs f =
     (let k = curr_kind f in
      if k = Keyword Token_transmute \<or> k = Keyword Token_cast then
        bind_res (advance_token f) (\<lambda>(tok, f).
        bind_res (expect_token (Delimiter Token_OpenParen) f) (\<lambda>(t, f).
        bind_res (parse_type X f) (\<lambda>(type, f).
        bind_res (expect_token (Delimiter Token_CloseParen) f) (\<lambda>(t, f).
        bind_res (parse_unary_expr X pb n lhs f) (\<lambda>(e, f).
        Inr (Some (Ast_TypeCast tok type e), f))))))
      else if k = Keyword Token_auto_cast then
        bind_res (advance_token f) (\<lambda>(tok, f).
        bind_res (parse_unary_expr X pb n lhs f) (\<lambda>(e, f). Inr (Some (Ast_AutoCast tok e), f)))
      else if is_prefix_operator k then
        bind_res (advance_token f) (\<lambda>(tok, f).
        bind_res (if tkind tok = Operator Token_Not then skip_possible_newline f else Inr (False, f)) (\<lambda>(b, f).
        bind_res (parse_unary_expr X pb n lhs f) (\<lambda>(e, f).
        let (e, f) = ast_unary_expr f tok e in Inr (Some e, f))))
      else if k = Operator Token_Increment \<or> k = Operator Token_Decrement then
        bind_res (advance_token f) (\<lambda>(tok, f).
        bind_res (parse_unary_expr X pb n lhs (syntax_error f)) (\<lambda>(e, f).
        let (e, f) = ast_unary_expr f tok e in Inr (Some e, f)))
      else if k = Delimiter Token_Period then
        bind_res (expect_token (Delimiter Token_Period) f) (\<lambda>(tok, f).
        bind_res (parse_ident f) (\<lambda>(ident, f). Inr (Some (Ast_ImplicitSelectorExpr tok ident), f)))
      else
        bind_res (parse_operand X pb n lhs f) (\<lambda>(operand, f). parse_atom_expr X pb n operand lhs f))"

subsection \<open>Binary operators\<close>

definition token_precedence :: "ast_file \<Rightarrow> token_kind \<Rightarrow> int" where
  "token_precedence f t =
     (case t of
        Operator Token_Question \<Rightarrow> 1
      | Keyword Token_if \<Rightarrow> 1 | Keyword Token_when \<Rightarrow> 1 | Keyword Token_or_else \<Rightarrow> 1
      | Delimiter d \<Rightarrow>
          if d = Token_Ellipsis \<or> d = Token_RangeFull \<or> d = Token_RangeHalf then (if \<not> allow_range f then 0 else 2) else 0
      | Operator Token_CmpOr \<Rightarrow> 3
      | Operator Token_CmpAnd \<Rightarrow> 4
      | Comparison c \<Rightarrow> 5
      | Keyword k \<Rightarrow>
          if k = Token_in \<or> k = Token_not_in then (if expr_level f < 0 \<and> \<not> allow_in_expr f then 0 else 6) else 0
      | Operator p \<Rightarrow>
          if p \<in> {Token_Add, Token_Sub, Token_Or, Token_Xor} then 6
          else if p \<in> {Token_Mul, Token_Quo, Token_Mod, Token_ModMod, Token_And, Token_AndNot, Token_Shl, Token_Shr} then 7
          else 0
      | _ \<Rightarrow> 0)"

text \<open>What follows an operator: the new expression.\<close>

definition parse_operator :: "expr_parser \<Rightarrow> bool \<Rightarrow> int \<Rightarrow> token \<Rightarrow> ast option \<Rightarrow> ast_file \<Rightarrow> ast option parsed" where
  "parse_operator pb lhs op_prec op expr f =
     (if tkind op = Operator Token_Question then
        bind_res (parse_expr pb lhs f) (\<lambda>(x, f).
        bind_res (expect_token (Delimiter Token_Colon) f) (\<lambda>(token_c, f).
        bind_res (parse_expr pb lhs f) (\<lambda>(y, f). Inr (Some (Ast_TernaryIfExpr x expr y), f))))
      else if tkind op = Keyword Token_if \<or> tkind op = Keyword Token_when then
        bind_res (parse_expr pb lhs f) (\<lambda>(cond, f).
        bind_res (expect_token (Keyword Token_else) f) (\<lambda>(tok_else, f).
        bind_res (parse_expr pb lhs f) (\<lambda>(y, f).
        Inr (Some (if tkind op = Keyword Token_if then Ast_TernaryIfExpr expr cond y else Ast_TernaryWhenExpr expr cond y), f))))
      else
        bind_res (pb False (op_prec + 1) f) (\<lambda>(right, f).
        let f = syntax_error_if (right = None) f in
        if tkind op = Keyword Token_or_else then Inr (Some (Ast_OrElseExpr expr op right), f)
        else let (e, f) = ast_binary_expr f op expr right in Inr (Some e, f)))"

primrec binary_loop :: "expr_parser \<Rightarrow> nat \<Rightarrow> bool \<Rightarrow> int \<Rightarrow> ast option \<Rightarrow> ast_file \<Rightarrow> ast option parsed" where
  "binary_loop pb 0 lhs prec_in expr f = Inl Out_Of_Fuel"
| "binary_loop pb (Suc n) lhs prec_in expr f =
     (let op = curr_token f; op_prec = token_precedence f (tkind op); prev = prev_token f in
      if op_prec < prec_in then Inr (expr, f)
      else if (tkind op = Keyword Token_if \<or> tkind op = Keyword Token_when) \<and>
              line (pos prev) < line (pos op) \<and> expr_level f \<le> 0 then Inr (expr, f)
      else
        bind_res (expect_operator f) (\<lambda>(t, f).
        bind_res (parse_operator pb lhs op_prec op expr f) (\<lambda>(expr, f).
        binary_loop pb n False prec_in expr f)))"

primrec parse_binary_expr :: "parsers \<Rightarrow> nat \<Rightarrow> expr_parser" where
  "parse_binary_expr X 0 = (\<lambda>lhs prec_in f. Inl Out_Of_Fuel)"
| "parse_binary_expr X (Suc n) = (\<lambda>lhs prec_in f.
     bind_res (parse_unary_expr X (parse_binary_expr X n) n lhs f) (\<lambda>(expr, f).
     binary_loop (parse_binary_expr X n) n lhs prec_in expr f))"

end
