(* ===== verification/Parser_Progress.thy ===== *)
theory Parser_Progress
  imports Expr_Parser
begin

text \<open>
  What a parser function does to the file: it moves the cursor forward over the same tokens, it may report
  errors, and as long as it reports none it leaves the flags as they were. The predicate is closed under
  \<open>bind_res\<close>, so that each function keeps it because its parts do; with enough fuel none of them hangs.
\<close>

declare One_nat_def [simp del]

subsection \<open>The contract\<close>

text \<open>The cursor is in the file, and the last token is the only end of file.\<close>

definition file_ok :: "ast_file \<Rightarrow> bool" where
  "file_ok f \<longleftrightarrow>
     curr_token_index f < length (tokens f) \<and> curr_token f = tokens f ! curr_token_index f \<and>
     (\<forall>i<length (tokens f). tkind (tokens f ! i) = Token_EOF \<longleftrightarrow> i + 1 = length (tokens f))"

definition flags :: "ast_file \<Rightarrow> int \<times> bool \<times> bool \<times> bool \<times> bool" where
  "flags f = (expr_level f, allow_newline f, allow_range f, allow_in_expr f, allow_type f)"

text \<open>From \<open>f\<close> to \<open>f'\<close>, over at least \<open>b\<close> tokens.\<close>

definition reads_on :: "nat \<Rightarrow> ast_file \<Rightarrow> ast_file \<Rightarrow> bool" where
  "reads_on b f f' \<longleftrightarrow>
     file_ok f' \<and> tokens f' = tokens f \<and> tokens_left f' + b \<le> tokens_left f \<and> syntax_errors f \<le> syntax_errors f' \<and>
     (syntax_errors f' = syntax_errors f \<longrightarrow> flags f' = flags f)"

definition ok_stop :: "parser_stop \<Rightarrow> bool" where
  "ok_stop e \<longleftrightarrow> e = Exit_With_Errors \<or> e = Crash"

text \<open>The result of a function, with the file somewhere in it.\<close>

definition ok_in :: "('a \<Rightarrow> ast_file) \<Rightarrow> nat \<Rightarrow> ast_file \<Rightarrow> parser_stop + 'a \<Rightarrow> bool" where
  "ok_in p b f r \<longleftrightarrow> (case r of Inl e \<Rightarrow> ok_stop e | Inr x \<Rightarrow> reads_on b f (p x))"

abbreviation ok_state :: "nat \<Rightarrow> ast_file \<Rightarrow> parser_stop + ast_file \<Rightarrow> bool" where
  "ok_state \<equiv> ok_in (\<lambda>f. f)"

abbreviation ok_result :: "nat \<Rightarrow> ast_file \<Rightarrow> 'a parsed \<Rightarrow> bool" where
  "ok_result \<equiv> ok_in snd"

lemma ok_simps [simp]:
  "ok_in p b f (Inr x) \<longleftrightarrow> reads_on b f (p x)" "ok_in p b f (Inl e) \<longleftrightarrow> ok_stop e"
  "ok_stop Exit_With_Errors" "ok_stop Crash" "\<not> ok_stop Never_Returns" "\<not> ok_stop Out_Of_Fuel"
  by (simp_all add: ok_in_def ok_stop_def)

lemma reads_on_refl: "file_ok f \<Longrightarrow> reads_on 0 f f"
  by (simp add: reads_on_def)

lemma reads_on_trans: "reads_on b f g \<Longrightarrow> reads_on c g h \<Longrightarrow> a \<le> b + c \<Longrightarrow> reads_on a f h"
  by (auto simp: reads_on_def)

lemma reads_on_ok: "reads_on b f g \<Longrightarrow> file_ok g"
  by (simp add: reads_on_def)

lemma reads_on_left: "reads_on b f g \<Longrightarrow> tokens_left g + b \<le> tokens_left f"
  by (simp add: reads_on_def)

lemma reads_on_weaken: "reads_on b f g \<Longrightarrow> a \<le> b \<Longrightarrow> reads_on a f g"
  by (auto simp: reads_on_def)

lemma ok_weaken: "ok_in p b f r \<Longrightarrow> a \<le> b \<Longrightarrow> ok_in p a f r"
  by (cases r) (auto intro: reads_on_weaken)

text \<open>Composition.\<close>

lemma ok_bind:
  assumes "ok_in p b f r" and "\<And>x. r = Inr x \<Longrightarrow> reads_on b f (p x) \<Longrightarrow> ok_in q a f (k x)"
  shows "ok_in q a f (bind_res r k)"
  using assms by (cases r) auto

lemma ok_from:
  assumes "reads_on b f g" and "ok_in p c g r" and "a \<le> b + c"
  shows "ok_in p a f r"
  using assms by (cases r) (auto intro: reads_on_trans)

text \<open>Flags that are set for a while.\<close>

definition like :: "ast_file \<Rightarrow> ast_file \<Rightarrow> bool" where
  "like f g \<longleftrightarrow>
     tokens g = tokens f \<and> curr_token_index g = curr_token_index f \<and> curr_token g = curr_token f \<and>
     syntax_errors g = syntax_errors f"

lemma like_simps [simp]:
  "like f f" "like f (f\<lparr>expr_level := l\<rparr>)" "like f (f\<lparr>allow_newline := b\<rparr>)" "like f (f\<lparr>allow_range := b\<rparr>)"
  "like f (f\<lparr>allow_newline := b, expr_level := l\<rparr>)" "like f (f\<lparr>expr_level := l, allow_newline := b\<rparr>)"
  "like f (f\<lparr>allow_range := b, expr_level := l\<rparr>)"
  by (simp_all add: like_def)

lemma like_ok: "like f g \<Longrightarrow> file_ok f \<Longrightarrow> file_ok g"
  by (simp add: like_def file_ok_def)

lemma like_left: "like f g \<Longrightarrow> tokens_left g = tokens_left f"
  by (simp add: like_def tokens_left_def)

lemma reads_on_flags:
  assumes "like f g" and "reads_on b g g'" and "like g' h" and "flags g' = flags g \<Longrightarrow> flags h = flags f"
  shows "reads_on b f h"
  using assms like_left [OF assms(1)] like_left [OF assms(3)] like_ok [OF assms(3)]
  by (auto simp: reads_on_def like_def)

subsection \<open>The cursor\<close>

lemma not_last: "file_ok f \<Longrightarrow> curr_kind f \<noteq> Token_EOF \<Longrightarrow> curr_token_index f + 1 < length (tokens f)"
  by (auto simp: file_ok_def curr_kind_def)

lemma reads_on_error [simp]: "file_ok f \<Longrightarrow> reads_on 0 f (syntax_error f)"
  by (simp add: reads_on_def syntax_error_def file_ok_def tokens_left_def)

lemma reads_on_error_if [simp]: "file_ok f \<Longrightarrow> reads_on 0 f (syntax_error_if b f)"
  by (simp add: syntax_error_if_def reads_on_refl)

lemma file_ok_error [simp]: "file_ok (syntax_error f) = file_ok f" "file_ok (syntax_error_if b f) = file_ok f"
  by (simp_all add: syntax_error_if_def syntax_error_def file_ok_def)

lemma curr_kind_error [simp]:
  "curr_kind (syntax_error f) = curr_kind f" "curr_kind (syntax_error_if b f) = curr_kind f"
  by (simp_all add: syntax_error_if_def syntax_error_def curr_kind_def)

lemma tokens_left_error_if [simp]: "tokens_left (syntax_error_if b f) = tokens_left f"
  by (simp add: syntax_error_if_def)

lemma next_token0_reads:
  assumes "file_ok f" and "next_token0 f = (ok, g)"
  shows "reads_on (if ok then 1 else 0) f g" and "curr_kind f \<noteq> Token_EOF \<Longrightarrow> ok"
  using assms not_last [OF assms(1)]
  by (auto simp: next_token0_def reads_on_def file_ok_def tokens_left_def flags_def syntax_error_def split: if_splits)

lemma consume_comments_ok:
  "file_ok f \<Longrightarrow> ok_result 0 f (consume_comments n acc el f)"
proof (induction n acc el f rule: consume_comments.induct)
  case (1 n acc el f)
  show ?case
  proof (cases "curr_kind f = Token_Comment \<and> line (pos (curr_token f)) \<le> el + n")
    case True
    obtain ok tok el' g where c: "consume_comment f = (ok, tok, el', g)" by (metis prod_cases4)
    then have g: "next_token0 f = (ok, g)" by (auto simp: consume_comment_def Let_def split: prod.splits)
    have "ok" using next_token0_reads(2) [OF 1(2) g] True by simp
    with next_token0_reads(1) [OF 1(2) g] have r: "reads_on 1 f g" by simp
    have "ok_result 0 g (consume_comments n (acc @ [tok]) el' g)"
      using 1(1) [OF True, of "(ok, tok, el', g)"] c \<open>ok\<close> reads_on_ok [OF r] by simp
    with ok_from [OF r this, of 0] True c \<open>ok\<close> show ?thesis by (simp add: consume_comments.simps [of n acc el f])
  next
    case False
    show ?thesis
      unfolding consume_comments.simps [of n acc el f] if_not_P [OF False] using 1(2) by (simp add: reads_on_refl)
  qed
qed

lemma reads_on_comments [simp]:
  "reads_on b f (g\<lparr>comments := c\<rparr>) \<longleftrightarrow> reads_on b f g" "reads_on b f (g\<lparr>line_comment := d\<rparr>) \<longleftrightarrow> reads_on b f g"
  "reads_on b f (g\<lparr>lead_comment := d\<rparr>) \<longleftrightarrow> reads_on b f g" "reads_on b f (g\<lparr>fix_count := m\<rparr>) \<longleftrightarrow> reads_on b f g"
  "reads_on b f (g\<lparr>fix_prev_pos := p\<rparr>) \<longleftrightarrow> reads_on b f g"
  by (simp_all add: reads_on_def file_ok_def tokens_left_def flags_def)

lemma consume_comment_group_ok: "file_ok f \<Longrightarrow> ok_result 0 f (consume_comment_group f n)"
  unfolding consume_comment_group_def Let_def
  by (rule ok_bind [where b = 0]) (auto intro: consume_comments_ok)

lemma comment_groups_ok: "file_ok f \<Longrightarrow> ok_result 0 f (comment_groups c el f)"
proof (induction c el f rule: comment_groups.induct)
  case (1 c el f)
  show ?case
  proof (cases "curr_kind f = Token_Comment")
    case True
    have "ok_result 0 f (comment_groups (fst r) (snd r) g)"
      if "consume_comment_group f 1 = Inr (r, g)" "reads_on 0 f g" "file_ok g" for r g
      by (rule ok_from [OF that(2) 1(1) [OF True that(1) refl that(3)]]) simp
    then have "ok_result 0 f (bind_res (consume_comment_group f 1) (\<lambda>(g, f). comment_groups (fst g) (snd g) f))"
      by (intro ok_bind [OF consume_comment_group_ok [OF 1(2), of 1]]) (auto simp: split_beta reads_on_ok)
    then show ?thesis unfolding comment_groups.simps [of c el f] if_P [OF True] .
  next
    case False
    with 1(2) show ?thesis by (simp add: comment_groups.simps [of c el f] reads_on_refl)
  qed
qed

lemma ok_then:
  assumes "reads_on b f g" and "file_ok g \<Longrightarrow> ok_in p c g r" and "a \<le> b + c"
  shows "ok_in p a f r"
  by (rule ok_from [OF assms(1) assms(2) [OF reads_on_ok [OF assms(1)]] assms(3)])

lemma consume_comment_groups_ok:
  assumes "file_ok f"
  shows "ok_state 0 f (consume_comment_groups f prev)"
proof -
  define line_group :: "token list option parsed" where
    "line_group =
       (if line (pos (curr_token f)) = line (pos prev) then
          bind_res (consume_comment_group f 0) (\<lambda>((comment, end_line), f).
            let l = line (pos (curr_token f)) in
            Inr (comment, if l \<noteq> end_line \<or> l = line (pos prev) + 1 \<or> curr_kind f = Token_EOF
                          then f\<lparr>line_comment := comment\<rparr> else f))
        else Inr (None, f))"
  have "ok_result 0 f line_group"
    unfolding line_group_def Let_def
    by (auto intro!: ok_bind [OF consume_comment_group_ok [OF assms]] reads_on_refl [OF assms])
  then have "ok_state 0 f (bind_res line_group (\<lambda>(comment, f).
      bind_res (comment_groups comment (-1) f) (\<lambda>((comment, end_line), f).
        let f = (if end_line + 1 = line (pos (curr_token f)) \<or> end_line < 0 then f\<lparr>lead_comment := comment\<rparr> else f)
        in if curr_kind f = Token_Comment then Inl Crash else Inr f)))"
    by (rule ok_bind) (auto intro!: ok_bind [OF ok_then [OF _ comment_groups_ok]] simp: Let_def)
  then show ?thesis
    using reads_on_refl [OF assms] by (simp add: consume_comment_groups_def line_group_def)
qed

lemma advance_token_ok:
  assumes "file_ok f"
  shows "ok_result (if curr_kind f = Token_EOF then 0 else 1) f (advance_token f)"
  using assms
proof (induction f rule: measure_induct_rule [of tokens_left])
  case (less f)
  note 1 = less
  define f1 where
    "f1 = f\<lparr>lead_comment := None, line_comment := None, prev_token_index := curr_token_index f, prev_token := curr_token f\<rparr>"
  obtain ok f2 where f2: "next_token0 f1 = (ok, f2)" by (cases "next_token0 f1")
  let ?b = "if curr_kind f = Token_EOF then 0 else 1 :: nat"
  have f1: "file_ok f1" "curr_kind f1 = curr_kind f" "reads_on b f g \<longleftrightarrow> reads_on b f1 g" for b g
    using 1(2) by (simp_all add: f1_def file_ok_def curr_kind_def reads_on_def tokens_left_def flags_def)
  have r: "reads_on (if ok then 1 else 0) f f2" and ok: "curr_kind f \<noteq> Token_EOF \<Longrightarrow> ok"
    using next_token0_reads [OF f1(1) f2] f1 by auto
  show ?case
  proof (cases ok)
    case False
    then show ?thesis
      using r ok by (cases "curr_kind f = Token_EOF") (auto simp: advance_token.simps [of f] f1_def [symmetric] f2)
  next
    case True
    let ?rest = "\<lambda>f3. if token_is_newline (curr_token f3) \<and> ignore_newlines f3
      then bind_res (advance_token f3) (\<lambda>(t, f4). Inr (curr_token f, f4)) else Inr (curr_token f, f3)"
    have rest: "ok_result 1 f (?rest f3)"
      if r3: "reads_on 1 f f3" for f3
    proof -
      have "ok_result 0 f3 (advance_token f3)" if "token_is_newline (curr_token f3) \<and> ignore_newlines f3"
        using 1(1) [of f3] reads_on_left [OF r3] reads_on_ok [OF r3] by (auto intro: ok_weaken)
      then show ?thesis using r3 by (auto intro!: ok_bind [where b = 1, OF ok_from [OF r3]])
    qed
    have "ok_result 1 f (bind_res (consume_comment_groups f2 (curr_token f)) ?rest)"
    proof (rule ok_bind)
      show "ok_state 1 f (consume_comment_groups f2 (curr_token f))"
        using r True by (intro ok_then [where b = 1 and c = 0, OF _ consume_comment_groups_ok]) auto
    qed (rule rest)
    then have "ok_result 1 f (advance_token f)"
      using True by (simp add: advance_token.simps [of f] f1_def [symmetric] f2 Let_def)
    then show ?thesis by (auto intro: ok_weaken)
  qed
qed

lemma advance_token_ok0: "file_ok f \<Longrightarrow> ok_result 0 f (advance_token f)"
  using advance_token_ok [of f] by (auto intro: ok_weaken)

lemma advance_token_ok1: "file_ok f \<Longrightarrow> curr_kind f \<noteq> Token_EOF \<Longrightarrow> ok_result 1 f (advance_token f)"
  using advance_token_ok [of f] by simp

lemma advance_after:
  assumes "reads_on b f g" and "curr_kind g \<noteq> Token_EOF"
  shows "ok_result (b + 1) f (advance_token g)"
  by (rule ok_then [OF assms(1) advance_token_ok1 [OF _ assms(2)]]) simp_all

lemma advance_after0: "reads_on b f g \<Longrightarrow> ok_result b f (advance_token g)"
  by (rule ok_then [where c = 0, OF _ advance_token_ok0]) auto

lemma advance_error_ok:
  assumes "file_ok f"
  shows "ok_result 0 f (advance_token (syntax_error_if e f))" "ok_result 0 f (advance_token (syntax_error f))"
    and "curr_kind f \<noteq> Token_EOF \<Longrightarrow> ok_result 1 f (advance_token (syntax_error_if e f))"
    and "curr_kind f \<noteq> Token_EOF \<Longrightarrow> ok_result 1 f (advance_token (syntax_error f))"
  using assms advance_after [of 0 f "syntax_error_if e f"] advance_after [of 0 f "syntax_error f"]
  by (auto intro!: advance_after0)

lemma expect_token_ok:
  assumes "file_ok f" and "k \<noteq> Token_EOF"
  shows "ok_result 1 f (expect_token k f)"
proof (cases "curr_kind f = Token_EOF")
  case True
  with assms(2) show ?thesis by (simp add: expect_token_def curr_kind_def)
next
  case False
  with advance_error_ok(4) [OF assms(1)] advance_token_ok1 [OF assms(1)]
  show ?thesis by (auto simp: expect_token_def Let_def curr_kind_def intro!: ok_bind)
qed

lemma allow_token_ok:
  assumes "file_ok f"
  shows "ok_result 0 f (allow_token k f)"
    and "k \<noteq> Token_EOF \<Longrightarrow> allow_token k f = Inr (True, g) \<Longrightarrow> reads_on 1 f g"
    and "allow_token k f = Inr (False, g) \<Longrightarrow> g = f \<and> curr_kind f \<noteq> k"
  using advance_token_ok0 [OF assms] advance_token_ok1 [OF assms] reads_on_refl [OF assms]
  by (auto simp: allow_token_def elim!: bind_res_InrE intro!: ok_bind split: if_splits)

lemma skip_possible_newline_ok: "file_ok f \<Longrightarrow> ok_result 0 f (skip_possible_newline f)"
  using advance_token_ok0 [of f] reads_on_refl [of f] by (auto simp: skip_possible_newline_def intro!: ok_bind)

lemma expect_operator_ok:
  assumes "file_ok f" and "curr_kind f \<noteq> Token_EOF"
  shows "ok_result 1 f (expect_operator f)"
proof -
  have "reads_on 0 f (syntax_error_if e2 (syntax_error_if e1 f))" for e1 e2
    using assms(1) by (intro reads_on_trans [where b = 0 and c = 0, OF reads_on_error_if reads_on_error_if]) simp_all
  then have "ok_result 1 f (advance_token (syntax_error_if e2 (syntax_error_if e1 f)))" for e1 e2
    using advance_after [of 0 f] assms(2) by fastforce
  then show ?thesis by (auto simp: expect_operator_def Let_def intro!: ok_bind)
qed

lemma expect_closing_ok:
  assumes "file_ok f" and "k \<noteq> Token_EOF"
  shows "ok_result 1 f (expect_closing k f)"
proof (cases "curr_kind f \<noteq> k \<and> token_is_newline (curr_token f)")
  case True
  have "ok_result 1 f (expect_token k g)" if "reads_on 0 f g" for g
    by (rule ok_then [OF that expect_token_ok [OF _ assms(2)]]) simp_all
  then have "ok_result 1 f (bind_res (advance_token (syntax_error_if (allow_newline f) f)) (\<lambda>(t, f). expect_token k f))"
    by (intro ok_bind [OF advance_error_ok(1) [OF assms(1)]]) auto
  then show ?thesis unfolding expect_closing_def if_P [OF True] .
next
  case False
  show ?thesis unfolding expect_closing_def if_not_P [OF False] by (rule expect_token_ok [OF assms])
qed

text \<open>A field separator is a token read over.\<close>

lemma allow_field_separator_ok:
  assumes "file_ok f"
  shows "ok_result 0 f (allow_field_separator f)"
    and "allow_field_separator f = Inr (True, g) \<Longrightarrow> reads_on 1 f g"
proof -
  define sep where "sep = (\<lambda>e f. bind_res (advance_token (syntax_error_if e f)) (\<lambda>(t, f). Inr (True, f :: ast_file)))"
  have sep: "curr_kind f \<noteq> Token_EOF \<Longrightarrow> ok_result 1 f (sep e f)" for e
    unfolding sep_def using advance_error_ok(3) [OF assms] by (auto intro!: ok_bind)
  define e where "e = (\<lambda>f'. \<not> (file_allow_newline f' \<and> token_is_newline (curr_token f) \<and>
    (case peek_token f' of None \<Rightarrow> False
     | Some t \<Rightarrow> tkind t = Delimiter Token_CloseBrace \<or> tkind t = Delimiter Token_CloseParen)))"
  have a: "allow_field_separator f =
    bind_res (allow_token (Delimiter Token_Comma) f) (\<lambda>(b, f').
      if b then Inr (True, f') else if curr_kind f = Delimiter Token_Semicolon then sep (e f') f' else Inr (False, f'))"
    unfolding allow_field_separator_def sep_def Let_def curr_kind_def e_def by (rule refl)
  note comma = allow_token_ok [OF assms, of "Delimiter Token_Comma"]
  show "ok_result 0 f (allow_field_separator f)"
    unfolding a
  proof (rule ok_bind [OF comma(1)], goal_cases)
    case (1 x)
    then show ?case
      using comma(3) [of "snd x"] ok_weaken [OF sep, of 0] by (cases x) auto
  qed
  show "reads_on 1 f g" if "allow_field_separator f = Inr (True, g)"
  proof -
    from that [unfolded a] obtain b f' where bf: "allow_token (Delimiter Token_Comma) f = Inr (b, f')"
      and rest: "(if b then Inr (True, f') else if curr_kind f = Delimiter Token_Semicolon then sep (e f') f' else Inr (False, f')) = Inr (True, g)"
      by (auto elim!: bind_res_InrE)
    show ?thesis
    proof (cases b)
      case True
      with bf rest comma(2) [of f'] show ?thesis by simp
    next
      case False
      with bf comma(3) [of f'] have "f' = f" by simp
      with False rest sep [of "e f"] show ?thesis by (auto split: if_splits)
    qed
  qed
qed

lemma fix_advance_ok: "file_ok f \<Longrightarrow> ok_state 0 f (fix_advance_to_next_stmt f)"
proof (induction f rule: measure_induct_rule [of tokens_left])
  case (less f)
  show ?case
  proof (cases "curr_kind f = Token_EOF")
    case False
    have "ok_state 0 f (if tokens_left g < tokens_left f then fix_advance_to_next_stmt g else Inl Never_Returns)"
      if "reads_on 1 f g" for g
      using less(1) [OF _ reads_on_ok [OF that]] reads_on_left [OF that] by (auto intro: ok_from [OF that])
    then have "ok_state 0 f (bind_res (advance_token f)
        (\<lambda>(t, g). if tokens_left g < tokens_left f then fix_advance_to_next_stmt g else Inl Never_Returns))"
      by (intro ok_bind [OF advance_token_ok1 [OF less(2) False]]) auto
    then show ?thesis
      using reads_on_refl [OF less(2)] by (simp add: fix_advance_to_next_stmt.simps [of f] Let_def)
  qed (simp add: fix_advance_to_next_stmt.simps [of f] reads_on_refl less(2))
qed

end
