(* ===== verification/Parser_Contract.thy ===== *)
theory Parser_Contract
  imports Parser_Progress
begin

text \<open>
  Every function of the expression parser keeps the contract of \<open>Parser_Progress\<close>, if the parser of
  expressions it calls does on what is left of the file, and the parsers of types and of the other operands do.
\<close>

declare One_nat_def [simp del]

definition others_ok :: "parsers \<Rightarrow> bool" where
  "others_ok X \<longleftrightarrow>
     (\<forall>f. file_ok f \<longrightarrow> ok_result 0 f (parse_type X f)) \<and>
     (\<forall>lhs f. file_ok f \<longrightarrow> ok_result 0 f (parse_other_operand X lhs f))"

text \<open>A parser of expressions for files with fewer than \<open>n\<close> tokens, the current one included, behind the cursor.\<close>

definition expr_ok :: "expr_parser \<Rightarrow> nat \<Rightarrow> bool" where
  "expr_ok pb n \<longleftrightarrow>
     (\<forall>lhs prec f. file_ok f \<longrightarrow> 1 \<le> prec \<longrightarrow> tokens_left f + 1 < n \<longrightarrow> ok_result 0 f (pb lhs prec f))"

subsection \<open>Steps\<close>

text \<open>
  The functions of the cursor as steps of a longer run from \<open>f\<close>, now at \<open>g\<close>: whether a token has been read
  over since \<open>f\<close> is all that is kept.
\<close>

named_theorems parser_steps

lemma ok_seq:
  assumes "ok_in p b g r" and "\<And>x. reads_on b g (p x) \<Longrightarrow> ok_in q a f (k x)"
  shows "ok_in q a f (bind_res r k)"
  using assms by (cases r) auto

lemma reads_on_0 [simp]: "reads_on 1 f g \<Longrightarrow> reads_on 0 f g"
  by (rule reads_on_weaken) simp_all

lemma strict_step:
  assumes "reads_on 0 f g" and "file_ok g \<Longrightarrow> ok_in p 1 g r" and "\<And>x. reads_on 1 f (p x) \<Longrightarrow> ok_in q a f (k x)"
  shows "ok_in q a f (bind_res r k)"
proof (rule ok_seq [OF assms(2) [OF reads_on_ok [OF assms(1)]]])
  fix x assume "reads_on 1 g (p x)"
  then show "ok_in q a f (k x)" by (intro assms(3) reads_on_trans [OF assms(1), of 1]) simp_all
qed

lemma weak_step:
  assumes "reads_on 0 f g" and "file_ok g \<Longrightarrow> ok_in p 0 g r"
    and "\<And>x. reads_on 0 f (p x) \<Longrightarrow> (reads_on 1 f g \<Longrightarrow> reads_on 1 f (p x)) \<Longrightarrow> ok_in q a f (k x)"
  shows "ok_in q a f (bind_res r k)"
proof (rule ok_seq [OF assms(2) [OF reads_on_ok [OF assms(1)]]])
  fix x assume "reads_on 0 g (p x)"
  then show "ok_in q a f (k x)"
    by (intro assms(3)) (auto intro: reads_on_trans [OF assms(1)] reads_on_trans [of 1 f g 0])
qed

lemma expect_then [parser_steps]:
  assumes "reads_on 0 f g" and "k \<noteq> Token_EOF" and "\<And>t h. reads_on 1 f h \<Longrightarrow> ok_in q a f (c (t, h))"
  shows "ok_in q a f (bind_res (expect_token k g) c)"
  by (rule strict_step [OF assms(1) expect_token_ok [OF _ assms(2)]]) (auto intro: assms(3))

lemma closing_then [parser_steps]:
  assumes "reads_on 0 f g" and "k \<noteq> Token_EOF" and "\<And>t h. reads_on 1 f h \<Longrightarrow> ok_in q a f (c (t, h))"
  shows "ok_in q a f (bind_res (expect_closing k g) c)"
  by (rule strict_step [OF assms(1) expect_closing_ok [OF _ assms(2)]]) (auto intro: assms(3))

lemma advance_then:
  assumes "reads_on 0 f g" and "curr_kind g \<noteq> Token_EOF" and "\<And>t h. reads_on 1 f h \<Longrightarrow> ok_in q a f (c (t, h))"
  shows "ok_in q a f (bind_res (advance_token g) c)"
  by (rule strict_step [OF assms(1) advance_token_ok1 [OF _ assms(2)]]) (auto intro: assms(3))

lemma advance_any_then:
  assumes "reads_on 0 f g"
    and "\<And>t h. reads_on 0 f h \<Longrightarrow> (reads_on 1 f g \<Longrightarrow> reads_on 1 f h) \<Longrightarrow> ok_in q a f (c (t, h))"
  shows "ok_in q a f (bind_res (advance_token g) c)"
  by (rule weak_step [OF assms(1) advance_token_ok0]) (auto intro: assms(2))

lemma operator_then:
  assumes "reads_on 0 f g" and "curr_kind g \<noteq> Token_EOF" and "\<And>t h. reads_on 1 f h \<Longrightarrow> ok_in q a f (c (t, h))"
  shows "ok_in q a f (bind_res (expect_operator g) c)"
  by (rule strict_step [OF assms(1) expect_operator_ok [OF _ assms(2)]]) (auto intro: assms(3))

lemma newline_then [parser_steps]:
  assumes "reads_on 0 f g"
    and "\<And>t h. reads_on 0 f h \<Longrightarrow> (reads_on 1 f g \<Longrightarrow> reads_on 1 f h) \<Longrightarrow> ok_in q a f (c (t, h))"
  shows "ok_in q a f (bind_res (skip_possible_newline g) c)"
  by (rule weak_step [OF assms(1) skip_possible_newline_ok]) (auto intro: assms(2))

lemma fix_then [parser_steps]:
  assumes "reads_on 0 f g"
    and "\<And>h. reads_on 0 f h \<Longrightarrow> (reads_on 1 f g \<Longrightarrow> reads_on 1 f h) \<Longrightarrow> ok_in q a f (c h)"
  shows "ok_in q a f (bind_res (fix_advance_to_next_stmt g) c)"
  by (rule weak_step [OF assms(1) fix_advance_ok]) (auto intro: assms(2))

lemma parse_ident_ok: "file_ok f \<Longrightarrow> ok_result 1 f (parse_ident f)"
  using expect_token_ok [of f "Literal Token_Ident"] advance_token_ok1 [of f]
  by (auto simp: parse_ident_def Let_def curr_kind_def intro!: ok_bind)

lemma ident_then [parser_steps]:
  assumes "reads_on 0 f g" and "\<And>t h. reads_on 1 f h \<Longrightarrow> ok_in q a f (c (t, h))"
  shows "ok_in q a f (bind_res (parse_ident g) c)"
  by (rule strict_step [OF assms(1) parse_ident_ok]) (auto intro: assms(2))

lemma separator_then [parser_steps]:
  assumes "reads_on 0 f g" and "\<And>h. reads_on 1 f h \<Longrightarrow> reads_on 1 g h \<Longrightarrow> ok_in q a f (c (True, h))"
    and "\<And>h. reads_on 0 f h \<Longrightarrow> (reads_on 1 f g \<Longrightarrow> reads_on 1 f h) \<Longrightarrow> ok_in q a f (c (False, h))"
  shows "ok_in q a f (bind_res (allow_field_separator g) c)"
proof (cases "allow_field_separator g")
  case (Inl e)
  with allow_field_separator_ok(1) [OF reads_on_ok [OF assms(1)]] show ?thesis by simp
next
  case (Inr x)
  have r: "reads_on 0 g (snd x)" using allow_field_separator_ok(1) [OF reads_on_ok [OF assms(1)]] Inr by simp
  show ?thesis
  proof (cases "fst x")
    case True
    with Inr allow_field_separator_ok(2) [OF reads_on_ok [OF assms(1)]] have g: "reads_on 1 g (snd x)" by (cases x) simp
    with assms(1) have "reads_on 1 f (snd x)" by (auto intro: reads_on_trans)
    with True Inr g assms(2) show ?thesis by (cases x) simp
  next
    case False
    have "reads_on 0 f (snd x)" "reads_on 1 f g \<Longrightarrow> reads_on 1 f (snd x)"
      using r by (auto intro: reads_on_trans [OF assms(1)] reads_on_trans [of 1 f g 0])
    with False Inr assms(3) show ?thesis by (cases x) simp
  qed
qed

lemma reads_on_error_step [simp]:
  "reads_on b f g \<Longrightarrow> reads_on b f (syntax_error g)" "reads_on b f g \<Longrightarrow> reads_on b f (syntax_error_if e g)"
  by (auto intro: reads_on_trans [OF _ reads_on_error] reads_on_trans [OF _ reads_on_error_if] reads_on_ok)

lemma if_step [parser_steps]:
  "(b \<Longrightarrow> ok_in q a f (bind_res r c)) \<Longrightarrow> (\<not> b \<Longrightarrow> ok_in q a f (bind_res s c)) \<Longrightarrow>
     ok_in q a f (bind_res (if b then r else s) c)"
  by simp

lemma if_ok [parser_steps]:
  "(b \<Longrightarrow> ok_in q a f r) \<Longrightarrow> (\<not> b \<Longrightarrow> ok_in q a f s) \<Longrightarrow> ok_in q a f (if b then r else s)"
  by simp

text \<open>How much of the file is left.\<close>

lemma left_less:
  "reads_on 1 f g \<Longrightarrow> tokens_left f < n \<Longrightarrow> tokens_left g + 1 < n"
  "reads_on b f g \<Longrightarrow> tokens_left f + 1 < n \<Longrightarrow> tokens_left g + 1 < n"
  "reads_on b f g \<Longrightarrow> tokens_left f < n \<Longrightarrow> tokens_left g < n"
  by (auto dest: reads_on_left)

subsection \<open>Values\<close>

lemma expr_then:
  assumes "expr_ok pb n" and "reads_on 0 f g" and "tokens_left g + 1 < n"
    and "\<And>e h. reads_on 0 f h \<Longrightarrow> (reads_on 1 f g \<Longrightarrow> reads_on 1 f h) \<Longrightarrow> ok_in q a f (c (e, h))"
  shows "ok_in q a f (bind_res (parse_expr pb lhs g) c)"
  by (rule weak_step [OF assms(2)])
     (use assms(1,3) in \<open>auto simp: parse_expr_def expr_ok_def intro: assms(4)\<close>)

lemma value_ok:
  assumes "expr_ok pb n" and "file_ok g" and "tokens_left g + 1 < n"
  shows "ok_result 0 g (parse_value pb g)"
proof -
  let ?g = "g\<lparr>allow_range := True\<rparr>"
  have l: "like g ?g" by simp
  have "ok_result 0 g (bind_res (parse_expr pb False ?g) (\<lambda>(e, h). Inr (e, h\<lparr>allow_range := allow_range g\<rparr>)))"
  proof (rule ok_seq)
    show "ok_result 0 ?g (parse_expr pb False ?g)"
      using assms(1,3) like_ok [OF l assms(2)] like_left [OF l] by (simp add: parse_expr_def expr_ok_def)
    fix x :: "ast option \<times> ast_file"
    assume "reads_on 0 ?g (snd x)"
    from reads_on_flags [OF l this, of "snd x\<lparr>allow_range := allow_range g\<rparr>"]
    show "ok_result 0 g (case x of (e, h) \<Rightarrow> Inr (e, h\<lparr>allow_range := allow_range g\<rparr>))"
      by (cases x) (auto simp: flags_def)
  qed
  then show ?thesis by (simp add: parse_value_def Let_def)
qed

lemma value_then:
  assumes "expr_ok pb n" and "reads_on 0 f g" and "tokens_left g + 1 < n"
    and "\<And>e h. reads_on 0 f h \<Longrightarrow> (reads_on 1 f g \<Longrightarrow> reads_on 1 f h) \<Longrightarrow> ok_in q a f (c (e, h))"
  shows "ok_in q a f (bind_res (parse_value pb g) c)"
  by (rule weak_step [OF assms(2) value_ok [OF assms(1) _ assms(3)]]) (auto intro: assms(4))

lemma element_list_ok:
  assumes "expr_ok pb n"
  shows "file_ok f \<Longrightarrow> tokens_left f + 1 < n \<Longrightarrow> tokens_left f < m \<Longrightarrow> ok_result 0 f (parse_element_list pb m elems f)"
proof (induction m arbitrary: f elems)
  case (Suc m)
  have rest: "ok_result 0 f (parse_element_list pb m es h)" if r: "reads_on 1 f h" for h es
    by (rule ok_from [OF r Suc.IH [OF reads_on_ok [OF r]]]) (use reads_on_left [OF r] Suc.prems in auto)
  have left: "reads_on 0 f g \<Longrightarrow> tokens_left g + 1 < n" for g using left_less(2) Suc.prems by blast
  show ?case
    unfolding parse_element_list.simps bind_res_assoc
    by (auto intro!: parser_steps value_then [OF assms] rest left simp: bind_res_assoc Let_def reads_on_refl Suc.prems)
qed simp

text \<open>What is built from a part of the file that is behind a first token.\<close>

lemma literal_value_ok:
  assumes "expr_ok pb n" and "file_ok f" and "tokens_left f < n" and "tokens_left f \<le> m"
  shows "ok_result 1 f (parse_literal_value pb m ty f)"
proof -
  have "ok_result 1 f
     (let level = expr_level g; g = g\<lparr>expr_level := 0\<rparr> in
      bind_res (if curr_kind g \<noteq> Delimiter Token_CloseBrace then parse_element_list pb m [] g else Inr ([], g)) (\<lambda>(elems, f).
      bind_res (expect_closing (Delimiter Token_CloseBrace) (f\<lparr>expr_level := level\<rparr>)) (\<lambda>(close, f).
      Inr (Ast_CompoundLit ty elems tok close, f))))"
    if r: "reads_on 1 f g" for g tok
  proof -
    let ?g = "g\<lparr>expr_level := 0\<rparr>"
    have l: "like g ?g" by simp
    have g: "file_ok ?g" "tokens_left ?g + 1 < n" "tokens_left ?g < m"
      using like_ok [OF l reads_on_ok [OF r]] like_left [OF l] reads_on_left [OF r] assms(3,4) by auto
    have close: "ok_result 1 f (bind_res (expect_closing (Delimiter Token_CloseBrace) (h\<lparr>expr_level := expr_level g\<rparr>))
        (\<lambda>(close, f). Inr (Ast_CompoundLit ty elems tok close, f)))"
      if "reads_on 0 ?g h" for h elems
    proof -
      have "reads_on 0 g (h\<lparr>expr_level := expr_level g\<rparr>)"
        by (rule reads_on_flags [OF l that]) (auto simp: flags_def)
      then have "reads_on 1 f (h\<lparr>expr_level := expr_level g\<rparr>)" by (intro reads_on_trans [OF r, of 0]) simp_all
      then show ?thesis by (auto intro!: parser_steps)
    qed
    have "ok_result 0 ?g (if curr_kind ?g \<noteq> Delimiter Token_CloseBrace then parse_element_list pb m [] ?g else Inr ([], ?g))"
      using element_list_ok [OF assms(1) g] reads_on_refl [OF g(1)] by simp
    then show ?thesis unfolding Let_def by (rule ok_seq) (auto intro: close)
  qed
  then show ?thesis
    unfolding parse_literal_value_def by (auto intro!: parser_steps simp: reads_on_refl assms(2))
qed

subsection \<open>Calls\<close>

lemma call_args_ok:
  assumes "expr_ok pb n"
  shows "file_ok f \<Longrightarrow> tokens_left f + 1 < n \<Longrightarrow> tokens_left f < m \<Longrightarrow> ok_result 0 f (call_args pb m args el seen f)"
proof (induction m arbitrary: f args el seen)
  case (Suc m)
  have rest: "ok_result 0 f (call_args pb m as el' seen' h)" if r: "reads_on 1 f h" for h as el' seen'
    by (rule ok_from [OF r Suc.IH [OF reads_on_ok [OF r]]]) (use reads_on_left [OF r] Suc.prems in auto)
  have left: "reads_on 0 f g \<Longrightarrow> tokens_left g + 1 < n" for g using left_less(2) Suc.prems by blast
  show ?case
    unfolding call_args.simps Let_def
    by (auto intro!: parser_steps expr_then [OF assms] value_then [OF assms] rest left
        simp: bind_res_assoc reads_on_refl Suc.prems)
qed simp

lemma call_expr_ok:
  assumes "expr_ok pb n" and "file_ok f" and "tokens_left f < n" and "tokens_left f \<le> m"
  shows "ok_result 1 f (parse_call_expr pb m operand f)"
proof -
  let ?f = "f\<lparr>expr_level := 0, allow_newline := file_allow_newline f\<rparr>"
  let ?restored = "\<lambda>h. h\<lparr>allow_newline := allow_newline f, expr_level := expr_level f\<rparr>"
  have l: "like f ?f" by simp
  have f: "file_ok ?f" by (rule like_ok [OF l assms(2)])
  have left: "tokens_left ?f < n" "tokens_left ?f \<le> m" using assms(3,4) like_left [OF l] by simp_all
  have again: "reads_on 1 f (?restored h)" if "reads_on 1 ?f h" for h
    by (rule reads_on_flags [OF l that]) (auto simp: flags_def)
  have args: "ok_result 1 ?f (call_args pb m [] None False g)" if r: "reads_on 1 ?f g" for g
    by (rule ok_from [OF r call_args_ok [OF assms(1) reads_on_ok [OF r]]]) (use reads_on_left [OF r] left in auto)
  show ?thesis
    unfolding parse_call_expr_def Let_def
  proof (rule ok_seq [OF expect_token_ok [OF f]], simp, clarsimp, rule ok_seq, erule args, clarsimp)
  qed (auto dest!: again intro!: parser_steps)
qed

subsection \<open>Postfix operators\<close>

lemma reads_on_after_error:
  "like f g \<Longrightarrow> reads_on b g h \<Longrightarrow> syntax_errors g < syntax_errors h \<Longrightarrow> reads_on b f h"
  by (auto simp: reads_on_def like_def tokens_left_def)

lemma bracket_indices_ok:
  assumes "expr_ok pb n" and "file_ok f" and "tokens_left f + 1 < n"
  shows "ok_result 0 f (bracket_indices pb f)"
proof -
  have left: "reads_on 0 f g \<Longrightarrow> tokens_left g + 1 < n" for g using left_less(2) assms(3) by blast
  show ?thesis
    unfolding bracket_indices_def Let_def
    by (auto intro!: parser_steps expr_then [OF assms(1)] advance_any_then left simp: reads_on_refl assms)
qed

text \<open>
  Within brackets the level of nesting is one higher. Where it is not lowered again an error has been reported.
\<close>

lemma bracket_body_ok:
  assumes "expr_ok pb n" and "file_ok f" and "tokens_left f < n"
  shows "ok_result 1 f (bracket_body pb operand f)"
proof -
  let ?f = "f\<lparr>expr_level := expr_level f + 1\<rparr>"
  have l: "like f ?f" by simp
  have f: "file_ok ?f" by (rule like_ok [OF l assms(2)])
  have empty: "ok_result 1 f (bind_res (expect_token (Delimiter Token_CloseBracket) (syntax_error g)) (\<lambda>(close, h).
      Inr (Ast_IndexExpr operand None tok close, h)))"
    if g: "reads_on 1 ?f g" for g tok
  proof (rule ok_seq [OF expect_token_ok [of "syntax_error g"]])
    fix x :: "token \<times> ast_file" assume x: "reads_on 1 (syntax_error g) (snd x)"
    have "reads_on 1 ?f (snd x)" by (rule reads_on_trans [OF reads_on_error_step(1) [OF g] x]) simp
    moreover have "syntax_errors ?f < syntax_errors (snd x)"
      using g x by (auto simp: reads_on_def syntax_error_def)
    ultimately have "reads_on 1 f (snd x)" by (rule reads_on_after_error [OF l])
    then show "ok_result 1 f (case x of (close, h) \<Rightarrow> Inr (Ast_IndexExpr operand None tok close, h))"
      by (cases x) simp
  qed (simp_all add: reads_on_ok [OF g])
  have indices: "ok_result 1 f (bind_res (bracket_indices pb g) (\<lambda>(indices, h).
      bind_res (expect_token (Delimiter Token_CloseBracket) (h\<lparr>expr_level := expr_level h - 1\<rparr>)) (\<lambda>(close, h).
      Inr (bracket_node operand tok close indices h))))"
    if g: "reads_on 1 ?f g" for g tok
  proof -
    have "tokens_left g + 1 < n" using reads_on_left [OF g] like_left [OF l] assms(3) by simp
    then have "ok_result 1 ?f (bracket_indices pb g)"
      by (intro ok_then [OF g bracket_indices_ok [OF assms(1)]]) simp_all
    then show ?thesis
    proof (rule ok_seq)
      fix x :: "(ast option \<times> token option \<times> ast option) \<times> ast_file" assume x: "reads_on 1 ?f (snd x)"
      have "reads_on 1 f (snd x\<lparr>expr_level := expr_level (snd x) - 1\<rparr>)"
        by (rule reads_on_flags [OF l x]) (auto simp: flags_def)
      then show "ok_result 1 f (case x of (indices, h) \<Rightarrow>
          bind_res (expect_token (Delimiter Token_CloseBracket) (h\<lparr>expr_level := expr_level h - 1\<rparr>)) (\<lambda>(close, h).
          Inr (bracket_node operand tok close indices h)))"
        by (cases x) (auto intro!: parser_steps simp: bracket_node_def parse_check_or_return_def Let_def
            split: option.split prod.split)
    qed
  qed
  show ?thesis
    unfolding bracket_body_def by (rule ok_seq [OF expect_token_ok [OF f]]) (auto intro: empty indices)
qed

lemma bracket_ok:
  assumes "expr_ok pb n" and "file_ok f" and "tokens_left f < n"
  shows "ok_result 1 f (parse_bracket pb operand f)"
proof -
  let ?f = "f\<lparr>allow_range := False\<rparr>"
  have l: "like f ?f" by simp
  show ?thesis
    unfolding parse_bracket_def Let_def
  proof (rule ok_seq [OF bracket_body_ok [OF assms(1) like_ok [OF l assms(2)]]])
    fix x :: "ast \<times> ast_file" assume x: "reads_on 1 ?f (snd x)"
    have "reads_on 1 f (snd x\<lparr>allow_range := allow_range f\<rparr>)"
      by (rule reads_on_flags [OF l x]) (auto simp: flags_def)
    then show "ok_result 1 f (case x of (e, h) \<Rightarrow> Inr (e, h\<lparr>allow_range := allow_range f\<rparr>))" by (cases x) simp
  qed (use like_left [OF l] assms(3) in simp)
qed

lemma type_then:
  assumes "others_ok X" and "reads_on 0 f g"
    and "\<And>t h. reads_on 0 f h \<Longrightarrow> (reads_on 1 f g \<Longrightarrow> reads_on 1 f h) \<Longrightarrow> ok_in q a f (c (t, h))"
  shows "ok_in q a f (bind_res (parse_type X g) c)"
  by (rule weak_step [OF assms(2)]) (use assms(1,3) in \<open>auto simp: others_ok_def\<close>)

lemma period_ok:
  assumes "others_ok X" and "file_ok f" and "curr_kind f = Delimiter Token_Period"
  shows "ok_result 1 f (parse_period X operand f)"
  unfolding parse_period_def
proof (rule advance_then, goal_cases)
  case (3 t g)
  then show ?case
    by (auto intro!: parser_steps type_then [OF assms(1)] advance_any_then
        simp: parse_check_or_return_def ast_unary_expr_def split: option.split)
qed (simp_all add: reads_on_refl assms)

text \<open>A turn of the loop that finds a postfix operator reads over a token; the others end it.\<close>

lemma postfix_step_ok:
  assumes "others_ok X" and "expr_ok pb n" and "file_ok f" and "tokens_left f < n" and "tokens_left f \<le> m"
  shows "postfix_step X pb m lhs operand f = Inr (None, f) \<or> ok_result 1 f (postfix_step X pb m lhs operand f)"
proof -
  define P where "P = (\<lambda>r. r = Inr (None, f) \<or> ok_result 1 f (r :: ast option parsed))"
  have if_P: "(b \<Longrightarrow> P r) \<Longrightarrow> (\<not> b \<Longrightarrow> P s) \<Longrightarrow> P (if b then r else s)" for b r s by simp
  have ok_P: "ok_result 1 f r \<Longrightarrow> P r" "P (Inr (None, f))" "P (Inl Crash)" for r by (simp_all add: P_def)
  have f: "file_ok (parse_check_or_return operand f)" "tokens_left (parse_check_or_return operand f) < n"
    "tokens_left (parse_check_or_return operand f) \<le> m"
    "reads_on 0 f (parse_check_or_return operand f)" "curr_kind (parse_check_or_return operand f) = curr_kind f"
    using assms(3-5) by (simp_all add: parse_check_or_return_def reads_on_refl)
  have node: "ok_result 1 f r \<Longrightarrow> ok_result 1 f (bind_res r (\<lambda>(e, f). Inr (Some e, f)))" for r :: "ast parsed"
    by (auto intro: ok_seq)
  have call: "ok_result 1 f (parse_call_expr pb m operand (parse_check_or_return operand f))"
    by (rule ok_from [OF f(4) call_expr_ok [OF assms(2) f(1-3)]]) simp
  have case_P: "(\<And>b. P (r b)) \<Longrightarrow> P (case x of None \<Rightarrow> Inl Crash | Some b \<Rightarrow> r b)" for x :: "bool option" and r
    by (cases x) (simp_all add: ok_P)
  have "P (postfix_step X pb m lhs operand f)"
    unfolding postfix_step_def Let_def
    by (intro if_P case_P ok_P(2); rule ok_P(1))
       (auto intro!: node call period_ok bracket_ok [OF assms(2)] literal_value_ok [OF assms(2-5)] parser_steps advance_then
         simp: assms f reads_on_refl)
  then show ?thesis by (simp add: P_def)
qed

lemma postfix_loop_ok:
  assumes "others_ok X" and "expr_ok pb n"
  shows "file_ok f \<Longrightarrow> tokens_left f < n \<Longrightarrow> tokens_left f < m \<Longrightarrow> ok_result 0 f (postfix_loop X pb m lhs operand f)"
proof (induction m arbitrary: f lhs operand)
  case (Suc m)
  consider "postfix_step X pb m lhs operand f = Inr (None, f)" | "ok_result 1 f (postfix_step X pb m lhs operand f)"
    using postfix_step_ok [OF assms Suc.prems(1,2), of m] Suc.prems(3) by force
  then show ?case
  proof cases
    case 1
    then show ?thesis using reads_on_refl [OF Suc.prems(1)] by simp
  next
    case 2
    have "ok_result 0 f (case r of None \<Rightarrow> Inr (operand, g) | Some e \<Rightarrow> postfix_loop X pb m False e g)"
      if r: "reads_on 1 f g" for r g
    proof (cases "r")
      case (Some e)
      have "ok_result 0 g (postfix_loop X pb m False e g)"
        by (rule Suc.IH [OF reads_on_ok [OF r]]) (use reads_on_left [OF r] Suc.prems in auto)
      with Some show ?thesis by (auto intro: ok_from [OF r])
    qed (use r in simp)
    then show ?thesis unfolding postfix_loop.simps by (intro ok_seq [OF 2]) (auto simp: split_beta)
  qed
qed simp

lemma postfix_then:
  assumes "others_ok X" and "expr_ok pb n" and "reads_on 0 f g" and "tokens_left g < n" and "tokens_left g < m"
    and "\<And>e h. reads_on 0 f h \<Longrightarrow> (reads_on 1 f g \<Longrightarrow> reads_on 1 f h) \<Longrightarrow> ok_in q a f (c (e, h))"
  shows "ok_in q a f (bind_res (postfix_loop X pb m lhs operand g) c)"
  by (rule weak_step [OF assms(3) postfix_loop_ok [OF assms(1,2) _ assms(4,5)]]) (auto intro: assms(6))

lemma atom_ok:
  assumes "others_ok X" and "expr_ok pb n" and "file_ok f" and "tokens_left f < n" and "tokens_left f < m"
  shows "ok_result 0 f (parse_atom_expr X pb m operand lhs f)"
proof -
  have left: "reads_on 0 f g \<Longrightarrow> tokens_left g < n" "reads_on 0 f g \<Longrightarrow> tokens_left g < m" for g
    using left_less(3) assms(4,5) by blast+
  show ?thesis
    unfolding parse_atom_expr_def Let_def
    by (auto intro!: parser_steps postfix_then [OF assms(1,2)] left simp: reads_on_refl assms split: option.split)
qed

subsection \<open>Operands\<close>

lemma paren_ok:
  assumes "expr_ok pb n" and "file_ok f" and "tokens_left f < n"
  shows "ok_result 1 f (parse_paren pb f)"
proof -
  have inside: "ok_result 1 f (let prev_expr_level = expr_level g; prev_allow_newline = allow_newline g;
           f = (if expr_level g < 0 then g\<lparr>allow_newline := False\<rparr> else g);
           f = f\<lparr>expr_level := max (expr_level f) 0 + 1\<rparr>
       in
       bind_res (parse_expr pb False f) (\<lambda>(operand, f).
       bind_res (expect_token (Delimiter Token_CloseParen)
                  (f\<lparr>allow_newline := prev_allow_newline, expr_level := prev_expr_level\<rparr>)) (\<lambda>(close, f).
       Inr (Ast_ParenExpr operand tok close, f))))"
    if g: "reads_on 1 f g" for g tok
  proof -
    define g1 where "g1 = (if expr_level g < 0 then g\<lparr>allow_newline := False\<rparr> else g)"
    define g2 where "g2 = g1\<lparr>expr_level := max (expr_level g1) 0 + 1\<rparr>"
    have l: "like g g2" by (simp add: g2_def g1_def like_def)
    have g2: "file_ok g2" "tokens_left g2 + 1 < n"
      using like_ok [OF l reads_on_ok [OF g]] like_left [OF l] reads_on_left [OF g] assms(3) by auto
    have "ok_result 0 g2 (parse_expr pb False g2)"
      using assms(1) g2 by (simp add: parse_expr_def expr_ok_def)
    then have "ok_result 1 f (bind_res (parse_expr pb False g2) (\<lambda>(operand, h).
       bind_res (expect_token (Delimiter Token_CloseParen)
                  (h\<lparr>allow_newline := allow_newline g, expr_level := expr_level g\<rparr>)) (\<lambda>(close, h).
       Inr (Ast_ParenExpr operand tok close, h))))"
    proof (rule ok_seq)
      fix x :: "ast option \<times> ast_file" assume x: "reads_on 0 g2 (snd x)"
      have "reads_on 0 g (snd x\<lparr>allow_newline := allow_newline g, expr_level := expr_level g\<rparr>)"
        by (rule reads_on_flags [OF l x]) (auto simp: flags_def g2_def g1_def)
      then have "reads_on 1 f (snd x\<lparr>allow_newline := allow_newline g, expr_level := expr_level g\<rparr>)"
        by (intro reads_on_trans [OF g, of 0]) simp_all
      then show "ok_result 1 f (case x of (operand, h) \<Rightarrow>
         bind_res (expect_token (Delimiter Token_CloseParen)
                  (h\<lparr>allow_newline := allow_newline g, expr_level := expr_level g\<rparr>)) (\<lambda>(close, h).
         Inr (Ast_ParenExpr operand tok close, h)))"
        by (cases x) (auto intro!: parser_steps)
    qed
    then show ?thesis unfolding Let_def g1_def [symmetric] g2_def [symmetric] .
  qed
  show ?thesis
    unfolding parse_paren_def
    by (auto intro!: inside if_ok ok_seq [OF expect_token_ok [OF assms(2)]] parser_steps)
qed

lemma operand_ok:
  assumes "others_ok X" and "expr_ok pb n" and "file_ok f" and "tokens_left f < n" and "tokens_left f < m"
  shows "ok_result 0 f (parse_operand X pb m lhs f)"
proof -
  have node: "ok_result b f r \<Longrightarrow> ok_result b f (bind_res r (\<lambda>(e, f). Inr (Some e, f)))" for b and r :: "ast parsed"
    by (auto intro: ok_seq)
  note parts = ok_weaken [OF literal_value_ok [OF assms(2-4) less_imp_le [OF assms(5)]], of 0] ok_weaken [OF paren_ok [OF assms(2-4)], of 0]
    ok_weaken [OF parse_ident_ok [OF assms(3)], of 0]
  show ?thesis
    unfolding parse_operand_def Let_def
    by (intro if_ok node)
       (use assms(1) parts in \<open>auto intro!: parser_steps advance_any_then simp: reads_on_refl assms(3) others_ok_def
          ast_basic_lit_def\<close>)
qed

subsection \<open>Operators\<close>

lemma operand_then:
  assumes "others_ok X" and "expr_ok pb n" and "reads_on 0 f g" and "tokens_left g < n" and "tokens_left g < m"
    and "\<And>e h. reads_on 0 f h \<Longrightarrow> (reads_on 1 f g \<Longrightarrow> reads_on 1 f h) \<Longrightarrow> ok_in q a f (c (e, h))"
  shows "ok_in q a f (bind_res (parse_operand X pb m lhs g) c)"
  by (rule weak_step [OF assms(3) operand_ok [OF assms(1,2) _ assms(4,5)]]) (auto intro: assms(6))

lemma unary_ok:
  assumes "others_ok X" and "expr_ok pb n"
  shows "file_ok f \<Longrightarrow> tokens_left f < n \<Longrightarrow> tokens_left f + 1 < m \<Longrightarrow> ok_result 0 f (parse_unary_expr X pb m lhs f)"
proof (induction m arbitrary: f lhs)
  case (Suc m)
  have "ok_in q a f (bind_res (parse_unary_expr X pb m lhs g) c)"
    if g: "reads_on 1 f g" and c: "\<And>e h. reads_on 1 f h \<Longrightarrow> ok_in q a f (c (e, h))"
    for q :: "'b \<Rightarrow> ast_file" and a g c
  proof (rule weak_step)
    show "ok_result 0 g (parse_unary_expr X pb m lhs g)"
      using reads_on_left [OF g] Suc.prems by (intro Suc.IH reads_on_ok [OF g]) auto
  qed (use g c in auto)
  note rest = this
  have atom: "ok_result 0 f (parse_atom_expr X pb m e lhs h)" if h: "reads_on 0 f h" for e h
    using reads_on_left [OF h] Suc.prems
    by (intro ok_then [OF h atom_ok [OF assms]]) auto
  show ?case
    unfolding parse_unary_expr.simps Let_def
    using Suc.prems
    by (auto intro!: parser_steps type_then [OF assms(1)] operand_then [OF assms] advance_then rest atom
        simp: reads_on_refl ast_unary_expr_def is_prefix_operator_def)
qed simp

lemma operator_ok:
  assumes "expr_ok pb n" and "file_ok f" and "tokens_left f + 1 < n" and "1 \<le> op_prec"
  shows "ok_result 0 f (parse_operator pb lhs op_prec op e f)"
proof -
  have left: "reads_on 0 f g \<Longrightarrow> tokens_left g + 1 < n" for g using left_less(2) assms(3) by blast
  have right: "ok_result 0 f (pb False (op_prec + 1) f)"
    using assms by (simp add: expr_ok_def)
  have binary: "ok_result 0 f (bind_res (pb False (op_prec + 1) f) (\<lambda>(right, f).
      let f = syntax_error_if (right = None) f in
      if tkind op = Keyword Token_or_else then Inr (Some (Ast_OrElseExpr e op right), f)
      else let (e, f) = ast_binary_expr f op e right in Inr (Some e, f)))"
    by (rule ok_seq [OF right]) (auto simp: ast_binary_expr_def Let_def)
  show ?thesis
    unfolding parse_operator_def
    by (intro if_ok binary; auto intro!: parser_steps expr_then [OF assms(1)] left simp: reads_on_refl assms)
qed

lemma precedence_not_EOF: "1 \<le> token_precedence f k \<Longrightarrow> k \<noteq> Token_EOF"
  by (auto simp: token_precedence_def)

lemma binary_loop_ok:
  assumes "expr_ok pb n" and "1 \<le> prec_in"
  shows "file_ok f \<Longrightarrow> tokens_left f < n \<Longrightarrow> tokens_left f < m \<Longrightarrow> ok_result 0 f (binary_loop pb m lhs prec_in e f)"
proof (induction m arbitrary: f lhs e)
  case (Suc m)
  define op where "op = curr_token f"
  define op_prec where "op_prec = token_precedence f (tkind op)"
  have turn: "ok_result 0 f (bind_res (expect_operator f) (\<lambda>(t, f).
      bind_res (parse_operator pb lhs op_prec op e f) (\<lambda>(e, f). binary_loop pb m False prec_in e f)))"
    if "\<not> op_prec < prec_in"
  proof (rule operator_then [OF reads_on_refl [OF Suc.prems(1)]])
    show "curr_kind f \<noteq> Token_EOF"
      using precedence_not_EOF [of f "tkind op"] that assms(2) by (simp add: op_prec_def op_def curr_kind_def)
    fix t h assume h: "reads_on 1 f h"
    have loop: "ok_result 0 f (binary_loop pb m False prec_in e' h')" if h': "reads_on 1 f h'" for e' h'
      using reads_on_left [OF h'] Suc.prems by (intro ok_then [OF h' Suc.IH]) auto
    have "ok_result 0 h (parse_operator pb lhs op_prec op e h)"
      using reads_on_left [OF h] Suc.prems that assms(2)
      by (intro operator_ok [OF assms(1) reads_on_ok [OF h]]) auto
    then have "ok_result 1 f (parse_operator pb lhs op_prec op e h)" by (rule ok_from [OF h]) simp
    then show "ok_result 0 f (case (t, h) of (t, h) \<Rightarrow>
        bind_res (parse_operator pb lhs op_prec op e h) (\<lambda>(e, f). binary_loop pb m False prec_in e f))"
      by (simp add: ok_seq [where p = snd] loop split_beta)
  qed
  show ?case
    using turn reads_on_refl [OF Suc.prems(1)] by (auto simp: Let_def op_def op_prec_def)
qed simp

text \<open>One more than the tokens left, and two more for the first expression, bound every loop and the nesting.\<close>

lemma binary_expr_ok:
  assumes "others_ok X"
  shows "expr_ok (parse_binary_expr X (n + 1)) n"
proof (induction n)
  case (Suc n)
  note pb = Suc.IH
  have "ok_result 0 f (parse_binary_expr X (Suc n + 1) lhs prec f)"
    if f: "file_ok f" "1 \<le> prec" "tokens_left f + 1 < Suc n" for lhs prec f
  proof -
    have u: "ok_result 0 f (parse_unary_expr X (parse_binary_expr X (n + 1)) (n + 1) lhs f)"
      using f(3) by (intro unary_ok [OF assms pb f(1)]) auto
    have l: "ok_result 0 f (binary_loop (parse_binary_expr X (n + 1)) (n + 1) lhs prec e g)" if g: "reads_on 0 f g" for e g
      using reads_on_left [OF g] f(3) by (intro ok_then [OF g binary_loop_ok [OF pb f(2)]]) auto
    have "parse_binary_expr X (Suc n + 1) lhs prec f =
      bind_res (parse_unary_expr X (parse_binary_expr X (n + 1)) (n + 1) lhs f) (\<lambda>(e, g).
      binary_loop (parse_binary_expr X (n + 1)) (n + 1) lhs prec e g)"
      by simp
    then show ?thesis using l by (auto intro!: ok_seq [OF u])
  qed
  then show ?case unfolding expr_ok_def by blast
qed (simp add: expr_ok_def)

end
