(* ===== verification/Expr_Grammar.thy ===== *)
theory Expr_Grammar
  imports Expr_Parser
begin

text \<open>
  A grammar of expressions, apart from how they are parsed: operands, postfix operators, prefix operators, binary
  operators by level, ternaries, calls and their arguments. It leaves out what begins with a type or a directive,
  compound literals, \<^verbatim>\<open>or_break\<close> and \<^verbatim>\<open>or_continue\<close>.
\<close>

subsection \<open>Grammar\<close>

text \<open>
  The levels of the binary operators; ranges only where \<open>rng\<close> allows them, \<^verbatim>\<open>in\<close> and \<^verbatim>\<open>not_in\<close> only where \<open>ins\<close> does.
\<close>

inductive binary_operator :: "bool \<Rightarrow> bool \<Rightarrow> token_kind \<Rightarrow> int \<Rightarrow> bool" for rng ins where
  or_else: "binary_operator rng ins (Keyword Token_or_else) 1"
| range: "rng \<Longrightarrow> k \<in> {Token_RangeFull, Token_RangeHalf} \<Longrightarrow> binary_operator rng ins (Delimiter k) 2"
| disj: "binary_operator rng ins (Operator Token_CmpOr) 3"
| conj: "binary_operator rng ins (Operator Token_CmpAnd) 4"
| compare: "binary_operator rng ins (Comparison c) 5"
| sum: "k \<in> {Token_Add, Token_Sub, Token_Or, Token_Xor} \<Longrightarrow> binary_operator rng ins (Operator k) 6"
| membership: "ins \<Longrightarrow> k \<in> {Token_in, Token_not_in} \<Longrightarrow> binary_operator rng ins (Keyword k) 6"
| product: "k \<in> {Token_Mul, Token_Quo, Token_Mod, Token_ModMod, Token_And, Token_AndNot, Token_Shl, Token_Shr} \<Longrightarrow>
    binary_operator rng ins (Operator k) 7"

definition prefix_operator :: "token_kind \<Rightarrow> bool" where
  "prefix_operator k \<longleftrightarrow>
     k \<in> Operator ` {Token_Add, Token_Sub, Token_Xor, Token_And, Token_Not, Token_MulMul, Token_Mul}"

definition basic_literal :: "token_kind \<Rightarrow> bool" where
  "basic_literal k \<longleftrightarrow> k \<in> Literal ` {Token_Integer, Token_Float, Token_Imag, Token_Rune, Token_String}"

definition binary_node :: "token \<Rightarrow> ast \<Rightarrow> ast \<Rightarrow> ast" where
  "binary_node op l r =
     (if tkind op = Keyword Token_or_else then Ast_OrElseExpr (Some l) op (Some r) else Ast_BinaryExpr op l r)"

text \<open>
  The grammar. An \<^verbatim>\<open>or_return\<close> may stand alone, in an \<^verbatim>\<open>or_else\<close>, a ternary, parentheses, or as an argument, but not
  under another operator. A chain of level \<open>p\<close> joins operands by operators of level \<open>p\<close> and above, to the left.
\<close>

inductive
  primary :: "(token \<Rightarrow> bool) \<Rightarrow> bool \<Rightarrow> bool \<Rightarrow> token list \<Rightarrow> ast \<Rightarrow> bool" and
  unary :: "(token \<Rightarrow> bool) \<Rightarrow> bool \<Rightarrow> bool \<Rightarrow> token list \<Rightarrow> ast \<Rightarrow> bool" and
  chain :: "(token \<Rightarrow> bool) \<Rightarrow> bool \<Rightarrow> bool \<Rightarrow> int \<Rightarrow> token list \<Rightarrow> ast \<Rightarrow> bool" and
  expression :: "(token \<Rightarrow> bool) \<Rightarrow> bool \<Rightarrow> bool \<Rightarrow> token list \<Rightarrow> ast \<Rightarrow> bool" and
  bound :: "(token \<Rightarrow> bool) \<Rightarrow> bool \<Rightarrow> bool \<Rightarrow> token list \<Rightarrow> ast option \<Rightarrow> bool" and
  argument :: "(token \<Rightarrow> bool) \<Rightarrow> bool \<Rightarrow> token list \<Rightarrow> ast \<Rightarrow> bool" and
  arguments :: "(token \<Rightarrow> bool) \<Rightarrow> bool \<Rightarrow> token list \<Rightarrow> ast list \<Rightarrow> bool"
  for lit :: "token \<Rightarrow> bool"
where
  ident: "tkind t = Literal Token_Ident \<Longrightarrow> primary lit rng ins [t] (Ast_Ident t)"
| literal: "basic_literal (tkind t) \<Longrightarrow> lit t \<Longrightarrow> primary lit rng ins [t] (Ast_BasicLit t)"
| uninit: "tkind t = Operator Token_Uninit \<Longrightarrow> primary lit rng ins [t] (Ast_Uninit t)"
| implicit: "tkind t = Keyword Token_context \<Longrightarrow> primary lit rng ins [t] (Ast_Implicit t)"
| paren:
    "expression lit rng True ts e \<Longrightarrow> tkind a = Delimiter Token_OpenParen \<Longrightarrow> tkind b = Delimiter Token_CloseParen \<Longrightarrow>
       primary lit rng ins (a # ts @ [b]) (Ast_ParenExpr (Some e) a b)"
| selector:
    "primary lit rng ins ts e \<Longrightarrow> \<not> is_or_expr (Some e) \<Longrightarrow> tkind p \<in> {Delimiter Token_Period, Operator Token_ArrowRight} \<Longrightarrow>
       tkind i = Literal Token_Ident \<Longrightarrow> primary lit rng ins (ts @ [p, i]) (Ast_SelectorExpr p e (Ast_Ident i))"
| unwrap:
    "primary lit rng ins ts e \<Longrightarrow> \<not> is_or_expr (Some e) \<Longrightarrow> tkind p = Delimiter Token_Period \<Longrightarrow>
       tkind q = Operator Token_Question \<Longrightarrow>
       primary lit rng ins (ts @ [p, q]) (Ast_TypeAssertion e p (Some (Ast_UnaryExpr q None)))"
| deref:
    "primary lit rng ins ts e \<Longrightarrow> \<not> is_or_expr (Some e) \<Longrightarrow> tkind p = Operator Token_Pointer \<Longrightarrow>
       primary lit rng ins (ts @ [p]) (Ast_DerefExpr e p)"
| or_return:
    "primary lit rng ins ts e \<Longrightarrow> tkind p = Keyword Token_or_return \<Longrightarrow>
       primary lit rng ins (ts @ [p]) (Ast_OrReturnExpr e p)"
| index:
    "primary lit rng ins ts e \<Longrightarrow> \<not> is_or_expr (Some e) \<Longrightarrow> expression lit False True us i \<Longrightarrow>
       tkind a = Delimiter Token_OpenBracket \<Longrightarrow> tkind b = Delimiter Token_CloseBracket \<Longrightarrow>
       primary lit rng ins (ts @ a # us @ [b]) (Ast_IndexExpr e (Some i) a b)"
| slice:
    "primary lit rng ins ts e \<Longrightarrow> \<not> is_or_expr (Some e) \<Longrightarrow> bound lit False True us l \<Longrightarrow> bound lit False True vs h \<Longrightarrow>
       tkind a = Delimiter Token_OpenBracket \<Longrightarrow> tkind c = Delimiter Token_Colon \<Longrightarrow> tkind b = Delimiter Token_CloseBracket \<Longrightarrow>
       primary lit rng ins (ts @ a # us @ c # vs @ [b]) (Ast_SliceExpr e a b c l h)"
| matrix_index:
    "primary lit rng ins ts e \<Longrightarrow> \<not> is_or_expr (Some e) \<Longrightarrow> expression lit False True us i \<Longrightarrow> expression lit False True vs j \<Longrightarrow>
       tkind a = Delimiter Token_OpenBracket \<Longrightarrow> tkind c = Delimiter Token_Comma \<Longrightarrow> tkind b = Delimiter Token_CloseBracket \<Longrightarrow>
       primary lit rng ins (ts @ a # us @ c # vs @ [b]) (Ast_MatrixIndexExpr e a b c (Some i) (Some j))"
| call:
    "primary lit rng ins ts e \<Longrightarrow> \<not> is_or_expr (Some e) \<Longrightarrow> arguments lit rng us as \<Longrightarrow>
       tkind a = Delimiter Token_OpenParen \<Longrightarrow> tkind b = Delimiter Token_CloseParen \<Longrightarrow>
       primary lit rng ins (ts @ a # us @ [b]) (call_node e (List.map Some as) a b None)"
| operand: "primary lit rng ins ts e \<Longrightarrow> unary lit rng ins ts e"
| prefix:
    "unary lit rng ins ts e \<Longrightarrow> \<not> is_or_expr (Some e) \<Longrightarrow> prefix_operator (tkind t) \<Longrightarrow>
       unary lit rng ins (t # ts) (Ast_UnaryExpr t (Some e))"
| auto_cast:
    "unary lit rng ins ts e \<Longrightarrow> tkind t = Keyword Token_auto_cast \<Longrightarrow> unary lit rng ins (t # ts) (Ast_AutoCast t (Some e))"
| implicit_selector:
    "tkind p = Delimiter Token_Period \<Longrightarrow> tkind i = Literal Token_Ident \<Longrightarrow>
       unary lit rng ins [p, i] (Ast_ImplicitSelectorExpr p (Ast_Ident i))"
| single: "unary lit rng ins ts e \<Longrightarrow> chain lit rng ins p ts e"
| binary:
    "chain lit rng ins q ts l \<Longrightarrow> chain lit rng ins (q + 1) us r \<Longrightarrow> binary_operator rng ins (tkind op) q \<Longrightarrow> p \<le> q \<Longrightarrow>
       tkind op = Keyword Token_or_else \<or> \<not> is_or_expr (Some l) \<and> \<not> is_or_expr (Some r) \<Longrightarrow>
       chain lit rng ins p (ts @ op # us) (binary_node op l r)"
| no_ternary: "chain lit rng ins 1 ts e \<Longrightarrow> expression lit rng ins ts e"
| ternary_if:
    "chain lit rng ins 1 ts x \<Longrightarrow> expression lit rng ins us c \<Longrightarrow> expression lit rng ins vs y \<Longrightarrow>
       tkind a = Keyword Token_if \<Longrightarrow> tkind b = Keyword Token_else \<Longrightarrow>
       expression lit rng ins (ts @ a # us @ b # vs) (Ast_TernaryIfExpr (Some x) (Some c) (Some y))"
| ternary_when:
    "chain lit rng ins 1 ts x \<Longrightarrow> expression lit rng ins us c \<Longrightarrow> expression lit rng ins vs y \<Longrightarrow>
       tkind a = Keyword Token_when \<Longrightarrow> tkind b = Keyword Token_else \<Longrightarrow>
       expression lit rng ins (ts @ a # us @ b # vs) (Ast_TernaryWhenExpr (Some x) (Some c) (Some y))"
| ternary_question:
    "chain lit rng ins 1 ts c \<Longrightarrow> expression lit rng ins us x \<Longrightarrow> expression lit rng ins vs y \<Longrightarrow>
       tkind a = Operator Token_Question \<Longrightarrow> tkind b = Delimiter Token_Colon \<Longrightarrow>
       expression lit rng ins (ts @ a # us @ b # vs) (Ast_TernaryIfExpr (Some x) (Some c) (Some y))"
| no_bound: "bound lit rng ins [] None"
| some_bound: "expression lit rng ins ts e \<Longrightarrow> bound lit rng ins ts (Some e)"
| positional: "expression lit rng True ts e \<Longrightarrow> argument lit rng ts e"
| named:
    "expression lit rng True ts x \<Longrightarrow> expression lit True True us v \<Longrightarrow> tkind eq = Operator Token_Eq \<Longrightarrow>
       argument lit rng (ts @ eq # us) (Ast_FieldValue (Some x) (Some v) eq)"
| no_argument: "arguments lit rng [] []"
| last_argument: "argument lit rng ts a \<Longrightarrow> arguments lit rng ts [a]"
| more_arguments:
    "argument lit rng ts a \<Longrightarrow> arguments lit rng us as \<Longrightarrow> tkind c = Delimiter Token_Comma \<Longrightarrow>
       arguments lit rng (ts @ c # us) (a # as)"

text \<open>What begins an operand and an expression; and parentheses around one are never empty.\<close>

definition begins_operand :: "token_kind \<Rightarrow> bool" where
  "begins_operand k \<longleftrightarrow>
     basic_literal k \<or>
     k \<in> {Literal Token_Ident, Operator Token_Uninit, Keyword Token_context, Delimiter Token_OpenParen}"

definition begins_expression :: "token_kind \<Rightarrow> bool" where
  "begins_expression k \<longleftrightarrow>
     begins_operand k \<or> prefix_operator k \<or> k = Keyword Token_auto_cast \<or> k = Delimiter Token_Period"

lemma unparen_node:
  "unparen (call_node e as a b el) \<noteq> None" "unparen (binary_node op l r) \<noteq> None"
  by (auto simp: call_node_def binary_node_def Let_def split: option.split ast.split)

definition begins_with :: "(token_kind \<Rightarrow> bool) \<Rightarrow> token list \<Rightarrow> bool" where
  "begins_with P ts \<longleftrightarrow> (\<exists>t us. ts = t # us \<and> P (tkind t))"

abbreviation begins :: "token list \<Rightarrow> bool" where
  "begins \<equiv> begins_with begins_expression"

lemma begins_append: "begins_with P ts \<Longrightarrow> begins_with P (ts @ us)"
  by (auto simp: begins_with_def)

lemma begins_Cons: "begins_with P (t # ts) = P (tkind t)"
  by (simp add: begins_with_def)

lemma begins_with_operand: "begins_with begins_operand ts \<Longrightarrow> begins ts"
  by (auto simp: begins_with_def begins_expression_def)

lemma begins_kinds:
  "basic_literal k \<Longrightarrow> begins_operand k" "prefix_operator k \<Longrightarrow> begins_expression k"
  "begins_operand (Literal Token_Ident)" "begins_operand (Operator Token_Uninit)"
  "begins_operand (Keyword Token_context)" "begins_operand (Delimiter Token_OpenParen)"
  "begins_expression (Keyword Token_auto_cast)" "begins_expression (Delimiter Token_Period)"
  by (simp_all add: begins_expression_def begins_operand_def)

lemma begins:
  "primary lit rng ins ts e \<Longrightarrow> begins_with begins_operand ts \<and> unparen e \<noteq> None"
  "unary lit rng ins ts e \<Longrightarrow> begins ts \<and> unparen e \<noteq> None"
  "chain lit rng ins p ts e \<Longrightarrow> begins ts \<and> unparen e \<noteq> None"
  "expression lit rng ins ts e \<Longrightarrow> begins ts \<and> unparen e \<noteq> None"
  "bound lit rng ins ts eo \<Longrightarrow> if eo = None then ts = [] else begins ts"
  "argument lit rng ts e \<Longrightarrow> begins ts"
  "arguments lit rng ts es \<Longrightarrow> ts = [] \<or> begins ts"
  by (induction rule: primary_unary_chain_expression_bound_argument_arguments.inducts)
     (simp_all add: begins_append begins_Cons begins_kinds begins_with_operand unparen_node del: not_None_eq)

text \<open>An expression has no comments and no semicolons in it.\<close>

lemma operator_tokens: "binary_operator rng ins k q \<Longrightarrow> k \<noteq> Token_Comment \<and> k \<noteq> Delimiter Token_Semicolon"
  by (auto elim!: binary_operator.cases)

lemma derived_tokens:
  "primary lit rng ins ts e \<Longrightarrow> \<forall>t\<in>set ts. tkind t \<noteq> Token_Comment \<and> tkind t \<noteq> Delimiter Token_Semicolon"
  "unary lit rng ins ts e \<Longrightarrow> \<forall>t\<in>set ts. tkind t \<noteq> Token_Comment \<and> tkind t \<noteq> Delimiter Token_Semicolon"
  "chain lit rng ins p ts e \<Longrightarrow> \<forall>t\<in>set ts. tkind t \<noteq> Token_Comment \<and> tkind t \<noteq> Delimiter Token_Semicolon"
  "expression lit rng ins ts e \<Longrightarrow> \<forall>t\<in>set ts. tkind t \<noteq> Token_Comment \<and> tkind t \<noteq> Delimiter Token_Semicolon"
  "bound lit rng ins ts eo \<Longrightarrow> \<forall>t\<in>set ts. tkind t \<noteq> Token_Comment \<and> tkind t \<noteq> Delimiter Token_Semicolon"
  "argument lit rng ts e \<Longrightarrow> \<forall>t\<in>set ts. tkind t \<noteq> Token_Comment \<and> tkind t \<noteq> Delimiter Token_Semicolon"
  "arguments lit rng ts es \<Longrightarrow> \<forall>t\<in>set ts. tkind t \<noteq> Token_Comment \<and> tkind t \<noteq> Delimiter Token_Semicolon"
proof (induction rule: primary_unary_chain_expression_bound_argument_arguments.inducts)
  case binary
  then show ?case using operator_tokens by auto
qed (auto simp: basic_literal_def prefix_operator_def)

end
