(* ===== verification/Expr_Correct.thy ===== *)
theory Expr_Correct
  imports Expr_Grammar
begin

text \<open>
  The parser of expressions on what the grammar derives: it returns the tree, reports nothing, and leaves the
  cursor behind the expression and everything else as it was.
\<close>

subsection \<open>The cursor on tokens that are all read\<close>

definition move :: "nat \<Rightarrow> ast_file \<Rightarrow> ast_file" where
  "move n f =
     (if n = 0 then f
      else f\<lparr>lead_comment := None, line_comment := None,
             prev_token_index := curr_token_index f + n - 1, prev_token := tokens f ! (curr_token_index f + n - 1),
             curr_token_index := curr_token_index f + n, curr_token := tokens f ! (curr_token_index f + n)\<rparr>)"

lemma move_0 [simp]: "move 0 f = f"
  by (simp add: move_def)

lemma move_sel [simp]:
  "tokens (move n f) = tokens f" "curr_token_index (move n f) = curr_token_index f + n"
  "expr_level (move n f) = expr_level f" "allow_newline (move n f) = allow_newline f"
  "allow_range (move n f) = allow_range f" "allow_in_expr (move n f) = allow_in_expr f"
  "allow_type (move n f) = allow_type f" "syntax_errors (move n f) = syntax_errors f"
  "strict (move n f) = strict f"
  by (simp_all add: move_def)

lemma move_move [simp]: "move a (move b f) = move (b + a) f"
  by (simp add: move_def add.assoc)

lemma move_update [simp]:
  "(move n f)\<lparr>expr_level := l\<rparr> = move n (f\<lparr>expr_level := l\<rparr>)"
  "(move n f)\<lparr>allow_range := b\<rparr> = move n (f\<lparr>allow_range := b\<rparr>)"
  "(move n f)\<lparr>allow_newline := b\<rparr> = move n (f\<lparr>allow_newline := b\<rparr>)"
  by (auto simp: move_def)

text \<open>
  From the cursor on are the tokens \<open>ts\<close> and then \<open>z\<close>; there is no comment among them, and no newline that is
  skipped. An \<^verbatim>\<open>if\<close> or \<^verbatim>\<open>when\<close> is on the line of the token before it.
\<close>

definition same_line :: "token \<Rightarrow> token \<Rightarrow> bool" where
  "same_line a b \<longleftrightarrow> (tkind b = Keyword Token_if \<or> tkind b = Keyword Token_when \<longrightarrow> line (pos b) \<le> line (pos a))"

definition reads :: "ast_file \<Rightarrow> token list \<Rightarrow> token \<Rightarrow> bool" where
  "reads f ts z \<longleftrightarrow>
     (\<exists>rest. drop (curr_token_index f) (tokens f) = ts @ z # rest) \<and> curr_token f = hd (ts @ [z]) \<and>
     (\<forall>t\<in>set ts. tkind t \<noteq> Token_Comment \<and> \<not> token_is_newline t) \<and>
     tkind z \<noteq> Token_Comment \<and> (token_is_newline z \<longrightarrow> expr_level f \<le> 0) \<and> successively same_line (ts @ [z])"

lemma reads_curr:
  "reads f (t # ts) z \<Longrightarrow> curr_token f = t" "reads f [] z \<Longrightarrow> curr_token f = z"
  "reads f (t # ts) z \<Longrightarrow> \<not> token_is_newline t"
  by (auto simp: reads_def)

lemma successively_tl: "successively P (x # xs) \<Longrightarrow> successively P xs"
  by (cases xs) simp_all

lemma reads_step:
  assumes "reads f (t # ts) z"
  shows "reads (move (Suc 0) f) ts z"
proof -
  from assms obtain rest where d: "drop (curr_token_index f) (tokens f) = t # ts @ z # rest" by (auto simp: reads_def)
  have d': "drop (curr_token_index f + 1) (tokens f) = ts @ z # rest"
    using arg_cong [OF d, of "drop 1"] by (simp add: drop_drop add.commute One_nat_def)
  then have "tokens f ! (curr_token_index f + 1) = hd (ts @ [z])"
    by (metis Nil_is_append_conv hd_append2 hd_drop_conv_nth drop_all linorder_not_le list.distinct(1) hd_append list.sel(1))
  with assms d' show ?thesis by (auto simp: reads_def move_def dest: successively_tl)
qed

lemma reads_append:
  "reads f (ts @ us) z \<Longrightarrow> reads (move (length ts) f) us z"
proof (induction ts arbitrary: f)
  case (Cons t ts)
  from Cons.IH [OF reads_step] Cons.prems have "reads (move (length ts) (move (Suc 0) f)) us z" by simp
  then show ?case by (simp add: add.commute)
qed simp

lemma reads_prefix:
  assumes "reads f (ts @ u # us) z"
  shows "reads f ts u"
proof -
  have "successively same_line ((ts @ [u]) @ (us @ [z]))" using assms by (simp add: reads_def)
  then have "successively same_line (ts @ [u])" unfolding successively_append_iff by simp
  with assms show ?thesis by (cases ts) (auto simp: reads_def)
qed

text \<open>Steps of the parser where the expected token is there.\<close>

lemma advance_token_reads:
  assumes "reads f (t # ts) z"
  shows "advance_token f = Inr (t, move (Suc 0) f)"
proof -
  from assms obtain rest where d: "drop (curr_token_index f) (tokens f) = t # ts @ z # rest" by (auto simp: reads_def)
  then have "length (tokens f) - curr_token_index f = length (t # ts @ z # rest)" by (metis length_drop)
  then have l: "curr_token_index f + 1 < length (tokens f)" by simp
  have t: "tokens f ! curr_token_index f = t" using arg_cong [OF d, of hd] l by (simp add: hd_drop_conv_nth)
  let ?f = "move (Suc 0) f"
  have step: "next_token0 (f\<lparr>lead_comment := None, line_comment := None, prev_token_index := curr_token_index f,
      prev_token := curr_token f\<rparr>) = (True, ?f)"
    using l t reads_curr(1) [OF assms] by (simp add: next_token0_def move_def)
  have r: "reads ?f ts z" by (rule reads_step [OF assms])
  have "curr_kind ?f \<noteq> Token_Comment" "\<not> (token_is_newline (curr_token ?f) \<and> ignore_newlines ?f)"
    using r by (cases ts; force simp: reads_def curr_kind_def ignore_newlines_def)+
  with step show ?thesis
    using reads_curr(1) [OF assms] by (auto simp: advance_token.simps [of f] consume_comment_groups_def Let_def)
qed

lemma expect_reads:
  "reads f (t # ts) z \<Longrightarrow> tkind t = k \<Longrightarrow> expect_token k f = Inr (t, move (Suc 0) f)"
  by (simp add: expect_token_def Let_def advance_token_reads reads_curr)

lemma closing_reads:
  "reads f (t # ts) z \<Longrightarrow> tkind t = k \<Longrightarrow> expect_closing k f = Inr (t, move (Suc 0) f)"
  by (simp add: expect_closing_def curr_kind_def reads_curr expect_reads)

lemma ident_reads:
  "reads f (t # ts) z \<Longrightarrow> tkind t = Literal Token_Ident \<Longrightarrow> parse_ident f = Inr (Ast_Ident t, move (Suc 0) f)"
  by (simp add: parse_ident_def Let_def advance_token_reads reads_curr)

text \<open>The flags within brackets and parentheses do not change what is read.\<close>

lemma reads_flags [simp]:
  "reads (f\<lparr>allow_range := b\<rparr>) ts z = reads f ts z" "reads (f\<lparr>allow_newline := b\<rparr>) ts z = reads f ts z"
  "reads (move n (f\<lparr>allow_range := b\<rparr>)) ts z = reads (move n f) ts z"
  "reads (move n (f\<lparr>allow_newline := b\<rparr>)) ts z = reads (move n f) ts z"
  by (simp_all add: reads_def move_def)

lemma reads_level: "reads f ts z \<Longrightarrow> \<not> token_is_newline z \<Longrightarrow> reads (f\<lparr>expr_level := l\<rparr>) ts z"
  by (simp add: reads_def)

lemma reads_cut:
  assumes "reads f (ts @ a # us) z"
  shows "reads f ts a" and "reads (move (length ts) f) (a # us) z" and "reads (move (Suc (length ts)) f) us z"
proof -
  show "reads f ts a" by (rule reads_prefix [OF assms])
  show a: "reads (move (length ts) f) (a # us) z" by (rule reads_append [OF assms])
  show "reads (move (Suc (length ts)) f) us z" using reads_step [OF a] by simp
qed

lemma reads_kind: "reads f (t # ts) z \<Longrightarrow> curr_kind f = tkind t" "reads f [] z \<Longrightarrow> curr_kind f = tkind z"
  by (simp_all add: curr_kind_def reads_curr)

subsection \<open>What is to be shown\<close>

text \<open>The flags fit the grammar; outside of parentheses in a statement's head the level is -1.\<close>

definition allows :: "bool \<Rightarrow> bool \<Rightarrow> ast_file \<Rightarrow> bool" where
  "allows rng ins f \<longleftrightarrow> allow_range f = rng \<and> (ins \<longleftrightarrow> 0 \<le> expr_level f \<or> allow_in_expr f) \<and> -1 \<le> expr_level f"

text \<open>A token that does not go on with an operand.\<close>

definition ends_operand :: "ast_file \<Rightarrow> token \<Rightarrow> bool" where
  "ends_operand f z \<longleftrightarrow>
     tkind z \<notin> {Delimiter Token_OpenParen, Delimiter Token_Period, Operator Token_ArrowRight, Delimiter Token_OpenBracket,
       Operator Token_Pointer, Keyword Token_or_return, Keyword Token_or_break, Keyword Token_or_continue,
       Operator Token_Increment, Operator Token_Decrement} \<and>
     (tkind z = Delimiter Token_OpenBrace \<longrightarrow> expr_level f < 0)"

lemma allows_move [simp]: "allows rng ins (move n f) = allows rng ins f"
  by (simp add: allows_def)

lemma ends_operand_move [simp]: "ends_operand (move n f) z = ends_operand f z"
  by (simp add: ends_operand_def)

lemma token_precedence_move [simp]: "token_precedence (move n f) k = token_precedence f k"
  unfolding token_precedence_def move_sel ..

definition parsed_primary :: "parsers \<Rightarrow> bool \<Rightarrow> bool \<Rightarrow> token list \<Rightarrow> ast \<Rightarrow> bool" where
  "parsed_primary X rng ins ts e \<longleftrightarrow>
     (\<forall>f z N m lhs. reads f ts z \<longrightarrow> allows rng ins f \<longrightarrow> length ts \<le> m \<longrightarrow> length ts < N \<longrightarrow>
        (\<exists>c lhs'. c < length ts \<and>
           bind_res (parse_operand X (parse_binary_expr X N) m lhs f)
             (\<lambda>(operand, g). parse_atom_expr X (parse_binary_expr X N) m operand lhs g) =
           bind_res (postfix_loop X (parse_binary_expr X N) (m - c) lhs' e (move (length ts) f)) (\<lambda>(e, g). Inr (Some e, g))))"

definition parsed_unary :: "parsers \<Rightarrow> bool \<Rightarrow> bool \<Rightarrow> token list \<Rightarrow> ast \<Rightarrow> bool" where
  "parsed_unary X rng ins ts e \<longleftrightarrow>
     (\<forall>f z N m lhs. reads f ts z \<longrightarrow> allows rng ins f \<longrightarrow> ends_operand f z \<longrightarrow> length ts < m \<longrightarrow> length ts < N \<longrightarrow>
        parse_unary_expr X (parse_binary_expr X N) m lhs f = Inr (Some e, move (length ts) f))"

definition parsed_chain :: "parsers \<Rightarrow> bool \<Rightarrow> bool \<Rightarrow> int \<Rightarrow> token list \<Rightarrow> ast \<Rightarrow> bool" where
  "parsed_chain X rng ins p ts e \<longleftrightarrow>
     (\<forall>f z N k m lhs r. reads f ts z \<longrightarrow> allows rng ins f \<longrightarrow> ends_operand f z \<longrightarrow> token_precedence f (tkind z) \<le> p \<longrightarrow>
        r \<le> p \<longrightarrow> length ts < k \<longrightarrow> length ts \<le> m \<longrightarrow> length ts < N \<longrightarrow>
        (\<exists>c lhs'. c < length ts \<and>
           bind_res (parse_unary_expr X (parse_binary_expr X N) k lhs f)
             (\<lambda>(e, g). binary_loop (parse_binary_expr X N) m lhs r e g) =
           binary_loop (parse_binary_expr X N) (m - c) lhs' r (Some e) (move (length ts) f)))"

definition parsed_expression :: "parsers \<Rightarrow> bool \<Rightarrow> bool \<Rightarrow> token list \<Rightarrow> ast \<Rightarrow> bool" where
  "parsed_expression X rng ins ts e \<longleftrightarrow>
     (\<forall>f z N lhs. reads f ts z \<longrightarrow> allows rng ins f \<longrightarrow> ends_operand f z \<longrightarrow> token_precedence f (tkind z) \<le> 0 \<longrightarrow>
        length ts + 2 \<le> N \<longrightarrow> parse_binary_expr X N lhs 1 f = Inr (Some e, move (length ts) f))"

definition parsed_bound :: "parsers \<Rightarrow> bool \<Rightarrow> bool \<Rightarrow> token list \<Rightarrow> ast option \<Rightarrow> bool" where
  "parsed_bound X rng ins ts eo \<longleftrightarrow>
     (case eo of None \<Rightarrow> ts = [] | Some e \<Rightarrow> begins ts \<and> parsed_expression X rng ins ts e)"

definition parsed_argument :: "parsers \<Rightarrow> bool \<Rightarrow> token list \<Rightarrow> ast \<Rightarrow> bool" where
  "parsed_argument X rng ts a \<longleftrightarrow>
     (\<forall>f z N k. reads f ts z \<longrightarrow> allows rng True f \<longrightarrow> tkind z \<in> {Delimiter Token_Comma, Delimiter Token_CloseParen} \<longrightarrow>
        length ts + 2 \<le> N \<longrightarrow>
        bind_res (parse_expr (parse_binary_expr X N) False f) (\<lambda>(arg, f).
        bind_res (if curr_kind f = Operator Token_Eq then
                    bind_res (expect_token (Operator Token_Eq) f) (\<lambda>(eq, f).
                    bind_res (parse_value (parse_binary_expr X N) (syntax_error_if False f)) (\<lambda>(value, f).
                    Inr (Some (Ast_FieldValue arg value eq), f)))
                  else Inr (arg, syntax_error_if False f)) k) =
        (k (Some a, move (length ts) f) :: (ast option list \<times> token option) parsed))"

definition parsed_arguments :: "parsers \<Rightarrow> bool \<Rightarrow> token list \<Rightarrow> ast list \<Rightarrow> bool" where
  "parsed_arguments X rng ts as \<longleftrightarrow>
     (\<forall>f z N m acc. reads f ts z \<longrightarrow> allows rng True f \<longrightarrow> tkind z = Delimiter Token_CloseParen \<longrightarrow>
        length ts < m \<longrightarrow> length ts + 2 \<le> N \<longrightarrow>
        call_args (parse_binary_expr X N) m acc None False f =
          Inr ((acc @ List.map Some as, None), move (length ts) f))"

subsection \<open>Operands\<close>

lemma syntax_error_if_False [simp]: "syntax_error_if False f = f"
  by (simp add: syntax_error_if_def)

lemma check_or_return [simp]: "\<not> is_or_expr (Some e) \<Longrightarrow> parse_check_or_return e f = f"
  by (simp add: parse_check_or_return_def)

lemma parsed_primary_1:
  assumes "\<And>f z N m lhs. reads f ts z \<Longrightarrow> allows rng ins f \<Longrightarrow> length ts < N \<Longrightarrow>
      parse_operand X (parse_binary_expr X N) m lhs f = Inr (Some e, move (length ts) f)"
    and "ts \<noteq> []"
  shows "parsed_primary X rng ins ts e"
  unfolding parsed_primary_def
proof (intro allI impI)
  fix f z N m lhs
  assume "reads f ts z" "allows rng ins f" "length ts < (N :: nat)"
  from assms(1) [OF this, of m lhs] assms(2)
  show "\<exists>c lhs'. c < length ts \<and>
      bind_res (parse_operand X (parse_binary_expr X N) m lhs f)
        (\<lambda>(operand, g). parse_atom_expr X (parse_binary_expr X N) m operand lhs g) =
      bind_res (postfix_loop X (parse_binary_expr X N) (m - c) lhs' e (move (length ts) f)) (\<lambda>(e, g). Inr (Some e, g))"
    by (intro exI [of _ 0] exI [of _ lhs]) (simp add: parse_atom_expr_def)
qed

lemma parsed_token:
  assumes "tkind t = Literal Token_Ident \<and> e = Ast_Ident t \<or> basic_literal (tkind t) \<and> literal_ok X t \<and> e = Ast_BasicLit t \<or>
      tkind t = Operator Token_Uninit \<and> e = Ast_Uninit t \<or> tkind t = Keyword Token_context \<and> e = Ast_Implicit t"
  shows "parsed_primary X rng ins [t] e"
  by (rule parsed_primary_1)
     (use assms in \<open>auto simp: parse_operand_def Let_def reads_kind ident_reads expect_reads advance_token_reads basic_literal_def
        ast_basic_lit_def\<close>)

lemma parsed_primaryE:
  assumes "parsed_primary X rng ins ts e" and "reads f ts z" and "allows rng ins f" and "length ts \<le> m" and "length ts < N"
  obtains c lhs' where "c < length ts"
    and "bind_res (parse_operand X (parse_binary_expr X N) m lhs f)
        (\<lambda>(operand, g). parse_atom_expr X (parse_binary_expr X N) m operand lhs g) =
      bind_res (postfix_loop X (parse_binary_expr X N) (m - c) lhs' e (move (length ts) f)) (\<lambda>(e, g). Inr (Some e, g))"
  using assms unfolding parsed_primary_def by blast

text \<open>A postfix operator is one turn of the loop.\<close>

lemma parsed_postfix:
  assumes "parsed_primary X rng ins ts e"
    and "\<And>f z N m lhs. reads f (a # us) z \<Longrightarrow> allows rng ins f \<Longrightarrow> length us < m \<Longrightarrow> length us + 2 \<le> N \<Longrightarrow>
      postfix_step X (parse_binary_expr X N) m lhs e f = Inr (Some e', move (Suc (length us)) f)"
  shows "parsed_primary X rng ins (ts @ a # us) e'"
  unfolding parsed_primary_def
proof (intro allI impI)
  fix f z N m lhs
  assume r: "reads f (ts @ a # us) z" and f: "allows rng ins f" "length (ts @ a # us) \<le> m" "length (ts @ a # us) < N"
  let ?pb = "parse_binary_expr X N"
  note cut = reads_cut [OF r]
  have "length ts \<le> m" "length ts < N" using f by auto
  from parsed_primaryE [OF assms(1) cut(1) f(1) this] obtain c lhs' where c: "c < length ts"
    and run: "bind_res (parse_operand X ?pb m lhs f) (\<lambda>(operand, g). parse_atom_expr X ?pb m operand lhs g) =
      bind_res (postfix_loop X ?pb (m - c) lhs' e (move (length ts) f)) (\<lambda>(e, g). Inr (Some e, g))"
    by blast
  have m: "m - c = Suc (m - Suc c)" using c f(2) by simp
  have "postfix_step X ?pb (m - Suc c) lhs' e (move (length ts) f) =
      Inr (Some e', move (Suc (length us)) (move (length ts) f))"
    using c f by (intro assms(2) [OF cut(2)]) auto
  then have "postfix_loop X ?pb (m - c) lhs' e (move (length ts) f) =
      postfix_loop X ?pb (m - Suc c) False e' (move (length (ts @ a # us)) f)"
    unfolding m by simp
  with run c show "\<exists>c lhs'. c < length (ts @ a # us) \<and>
      bind_res (parse_operand X ?pb m lhs f) (\<lambda>(operand, g). parse_atom_expr X ?pb m operand lhs g) =
      bind_res (postfix_loop X ?pb (m - c) lhs' e' (move (length (ts @ a # us)) f)) (\<lambda>(e, g). Inr (Some e, g))"
    by (intro exI [of _ "Suc c"] exI [of _ False]) simp
qed

lemma parsed_selector:
  assumes "parsed_primary X rng ins ts e" and "\<not> is_or_expr (Some e)"
    and "tkind p \<in> {Delimiter Token_Period, Operator Token_ArrowRight}" and "tkind i = Literal Token_Ident"
  shows "parsed_primary X rng ins (ts @ [p, i]) (Ast_SelectorExpr p e (Ast_Ident i))"
proof (rule parsed_postfix [OF assms(1)])
  fix f z N m lhs
  assume r: "reads f [p, i] z"
  note r' = reads_step [OF r]
  show "postfix_step X (parse_binary_expr X N) m lhs e f =
      Inr (Some (Ast_SelectorExpr p e (Ast_Ident i)), move (Suc (length [i])) f)"
    using assms(2-4) advance_token_reads [OF r] ident_reads [OF r'] reads_kind(1) [OF r'] reads_kind(1) [OF r]
    by (auto simp: postfix_step_def Let_def parse_period_def)
qed

lemma parsed_unwrap:
  assumes "parsed_primary X rng ins ts e" and "\<not> is_or_expr (Some e)"
    and "tkind p = Delimiter Token_Period" and "tkind q = Operator Token_Question"
  shows "parsed_primary X rng ins (ts @ [p, q]) (Ast_TypeAssertion e p (Some (Ast_UnaryExpr q None)))"
proof (rule parsed_postfix [OF assms(1)])
  fix f z N m lhs
  assume r: "reads f [p, q] z"
  note r' = reads_step [OF r]
  show "postfix_step X (parse_binary_expr X N) m lhs e f =
      Inr (Some (Ast_TypeAssertion e p (Some (Ast_UnaryExpr q None))), move (Suc (length [q])) f)"
    using assms(2-4) advance_token_reads [OF r] expect_reads [OF r'] reads_kind(1) [OF r'] reads_kind(1) [OF r]
    by (auto simp: postfix_step_def Let_def parse_period_def ast_unary_expr_def is_or_expr_def)
qed

lemma parsed_deref:
  assumes "parsed_primary X rng ins ts e" and "\<not> is_or_expr (Some e)" and "tkind p = Operator Token_Pointer"
  shows "parsed_primary X rng ins (ts @ [p]) (Ast_DerefExpr e p)"
  by (rule parsed_postfix [OF assms(1)])
     (use assms(2,3) in \<open>auto simp: postfix_step_def Let_def expect_reads reads_kind\<close>)

lemma parsed_or_return:
  assumes "parsed_primary X rng ins ts e" and "tkind p = Keyword Token_or_return"
  shows "parsed_primary X rng ins (ts @ [p]) (Ast_OrReturnExpr e p)"
  by (rule parsed_postfix [OF assms(1)]) (use assms(2) in \<open>auto simp: postfix_step_def Let_def expect_reads reads_kind\<close>)

subsection \<open>Brackets\<close>

lemma parsed_expressionD:
  assumes "parsed_expression X rng ins ts e" and "reads f ts z" and "allows rng ins f" and "length ts + 2 \<le> N"
    and "tkind z \<in> {Delimiter Token_CloseParen, Delimiter Token_CloseBracket, Delimiter Token_Colon, Delimiter Token_Comma,
      Operator Token_Eq, Keyword Token_else}"
  shows "parse_expr (parse_binary_expr X N) lhs f = Inr (Some e, move (length ts) f)"
proof -
  have "ends_operand f z" using assms(5) by (auto simp: ends_operand_def)
  moreover have "token_precedence f (tkind z) \<le> 0" using assms(5) by (auto simp: token_precedence_def)
  ultimately show ?thesis
    using assms(1-4) unfolding parsed_expression_def parse_expr_def by simp
qed

lemma not_newline: "tkind t \<noteq> Delimiter Token_Semicolon \<Longrightarrow> \<not> token_is_newline t"
  by (simp add: token_is_newline_def)

lemma begins_reads:
  "reads f ts z \<Longrightarrow> begins ts \<Longrightarrow> begins_expression (curr_kind f)"
  by (auto simp: begins_with_def reads_kind)

lemma begins_not:
  "begins_expression k \<Longrightarrow> k \<notin> {Delimiter Token_CloseParen, Delimiter Token_CloseBracket, Delimiter Token_Colon,
     Delimiter Token_Comma, Operator Token_Eq, Token_EOF} \<and> \<not> index_stops k"
  by (auto simp: begins_expression_def begins_operand_def basic_literal_def prefix_operator_def index_stops_def is_token_range_def)

lemma bracket_run:
  assumes "allows rng ins f" and "reads f (a # us @ [b]) z"
    and "tkind a = Delimiter Token_OpenBracket" and "tkind b = Delimiter Token_CloseBracket" and "\<not> is_or_expr (Some e)"
    and "\<And>g. reads g us b \<Longrightarrow> allows False True g \<Longrightarrow> bracket_indices pb g = Inr (indices, move (length us) g)"
    and "\<And>f. bracket_node e a b indices f = (node, f)" and "us \<noteq> []" and "tkind (hd us) \<noteq> Delimiter Token_CloseBracket"
  shows "postfix_step X pb m lhs e f = Inr (Some node, move (Suc (Suc (length us))) f)"
proof -
  define g where "g = f\<lparr>allow_range := False, expr_level := expr_level f + 1\<rparr>"
  have b: "\<not> token_is_newline b" using assms(4) by (intro not_newline) simp
  have "reads f ((a # us) @ b # []) z" using assms(2) by simp
  note cut = reads_cut [OF this]
  have "reads g (a # us) b" unfolding g_def using b cut(1) by (intro reads_level) simp_all
  note a = this and r = reads_step [OF this]
  have "allows False True g" using assms(1) by (simp add: allows_def g_def)
  then have indices: "bracket_indices pb (move (Suc 0) g) = Inr (indices, move (Suc (length us)) g)"
    using assms(6) [OF r] by simp
  have close: "expect_token (Delimiter Token_CloseBracket) ((move (Suc (length us)) g)\<lparr>expr_level := expr_level f\<rparr>) =
      Inr (b, move (Suc (Suc (length us))) (f\<lparr>allow_range := False\<rparr>))"
    using cut(2) assms(4) by (subst expect_reads) (auto simp: g_def)
  show ?thesis
    using expect_reads [OF a assms(3)] indices close assms(3-5,7-9) reads_kind(1) [OF assms(2)] r
    by (cases us) (auto simp: postfix_step_def Let_def parse_bracket_def bracket_body_def reads_kind g_def)
qed

lemma begins_hd: "begins ts \<Longrightarrow> ts \<noteq> [] \<and> tkind (hd ts) \<noteq> Delimiter Token_CloseBracket"
  using begins_not by (auto simp: begins_with_def)

lemma parsed_index:
  assumes "parsed_primary X rng ins ts e" and "\<not> is_or_expr (Some e)"
    and "parsed_expression X False True us i" and "begins us"
    and "tkind a = Delimiter Token_OpenBracket" and "tkind b = Delimiter Token_CloseBracket"
  shows "parsed_primary X rng ins (ts @ a # us @ [b]) (Ast_IndexExpr e (Some i) a b)"
proof (rule parsed_postfix [OF assms(1)])
  fix f z N m lhs
  assume r: "reads f (a # us @ [b]) z" and f: "allows rng ins f" and N: "length (us @ [b]) + 2 \<le> N"
  have "bracket_indices (parse_binary_expr X N) g = Inr ((Some i, None, None), move (length us) g)"
    if g: "reads g us b" "allows False True g" for g
    using parsed_expressionD [OF assms(3) g, of N False] N assms(6) begins_not [OF begins_reads [OF g(1) assms(4)]]
      reads_kind(2) [OF reads_append [of g us "[]" b]] g(1)
    by (simp add: bracket_indices_def Let_def is_token_range_def)
  from bracket_run [OF f r assms(5,6,2) this, of "Ast_IndexExpr e (Some i) a b"]
  show "postfix_step X (parse_binary_expr X N) m lhs e f =
      Inr (Some (Ast_IndexExpr e (Some i) a b), move (Suc (length (us @ [b]))) f)"
    using begins_hd [OF assms(4)] assms(2) by (simp add: bracket_node_def)
qed

text \<open>Two indices or bounds, with a colon or a comma between them.\<close>

lemma two_indices:
  assumes "parsed_bound X False True us l" and "parsed_bound X False True vs h"
    and "tkind c \<in> {Delimiter Token_Colon, Delimiter Token_Comma}" and "tkind b = Delimiter Token_CloseBracket"
    and "tkind c = Delimiter Token_Comma \<longrightarrow> us \<noteq> []"
    and "reads g (us @ c # vs) b" and "allows False True g" and "length us + 2 \<le> N" and "length vs + 2 \<le> N"
  shows "bracket_indices (parse_binary_expr X N) g = Inr ((l, Some c, h), move (length (us @ c # vs)) g)"
proof -
  note cut = reads_cut [OF assms(6)]
  have low: "(if index_stops (curr_kind g) then Inr (None, g) else parse_expr (parse_binary_expr X N) False g) =
      Inr (l, move (length us) g)"
  proof (cases l)
    case None
    with assms(1) have "us = []" by (simp add: parsed_bound_def)
    with assms(3,5) None reads_kind(1) [of g c vs b] assms(6) show ?thesis by (auto simp: index_stops_def)
  next
    case (Some e)
    with assms(1) have u: "begins us" "parsed_expression X False True us e" by (simp_all add: parsed_bound_def)
    from begins_not [OF begins_reads [OF cut(1) u(1)]] parsed_expressionD [OF u(2) cut(1) assms(7,8)] assms(3) Some
    show ?thesis by auto
  qed
  have high: "(if curr_kind g' \<noteq> Delimiter Token_CloseBracket \<and> curr_kind g' \<noteq> Token_EOF then
         bind_res (parse_expr (parse_binary_expr X N) False g') (\<lambda>(high, f). Inr ((l, Some c, high), f))
       else Inr ((l, Some c, None), g')) = Inr ((l, Some c, h), move (length vs) g')"
    if g': "reads g' vs b" "allows False True g'" for g'
  proof (cases h)
    case None
    with assms(2) have "vs = []" by (simp add: parsed_bound_def)
    with None reads_kind(2) [of g' b] g' assms(4) show ?thesis by simp
  next
    case (Some e)
    with assms(2) have u: "begins vs" "parsed_expression X False True vs e" by (simp_all add: parsed_bound_def)
    from begins_not [OF begins_reads [OF g'(1) u(1)]] parsed_expressionD [OF u(2) g' assms(9)] assms(4) Some
    show ?thesis by auto
  qed
  have "\<not> is_token_range (tkind c)" using assms(3) by (auto simp: is_token_range_def)
  then show ?thesis
    unfolding bracket_indices_def low
    using high [OF cut(3)] advance_token_reads [OF cut(2)] reads_kind(1) [OF cut(2)] assms(3,7) by (auto simp: Let_def)
qed

lemma parsed_slice:
  assumes "parsed_primary X rng ins ts e" and "\<not> is_or_expr (Some e)"
    and "parsed_bound X False True us l" and "parsed_bound X False True vs h"
    and "tkind a = Delimiter Token_OpenBracket" and "tkind b = Delimiter Token_CloseBracket"
    and "tkind c = Delimiter Token_Colon \<and> node = Ast_SliceExpr e a b c l h \<or>
         tkind c = Delimiter Token_Comma \<and> l \<noteq> None \<and> h \<noteq> None \<and> node = Ast_MatrixIndexExpr e a b c l h"
  shows "parsed_primary X rng ins (ts @ a # us @ c # vs @ [b]) node"
proof (rule parsed_postfix [OF assms(1)])
  fix f z N m lhs
  assume "reads f (a # us @ c # vs @ [b]) z" and f: "allows rng ins f" and N: "length (us @ c # vs @ [b]) + 2 \<le> N"
  then have r: "reads f (a # (us @ c # vs) @ [b]) z" by simp
  have l: "us = [] \<or> begins us" "l \<noteq> None \<longrightarrow> us \<noteq> []" using assms(3) by (auto simp: parsed_bound_def begins_with_def split: option.splits)
  have "bracket_indices (parse_binary_expr X N) g = Inr ((l, Some c, h), move (length (us @ c # vs)) g)"
    if g: "reads g (us @ c # vs) b" "allows False True g" for g
    using N assms(7) l(2) by (intro two_indices [OF assms(3,4) _ assms(6) _ g]) auto
  from bracket_run [OF f r assms(5,6,2) this, of node]
  show "postfix_step X (parse_binary_expr X N) m lhs e f = Inr (Some node, move (Suc (length (us @ c # vs @ [b]))) f)"
    using l(1) begins_hd [of us] assms(2,7) by (cases us) (auto simp: bracket_node_def syntax_error_if_def)
qed

subsection \<open>Parentheses and calls\<close>

lemma reads_prev: "reads f (t # ts) z \<Longrightarrow> prev_token (move (Suc 0) f) = t"
  by (auto simp: reads_def move_def dest: arg_cong [where f = hd] simp: hd_drop_conv_nth nth_via_drop)

lemma parsed_paren:
  assumes "parsed_expression X rng True ts e"
    and "tkind a = Delimiter Token_OpenParen" and "tkind b = Delimiter Token_CloseParen"
  shows "parsed_primary X rng ins (a # ts @ [b]) (Ast_ParenExpr (Some e) a b)"
proof (rule parsed_primary_1)
  fix f z N m lhs
  assume r: "reads f (a # ts @ [b]) z" and f: "allows rng ins f" and N: "length (a # ts @ [b]) < N"
  define g where "g = (if expr_level f < 0 then f\<lparr>allow_newline := False\<rparr> else f)"
  define h where "h = g\<lparr>expr_level := max (expr_level g) 0 + 1\<rparr>"
  have b: "\<not> token_is_newline b" using assms(3) by (intro not_newline) simp
  have "reads f ((a # ts) @ b # []) z" using r by simp
  note cut = reads_cut [OF this]
  have "reads h (a # ts) b" unfolding h_def g_def using b cut(1) by (intro reads_level) simp_all
  note r' = reads_step [OF this]
  have "allows rng True h" using f by (auto simp: allows_def h_def g_def)
  then have inner: "parse_expr (parse_binary_expr X N) False (move (Suc 0) h) = Inr (Some e, move (Suc (length ts)) h)"
    using parsed_expressionD [OF assms(1) r', of N False] N assms(3) by simp
  have flags: "h\<lparr>allow_newline := allow_newline f, expr_level := expr_level f\<rparr> = f"
    by (simp add: h_def g_def)
  have raised: "(if expr_level f < 0 then (move (Suc 0) f)\<lparr>allow_newline := False\<rparr> else move (Suc 0) f) = move (Suc 0) g"
    "move (Suc 0) (g\<lparr>expr_level := max (expr_level g) 0 + 1\<rparr>) = move (Suc 0) h"
    by (simp_all add: g_def h_def)
  have close: "expect_token (Delimiter Token_CloseParen) (move (Suc (length ts)) f) =
      Inr (b, move (Suc (Suc (length ts))) f)"
    using cut(2) assms(3) by (subst expect_reads) auto
  show "parse_operand X (parse_binary_expr X N) m lhs f =
      Inr (Some (Ast_ParenExpr (Some e) a b), move (length (a # ts @ [b])) f)"
    using expect_reads [OF r assms(2)] reads_prev [OF r] reads_kind(1) [OF r] assms(2) raised inner flags close
    by (simp add: parse_operand_def Let_def parse_paren_def)
qed simp

lemma parsed_argument_positional:
  assumes "parsed_expression X rng True ts e"
  shows "parsed_argument X rng ts e"
  unfolding parsed_argument_def
proof (intro allI impI)
  fix f z N and k :: "ast option \<times> ast_file \<Rightarrow> (ast option list \<times> token option) parsed"
  assume r: "reads f ts z" and f: "allows rng True f" and z: "tkind z \<in> {Delimiter Token_Comma, Delimiter Token_CloseParen}"
    and N: "length ts + 2 \<le> N"
  have "curr_kind (move (length ts) f) = tkind z" using reads_kind(2) [OF reads_append [of f ts "[]" z]] r by simp
  then show "bind_res (parse_expr (parse_binary_expr X N) False f) (\<lambda>(arg, f).
        bind_res (if curr_kind f = Operator Token_Eq then
                    bind_res (expect_token (Operator Token_Eq) f) (\<lambda>(eq, f).
                    bind_res (parse_value (parse_binary_expr X N) (syntax_error_if False f)) (\<lambda>(value, f).
                    Inr (Some (Ast_FieldValue arg value eq), f)))
                  else Inr (arg, syntax_error_if False f)) k) = k (Some e, move (length ts) f)"
    using parsed_expressionD [OF assms r f N, of False] z by auto
qed

lemma parsed_argument_named:
  assumes "parsed_expression X rng True ts x" and "parsed_expression X True True us v" and "tkind eq = Operator Token_Eq"
  shows "parsed_argument X rng (ts @ eq # us) (Ast_FieldValue (Some x) (Some v) eq)"
  unfolding parsed_argument_def
proof (intro allI impI)
  fix f z N and k :: "ast option \<times> ast_file \<Rightarrow> (ast option list \<times> token option) parsed"
  assume r: "reads f (ts @ eq # us) z" and f: "allows rng True f"
    and z: "tkind z \<in> {Delimiter Token_Comma, Delimiter Token_CloseParen}" and N: "length (ts @ eq # us) + 2 \<le> N"
  note cut = reads_cut [OF r]
  have name: "parse_expr (parse_binary_expr X N) False f = Inr (Some x, move (length ts) f)"
    using parsed_expressionD [OF assms(1) cut(1) f, of N False] N assms(3) by simp
  have eq: "expect_token (Operator Token_Eq) (move (length ts) f) = Inr (eq, move (Suc (length ts)) f)"
    using expect_reads [OF cut(2) assms(3)] by simp
  have "reads (move (Suc (length ts)) (f\<lparr>allow_range := True\<rparr>)) us z"
    "allows True True (move (Suc (length ts)) (f\<lparr>allow_range := True\<rparr>))"
    using cut(3) f by (simp_all add: allows_def)
  note val = parsed_expressionD [OF assms(2) this, of N False]
  show "bind_res (parse_expr (parse_binary_expr X N) False f) (\<lambda>(arg, f).
        bind_res (if curr_kind f = Operator Token_Eq then
                    bind_res (expect_token (Operator Token_Eq) f) (\<lambda>(eq, f).
                    bind_res (parse_value (parse_binary_expr X N) (syntax_error_if False f)) (\<lambda>(value, f).
                    Inr (Some (Ast_FieldValue arg value eq), f)))
                  else Inr (arg, syntax_error_if False f)) k) =
      k (Some (Ast_FieldValue (Some x) (Some v) eq), move (length (ts @ eq # us)) f)"
    using name eq val N z reads_kind(1) [OF cut(2)] assms(3)
    by (auto simp: parse_value_def Let_def)
qed

text \<open>A separator between arguments, and the end of their list.\<close>

lemma comma_reads:
  "reads f (t # ts) z \<Longrightarrow> tkind t = Delimiter Token_Comma \<Longrightarrow> allow_field_separator f = Inr (True, move (Suc 0) f)"
  by (simp add: allow_field_separator_def allow_token_def Let_def reads_kind advance_token_reads)

lemma no_comma_reads:
  "reads f [] z \<Longrightarrow> tkind z = Delimiter Token_CloseParen \<Longrightarrow> allow_field_separator f = Inr (False, f)"
  by (simp add: allow_field_separator_def allow_token_def Let_def reads_kind reads_curr)

lemma arguments_begin:
  assumes "parsed_argument X rng ts a" and "begins ts" and "reads f ts z" and "allows rng True f"
    and "tkind z \<in> {Delimiter Token_Comma, Delimiter Token_CloseParen}" and "length ts + 2 \<le> N"
  shows "call_args (parse_binary_expr X N) (Suc m) acc None False f =
    bind_res (allow_field_separator (move (length ts) f)) (\<lambda>(more, f).
      if more then call_args (parse_binary_expr X N) m (acc @ [Some a]) None False f else Inr ((acc @ [Some a], None), f))"
proof -
  note first = begins_not [OF begins_reads [OF assms(3,2)]]
  have "curr_kind f \<noteq> Delimiter Token_Ellipsis"
    using begins_reads [OF assms(3,2)] by (auto simp: begins_expression_def begins_operand_def basic_literal_def prefix_operator_def)
  with first assms(1)[unfolded parsed_argument_def, rule_format, OF assms(3-6)]
  show ?thesis by simp (simp only: option.case simp_thms)
qed

lemma parsed_no_arguments: "parsed_arguments X rng [] []"
  unfolding parsed_arguments_def
proof (intro allI impI)
  fix f z N m acc
  assume "reads f [] z" "tkind z = Delimiter Token_CloseParen" "length [] < (m :: nat)"
  then show "call_args (parse_binary_expr X N) m acc None False f =
      Inr ((acc @ List.map Some [], None), move (length []) f)"
    by (cases m) (simp_all add: reads_kind)
qed

lemma parsed_last_argument:
  assumes "parsed_argument X rng ts a" and "begins ts"
  shows "parsed_arguments X rng ts [a]"
  unfolding parsed_arguments_def
proof (intro allI impI)
  fix f z N m acc
  assume r: "reads f ts z" and f: "allows rng True f" and z: "tkind z = Delimiter Token_CloseParen"
    and m: "length ts < m" and N: "length ts + 2 \<le> N"
  have "reads (move (length ts) f) [] z" using reads_append [of f ts "[]" z] r by simp
  note more = no_comma_reads [OF this z]
  obtain m' where "m = Suc m'" using m by (cases m) auto
  with arguments_begin [OF assms r f _ N, of m' acc] z more
  show "call_args (parse_binary_expr X N) m acc None False f =
      Inr ((acc @ List.map Some [a], None), move (length ts) f)"
    by simp
qed

lemma parsed_more_arguments:
  assumes "parsed_argument X rng ts a" and "begins ts" and "parsed_arguments X rng us as"
    and "tkind c = Delimiter Token_Comma"
  shows "parsed_arguments X rng (ts @ c # us) (a # as)"
  unfolding parsed_arguments_def
proof (intro allI impI)
  fix f z N m acc
  assume r: "reads f (ts @ c # us) z" and f: "allows rng True f" and z: "tkind z = Delimiter Token_CloseParen"
    and m: "length (ts @ c # us) < m" and N: "length (ts @ c # us) + 2 \<le> N"
  note cut = reads_cut [OF r]
  obtain m' where m': "m = Suc m'" using m by (cases m) auto
  have rest: "call_args (parse_binary_expr X N) m' (acc @ [Some a]) None False (move (Suc (length ts)) f) =
      Inr (((acc @ [Some a]) @ List.map Some as, None), move (length us) (move (Suc (length ts)) f))"
    using assms(3) cut(3) f z m m' N unfolding parsed_arguments_def by simp
  have "length ts + 2 \<le> N" using N by simp
  from arguments_begin [OF assms(1,2) cut(1) f _ this, of m' acc] comma_reads [OF cut(2) assms(4)] rest assms(4) m'
  show "call_args (parse_binary_expr X N) m acc None False f =
      Inr ((acc @ List.map Some (a # as), None), move (length (ts @ c # us)) f)"
    by simp
qed

lemma parsed_call:
  assumes "parsed_primary X rng ins ts e" and "\<not> is_or_expr (Some e)" and "parsed_arguments X rng us as"
    and "tkind a = Delimiter Token_OpenParen" and "tkind b = Delimiter Token_CloseParen"
  shows "parsed_primary X rng ins (ts @ a # us @ [b]) (call_node e (List.map Some as) a b None)"
proof (rule parsed_postfix [OF assms(1)])
  fix f z N m lhs
  assume r: "reads f (a # us @ [b]) z" and f: "allows rng ins f" and m: "length (us @ [b]) < m"
    and N: "length (us @ [b]) + 2 \<le> N"
  define g where "g = f\<lparr>expr_level := 0, allow_newline := file_allow_newline f\<rparr>"
  have b: "\<not> token_is_newline b" using assms(5) by (intro not_newline) simp
  have "reads f ((a # us) @ b # []) z" using r by simp
  note cut = reads_cut [OF this]
  have "reads (f\<lparr>expr_level := 0\<rparr>) (a # us) b" using b cut(1) by (intro reads_level) simp_all
  then have a: "reads g (a # us) b" by (simp add: g_def)
  have "allows rng True (move (Suc 0) g)" using f by (simp add: allows_def g_def)
  with assms(3) reads_step [OF a] have args: "call_args (parse_binary_expr X N) m [] None False (move (Suc 0) g) =
      Inr ((List.map Some as, None), move (Suc (length us)) g)"
    using assms(5) m N unfolding parsed_arguments_def by simp
  have flags: "g\<lparr>allow_newline := allow_newline f, expr_level := expr_level f\<rparr> = f"
    by (simp add: g_def)
  have close: "expect_closing (Delimiter Token_CloseParen) (move (Suc (length us)) f) =
      Inr (b, move (Suc (Suc (length us))) f)"
    using cut(2) assms(5) by (subst closing_reads) auto
  show "postfix_step X (parse_binary_expr X N) m lhs e f =
      Inr (Some (call_node e (List.map Some as) a b None), move (Suc (length (us @ [b]))) f)"
    using expect_reads [OF a assms(4)] args flags close reads_kind(1) [OF r] assms(2,4)
    by (simp add: postfix_step_def Let_def parse_call_expr_def g_def [symmetric])
qed

subsection \<open>Prefix and binary operators\<close>

lemma postfix_stops:
  assumes "reads f [] z" and "ends_operand f z" and "unparen e \<noteq> None" and "0 < m"
  shows "postfix_loop X pb m lhs e f = Inr (e, f)"
proof -
  obtain b where "is_literal_type e = Some b" using assms(3) by (auto simp: is_literal_type_def)
  then have "postfix_step X pb k lhs e f = Inr (None, f)" for k
    using assms(2) reads_kind(2) [OF assms(1)] by (auto simp: postfix_step_def Let_def ends_operand_def)
  then show ?thesis using assms(4) by (cases m) simp_all
qed

lemma parsed_operand:
  assumes "parsed_primary X rng ins ts e" and "begins_with begins_operand ts" and "unparen e \<noteq> None"
  shows "parsed_unary X rng ins ts e"
  unfolding parsed_unary_def
proof (intro allI impI)
  fix f z N m lhs
  assume r: "reads f ts z" and f: "allows rng ins f" and z: "ends_operand f z" and m: "length ts < m" and N: "length ts < N"
  obtain m' where m': "m = Suc m'" "length ts \<le> m'" using m by (cases m) auto
  from parsed_primaryE [OF assms(1) r f m'(2) N] obtain c lhs' where c: "c < length ts"
    and run: "bind_res (parse_operand X (parse_binary_expr X N) m' lhs f)
        (\<lambda>(operand, g). parse_atom_expr X (parse_binary_expr X N) m' operand lhs g) =
      bind_res (postfix_loop X (parse_binary_expr X N) (m' - c) lhs' e (move (length ts) f)) (\<lambda>(e, g). Inr (Some e, g))" .
  have "postfix_loop X (parse_binary_expr X N) (m' - c) lhs' e (move (length ts) f) = Inr (e, move (length ts) f)"
    using reads_append [of f ts "[]" z] r z assms(3) c m'(2) by (intro postfix_stops) auto
  with run have *: "bind_res (parse_operand X (parse_binary_expr X N) m' lhs f)
        (\<lambda>(operand, g). parse_atom_expr X (parse_binary_expr X N) m' operand lhs g) = Inr (Some e, move (length ts) f)"
    by simp
  have "begins_operand (curr_kind f)" using r assms(2) by (auto simp: begins_with_def reads_kind)
  then have k: "curr_kind f \<notin> {Keyword Token_transmute, Keyword Token_cast, Keyword Token_auto_cast, Operator Token_Increment,
      Operator Token_Decrement, Delimiter Token_Period}" "\<not> is_prefix_operator (curr_kind f)"
    by (auto simp: begins_operand_def basic_literal_def is_prefix_operator_def)
  show "parse_unary_expr X (parse_binary_expr X N) m lhs f = Inr (Some e, move (length ts) f)"
    using k * unfolding m'(1) parse_unary_expr.simps Let_def by simp
qed

lemma parsed_prefix:
  assumes "parsed_unary X rng ins ts e" and "\<not> is_or_expr (Some e)" and "prefix_operator (tkind t)" and "begins ts"
  shows "parsed_unary X rng ins (t # ts) (Ast_UnaryExpr t (Some e))"
  unfolding parsed_unary_def
proof (intro allI impI)
  fix f z N m lhs
  assume r: "reads f (t # ts) z" and f: "allows rng ins f" and z: "ends_operand f z"
    and m: "length (t # ts) < m" and N: "length (t # ts) < N"
  obtain m' where m': "m = Suc m'" "length ts < m'" using m by (cases m) auto
  note r' = reads_step [OF r]
  obtain u us where "ts = u # us" using assms(4) by (auto simp: begins_with_def)
  then have "\<not> token_is_newline (curr_token (move (Suc 0) f))" using r' by (auto simp: reads_curr)
  then have "skip_possible_newline (move (Suc 0) f) = Inr (False, move (Suc 0) f)"
    by (simp add: skip_possible_newline_def)
  moreover have "parse_unary_expr X (parse_binary_expr X N) m' lhs (move (Suc 0) f) = Inr (Some e, move (Suc (length ts)) f)"
    using assms(1) r' f z m' N unfolding parsed_unary_def by simp
  ultimately show "parse_unary_expr X (parse_binary_expr X N) m lhs f =
      Inr (Some (Ast_UnaryExpr t (Some e)), move (length (t # ts)) f)"
    using assms(2,3) advance_token_reads [OF r] reads_kind(1) [OF r] m'(1)
    by (auto simp: is_prefix_operator_def prefix_operator_def ast_unary_expr_def)
qed

lemma parsed_auto_cast:
  assumes "parsed_unary X rng ins ts e" and "tkind t = Keyword Token_auto_cast"
  shows "parsed_unary X rng ins (t # ts) (Ast_AutoCast t (Some e))"
  unfolding parsed_unary_def
proof (intro allI impI)
  fix f z N m lhs
  assume r: "reads f (t # ts) z" and f: "allows rng ins f" and z: "ends_operand f z"
    and m: "length (t # ts) < m" and N: "length (t # ts) < N"
  obtain m' where m': "m = Suc m'" "length ts < m'" using m by (cases m) auto
  have "parse_unary_expr X (parse_binary_expr X N) m' lhs (move (Suc 0) f) = Inr (Some e, move (Suc (length ts)) f)"
    using assms(1) reads_step [OF r] f z m' N unfolding parsed_unary_def by simp
  then show "parse_unary_expr X (parse_binary_expr X N) m lhs f =
      Inr (Some (Ast_AutoCast t (Some e)), move (length (t # ts)) f)"
    using assms(2) advance_token_reads [OF r] reads_kind(1) [OF r] m'(1) by simp
qed

lemma parsed_implicit_selector:
  assumes "tkind p = Delimiter Token_Period" and "tkind i = Literal Token_Ident"
  shows "parsed_unary X rng ins [p, i] (Ast_ImplicitSelectorExpr p (Ast_Ident i))"
  unfolding parsed_unary_def
proof (intro allI impI)
  fix f z N m lhs
  assume r: "reads f [p, i] z" and m: "length [p, i] < m"
  obtain m' where "m = Suc m'" using m by (cases m) auto
  with assms expect_reads [OF r assms(1)] ident_reads [OF reads_step [OF r] assms(2)] reads_kind(1) [OF r]
  show "parse_unary_expr X (parse_binary_expr X N) m lhs f =
      Inr (Some (Ast_ImplicitSelectorExpr p (Ast_Ident i)), move (length [p, i]) f)"
    by (simp add: is_prefix_operator_def)
qed

lemma parsed_chainE:
  assumes "parsed_chain X rng ins p ts e" and "reads f ts z" and "allows rng ins f" and "ends_operand f z"
    and "token_precedence f (tkind z) \<le> p" and "r \<le> p" and "length ts < k" and "length ts \<le> m" and "length ts < N"
  obtains c lhs' where "c < length ts"
    and "bind_res (parse_unary_expr X (parse_binary_expr X N) k lhs f)
        (\<lambda>(e, g). binary_loop (parse_binary_expr X N) m lhs r e g) =
      binary_loop (parse_binary_expr X N) (m - c) lhs' r (Some e) (move (length ts) f)"
  using assms unfolding parsed_chain_def by blast

lemma reads_end:
  assumes "reads f ts z"
  shows "reads (move (length ts) f) [] z"
  using reads_append [of f ts "[]" z] assms by simp

lemma parsed_single:
  assumes "parsed_unary X rng ins ts e" and "ts \<noteq> []"
  shows "parsed_chain X rng ins p ts e"
  unfolding parsed_chain_def
proof (intro allI impI)
  fix f z N k m lhs r
  assume "reads f ts z" "allows rng ins f" "ends_operand f z" "length ts < k" "length ts < (N :: nat)"
  then have "parse_unary_expr X (parse_binary_expr X N) k lhs f = Inr (Some e, move (length ts) f)"
    using assms(1) unfolding parsed_unary_def by blast
  then show "\<exists>c lhs'. c < length ts \<and>
      bind_res (parse_unary_expr X (parse_binary_expr X N) k lhs f)
        (\<lambda>(e, g). binary_loop (parse_binary_expr X N) m lhs r e g) =
      binary_loop (parse_binary_expr X N) (m - c) lhs' r (Some e) (move (length ts) f)"
    using assms(2) by (intro exI [of _ 0] exI [of _ lhs]) simp
qed

text \<open>A chain on its own, before a token of a lower level.\<close>

lemma chain_alone:
  assumes "parsed_chain X rng ins p ts e" and "reads f ts z" and "allows rng ins f" and "ends_operand f z"
    and "token_precedence f (tkind z) < p" and "length ts + 2 \<le> N"
  shows "parse_binary_expr X N lhs p f = Inr (Some e, move (length ts) f)"
proof -
  obtain n where n: "N = Suc n" "length ts < n" using assms(6) by (cases N) auto
  from parsed_chainE [OF assms(1-4) less_imp_le [OF assms(5)] order.refl n(2) less_imp_le [OF n(2)] n(2)]
  obtain c lhs' where c: "c < length ts"
    and run: "bind_res (parse_unary_expr X (parse_binary_expr X n) n lhs f)
        (\<lambda>(e, g). binary_loop (parse_binary_expr X n) n lhs p e g) =
      binary_loop (parse_binary_expr X n) (n - c) lhs' p (Some e) (move (length ts) f)" .
  have "curr_kind (move (length ts) f) = tkind z" using reads_kind(2) [OF reads_end [OF assms(2)]] .
  then have "binary_loop (parse_binary_expr X n) (n - c) lhs' p (Some e) (move (length ts) f) =
      Inr (Some e, move (length ts) f)"
    using assms(5) c n(2) by (cases "n - c") (auto simp: Let_def curr_kind_def)
  with run n(1) show ?thesis by (simp add: split_def)
qed

lemma operator_level:
  assumes "binary_operator rng ins k q" and "allows rng ins f"
  shows "token_precedence f k = q"
  using assms(1) by cases (use assms(2) in \<open>auto simp: token_precedence_def allows_def\<close>)

lemma operator_good:
  assumes "binary_operator rng ins k q" and "allows rng ins f"
  shows "\<not> bad_operator f k"
  using assms(1) by cases (use assms(2) in \<open>auto simp: bad_operator_def allows_def is_token_range_def token_is_operator_def\<close>)

lemma operator_ends:
  assumes "binary_operator rng ins (tkind z) q"
  shows "ends_operand f z"
  using assms by cases (simp_all add: ends_operand_def, (elim disjE; simp)+)

lemma operator_kinds:
  assumes "binary_operator rng ins k q"
  shows "k \<notin> {Operator Token_Question, Keyword Token_if, Keyword Token_when, Delimiter Token_Ellipsis}"
  using assms by cases auto

lemma expect_operator_reads:
  assumes "reads f (t # ts) z" and "\<not> bad_operator f (tkind t)" and "tkind t \<noteq> Delimiter Token_Ellipsis"
  shows "expect_operator f = Inr (t, move (Suc 0) f)"
  using assms by (simp add: expect_operator_def Let_def reads_curr advance_token_reads)

lemma bad_operator_move [simp]: "bad_operator (move n f) k = bad_operator f k"
  by (simp add: bad_operator_def)

lemma parsed_binary:
  assumes "parsed_chain X rng ins q ts l" and "parsed_chain X rng ins (q + 1) us r"
    and "binary_operator rng ins (tkind op) q" and "p \<le> q"
    and "tkind op = Keyword Token_or_else \<or> \<not> is_or_expr (Some l) \<and> \<not> is_or_expr (Some r)"
  shows "parsed_chain X rng ins p (ts @ op # us) (binary_node op l r)"
  unfolding parsed_chain_def
proof (intro allI impI)
  fix f z N k m lhs r'
  assume rd: "reads f (ts @ op # us) z" and f: "allows rng ins f" and z: "ends_operand f z"
    "token_precedence f (tkind z) \<le> p" and r': "r' \<le> p" and k: "length (ts @ op # us) < k"
    and m: "length (ts @ op # us) \<le> m" and N: "length (ts @ op # us) < N"
  let ?pb = "parse_binary_expr X N"
  note cut = reads_cut [OF rd]
  note op = operator_level [OF assms(3) f] operator_good [OF assms(3) f] operator_kinds [OF assms(3)]
  have fuel: "length ts < k" "length ts \<le> m" "length ts < N" using k m N by simp_all
  have op': "ends_operand f op" "token_precedence f (tkind op) \<le> q" "r' \<le> q"
    using operator_ends [OF assms(3)] op(1) r' assms(4) by auto
  from parsed_chainE [OF assms(1) cut(1) f op' fuel] obtain c lhs' where c: "c < length ts"
    and run: "bind_res (parse_unary_expr X ?pb k lhs f) (\<lambda>(e, g). binary_loop ?pb m lhs r' e g) =
      binary_loop ?pb (m - c) lhs' r' (Some l) (move (length ts) f)" .
  have mc: "m - c = Suc (m - Suc c)" using c m by simp
  have right: "?pb False (q + 1) (move (Suc (length ts)) f) = Inr (Some r, move (length (ts @ op # us)) f)"
  proof -
    have "?pb False (q + 1) (move (Suc (length ts)) f) = Inr (Some r, move (length us) (move (Suc (length ts)) f))"
      using z assms(4) N f c by (intro chain_alone [OF assms(2) cut(3)]) auto
    then show ?thesis by simp
  qed
  have "parse_operator ?pb lhs' q op (Some l) (move (Suc (length ts)) f) =
      Inr (Some (binary_node op l r), move (length (ts @ op # us)) f)"
    unfolding parse_operator_def using op(3) right assms(5) by (auto simp: ast_binary_expr_def binary_node_def)
  moreover have "expect_operator (move (length ts) f) = Inr (op, move (Suc (length ts)) f)"
    using expect_operator_reads [OF cut(2)] op(2,3) by simp
  ultimately have "binary_loop ?pb (m - c) lhs' r' (Some l) (move (length ts) f) =
      binary_loop ?pb (m - Suc c) False r' (Some (binary_node op l r)) (move (length (ts @ op # us)) f)"
    unfolding mc using op(1,3) r' assms(4) reads_curr(1) [OF cut(2)] by (simp add: Let_def)
  with run c show "\<exists>c lhs'. c < length (ts @ op # us) \<and>
      bind_res (parse_unary_expr X ?pb k lhs f) (\<lambda>(e, g). binary_loop ?pb m lhs r' e g) =
      binary_loop ?pb (m - c) lhs' r' (Some (binary_node op l r)) (move (length (ts @ op # us)) f)"
    by (intro exI [of _ "Suc c"] exI [of _ False]) simp
qed

lemma parsed_no_ternary:
  "parsed_chain X rng ins 1 ts e \<Longrightarrow> parsed_expression X rng ins ts e"
  unfolding parsed_expression_def by (auto intro!: chain_alone)

text \<open>An \<^verbatim>\<open>if\<close> is on the line of what it follows.\<close>

lemma reads_line:
  assumes "reads f ts z" and "ts \<noteq> []"
  shows "same_line (prev_token (move (length ts) f)) z"
proof -
  from assms(2) obtain us u where u: "ts = us @ [u]" by (cases ts rule: rev_cases) auto
  have "reads (move (length us) f) [u] z" using reads_append [of f us "[u]" z] assms(1) u by simp
  note r = this and reads_prev [OF this]
  then show ?thesis using u by (simp add: reads_def)
qed

lemma parsed_ternary:
  assumes "parsed_chain X rng ins 1 ts e" and "parsed_expression X rng ins us x" and "parsed_expression X rng ins vs y"
    and "tkind a \<in> {Keyword Token_if, Keyword Token_when} \<and> tkind b = Keyword Token_else \<or>
         tkind a = Operator Token_Question \<and> tkind b = Delimiter Token_Colon"
    and "node = (if tkind a = Operator Token_Question then Ast_TernaryIfExpr (Some x) (Some e) (Some y)
       else if tkind a = Keyword Token_if then Ast_TernaryIfExpr (Some e) (Some x) (Some y)
       else Ast_TernaryWhenExpr (Some e) (Some x) (Some y))" and "ts \<noteq> []"
  shows "parsed_expression X rng ins (ts @ a # us @ b # vs) node"
  unfolding parsed_expression_def
proof (intro allI impI)
  fix f z N lhs
  assume rd: "reads f (ts @ a # us @ b # vs) z" and f: "allows rng ins f" and z: "ends_operand f z"
    "token_precedence f (tkind z) \<le> 0" and N: "length (ts @ a # us @ b # vs) + 2 \<le> N"
  let ?n = "length (ts @ a # us @ b # vs)"
  obtain n where n: "N = Suc n" "?n < n" using N by (cases N) auto
  let ?pb = "parse_binary_expr X n"
  note cut = reads_cut [OF rd]
  note cut2 = reads_cut [OF cut(3)]
  have a: "ends_operand f a" "token_precedence f (tkind a) = 1"
    using assms(4) by (auto simp: ends_operand_def token_precedence_def)
  have fuel: "length ts < n" "length ts \<le> n" using n(2) by simp_all
  from parsed_chainE [OF assms(1) cut(1) f a(1) _ order.refl fuel fuel(1)] a(2) obtain c lhs' where c: "c < length ts"
    and run: "bind_res (parse_unary_expr X ?pb n lhs f) (\<lambda>(e, g). binary_loop ?pb n lhs 1 e g) =
      binary_loop ?pb (n - c) lhs' 1 (Some e) (move (length ts) f)" by auto
  have nc: "n - c = Suc (Suc (n - Suc (Suc c)))" using c n by simp
  have first: "parse_expr ?pb lhs' (move (Suc (length ts)) f) = Inr (Some x, move (length us) (move (Suc (length ts)) f))"
    using n(2) assms(4) f by (intro parsed_expressionD [OF assms(2) cut2(1)]) auto
  have sep: "expect_token (tkind b) (move (length us) (move (Suc (length ts)) f)) =
      Inr (b, move (Suc (length us)) (move (Suc (length ts)) f))"
    using expect_reads [OF cut2(2) refl] by simp
  have "parse_expr ?pb lhs' (move (Suc (length us)) (move (Suc (length ts)) f)) =
      Inr (Some y, move (length vs) (move (Suc (length us)) (move (Suc (length ts)) f)))"
    using assms(3) cut2(3) f z n(2) unfolding parsed_expression_def parse_expr_def by simp
  with first sep have "parse_operator ?pb lhs' 1 a (Some e) (move (Suc (length ts)) f) = Inr (Some node, move ?n f)"
    using assms(4,5) by (auto simp: parse_operator_def algebra_simps)
  moreover have "expect_operator (move (length ts) f) = Inr (a, move (Suc (length ts)) f)"
    using expect_operator_reads [OF cut(2)] assms(4) by (auto simp: bad_operator_def token_is_operator_def is_token_range_def)
  moreover have "\<not> (tkind a = Keyword Token_if \<or> tkind a = Keyword Token_when) \<or>
      \<not> line (pos (prev_token (move (length ts) f))) < line (pos a)"
    using reads_line [OF cut(1) assms(6)] by (auto simp: same_line_def)
  ultimately have "binary_loop ?pb (n - c) lhs' 1 (Some e) (move (length ts) f) =
      binary_loop ?pb (Suc (n - Suc (Suc c))) False 1 (Some node) (move ?n f)"
    unfolding nc using a(2) reads_curr(1) [OF cut(2)] by (subst binary_loop.simps) (auto simp: Let_def)
  moreover have "curr_kind (move ?n f) = tkind z" by (rule reads_kind(2) [OF reads_end [OF rd]])
  ultimately have "binary_loop ?pb (n - c) lhs' 1 (Some e) (move (length ts) f) = Inr (Some node, move ?n f)"
    using z(2) by (simp add: Let_def curr_kind_def)
  with run n(1) show "parse_binary_expr X N lhs 1 f = Inr (Some node, move ?n f)" by (simp add: split_def)
qed

subsection \<open>Every derivation\<close>

lemma begins_nonempty: "begins_with P ts \<Longrightarrow> ts \<noteq> []"
  by (auto simp: begins_with_def)

lemma parsed:
  fixes X :: parsers
  defines "lit \<equiv> literal_ok X"
  shows
  "primary lit rng ins ts e \<Longrightarrow> parsed_primary X rng ins ts e"
  "unary lit rng ins ts e \<Longrightarrow> parsed_unary X rng ins ts e"
  "chain lit rng ins p ts e \<Longrightarrow> parsed_chain X rng ins p ts e"
  "expression lit rng ins ts e \<Longrightarrow> parsed_expression X rng ins ts e"
  "bound lit rng ins ts eo \<Longrightarrow> parsed_bound X rng ins ts eo"
  "argument lit rng ts e \<Longrightarrow> parsed_argument X rng ts e"
  "arguments lit rng ts es \<Longrightarrow> parsed_arguments X rng ts es"
proof (induction rule: primary_unary_chain_expression_bound_argument_arguments.inducts)
  case ident
  then show ?case by (intro parsed_token) (simp add: lit_def)
next
  case literal
  then show ?case by (intro parsed_token) (simp add: lit_def)
next
  case uninit
  then show ?case by (intro parsed_token) simp
next
  case implicit
  then show ?case by (intro parsed_token) simp
next
  case paren
  then show ?case by (intro parsed_paren)
next
  case selector
  then show ?case by (intro parsed_selector)
next
  case unwrap
  then show ?case by (intro parsed_unwrap)
next
  case deref
  then show ?case by (intro parsed_deref)
next
  case or_return
  then show ?case by (intro parsed_or_return)
next
  case index
  then show ?case by (intro parsed_index) (simp_all add: begins)
next
  case slice
  then show ?case by (intro parsed_slice) simp_all
next
  case (matrix_index rng ins ts e us i vs j a c b)
  then show ?case by (intro parsed_slice [of _ _ _ _ _ _ "Some i" _ "Some j"]) (simp_all add: parsed_bound_def begins)
next
  case call
  then show ?case by (intro parsed_call)
next
  case operand
  then show ?case by (intro parsed_operand) (simp_all add: begins del: not_None_eq)
next
  case prefix
  then show ?case by (intro parsed_prefix) (simp_all add: begins)
next
  case auto_cast
  then show ?case by (intro parsed_auto_cast)
next
  case implicit_selector
  then show ?case by (intro parsed_implicit_selector)
next
  case single
  then show ?case by (intro parsed_single) (simp_all add: begins begins_nonempty [of begins_expression])
next
  case binary
  then show ?case by (intro parsed_binary)
next
  case no_ternary
  then show ?case by (intro parsed_no_ternary)
next
  case ternary_if
  then show ?case by (intro parsed_ternary) (simp_all add: begins begins_nonempty [of begins_expression])
next
  case ternary_when
  then show ?case by (intro parsed_ternary) (simp_all add: begins begins_nonempty [of begins_expression])
next
  case ternary_question
  then show ?case by (intro parsed_ternary) (simp_all add: begins begins_nonempty [of begins_expression])
next
  case no_bound
  show ?case by (simp add: parsed_bound_def)
next
  case some_bound
  then show ?case by (simp add: parsed_bound_def begins)
next
  case positional
  then show ?case by (intro parsed_argument_positional)
next
  case named
  then show ?case by (intro parsed_argument_named)
next
  case no_argument
  show ?case by (intro parsed_no_arguments)
next
  case last_argument
  then show ?case by (intro parsed_last_argument) (simp_all add: begins)
next
  case more_arguments
  then show ?case by (intro parsed_more_arguments) (simp_all add: begins)
qed

end
