(* ===== verification/Parser_Properties.thy ===== *)
theory Parser_Properties
  imports Parser_Contract Expr_Correct
begin

text \<open>
  What the expression parser promises: it ends, it only moves forward and leaves the flags as they were, and it
  returns the tree the grammar gives. And where the code falls short of that: empty brackets and empty parentheses.
\<close>

subsection \<open>Parsers of the rest of the language that keep the contract\<close>

definition plain_parsers :: parsers where
  "plain_parsers =
     \<lparr>parse_type = (\<lambda>f. Inr (Ast_Other Ast_OtherNode (curr_token f) 0, f)), parse_other_operand = (\<lambda>lhs f. Inr (None, f)),
      literal_ok = (\<lambda>t. True)\<rparr>"

lemma plain_parsers_ok: "others_ok plain_parsers"
  by (simp add: others_ok_def plain_parsers_def reads_on_refl)

text \<open>Tokens of one byte on one line, and a file of them.\<close>

definition short_token :: "token_kind \<Rightarrow> nat \<Rightarrow> token" where
  "short_token k n = \<lparr>tkind = k, tstring = Slice n 1, pos = \<lparr>file_id = 0, offset = n, line = 1, column = int n + 1\<rparr>\<rparr>"

definition short_file :: "token_kind list \<Rightarrow> ast_file" where
  "short_file ks =
     (let toks = map2 short_token ks [0..<length ks] in new_ast_file False [] toks (hd toks))"

subsection \<open>Returning\<close>

lemma file_tokens_ok:
  assumes "init_ast_file kw cat fid is_strict d = (ParseFile_None, f0)" and "tokens f = tokens f0"
    and "curr_token_index f < length (tokens f)" and "curr_token f = tokens f ! curr_token_index f"
  shows "file_ok f" and "length (tokens f) \<le> length d + 2"
proof -
  obtain toks t where t: "tokenize_file kw cat fid d = (toks, ParseFile_None, t)" and f: "tokens f = toks"
    using assms(1,2) by (auto simp: init_ast_file_def new_ast_file_def split: prod.splits)
  note ok = tokenize_file_ok [OF t]
  show "length (tokens f) \<le> length d + 2" using ok f by simp
  have "tkind (toks ! i) = Token_EOF \<longleftrightarrow> i + 1 = length toks" if i: "i < length toks" for i
  proof (cases "i + 1 = length toks")
    case True
    then have "i = length toks - 1" by simp
    then show ?thesis using True ok last_conv_nth [of toks] by simp
  next
    case False
    then have "i < length (butlast toks)" using i by simp
    then have "toks ! i \<in> set (butlast toks)" using nth_mem nth_butlast by metis
    with ok False show ?thesis by auto
  qed
  with assms(3,4) f show "file_ok f" by (simp add: file_ok_def)
qed

lemma expr_ok_run:
  assumes "others_ok X" and "file_ok f" and "tokens_left f + 3 \<le> N"
  shows "ok_result 0 f (parse_expr (parse_binary_expr X N) lhs f)"
proof -
  obtain n where n: "N = n + 1" "tokens_left f + 1 < n" using assms(3) by (cases N) auto
  from binary_expr_ok [OF assms(1), of n] n assms(2) show ?thesis
    unfolding expr_ok_def parse_expr_def by simp
qed

text \<open>
  Property C6. The parser of expressions ends. Whatever the bytes of a file are, if they were cut into tokens, then from
  any of its tokens on and with any flags, a nesting of four more than the bytes is enough for \<open>parse_expr\<close> and
  all its loops: it returns, or stops the process at an unexpected end of file, or fails (an assertion or a null
  pointer), but it neither hangs nor runs out of fuel; as long as the parsers of types and of the other operands keep
  their contract.
\<close>

theorem parse_expr_returns:
  assumes "init_ast_file kw cat fid is_strict d = (ParseFile_None, f0)" and "tokens f = tokens f0"
    and "curr_token_index f < length (tokens f)" and "curr_token f = tokens f ! curr_token_index f"
    and "others_ok X" and "length d + 4 \<le> N"
  shows "(\<exists>e f'. parse_expr (parse_binary_expr X N) lhs f = Inr (e, f')) \<or>
    parse_expr (parse_binary_expr X N) lhs f = Inl Exit_With_Errors \<or> parse_expr (parse_binary_expr X N) lhs f = Inl Crash"
proof -
  note f = file_tokens_ok [OF assms(1-4)]
  have "tokens_left f + 3 \<le> N" using f(2) assms(6) by (simp add: tokens_left_def)
  from expr_ok_run [OF assms(5) f(1) this, of lhs] show ?thesis
    by (cases "parse_expr (parse_binary_expr X N) lhs f") (auto simp: ok_stop_def)
qed

lemma parse_expr_returns_witness:
  "\<exists>f0. init_ast_file empty_keyword_tables (\<lambda>_. LU) 0 False [0x78] = (ParseFile_None, f0) \<and>
     ((\<exists>e f'. parse_expr (parse_binary_expr plain_parsers 5) False f0 = Inr (e, f')) \<or>
      parse_expr (parse_binary_expr plain_parsers 5) False f0 = Inl Exit_With_Errors \<or>
      parse_expr (parse_binary_expr plain_parsers 5) False f0 = Inl Crash)"
proof -
  let ?i = "init_ast_file empty_keyword_tables (\<lambda>_. LU) 0 False [0x78]"
  have i: "fst ?i = ParseFile_None \<and> curr_token_index (snd ?i) < length (tokens (snd ?i)) \<and>
      curr_token (snd ?i) = tokens (snd ?i) ! curr_token_index (snd ?i)" by code_simp
  then have "?i = (ParseFile_None, snd ?i)" by (metis prod.collapse)
  from parse_expr_returns [OF this refl _ _ plain_parsers_ok, of 5 False] i this show ?thesis by auto
qed

subsection \<open>Moving forward\<close>

text \<open>
  Property C7. The parser moves forward. Where \<open>parse_expr\<close> returns, the tokens of the file are as before, the cursor
  is on a token not before the one it was on, no reported error is lost, and if no error was reported on the
  way, the level of nesting and the flags for newlines, ranges, \<^verbatim>\<open>in\<close> and types are those at the start.
\<close>

theorem parse_expr_moves_on:
  assumes "others_ok X" and "file_ok f" and "tokens_left f + 3 \<le> N"
    and "parse_expr (parse_binary_expr X N) lhs f = Inr (e, f')"
  shows "tokens f' = tokens f \<and> curr_token_index f \<le> curr_token_index f' \<and> curr_token_index f' < length (tokens f) \<and>
    curr_token f' = tokens f ! curr_token_index f' \<and> syntax_errors f \<le> syntax_errors f' \<and>
    (syntax_errors f' = syntax_errors f \<longrightarrow>
       expr_level f' = expr_level f \<and> allow_newline f' = allow_newline f \<and> allow_range f' = allow_range f \<and>
       allow_in_expr f' = allow_in_expr f \<and> allow_type f' = allow_type f)"
proof -
  have "reads_on 0 f f'" using expr_ok_run [OF assms(1-3), of lhs] assms(4) by simp
  then show ?thesis using assms(2) by (auto simp: reads_on_def file_ok_def tokens_left_def flags_def)
qed

lemma parse_expr_moves_on_witness:
  "\<exists>e f'. parse_expr (parse_binary_expr plain_parsers 4) False (short_file [Literal Token_Ident, Token_EOF]) = Inr (e, f') \<and>
     tokens f' = tokens (short_file [Literal Token_Ident, Token_EOF]) \<and> curr_token_index f' < 2"
proof -
  let ?f = "short_file [Literal Token_Ident, Token_EOF]"
  have "\<not> isl (parse_expr (parse_binary_expr plain_parsers 4) False ?f)" by code_simp
  then obtain e f' where r: "parse_expr (parse_binary_expr plain_parsers 4) False ?f = Inr (e, f')"
    by (metis isl_def obj_sumE surj_pair)
  have f: "file_ok ?f" "tokens_left ?f + 3 \<le> 4" "length (tokens ?f) = 2" by code_simp+
  from parse_expr_moves_on [OF plain_parsers_ok f(1,2) r] r f(3) show ?thesis by auto
qed

subsection \<open>The grammar\<close>



text \<open>As the parser is a function, the grammar is not ambiguous (with each \<^verbatim>\<open>if\<close> on the line of what it follows).\<close>

corollary expression_unique:
  assumes "expression lit rng ins ts e" and "expression lit rng ins ts e'" and "successively same_line ts"
  shows "e = e'"
proof -
  define X where "X = plain_parsers\<lparr>literal_ok := lit\<rparr>"
  define eof where "eof = no_token\<lparr>tkind := Token_EOF\<rparr>"
  define f where "f = (new_ast_file False [] (ts @ [eof]) (hd (ts @ [eof])))
    \<lparr>allow_range := rng, expr_level := if ins then 0 else -1\<rparr>"
  have ts: "ts \<noteq> []" "\<forall>t\<in>set ts. tkind t \<noteq> Token_Comment \<and> tkind t \<noteq> Delimiter Token_Semicolon"
    using begins(4) [OF assms(1)] derived_tokens(4) [OF assms(1)] begins_nonempty by auto
  have "successively same_line (ts @ [eof])"
    using assms(3) ts(1) by (simp add: successively_append_iff same_line_def eof_def)
  then have r: "reads f ts eof"
    using ts(2) by (auto simp: reads_def f_def new_ast_file_def eof_def not_newline)
  have f: "allows rng ins f" "ends_operand f eof" "token_precedence f (tkind eof) \<le> 0"
    by (simp_all add: allows_def f_def new_ast_file_def ends_operand_def eof_def token_precedence_def)
  have run: "parse_binary_expr X (length ts + 2) False 1 f = Inr (Some x, move (length ts) f)"
    if "expression lit rng ins ts x" for x
  proof -
    have "literal_ok X = lit" by (simp add: X_def)
    with parsed(4) [of X rng ins ts x] that have "parsed_expression X rng ins ts x" by simp
    with r f show ?thesis unfolding parsed_expression_def by blast
  qed
  have "Inr (Some e, move (length ts) f) = (Inr (Some e', move (length ts) f) :: ast option parsed)"
    using run [OF assms(1)] run [OF assms(2)] by (rule trans [OF sym])
  then show ?thesis by simp
qed

subsection \<open>Empty brackets and parentheses\<close>

text \<open>
  Property C36. Empty brackets behind an operand (\<^verbatim>\<open>x[]\<close>). The error is reported and the index is left out, but the level
  of nesting stays raised by one behind the brackets, so that newlines no longer end the statement.
\<close>

theorem empty_index_raises_level:
  assumes "reads f [a, b] z" and "tkind a = Delimiter Token_OpenBracket" and "tkind b = Delimiter Token_CloseBracket"
    and "\<not> token_is_newline z"
  shows "postfix_step X pb m lhs operand f =
    Inr (Some (Ast_IndexExpr operand None a b), (move 2 (syntax_error f))\<lparr>expr_level := expr_level f + 1\<rparr>)"
proof -
  let ?f = "f\<lparr>allow_range := False, expr_level := expr_level f + 1\<rparr>"
  have r: "reads ?f [a, b] z" using assms(1,4) by (intro reads_level) simp_all
  have r': "reads (syntax_error (move (Suc 0) ?f)) [b] z" using reads_step [OF r] by (simp add: reads_def syntax_error_def)
  show ?thesis
    using expect_reads [OF r assms(2)] expect_reads [OF r' assms(3)] reads_kind(1) [OF assms(1)] reads_kind(1) [OF reads_step [OF r]]
      assms(2,3)
    apply (simp add: postfix_step_def Let_def parse_bracket_def bracket_body_def)
    apply (simp add: syntax_error_def move_def)
    done
qed

lemma empty_index_raises_level_witness:
  "\<exists>e f. postfix_step plain_parsers (parse_binary_expr plain_parsers 1) 1 False (Ast_Ident no_token)
     (short_file [Delimiter Token_OpenBracket, Delimiter Token_CloseBracket, Token_EOF]) = Inr (Some e, f) \<and> expr_level f = 1"
proof -
  let ?f = "short_file [Delimiter Token_OpenBracket, Delimiter Token_CloseBracket, Token_EOF]"
  let ?t = "\<lambda>n. tokens ?f ! n"
  have "reads ?f [?t 0, ?t 1] (?t 2)"
    by (simp add: reads_def short_file_def short_token_def new_ast_file_def Let_def same_line_def token_is_newline_def upt_rec)
  moreover have "tkind (?t 0) = Delimiter Token_OpenBracket" "tkind (?t 1) = Delimiter Token_CloseBracket"
    "\<not> token_is_newline (?t 2)" "expr_level ?f = 0"
    by code_simp+
  ultimately show ?thesis
    using empty_index_raises_level [of ?f "?t 0" "?t 1" "?t 2" plain_parsers "parse_binary_expr plain_parsers 1" 1 False] by simp
qed

lemma nothing_between_parens:
  assumes "curr_kind f = Delimiter Token_CloseParen" and "allow_type f"
  shows "parse_binary_expr X (Suc (Suc (Suc n))) False 1 f = Inr (None, f)"
  using assms
  by (simp add: is_prefix_operator_def parse_operand_def other_operand_def parse_atom_expr_def token_precedence_def curr_kind_def Let_def)

text \<open>
  Property C37. Empty parentheses before a brace. Where a type may stand, \<^verbatim>\<open>() {\<close> makes \<open>is_literal_type\<close> follow a null
  pointer: the test for empty parentheses in \<open>parse_operand\<close> looks at the token before the current one, which
  is the opening one, and never holds.
\<close>

theorem empty_parens_crash:
  assumes "reads f [a, b] c" and "tkind a = Delimiter Token_OpenParen" and "tkind b = Delimiter Token_CloseParen"
    and "tkind c = Delimiter Token_OpenBrace" and "allow_type f" and "4 \<le> N"
  shows "parse_expr (parse_binary_expr X N) False f = Inl Crash"
proof -
  obtain n where "N = 4 + n" using le_Suc_ex [OF assms(6)] by blast
  then have N: "N = Suc (Suc (Suc (Suc n)))" by simp
  let ?pb = "parse_binary_expr X (Suc (Suc (Suc n)))"
  define g where "g = (if expr_level f < 0 then f\<lparr>allow_newline := False\<rparr> else f)"
  define h where "h = g\<lparr>expr_level := max (expr_level g) 0 + 1\<rparr>"
  have b: "reads (move (Suc 0) f) [b] c" by (rule reads_step [OF assms(1)])
  have c: "reads (move (Suc (Suc 0)) f) [] c" using reads_step [OF b] by simp
  have "curr_kind (move (Suc 0) h) = Delimiter Token_CloseParen" "allow_type (move (Suc 0) h)"
    using reads_kind(1) [OF b] assms(3,5) by (simp_all add: h_def g_def curr_kind_def move_def)
  note inner = nothing_between_parens [OF this, of X n]
  have flags: "h\<lparr>allow_newline := allow_newline f, expr_level := expr_level f\<rparr> = f"
    by (simp add: h_def g_def)
  have raised: "(if expr_level f < 0 then (move (Suc 0) f)\<lparr>allow_newline := False\<rparr> else move (Suc 0) f) = move (Suc 0) g"
    "move (Suc 0) (g\<lparr>expr_level := max (expr_level g) 0 + 1\<rparr>) = move (Suc 0) h"
    by (simp_all add: g_def h_def)
  have paren: "parse_paren ?pb f = Inr (Ast_ParenExpr None a b, move (Suc (Suc 0)) f)"
    using expect_reads [OF assms(1,2)] reads_prev [OF assms(1)] raised inner flags expect_reads [OF b assms(3)] assms(2)
    by (simp add: parse_paren_def Let_def parse_expr_def del: parse_binary_expr.simps)
  have "postfix_step X ?pb k False (Ast_ParenExpr None a b) (move (Suc (Suc 0)) f) = Inl Crash" for k
    using reads_kind(2) [OF c] assms(4) by (simp add: postfix_step_def Let_def is_literal_type_def)
  then have "parse_unary_expr X ?pb (Suc (Suc (Suc n))) False f = Inl Crash"
    using reads_kind(1) [OF assms(1)] assms(2) paren
    by (simp add: is_prefix_operator_def parse_operand_def parse_atom_expr_def Let_def del: parse_binary_expr.simps)
  then show ?thesis unfolding N parse_expr_def by simp
qed

lemma empty_parens_crash_witness:
  "\<exists>f. map tkind (tokens f) = [Delimiter Token_OpenParen, Delimiter Token_CloseParen, Delimiter Token_OpenBrace, Token_EOF] \<and>
     allow_type f \<and> parse_expr (parse_binary_expr plain_parsers 7) False f = Inl Crash"
proof -
  let ?ks = "[Delimiter Token_OpenParen, Delimiter Token_CloseParen, Delimiter Token_OpenBrace, Token_EOF]"
  let ?f = "short_file ?ks\<lparr>allow_type := True\<rparr>"
  let ?t = "\<lambda>n. tokens ?f ! n"
  have "reads ?f [?t 0, ?t 1] (?t 2)"
    by (simp add: reads_def short_file_def short_token_def new_ast_file_def Let_def same_line_def token_is_newline_def upt_rec)
  moreover have "map tkind (tokens ?f) = ?ks" "tkind (?t 0) = Delimiter Token_OpenParen"
    "tkind (?t 1) = Delimiter Token_CloseParen" "tkind (?t 2) = Delimiter Token_OpenBrace" "allow_type ?f"
    by code_simp+
  ultimately show ?thesis
    using empty_parens_crash [of ?f "?t 0" "?t 1" "?t 2" 7 plain_parsers] by (intro exI [of _ ?f]) simp
qed

end
