(* ===== verification/Strings.thy ===== *)
theory Strings
  imports Utf8 "HOL-Library.Sublist"
begin

text \<open>
  Strings of bytes (\<^verbatim>\<open>src/string.cpp\<close>): searching, splitting and file names. A string is the list of its
  bytes; positions that may be -1 are \<open>int\<close>. The bounds that \<open>substring\<close> asserts hold at every call here.
\<close>

subsection \<open>Parts of strings\<close>

definition substring :: "byte list \<Rightarrow> nat \<Rightarrow> nat \<Rightarrow> byte list" where
  "substring s lo hi = take (hi - lo) (drop lo s)"

fun string_index_byte_from :: "nat \<Rightarrow> byte list \<Rightarrow> byte \<Rightarrow> int" where
  "string_index_byte_from i [] x = -1"
| "string_index_byte_from i (b # s) x = (if b = x then int i else string_index_byte_from (i + 1) s x)"

definition string_index_byte :: "byte list \<Rightarrow> byte \<Rightarrow> int" where
  "string_index_byte s x = string_index_byte_from 0 s x"

definition string_starts_with :: "byte list \<Rightarrow> byte list \<Rightarrow> bool" where
  "string_starts_with s pre = (if length pre > length s then False else substring s 0 (length pre) = pre)"

definition string_ends_with :: "byte list \<Rightarrow> byte list \<Rightarrow> bool" where
  "string_ends_with s suf =
     (if length suf > length s then False else substring s (length s - length suf) (length s) = suf)"

definition string_trim_starts_with :: "byte list \<Rightarrow> byte list \<Rightarrow> byte list" where
  "string_trim_starts_with s pre = (if string_starts_with s pre then substring s (length pre) (length s) else s)"

definition string_contains_char :: "byte list \<Rightarrow> byte \<Rightarrow> bool" where
  "string_contains_char s c = list_ex (\<lambda>x. x = c) s"

definition string_contains_string :: "byte list \<Rightarrow> byte list \<Rightarrow> bool" where
  "string_contains_string haystack needle =
     (if needle = [] then True
      else if length needle > length haystack then False
      else list_ex (\<lambda>i. list_all (\<lambda>j. haystack ! (i + j) = needle ! j) [0..<length needle])
             [0..<length haystack - length needle + 1])"

subsection \<open>Splitting\<close>

text \<open>The iterator: the string and the position in it.\<close>

definition string_split_iterator :: "byte list \<Rightarrow> nat \<Rightarrow> byte \<Rightarrow> byte list \<times> nat" where
  "string_split_iterator str start sep =
     (if start = length str then ([], start)
      else
        let rest = drop start str; res = takeWhile (\<lambda>b. b \<noteq> sep) rest
        in if length res < length rest then (res, start + length res + 1) else (rest, length str))"

definition trailing_space :: "byte \<Rightarrow> bool" where
  "trailing_space c \<longleftrightarrow> rune_is_whitespace (uint c) \<or> c = 0"

definition string_trim_trailing_whitespace :: "byte list \<Rightarrow> byte list" where
  "string_trim_trailing_whitespace str = rev (dropWhile trailing_space (rev str))"

definition string_trim_whitespace :: "byte list \<Rightarrow> byte list" where
  "string_trim_whitespace str =
     (let str = rev (dropWhile (\<lambda>b. rune_is_whitespace (uint b)) (rev str));
          str = rev (dropWhile (\<lambda>b. b = 0) (rev str))
      in dropWhile (\<lambda>b. rune_is_whitespace (uint b)) str)"

function split_lines_loop :: "byte list \<Rightarrow> nat \<Rightarrow> byte list list" where
  "split_lines_loop str p =
     (let (line, q) = string_split_iterator str p 0x0a
      in if line = [] then [] else string_trim_trailing_whitespace line # split_lines_loop str q)"
  by pat_completeness auto
termination
proof (relation "measure (\<lambda>(str, p). length str - p)", goal_cases)
  case (2 str p x line q)
  then show ?case
    by (cases "p < length str")
       (auto simp: string_split_iterator_def Let_def split: if_splits)
qed simp

declare split_lines_loop.simps [simp del]

definition split_lines_from_array :: "byte list \<Rightarrow> byte list list" where
  "split_lines_from_array a = split_lines_loop a 0"

subsection \<open>File names\<close>

definition is_separator :: "byte \<Rightarrow> bool" where
  "is_separator b \<longleftrightarrow> b = 0x2f \<or> b = 0x5c"

text \<open>The loop runs down from \<open>i\<close>.\<close>

fun extension_position :: "byte list \<Rightarrow> nat \<Rightarrow> int" where
  "extension_position str 0 = -1"
| "extension_position str (Suc i) =
     (if is_separator (str ! i) then -1 else if str ! i = 0x2e then int i else extension_position str i)"

definition string_extension_position :: "byte list \<Rightarrow> int" where
  "string_extension_position str = extension_position str (length str)"

definition path_extension :: "byte list \<Rightarrow> bool \<Rightarrow> byte list" where
  "path_extension str include_dot =
     (let p = string_extension_position str
      in if p < 0 then [] else substring str (if include_dot then nat p else nat p + 1) (length str))"

definition path_remove_extension :: "byte list \<Rightarrow> byte list" where
  "path_remove_extension str =
     (let p = string_extension_position str in if p < 0 then str else substring str 0 (nat p))"

definition filename_from_path :: "byte list \<Rightarrow> byte list" where
  "filename_from_path s = (let i = string_extension_position s in if i \<ge> 0 then substring s 0 (nat i) else [])"

fun last_separator :: "byte list \<Rightarrow> nat \<Rightarrow> int" where
  "last_separator s 0 = -1"
| "last_separator s (Suc j) = (if is_separator (s ! j) then int j else last_separator s j)"

definition filename_without_directory :: "byte list \<Rightarrow> byte list" where
  "filename_without_directory s = (let j = last_separator s (length s) in substring s (nat (max (j + 1) 0)) (length s))"

text \<open>The extension is split off at its dot.\<close>

lemma extension_position_less: "extension_position str i < int i"
  by (induction i) auto

lemma path_extension_split: "path_remove_extension str @ path_extension str True = str"
  using extension_position_less [of str "length str"]
  by (simp add: path_remove_extension_def path_extension_def string_extension_position_def substring_def Let_def)

subsection \<open>Searching\<close>

definition PRIME_RABIN_KARP :: u32 where
  "PRIME_RABIN_KARP = 16777619"

definition rabin_karp_step :: "u32 \<Rightarrow> byte \<Rightarrow> u32" where
  "rabin_karp_step h c = h * PRIME_RABIN_KARP + ucast c"

fun rabin_karp_pow :: "nat \<Rightarrow> u32 \<Rightarrow> u32 \<Rightarrow> u32" where
  "rabin_karp_pow i pow sq =
     (if i = 0 then pow else rabin_karp_pow (i div 2) (if odd i then pow * sq else pow) (sq * sq))"

declare rabin_karp_pow.simps [simp del]

definition hash_str_rabin_karp :: "byte list \<Rightarrow> u32 \<times> u32" where
  "hash_str_rabin_karp s = (foldl rabin_karp_step 0 s, rabin_karp_pow (length s) 1 PRIME_RABIN_KARP)"

text \<open>The loop with the window that ends before \<open>i\<close> and its hash \<open>h\<close>.\<close>

function rabin_karp_loop :: "u32 \<Rightarrow> u32 \<Rightarrow> byte list \<Rightarrow> byte list \<Rightarrow> nat \<Rightarrow> u32 \<Rightarrow> int" where
  "rabin_karp_loop hash pow s substr i h =
     (if i < length s then
        let n = length substr;
            h = h * PRIME_RABIN_KARP + ucast (s ! i) - pow * ucast (s ! (i - n));
            i = i + 1
        in if h = hash \<and> substring s (i - n) i = substr then int (i - n)
           else rabin_karp_loop hash pow s substr i h
      else -1)"
  by pat_completeness auto
termination by (relation "measure (\<lambda>(hash, pow, s, substr, i, h). length s - i)") auto

declare rabin_karp_loop.simps [simp del]

text \<open>What follows the special cases, with the hash and the power it compares with.\<close>

definition rabin_karp_search :: "u32 \<times> u32 \<Rightarrow> byte list \<Rightarrow> byte list \<Rightarrow> int" where
  "rabin_karp_search hp s substr =
     (let (hash, pow) = hp; n = length substr; h = foldl rabin_karp_step 0 (take n s)
      in if h = hash \<and> substring s 0 n = substr then 0 else rabin_karp_loop hash pow s substr n h)"

definition string_index :: "byte list \<Rightarrow> byte list \<Rightarrow> int" where
  "string_index s substr =
     (let n = length substr
      in if n = 0 then 0
         else if n = 1 then string_index_byte s (substr ! 0)
         else if n = length s then (if s = substr then 0 else -1)
         else if n > length s then -1
         else rabin_karp_search (hash_str_rabin_karp s) s substr)"

definition string_partition :: "byte list \<Rightarrow> byte list \<Rightarrow> byte list \<times> byte list \<times> byte list" where
  "string_partition str sep =
     (let i = string_index str sep
      in if i < 0 then (str, [], [])
         else (substring str 0 (nat i), substring str (nat i) (nat i + length sep),
               substring str (nat i + length sep) (length str)))"

end
