(* ===== verification/String_Search.thy ===== *)
theory String_Search
  imports Strings
begin

text \<open>
  Searching: the rolling hash of \<open>rabin_karp_loop\<close> is the hash of the window, so the loop finds the first
  occurrence if it is given the hash of what it looks for.
\<close>

subsection \<open>Occurrences\<close>

definition occurs_at :: "byte list \<Rightarrow> byte list \<Rightarrow> nat \<Rightarrow> bool" where
  "occurs_at s t i \<longleftrightarrow> i + length t \<le> length s \<and> substring s i (i + length t) = t"

lemma occurs_at_iff: "occurs_at s t i \<longleftrightarrow> (\<exists>u v. s = u @ t @ v \<and> length u = i)"
proof
  assume o: "occurs_at s t i"
  then have "take (length t) (drop i s) = t" by (simp add: occurs_at_def substring_def)
  then have "s = take i s @ t @ drop (length t) (drop i s)" by (metis append_take_drop_id)
  moreover have "length (take i s) = i" using o by (simp add: occurs_at_def)
  ultimately show "\<exists>u v. s = u @ t @ v \<and> length u = i" by blast
qed (auto simp: occurs_at_def substring_def)

subsection \<open>The rolling hash\<close>

abbreviation rk_hash :: "byte list \<Rightarrow> u32" where
  "rk_hash s \<equiv> foldl rabin_karp_step 0 s"

lemma rabin_karp_pow: "rabin_karp_pow i p sq = p * sq ^ i"
proof (induction i p sq rule: rabin_karp_pow.induct)
  case (1 i p sq)
  show ?case
  proof (cases "i = 0")
    case False
    have "sq ^ i = (sq * sq) ^ (i div 2) * (if odd i then sq else 1)"
      by (cases "odd i") (auto simp: power2_eq_square [symmetric] power_mult [symmetric] elim!: oddE evenE)
    with 1 False show ?thesis by (simp add: rabin_karp_pow.simps [of i] ac_simps)
  qed (simp add: rabin_karp_pow.simps)
qed

lemma rk_hash_snoc: "rk_hash (w @ [c]) = rk_hash w * PRIME_RABIN_KARP + ucast c"
  by (simp add: rabin_karp_step_def)

lemma rk_hash_from: "foldl rabin_karp_step h w = h * PRIME_RABIN_KARP ^ length w + rk_hash w"
proof (induction w arbitrary: h)
  case (Cons c w)
  from Cons.IH [of "rabin_karp_step h c"] Cons.IH [of "rabin_karp_step 0 c"]
  show ?case by (simp add: rabin_karp_step_def algebra_simps)
qed simp

lemma rolling:
  "rk_hash (x # w) * PRIME_RABIN_KARP + ucast c - PRIME_RABIN_KARP ^ length (x # w) * ucast x = rk_hash (w @ [c])"
proof -
  have "rk_hash (x # w) = ucast x * PRIME_RABIN_KARP ^ length w + rk_hash w"
    using rk_hash_from [of "ucast x" w] by (simp add: rabin_karp_step_def)
  then show ?thesis by (simp add: rabin_karp_step_def algebra_simps)
qed

subsection \<open>The search\<close>

lemma window_step:
  assumes "1 \<le> n" and "n \<le> i" and "i < length s"
  shows "\<exists>w. substring s (i - n) i = s ! (i - n) # w \<and> substring s (Suc i - n) (Suc i) = w @ [s ! i]"
proof -
  have a: "drop (i - n) s = s ! (i - n) # drop (Suc (i - n)) s" using assms by (intro Cons_nth_drop_Suc [symmetric]) simp
  have e: "Suc i - n = Suc (i - n)" using assms by simp
  let ?w = "take (n - 1) (drop (Suc (i - n)) s)"
  have "substring s (i - n) i = s ! (i - n) # ?w"
    using assms by (simp add: substring_def a take_Cons')
  moreover have "take n (drop (Suc (i - n)) s) = ?w @ [s ! i]"
    using take_Suc_conv_app_nth [of "n - 1" "drop (Suc (i - n)) s"] assms by simp
  then have "substring s (Suc i - n) (Suc i) = ?w @ [s ! i]"
    using assms by (simp add: substring_def e Suc_diff_le)
  ultimately show ?thesis by blast
qed

lemma loop_hit:
  "i < length s \<Longrightarrow>
   h * PRIME_RABIN_KARP + ucast (s ! i) - p * ucast (s ! (i - length t)) = hash \<Longrightarrow>
   substring s (Suc i - length t) (Suc i) = t \<Longrightarrow>
   rabin_karp_loop hash p s t i h = int (Suc i - length t)"
  by (subst rabin_karp_loop.simps) (simp add: Let_def)

lemma loop_miss:
  "i < length s \<and> \<not> (h * PRIME_RABIN_KARP + ucast (s ! i) - p * ucast (s ! (i - length t)) = hash \<and>
     substring s (Suc i - length t) (Suc i) = t) \<Longrightarrow>
   rabin_karp_loop hash p s t i h =
     rabin_karp_loop hash p s t (Suc i) (h * PRIME_RABIN_KARP + ucast (s ! i) - p * ucast (s ! (i - length t)))"
proof (subst rabin_karp_loop.simps, goal_cases)
  case 1
  then show ?case unfolding Let_def add.commute [of _ 1] plus_1_eq_Suc by (simp only: if_True if_not_P if_False)
qed

text \<open>Whatever hash and power it is given, what the loop finds is an occurrence.\<close>

lemma rabin_karp_loop_sound:
  "length t \<le> i \<Longrightarrow> rabin_karp_loop hash p s t i h = -1 \<or>
     (\<exists>j. rabin_karp_loop hash p s t i h = int j \<and> occurs_at s t j)"
proof (induction hash p s t i h rule: rabin_karp_loop.induct)
  case (1 hash p s t i h)
  define h' where "h' = h * PRIME_RABIN_KARP + ucast (s ! i) - p * ucast (s ! (i - length t))"
  show ?case
  proof (cases "i < length s \<and> \<not> (h' = hash \<and> substring s (Suc i - length t) (Suc i) = t)")
    case True
    then have "rabin_karp_loop hash p s t i h = rabin_karp_loop hash p s t (Suc i) h'"
      using loop_miss unfolding h'_def by blast
    moreover have "length t \<le> Suc i" using 1(2) by simp
    ultimately show ?thesis
      using 1(1) [of "length t" h' "Suc i"] True by (simp add: h'_def)
  next
    case False
    then show ?thesis
    proof (cases "i < length s")
      case True
      with False have "h' = hash" and eq: "substring s (Suc i - length t) (Suc i) = t" by auto
      then have "rabin_karp_loop hash p s t i h = int (Suc i - length t)"
        using True loop_hit unfolding h'_def by metis
      moreover have "occurs_at s t (Suc i - length t)" using eq True 1(2) by (simp add: occurs_at_def)
      ultimately show ?thesis by blast
    qed (simp add: rabin_karp_loop.simps [of hash p s t i h])
  qed
qed

lemma rabin_karp_loop_first:
  assumes "1 \<le> length t" and "hash = rk_hash t" and "p = PRIME_RABIN_KARP ^ length t"
  shows "length t \<le> i \<Longrightarrow> i \<le> length s \<Longrightarrow> h = rk_hash (substring s (i - length t) i) \<Longrightarrow> (\<forall>j. occurs_at s t j \<longrightarrow> i - length t < j) \<Longrightarrow>
    (\<exists>j. rabin_karp_loop hash p s t i h = int j \<and> occurs_at s t j \<and> (\<forall>k<j. \<not> occurs_at s t k)) \<or>
    rabin_karp_loop hash p s t i h = -1 \<and> (\<forall>j. \<not> occurs_at s t j)"
  using assms
proof (induction hash p s t i h rule: rabin_karp_loop.induct)
  case (1 hash p s t i h)
  let ?n = "length t"
  show ?case
  proof (cases "i < length s")
    case True
    obtain w where w: "substring s (i - ?n) i = s ! (i - ?n) # w" "substring s (Suc i - ?n) (Suc i) = w @ [s ! i]"
      using window_step [of ?n i s] 1 True by auto
    have l: "length (s ! (i - ?n) # w) = ?n"
      using arg_cong [OF w(1), of length] 1(2,3) by (simp add: substring_def)
    define h' where "h' = h * PRIME_RABIN_KARP + ucast (s ! i) - p * ucast (s ! (i - ?n))"
    have h': "h' = rk_hash (substring s (Suc i - ?n) (Suc i))"
      using rolling [of "s ! (i - ?n)" w "s ! i"]
      unfolding l unfolding w [symmetric] 1(4) [symmetric] 1(8) [symmetric] h'_def .
    have at: "occurs_at s t (Suc i - ?n) \<longleftrightarrow> substring s (Suc i - ?n) (Suc i) = t"
      using True 1(2) by (auto simp: occurs_at_def)
    show ?thesis
    proof (cases "substring s (Suc i - ?n) (Suc i) = t")
      case eq: True
      have "rabin_karp_loop hash p s t i h = int (Suc i - ?n)"
        using loop_hit [of i s h p t hash] True eq h' 1(7) unfolding h'_def by metis
      moreover have "\<forall>k<Suc i - ?n. \<not> occurs_at s t k" using 1(2,5) by (auto simp: less_Suc_eq Suc_diff_le)
      ultimately show ?thesis using eq at by blast
    next
      case neq: False
      have "rabin_karp_loop hash p s t i h = rabin_karp_loop hash p s t (Suc i) h'"
        using loop_miss [of i s h p t hash] True neq unfolding h'_def by blast
      moreover have "\<forall>j. occurs_at s t j \<longrightarrow> Suc i - ?n < j"
        using 1(2,5) at neq by (metis Suc_diff_le Suc_leI le_neq_implies_less)
      ultimately show ?thesis
        using 1(1) [of ?n h' "Suc i"] 1(2,6-8) True neq h' by (simp add: h'_def)
    qed
  next
    case False
    then have "rabin_karp_loop hash p s t i h = -1" by (simp add: rabin_karp_loop.simps [of hash p s t i h])
    moreover have "\<not> occurs_at s t j" for j using 1(3,5) False by (fastforce simp: occurs_at_def)
    ultimately show ?thesis by blast
  qed
qed




end
