(* ===== verification/Quoting.thy ===== *)
theory Quoting
  imports Utf8
begin

text \<open>
  Quoted literals (\<^verbatim>\<open>src/string.cpp\<close>): \<open>quote_to_ascii\<close> writes a string as a literal, \<open>unquote_string\<close> reads the
  literals of a source file. Writing past the end of the buffer that \<open>unquote_string\<close> allocates is a result
  of its own. A rune is an \<open>int\<close>.
\<close>

subsection \<open>Quoting\<close>

definition is_printable :: "int \<Rightarrow> bool" where
  "is_printable r =
     (if r \<le> 0xff then
        (if 0x20 \<le> r \<and> r \<le> 0x7e then True else if 0xa1 \<le> r \<and> r \<le> 0xff then r \<noteq> 0xad else False)
      else False)"

definition lower_hex :: "byte list" where
  "lower_hex = [0x30, 0x31, 0x32, 0x33, 0x34, 0x35, 0x36, 0x37, 0x38, 0x39, 0x61, 0x62, 0x63, 0x64, 0x65, 0x66]"

text \<open>The digits of \<open>r\<close> from the bit \<open>4 * (k - 1)\<close> down to bit 0.\<close>

fun hex_digits :: "nat \<Rightarrow> int \<Rightarrow> byte list" where
  "hex_digits 0 r = []"
| "hex_digits (Suc k) r = lower_hex ! nat (drop_bit (4 * k) r AND 0xf) # hex_digits k r"

definition backslash :: byte where
  "backslash = 0x5c"

text \<open>A rune that is not printed as it is; runes below the space are written twice.\<close>

definition escape_rune :: "int \<Rightarrow> byte list" where
  "escape_rune r =
     (if r < 0x20 then backslash # 0x78 # hex_digits 2 (uint (word_of_int r :: byte)) else []) @
     (let r = (if r > GB_RUNE_MAX then 0xfffd else r)
      in if r < 0x10000 then backslash # 0x75 # hex_digits 4 r else backslash # 0x55 # hex_digits 8 r)"

definition quote_rune :: "byte \<Rightarrow> byte list \<Rightarrow> nat \<times> byte list" where
  "quote_rune quote s =
     (let r = uint (s ! 0); (width, r) = (if r \<ge> 0x80 then utf8_decode s else (1, r))
      in (width,
          if width = 1 \<and> r = GB_RUNE_INVALID then backslash # 0x78 # hex_digits 2 (uint (s ! 0))
          else if r = uint quote \<or> r = uint backslash then [backslash, word_of_int r]
          else if r < 0x80 \<and> is_printable r then [word_of_int r]
          else escape_rune r))"

lemma quote_rune_width:
  assumes "s \<noteq> []"
  shows "1 \<le> fst (quote_rune quote s)"
proof -
  obtain n r where d: "utf8_decode s = (n, r)" by fastforce
  with utf8_decode_progress(1) [OF d assms] show ?thesis by (simp add: quote_rune_def Let_def)
qed

function quote_loop :: "byte \<Rightarrow> byte list \<Rightarrow> byte list" where
  "quote_loop quote s =
     (if s = [] then [] else let (width, text) = quote_rune quote s in text @ quote_loop quote (drop width s))"
  by pat_completeness auto
termination
proof (relation "measure (\<lambda>(quote, s). length s)", goal_cases)
  case (2 quote s x width t)
  then have "1 \<le> width" using quote_rune_width [of s quote] by (metis fst_conv)
  with 2(1) show ?case by (cases s) auto
qed simp

declare quote_loop.simps [simp del]

definition quote_to_ascii :: "byte list \<Rightarrow> byte \<Rightarrow> byte list" where
  "quote_to_ascii str quote = quote # quote_loop quote str @ [quote]"

subsection \<open>Unquoting\<close>

text \<open>\<^verbatim>\<open>char\<close> is signed.\<close>

definition gb_digit_to_int :: "byte \<Rightarrow> int" where
  "gb_digit_to_int c = (if 0x30 \<le> c \<and> c \<le> 0x39 then sint c - 0x30 else sint c - 0x57)"

definition gb_hex_digit_to_int :: "byte \<Rightarrow> int" where
  "gb_hex_digit_to_int c =
     (if 0x30 \<le> c \<and> c \<le> 0x39 then gb_digit_to_int c
      else if 0x61 \<le> c \<and> c \<le> 0x66 then sint c - 0x61 + 10
      else if 0x41 \<le> c \<and> c \<le> 0x46 then sint c - 0x41 + 10
      else -1)"

text \<open>The value of digits of \<open>bits\<close> bits each, as an \<^verbatim>\<open>i32\<close>; \<open>None\<close> for a character outside of the range.\<close>

fun escape_value :: "(byte \<Rightarrow> int) \<Rightarrow> nat \<Rightarrow> int \<Rightarrow> byte list \<Rightarrow> int option" where
  "escape_value digit bits r [] = Some r"
| "escape_value digit bits r (c # cs) =
     (let d = digit c
      in if d < 0 \<or> d \<ge> 2 ^ bits then None else escape_value digit bits (signed_take_bit 31 (push_bit bits r OR d)) cs)"

definition simple_escapes :: "(byte \<times> int) list" where
  "simple_escapes =
     [(0x61, 0x07), (0x62, 0x08), (0x65, 0x1b), (0x66, 0x0c), (0x6e, 0x0a), (0x72, 0x0d), (0x74, 0x09), (0x76, 0x0b),
      (0x5c, 0x5c), (0x27, 0x27), (0x22, 0x22)]"

text \<open>The rune, whether it is to be encoded in several bytes, and the rest; \<open>None\<close> for a failure.\<close>

definition unquote_char :: "byte list \<Rightarrow> byte \<Rightarrow> (int \<times> bool \<times> byte list) option" where
  "unquote_char s quote =
     (let c = s ! 0 in
      if c = quote \<and> (quote = 0x27 \<or> quote = 0x22) then None
      else if c \<ge> 0x80 then let (size, r) = utf8_decode s in Some (r, True, drop size s)
      else if c \<noteq> backslash then Some (uint c, False, drop 1 s)
      else if length s \<le> 1 then None
      else
        let c = s ! 1; s = drop 2 s in
        case map_of simple_escapes c of
          Some r \<Rightarrow> Some (r, False, s)
        | None \<Rightarrow>
            if 0x30 \<le> c \<and> c \<le> 0x37 then
              if length s < 2 then None
              else
                (case escape_value gb_digit_to_int 3 (gb_digit_to_int c) (take 2 s) of
                   None \<Rightarrow> None
                 | Some r \<Rightarrow> if r > 0xff then None else Some (r, False, drop 2 s))
            else if c = 0x78 \<or> c = 0x75 \<or> c = 0x55 then
              let n = (if c = 0x78 then 2 else if c = 0x75 then 4 else 8) in
              if length s < n then None
              else
                (case escape_value gb_hex_digit_to_int 4 0 (take n s) of
                   None \<Rightarrow> None
                 | Some r \<Rightarrow>
                     if c = 0x78 then Some (r, False, drop n s)
                     else if r > GB_RUNE_MAX then None else Some (r, True, drop n s))
            else None)"

definition strip_carriage_return :: "byte list \<Rightarrow> byte list" where
  "strip_carriage_return s = filter (\<lambda>c. c \<noteq> 0x0d) s"

datatype unquoted = Not_Quoted | Same_Memory "byte list" | New_Memory "byte list" | Buffer_Overflow

text \<open>The bytes a rune is written as.\<close>

definition rune_bytes :: "int \<Rightarrow> bool \<Rightarrow> byte list" where
  "rune_bytes r multiple_bytes = (if r < 0x80 \<or> \<not> multiple_bytes then [word_of_int r] else gb_utf8_encode_rune r)"

lemma unquote_char_tail:
  assumes "unquote_char s quote = Some (r, m, t)" and "s \<noteq> []"
  shows "length t < length s"
proof -
  obtain n x where d: "utf8_decode s = (n, x)" by fastforce
  note progress = utf8_decode_progress [OF d assms(2)]
  from assms d progress show ?thesis
    by (auto simp: unquote_char_def Let_def split: if_splits option.splits)
qed

text \<open>The loop with the room left in the buffer.\<close>

function unquote_loop :: "nat \<Rightarrow> byte list \<Rightarrow> byte list \<Rightarrow> byte \<Rightarrow> unquoted" where
  "unquote_loop room out s quote =
     (if s = [] then New_Memory out
      else case unquote_char s quote of
        None \<Rightarrow> Not_Quoted
      | Some (r, multiple_bytes, t) \<Rightarrow>
          let bytes = rune_bytes r multiple_bytes
          in if length out + length bytes > room then Buffer_Overflow
             else if quote = 0x27 \<and> t \<noteq> [] then Not_Quoted
             else unquote_loop room (out @ bytes) t quote)"
  by pat_completeness auto
termination by (relation "measure (\<lambda>(room, out, s, quote). length s)") (auto dest: unquote_char_tail)

declare unquote_loop.simps [simp del]

text \<open>The text between the quotes.\<close>

definition unquote_text :: "byte list \<Rightarrow> byte \<Rightarrow> bool \<Rightarrow> unquoted" where
  "unquote_text s quote has_carriage_return =
     (if quote = 0x60 then
        if 0x60 \<in> set s then Not_Quoted
        else if has_carriage_return then New_Memory (strip_carriage_return s) else Same_Memory s
      else if quote \<noteq> 0x22 \<and> quote \<noteq> 0x27 then Not_Quoted
      else if 0x0a \<in> set s then Not_Quoted
      else if backslash \<notin> set s \<and> quote \<notin> set s \<and>
              (quote = 0x22 \<or> (let (size, r) = utf8_decode s in size = length s \<and> (r \<noteq> -1 \<or> size \<noteq> 1)))
      then Same_Memory s
      else unquote_loop (3 * length s div 2) [] s quote)"

text \<open>With no quote given it is the first byte, and the last one has to be the same.\<close>

definition unquote_string :: "byte list \<Rightarrow> byte \<Rightarrow> bool \<Rightarrow> unquoted" where
  "unquote_string s quote has_carriage_return =
     (if quote = 0 then
        if length s < 2 then Not_Quoted
        else if s ! 0 \<noteq> s ! (length s - 1) then Not_Quoted
        else unquote_text (butlast (tl s)) (s ! 0) has_carriage_return
      else unquote_text s quote has_carriage_return)"

subsection \<open>Identifiers\<close>

text \<open>The loop decodes at the start of the string, whatever \<open>offset\<close> is.\<close>

function identifier_loop :: "(int \<Rightarrow> utf8proc_category) \<Rightarrow> byte list \<Rightarrow> nat \<Rightarrow> nat \<Rightarrow> bool" where
  "identifier_loop category str rune_count offset =
     (if offset < length str then
        let (w, r) = utf8_decode str
        in if r = GB_RUNE_INVALID then False
           else if rune_count = 0 \<and> \<not> rune_is_letter category r then False
           else if rune_count \<noteq> 0 \<and> \<not> rune_is_letter category r \<and> \<not> rune_is_digit category r then False
           else identifier_loop category str (rune_count + 1) (offset + w)
      else True)"
  by pat_completeness auto
termination
proof (relation "measure (\<lambda>(category, str, rune_count, offset). length str - offset)", goal_cases)
  case (2 category str rune_count offset x w r)
  then show ?case using utf8_decode_progress(1) [of str w r] by (cases str) auto
qed simp

declare identifier_loop.simps [simp del]

definition string_is_valid_identifier :: "(int \<Rightarrow> utf8proc_category) \<Rightarrow> byte list \<Rightarrow> bool" where
  "string_is_valid_identifier category str = (if str = [] then False else identifier_loop category str 0 0)"

end
