(* ===== verification/Quote_Properties.thy ===== *)
theory Quote_Properties
  imports Quoting
begin

text \<open>
  Quoted literals: what \<open>quote_to_ascii\<close> writes is read back by \<open>unquote_string\<close>, with the control characters
  doubled; and the buffer of \<open>unquote_string\<close> is big enough for a text with few bytes that are not UTF-8.
\<close>

subsection \<open>Hexadecimal digits\<close>

lemma low_four_bits: "x AND 0xf = x mod (16 :: int)"
  using take_bit_eq_mask [of 4 x] by (simp add: take_bit_eq_mod mask_eq_exp_minus_1)

lemma nibble_bounds: "0 \<le> x AND (0xf :: int)" "x AND (0xf :: int) < 16"
  by (simp_all add: low_four_bits)

lemma nibble_cases:
  assumes "0 \<le> (d :: int)" and "d < 16"
  obtains k where "d = int k" and "k \<in> set [0..<16]"
  using assms by (intro that [of "nat d"]) auto

lemma hex_digit_table:
  "\<forall>k\<in>set [0..<16]. gb_hex_digit_to_int (lower_hex ! k) = int k \<and> 0x20 < lower_hex ! k \<and> lower_hex ! k < 0x80"
  by (simp add: upt_rec lower_hex_def gb_hex_digit_to_int_def gb_digit_to_int_def)

lemma hex_digit_read:
  assumes "0 \<le> d" and "d < 16"
  shows "gb_hex_digit_to_int (lower_hex ! nat d) = d"
  by (rule nibble_cases [OF assms]) (use hex_digit_table in auto)

lemma hex_digit_plain:
  assumes "0 \<le> d" and "d < 16"
  shows "0x20 < lower_hex ! nat d \<and> lower_hex ! nat d < 0x80"
  by (rule nibble_cases [OF assms]) (use hex_digit_table in auto)

lemma hex_digits_length [simp]: "length (hex_digits k r) = k"
  by (induction k) simp_all

lemma hex_digits_plain: "\<forall>c\<in>set (hex_digits k r). 0x20 < c \<and> c < 0x80"
  by (induction k) (auto simp: hex_digit_plain nibble_bounds)

lemma digits_step:
  assumes "0 \<le> (a :: int)" and "(a + 1) * 16 \<le> 2 ^ 31" and "0 \<le> d" and "d < 16"
  shows "signed_take_bit 31 (push_bit 4 a OR d) = a * 16 + d"
proof -
  have "push_bit 4 a OR d = a * 16 + d" using or_disjoint [of d 4 a] assms by simp
  then show ?thesis using assms by (simp add: signed_take_bit_int_eq_self_iff)
qed

lemma escape_hex_digits:
  "0 \<le> a \<Longrightarrow> (a + 1) * 16 ^ k \<le> 2 ^ 31 \<Longrightarrow>
   escape_value gb_hex_digit_to_int 4 a (hex_digits k r) = Some (a * 16 ^ k + r mod 16 ^ k)"
proof (induction k arbitrary: a)
  case (Suc k)
  define d where "d = drop_bit (4 * k) r AND 0xf"
  have d: "0 \<le> d" "d < 16" by (simp_all add: d_def nibble_bounds)
  have p: "(1 :: int) \<le> 16 ^ k" by simp
  have "(a + 1) * 16 \<le> (a + 1) * 16 * 16 ^ k"
    using mult_left_mono [OF p, of "(a + 1) * 16"] Suc.prems(1) by simp
  also have "\<dots> \<le> 2 ^ 31" using Suc.prems(2) by (simp add: algebra_simps)
  finally have a: "(a + 1) * 16 \<le> 2 ^ 31" .
  have "(a * 16 + d + 1) * 16 ^ k \<le> (a * 16 + 16) * 16 ^ k" using d by (intro mult_right_mono) auto
  also have "\<dots> \<le> 2 ^ 31" using Suc.prems(2) by (simp add: algebra_simps)
  finally have "escape_value gb_hex_digit_to_int 4 (a * 16 + d) (hex_digits k r) =
      Some ((a * 16 + d) * 16 ^ k + r mod 16 ^ k)"
    using Suc.IH Suc.prems(1) d(1) by simp
  moreover have "d = r div 16 ^ k mod 16"
    by (simp add: d_def low_four_bits drop_bit_eq_div power_mult)
  then have "d * 16 ^ k + r mod 16 ^ k = r mod (16 ^ Suc k)"
    using mod_mult2_eq' [of r "16 ^ k" 16] by (simp add: zmod_zmult2_eq algebra_simps)
  then have "(a * 16 + d) * 16 ^ k + r mod 16 ^ k = a * 16 ^ Suc k + r mod 16 ^ Suc k" by (simp add: algebra_simps)
  moreover have "hex_digits (Suc k) r = lower_hex ! nat d # hex_digits k r" by (simp add: d_def)
  ultimately show ?case
    using d digits_step [OF Suc.prems(1) a d] by (simp add: hex_digit_read Let_def del: hex_digits.simps)
qed simp

subsection \<open>Reading the pieces of a quoted string\<close>

lemma read_hex_escape:
  assumes "k = 2 \<and> c = 0x78 \<or> k = 4 \<and> c = 0x75"
    and "0 \<le> r" and "r < 16 ^ k"
  shows "unquote_char (backslash # c # hex_digits k r @ t) 0x22 = Some (r, c \<noteq> 0x78, t)"
proof -
  have "escape_value gb_hex_digit_to_int 4 0 (hex_digits k r) = Some r"
    using escape_hex_digits [of 0 k r] assms by auto
  moreover have "c = 0x75 \<Longrightarrow> r \<le> GB_RUNE_MAX" using assms by (auto simp: GB_RUNE_MAX_def)
  ultimately show ?thesis
    using assms(1) by (auto simp: unquote_char_def Let_def backslash_def simple_escapes_def)
qed

lemma read_long_escape:
  assumes "0 \<le> r" and "r \<le> GB_RUNE_MAX"
  shows "unquote_char (backslash # 0x55 # hex_digits 8 r @ t) 0x22 = Some (r, True, t)"
proof -
  have z: "hex_digits 8 r = hex_digits (Suc (Suc 6)) r" by (simp add: eval_nat_numeral)
  have "drop_bit 28 r = 0" "drop_bit 24 r = 0"
    using assms by (simp_all add: drop_bit_eq_div GB_RUNE_MAX_def)
  then have h: "hex_digits 8 r = 0x30 # 0x30 # hex_digits 6 r"
    unfolding z hex_digits.simps by (simp add: lower_hex_def)
  have d0: "gb_hex_digit_to_int 0x30 = 0" by (simp add: gb_hex_digit_to_int_def gb_digit_to_int_def)
  have "escape_value gb_hex_digit_to_int 4 0 (hex_digits 6 r) = Some r"
    using escape_hex_digits [of 0 6 r] assms by (simp add: GB_RUNE_MAX_def)
  then have "escape_value gb_hex_digit_to_int 4 0 (hex_digits 8 r) = Some r"
    unfolding h by (simp add: d0)
  then show ?thesis
    using assms(2) by (simp add: unquote_char_def Let_def backslash_def simple_escapes_def)
qed

text \<open>One step of the loop on a piece that is at least as long as what it stands for.\<close>

lemma unquote_piece:
  assumes "unquote_char (p @ t) 0x22 = Some (r, m, t)" and "p \<noteq> []"
    and "rune_bytes r m = bytes" and "length bytes \<le> length p" and "length out + length p \<le> room"
  shows "unquote_loop room out (p @ t) 0x22 = unquote_loop room (out @ bytes) t 0x22"
  using assms by (subst unquote_loop.simps) (simp add: Let_def)

subsection \<open>Quoting and unquoting\<close>

definition controls_doubled :: "byte list \<Rightarrow> byte list" where
  "controls_doubled s = concat (map (\<lambda>b. if b < 0x20 then [b, b] else [b]) s)"

lemma controls_doubled_simps [simp]:
  "controls_doubled [] = []"
  "controls_doubled (s @ t) = controls_doubled s @ controls_doubled t"
  by (simp_all add: controls_doubled_def)

lemma controls_doubled_same: "\<forall>b\<in>set s. 0x20 \<le> b \<Longrightarrow> controls_doubled s = s"
  by (induction s) (auto simp: controls_doubled_def not_less)

text \<open>The piece \<open>p\<close> of a quoted text is read as \<open>bytes\<close>.\<close>

definition read_as :: "byte list \<Rightarrow> byte list \<Rightarrow> bool" where
  "read_as p bytes \<longleftrightarrow>
     p \<noteq> [] \<and> 0x0a \<notin> set p \<and> length bytes \<le> length p \<and> (backslash \<in> set p \<or> p = bytes) \<and>
     (\<forall>room out t. length out + length p \<le> room \<longrightarrow>
        unquote_loop room out (p @ t) 0x22 = unquote_loop room (out @ bytes) t 0x22)"

lemma read_asI:
  assumes "\<And>t. unquote_char (p @ t) 0x22 = Some (r, m, t)" and "rune_bytes r m = bytes"
    and "length bytes \<le> length p" and "p \<noteq> []" and "0x0a \<notin> set p" and "backslash \<in> set p \<or> p = bytes"
  shows "read_as p bytes"
  using assms unquote_piece by (auto simp: read_as_def)

lemma read_asD:
  "read_as p bytes \<Longrightarrow> length out + length p \<le> room \<Longrightarrow>
   unquote_loop room out (p @ t) 0x22 = unquote_loop room (out @ bytes) t 0x22"
  by (simp add: read_as_def)

lemma read_as_append:
  assumes "read_as p b" and "read_as q c"
  shows "read_as (p @ q) (b @ c)"
proof -
  have "unquote_loop room out ((p @ q) @ t) 0x22 = unquote_loop room (out @ b @ c) t 0x22"
    if "length out + length (p @ q) \<le> room" for room out t
  proof -
    have "unquote_loop room out (p @ q @ t) 0x22 = unquote_loop room (out @ b) (q @ t) 0x22"
      using assms(1) that by (simp add: read_as_def)
    also have "\<dots> = unquote_loop room ((out @ b) @ c) t 0x22"
      using assms that by (simp add: read_as_def)
    finally show ?thesis by simp
  qed
  then show ?thesis using assms unfolding read_as_def by auto
qed

lemma no_newline_in_digits: "0x0a \<notin> set (hex_digits k r)"
  using hex_digits_plain [of k r] by (auto simp: word_less_def)

lemma read_hex_byte: "read_as (backslash # 0x78 # hex_digits 2 (uint b)) [b]"
proof (rule read_asI)
  have "uint b < 256" using uint_lt2p [of b] by simp
  then show "unquote_char ((backslash # 0x78 # hex_digits 2 (uint b)) @ t) 0x22 = Some (uint b, False, t)" for t
    using read_hex_escape [where k = 2 and c = "0x78" and r = "uint b" and t = t] by simp
qed (simp_all add: rune_bytes_def backslash_def no_newline_in_digits)

definition rune_escape :: "int \<Rightarrow> byte list" where
  "rune_escape r = (if r < 0x10000 then backslash # 0x75 # hex_digits 4 r else backslash # 0x55 # hex_digits 8 r)"

lemma encode_length: "length (gb_utf8_encode_rune r) \<le> 4"
  by (simp add: gb_utf8_encode_rune_def Let_def)

lemma read_rune_escape:
  assumes "0 \<le> r" and "r \<le> GB_RUNE_MAX"
  shows "read_as (rune_escape r) (rune_bytes r True)"
proof (rule read_asI)
  show "unquote_char (rune_escape r @ t) 0x22 = Some (r, True, t)" for t
    using assms read_hex_escape [where k = 4 and c = "0x75" and r = r and t = t] read_long_escape [of r t] by (simp add: rune_escape_def)
  show "length (rune_bytes r True) \<le> length (rune_escape r)"
    using encode_length [of r] by (simp add: rune_bytes_def rune_escape_def)
qed (simp_all add: rune_escape_def backslash_def no_newline_in_digits)

lemma escape_rune_parts:
  assumes "0 \<le> r" and "r \<le> GB_RUNE_MAX"
  shows "escape_rune r =
    (if r < 0x20 then backslash # 0x78 # hex_digits 2 (uint (word_of_int r :: byte)) else []) @ rune_escape r"
  using assms by (simp add: escape_rune_def rune_escape_def GB_RUNE_MAX_def)

lemma quote_rune_ascii:
  assumes "b < 0x80"
  shows "fst (quote_rune 0x22 (b # s)) = 1 \<and> read_as (snd (quote_rune 0x22 (b # s))) (controls_doubled [b])"
proof -
  have u: "0 \<le> uint b" "uint b < 128" and w: "word_of_int (uint b) = b" using assms by (simp_all add: word_less_def)
  then have m: "uint b \<le> GB_RUNE_MAX" "uint b \<noteq> GB_RUNE_INVALID" by (simp_all add: GB_RUNE_MAX_def GB_RUNE_INVALID_def)
  have rb: "rune_bytes (uint b) x = [b]" for x using u by (simp add: rune_bytes_def)
  have lit: "read_as [b] [b]" if "b \<noteq> 0x22" "b \<noteq> backslash" "b \<noteq> 0x0a"
    by (rule read_asI [of _ "uint b" False]) (use that assms rb in \<open>auto simp: unquote_char_def not_le\<close>)
  have esc: "read_as [backslash, b] [b]" if "b = 0x22 \<or> b = backslash"
    by (rule read_asI [of _ "uint b" False])
       (use that rb in \<open>auto simp: unquote_char_def backslash_def simple_escapes_def rune_bytes_def\<close>)
  have eq: "uint b = 0x22 \<longleftrightarrow> b = 0x22" "uint b = 0x5c \<longleftrightarrow> b = 0x5c"
    by (auto simp: word_uint_eq_iff)
  have q: "quote_rune 0x22 (b # s) =
      (1, if b = 0x22 \<or> b = backslash then [backslash, b] else if is_printable (uint b) then [b] else escape_rune (uint b))"
    using u m(2) w eq by (simp add: quote_rune_def Let_def backslash_def)
  have c: "controls_doubled [b] = (if b < 0x20 then [b, b] else [b])" by (simp add: controls_doubled_def)
  have l: "b < 0x20 \<longleftrightarrow> uint b < 0x20" by (simp add: word_less_def)
  consider "b = 0x22 \<or> b = backslash" | "b \<noteq> 0x22" "b \<noteq> backslash" "is_printable (uint b)"
    | "b \<noteq> 0x22" "b \<noteq> backslash" "\<not> is_printable (uint b)" by blast
  then show ?thesis
  proof cases
    case 1
    then have "\<not> b < 0x20" by (auto simp: backslash_def)
    with 1 show ?thesis using esc by (simp add: q c)
  next
    case 2
    then have "0x20 \<le> uint b" using u by (auto simp: is_printable_def split: if_splits)
    then have "\<not> b < 0x20" "b \<noteq> 0x0a" by (auto simp: l)
    with 2 show ?thesis using lit by (simp add: q c)
  next
    case 3
    have "read_as (escape_rune (uint b)) (controls_doubled [b])"
      using read_as_append [OF read_hex_byte [of b] read_rune_escape [OF u(1) m(1)]] read_rune_escape [OF u(1) m(1)]
      by (simp add: escape_rune_parts [OF u(1) m(1)] c rb w l)
    with 3 show ?thesis by (simp add: q)
  qed
qed

lemma quote_rune_high:
  assumes "0x80 \<le> s ! 0" and "s \<noteq> []"
  shows "\<exists>n. fst (quote_rune 0x22 s) = n \<and> 1 \<le> n \<and> read_as (snd (quote_rune 0x22 s)) (controls_doubled (take n s))"
proof -
  obtain n r where d: "utf8_decode s = (n, r)" by fastforce
  have n: "1 \<le> n" "n \<le> length s" using utf8_decode_spec [OF d assms(2)] by blast+
  have r: "128 \<le> r" using utf8_decode_high(1) [OF d assms(2,1)] .
  have same: "controls_doubled (take n s) = take n s"
    using utf8_decode_high(2) [OF d assms(2,1)]
    by (intro controls_doubled_same) (fastforce simp: in_set_conv_nth elim: order_trans [rotated])
  have u: "0x80 \<le> uint (s ! 0)" using assms(1) by (simp add: word_le_def)
  show ?thesis
  proof (cases "n = 1 \<and> r = GB_RUNE_INVALID")
    case True
    then have "quote_rune 0x22 s = (1, backslash # 0x78 # hex_digits 2 (uint (s ! 0)))"
      using d u by (simp add: quote_rune_def)
    moreover have "take n s = [s ! 0]" using True assms(2) by (cases s) auto
    ultimately show ?thesis using True same read_hex_byte [of "s ! 0"] by simp
  next
    case False
    with utf8_decode_spec [OF d assms(2)] have sc: "scalar_value r" and e: "gb_utf8_encode_rune r = take n s" by blast+
    have m: "0 \<le> r" "r \<le> GB_RUNE_MAX" using sc by (simp_all add: scalar_value_def)
    have "quote_rune 0x22 s = (n, escape_rune r)"
      using d u False r by (auto simp: quote_rune_def backslash_def)
    moreover have "escape_rune r = rune_escape r" using escape_rune_parts [OF m] r by simp
    moreover have "rune_bytes r True = take n s" using r e by (simp add: rune_bytes_def)
    ultimately show ?thesis using same read_rune_escape [OF m] n by simp
  qed
qed

lemma quote_rune_read:
  assumes "s \<noteq> []"
  shows "read_as (snd (quote_rune 0x22 s)) (controls_doubled (take (fst (quote_rune 0x22 s)) s))"
proof (cases "s ! 0 < 0x80")
  case True
  then show ?thesis using assms quote_rune_ascii [of "s ! 0" "tl s"] by (cases s) auto
next
  case False
  then show ?thesis using assms quote_rune_high [of s] by (auto simp: not_less)
qed

lemma quote_loop_nil [simp]: "quote_loop quote [] = []"
  by (subst quote_loop.simps) simp

lemma unquote_loop_nil [simp]: "unquote_loop room out [] quote = New_Memory out"
  by (subst unquote_loop.simps) simp

lemma quote_loop_read: "s \<noteq> [] \<Longrightarrow> read_as (quote_loop 0x22 s) (controls_doubled s)"
proof (induction "0x22 :: byte" s rule: quote_loop.induct)
  case (1 s)
  let ?w = "fst (quote_rune 0x22 s)"
  have p: "read_as (snd (quote_rune 0x22 s)) (controls_doubled (take ?w s))" by (rule quote_rune_read [OF 1(2)])
  have q: "quote_loop 0x22 s = snd (quote_rune 0x22 s) @ quote_loop 0x22 (drop ?w s)"
    using 1(2) by (subst quote_loop.simps) (simp add: case_prod_beta)
  have c: "controls_doubled s = controls_doubled (take ?w s) @ controls_doubled (drop ?w s)"
    by (simp flip: controls_doubled_simps(2))
  show ?case
  proof (cases "drop ?w s = []")
    case True
    have "quote_loop 0x22 s = snd (quote_rune 0x22 s)" "controls_doubled s = controls_doubled (take ?w s)"
      unfolding q c unfolding True by simp_all
    with p show ?thesis by simp
  next
    case False
    have "read_as (quote_loop 0x22 (drop ?w s)) (controls_doubled (drop ?w s))"
      using 1(1) [OF 1(2) refl prod.collapse False] .
    then show ?thesis unfolding q c by (rule read_as_append [OF p])
  qed
qed

text \<open>
  Property C26. A string quoted for output is read back. For every byte string, well-encoded or not, reading the literal
  that \<open>quote_to_ascii\<close> writes gives the string again, except that each control character comes twice:
  its case writes \<^verbatim>\<open>\\x\<close> and goes on to write \<^verbatim>\<open>\\u\<close>.
\<close>

theorem quote_then_unquote:
  "unquote_string (quote_to_ascii s 0x22) 0 has_carriage_return
     \<in> {Same_Memory (controls_doubled s), New_Memory (controls_doubled s)}"
proof -
  let ?q = "quote_loop 0x22 s"
  have "unquote_text ?q 0x22 has_carriage_return \<in> {Same_Memory (controls_doubled s), New_Memory (controls_doubled s)}"
  proof (cases "s = []")
    case True
    then show ?thesis by (simp add: unquote_text_def)
  next
    case False
    have r: "read_as ?q (controls_doubled s)" by (rule quote_loop_read [OF False])
    have "unquote_loop (3 * length ?q div 2) [] ?q 0x22 = New_Memory (controls_doubled s)"
      using read_asD [OF r, of "[]" _ "[]"] by simp
    with r show ?thesis by (auto simp: unquote_text_def read_as_def)
  qed
  then show ?thesis by (simp add: unquote_string_def quote_to_ascii_def nth_append)
qed

subsection \<open>The room in the buffer\<close>

text \<open>The bytes of a text that are not part of a well-encoded rune.\<close>

function ill_formed :: "byte list \<Rightarrow> nat" where
  "ill_formed s =
     (if s = [] then 0
      else let (n, r) = utf8_decode s in (if n = 1 \<and> r = GB_RUNE_INVALID then 1 else 0) + ill_formed (drop n s))"
  by pat_completeness auto
termination
proof (relation "measure length", goal_cases)
  case (2 s x n r)
  then show ?case using utf8_decode_progress [of s n r] by simp
qed simp

declare ill_formed.simps [simp del]

lemma ill_formed_ascii: "c < 0x80 \<Longrightarrow> ill_formed (c # s) = ill_formed s"
  using utf8_decode_ascii [of "c # s"]
  by (subst ill_formed.simps) (auto simp: GB_RUNE_INVALID_def word_less_def)

lemma ill_formed_drop: "\<forall>c\<in>set (take k s). c < 0x80 \<Longrightarrow> ill_formed (drop k s) = ill_formed s"
proof (induction k arbitrary: s)
  case (Suc k)
  then show ?case by (cases s) (simp_all add: ill_formed_ascii)
qed simp

lemma sint_high: "0x80 \<le> (c :: byte) \<Longrightarrow> sint c < 0"
proof -
  assume "0x80 \<le> c"
  then have "uint c div 128 = 1" using uint_lt2p [of c] by (simp add: word_le_def)
  then have "bit (uint c) 7" by (simp add: bit_iff_odd)
  then show "sint c < 0" by (simp add: sint_uint signed_take_bit_negative_iff)
qed

lemma digits_are_ascii:
  assumes "\<And>c. 0x80 \<le> c \<Longrightarrow> digit c < 0"
  shows "escape_value digit bits a cs = Some r \<Longrightarrow> \<forall>c\<in>set cs. c < 0x80"
proof (induction cs arbitrary: a)
  case (Cons c cs)
  have "c < 0x80" if "\<not> digit c < 0" using assms [of c] that by (meson not_le)
  with Cons show ?case by (auto simp: Let_def split: if_splits)
qed simp

lemma high_no_digit: "0x80 \<le> c \<Longrightarrow> gb_digit_to_int c < 0" "0x80 \<le> c \<Longrightarrow> gb_hex_digit_to_int c < 0"
  using sint_high [of c] by (simp_all add: gb_digit_to_int_def gb_hex_digit_to_int_def word_le_def)

lemma escape_is_ascii:
  "escape_value gb_digit_to_int 3 a cs = Some r \<Longrightarrow> c \<in> set cs \<Longrightarrow> c < 0x80"
  "escape_value gb_hex_digit_to_int 4 a cs = Some r \<Longrightarrow> c \<in> set cs \<Longrightarrow> c < 0x80"
  using digits_are_ascii high_no_digit by blast+

text \<open>What a rune is written as is paid for by what was read for it, at three bytes for a bad one.\<close>

abbreviation cost :: "byte list \<Rightarrow> nat" where
  "cost s \<equiv> length s + 2 * ill_formed s"

lemma cost_step:
  assumes "\<forall>c\<in>set (take k s). c < 0x80" and "k \<le> length s" and "b \<le> k"
  shows "b + cost (drop k s) \<le> cost s"
  using assms by (simp add: ill_formed_drop)

lemma high_cost:
  assumes "utf8_decode s = (n, r)" and "s \<noteq> []" and "0x80 \<le> s ! 0"
  shows "length (rune_bytes r True) + cost (drop n s) \<le> cost s"
proof -
  have n: "1 \<le> n" "n \<le> length s" using utf8_decode_spec [OF assms(1,2)] by blast+
  have r: "128 \<le> r" using utf8_decode_high(1) [OF assms] .
  have i: "ill_formed s = (if n = 1 \<and> r = GB_RUNE_INVALID then 1 else 0) + ill_formed (drop n s)"
    using assms(1,2) by (subst ill_formed.simps) simp
  show ?thesis
  proof (cases "n = 1 \<and> r = GB_RUNE_INVALID")
    case True
    have "length (rune_bytes GB_RUNE_INVALID True) = 3"
      by (simp add: rune_bytes_def gb_utf8_encode_rune_def GB_RUNE_INVALID_def GB_RUNE_MAX_def Let_def)
    with True i n show ?thesis by simp
  next
    case False
    with utf8_decode_spec [OF assms(1,2)] have "gb_utf8_encode_rune r = take n s" by blast
    then have "length (rune_bytes r True) = n" using r n by (simp add: rune_bytes_def)
    with False i n show ?thesis by auto
  qed
qed

lemma rune_bytes_length: "length (rune_bytes r m) \<le> (if m then 4 else 1)"
  using encode_length [of r] by (simp add: rune_bytes_def)

text \<open>The \<open>k\<close> bytes taken after an escape \<open>e\<close> are its digits.\<close>

lemma unquote_escape:
  assumes "unquote_char (backslash # e # u) quote = Some (r, m, t)"
  shows "\<exists>k. t = drop k u \<and> k \<le> length u \<and> (\<forall>c\<in>set (take k u). c < 0x80) \<and> (m \<longrightarrow> 4 \<le> k) \<and> e < 0x80"
proof (cases "map_of simple_escapes e")
  case (Some x)
  then have "e < 0x80" by (auto simp: simple_escapes_def split: if_splits)
  moreover have "t = u" "\<not> m" using assms Some by (auto simp: unquote_char_def Let_def backslash_def split: if_splits)
  ultimately show ?thesis by (intro exI [of _ 0]) simp
next
  case None
  show ?thesis
  proof (cases "0x30 \<le> e \<and> e \<le> 0x37")
    case True
    with assms None have "t = drop 2 u" "\<not> m" "2 \<le> length u"
      "\<exists>x. escape_value gb_digit_to_int 3 (gb_digit_to_int e) (take 2 u) = Some x"
      by (auto simp: unquote_char_def Let_def backslash_def split: if_splits option.splits)
    moreover have "e < 0x80" using True by (simp add: word_le_def word_less_def)
    ultimately show ?thesis by (intro exI [of _ 2]) (auto dest: escape_is_ascii)
  next
    case False
    define n :: nat where "n = (if e = 0x78 then 2 else if e = 0x75 then 4 else 8)"
    from False assms None have e: "e = 0x78 \<or> e = 0x75 \<or> e = 0x55"
      by (auto simp: unquote_char_def Let_def backslash_def split: if_splits)
    with False assms None have "t = drop n u \<and> (m \<longrightarrow> e \<noteq> 0x78) \<and> n \<le> length u \<and>
      (\<exists>x. escape_value gb_hex_digit_to_int 4 0 (take n u) = Some x)"
      by (auto simp: unquote_char_def Let_def backslash_def n_def split: if_splits option.splits)
    moreover have "e < 0x80" using e by auto
    moreover have "e \<noteq> 0x78 \<Longrightarrow> 4 \<le> n" by (simp add: n_def)
    ultimately show ?thesis by (intro exI [of _ n]) (auto dest: escape_is_ascii)
  qed
qed

lemma unquote_char_cost:
  assumes "unquote_char s quote = Some (r, m, t)" and "s \<noteq> []"
  shows "length (rune_bytes r m) + cost t \<le> cost s"
proof -
  obtain c s' where s: "s = c # s'" using assms(2) by (cases s) auto
  consider "c \<ge> 0x80" | "c < 0x80" "c \<noteq> backslash" | "c = backslash" by (meson not_le)
  then show ?thesis
  proof cases
    case 1
    obtain n x where d: "utf8_decode s = (n, x)" by fastforce
    with assms 1 s have "r = x" "m" "t = drop n s" by (auto simp: unquote_char_def Let_def split: if_splits)
    with high_cost [OF d assms(2)] 1 s show ?thesis by simp
  next
    case 2
    with assms s have "m = False" "t = s'" by (auto simp: unquote_char_def Let_def split: if_splits)
    with 2 s rune_bytes_length [of r m] show ?thesis by (simp add: ill_formed_ascii)
  next
    case 3
    obtain e u where u: "s' = e # u" using assms s 3
      by (cases s') (auto simp: unquote_char_def Let_def backslash_def split: if_splits)
    with unquote_escape [of e u quote r m t] assms(1) s 3 obtain k where k: "t = drop k u" "k \<le> length u" "\<forall>c\<in>set (take k u). c < 0x80" "m \<longrightarrow> 4 \<le> k" "e < 0x80" by blast
    have "length (rune_bytes r m) + cost (drop (k + 2) s) \<le> cost s"
      using k s u 3 rune_bytes_length [of r m] by (intro cost_step) (auto simp: backslash_def split: if_splits)
    then show ?thesis by (simp add: s u k)
  qed
qed

lemma unquote_loop_fits: "length out + cost s \<le> room \<Longrightarrow> unquote_loop room out s quote \<noteq> Buffer_Overflow"
proof (induction room out s quote rule: unquote_loop.induct)
  case (1 room out s quote)
  show ?case
  proof (cases "s = []")
    case False
    show ?thesis
    proof (cases "unquote_char s quote")
      case None
      with False show ?thesis by (subst unquote_loop.simps) simp
    next
      case (Some a)
      obtain r m t where a: "a = (r, m, t)" by (cases a)
      have room: "length out + length (rune_bytes r m) + cost t \<le> room"
        using unquote_char_cost [OF Some [unfolded a] False] 1(2) by simp
      show ?thesis
      proof (cases "quote = 0x27 \<and> t \<noteq> []")
        case True
        with False Some a room show ?thesis by (subst unquote_loop.simps) (simp add: Let_def)
      next
        case go: False
        then have "unquote_loop room out s quote = unquote_loop room (out @ rune_bytes r m) t quote"
          using False Some a room by (subst unquote_loop.simps) (auto simp: Let_def)
        then show ?thesis using 1(1) [OF False Some _ refl refl] a room go by simp
      qed
    qed
  qed simp
qed

text \<open>
  Property C27. Unquoting stays in its buffer. If at most a quarter of the bytes between the quotes are not well-encoded UTF-8,
  the buffer of one and a half times their number is enough, whatever the quote and the escapes.
\<close>

theorem unquote_stays_in_buffer:
  assumes "4 * ill_formed s \<le> length s"
  shows "unquote_text s quote has_carriage_return \<noteq> Buffer_Overflow"
proof -
  have "cost s \<le> 3 * length s div 2" using assms by linarith
  then have "unquote_loop (3 * length s div 2) [] s quote \<noteq> Buffer_Overflow" by (intro unquote_loop_fits) simp
  then show ?thesis unfolding unquote_text_def by (simp only: split: if_splits) simp
qed

theorem unquote_stays_in_buffer_witness:
  "unquote_text [0x5c, 0x75, 0x32, 0x30, 0x61, 0x63, 0x5c, 0x6e, 0xff] 0x22 False \<noteq> Buffer_Overflow"
proof (rule unquote_stays_in_buffer)
  show "4 * ill_formed [0x5c, 0x75, 0x32, 0x30, 0x61, 0x63, 0x5c, 0x6e, 0xff] \<le>
      length [0x5c, 0x75, 0x32, 0x30, 0x61, 0x63, 0x5c, 0x6e, 0xff :: byte]"
    by code_simp
qed


subsection \<open>Identifiers\<close>

lemma identifier_loop_all:
  assumes "utf8_decode str = (w, r)" and "r \<noteq> GB_RUNE_INVALID" and "rune_is_letter category r"
  shows "identifier_loop category str k i"
  using assms
proof (induction category str k i rule: identifier_loop.induct)
  case (1 category str k i)
  show ?case using 1(1) [OF _ 1(2) [symmetric] refl] 1(2-4) by (subst identifier_loop.simps) auto
qed

text \<open>
  Property C39. The test for identifiers looks at the first rune only. A string passes if and only if its first rune is a well-encoded
  letter; whatever follows it, the loop decodes the same rune again.
\<close>

theorem identifier_first_rune:
  "string_is_valid_identifier category str \<longleftrightarrow>
     str \<noteq> [] \<and> snd (utf8_decode str) \<noteq> GB_RUNE_INVALID \<and> rune_is_letter category (snd (utf8_decode str))"
proof -
  obtain w r where d: "utf8_decode str = (w, r)" by fastforce
  have "identifier_loop category str 0 0 \<longleftrightarrow> r \<noteq> GB_RUNE_INVALID \<and> rune_is_letter category r" if "str \<noteq> []"
    using that d identifier_loop_all [OF d, of category] by (subst identifier_loop.simps) auto
  then show ?thesis by (simp add: string_is_valid_identifier_def d)
qed

end
