(* ===== verification/Spec2Isabelle.thy ===== *)
theory Spec2Isabelle
  imports Priority_Queue Ptr_Set Ptr_Map Dep_Graph Init_Order Range_Cache Utf8 Token Tokenizer Token_Stream
    Types Type_Layout Layout_Properties Identity_Properties Package_Order Constant_Properties Parser_Properties
    String_Search Quote_Properties
begin

text \<open>
  A model of parts of the Methodin compiler (a C++ compiler derived from Odin, \<^verbatim>\<open>src/src\<close>) and of what
  makes them correct.

  The front end reads a file as bytes, decodes them (\<open>Utf8\<close>: \<^verbatim>\<open>unicode.cpp\<close>), cuts them into tokens
  (\<open>Tokenizer\<close>, \<open>Token\<close>: \<^verbatim>\<open>tokenizer.cpp\<close>) and stores the tokens of the file (\<open>Token_Stream\<close>:
  \<^verbatim>\<open>init_ast_file\<close> of \<^verbatim>\<open>parser.cpp\<close>). The parser reads the tokens through a cursor that skips comments and
  newlines (\<open>Parser_State\<close>: \<open>advance_token\<close>, \<open>expect_token\<close>, \<open>fix_advance_to_next_stmt\<close>, ...) and builds the trees of
  expressions (\<open>Expr_Parser\<close>: \<open>parse_operand\<close> to \<open>parse_binary_expr\<close>, \<^verbatim>\<open>parser.cpp\<close>). The checker gives the declarations types (\<open>Types\<close>,
  \<open>Type_Layout\<close>: \<^verbatim>\<open>types.cpp\<close>) and decides when two of them are one (\<open>Type_Identity\<close>), evaluates constants
  (\<open>Big_Int\<close>, \<open>Exact_Value\<close>: \<^verbatim>\<open>big_int.cpp\<close>, \<^verbatim>\<open>exact_value.cpp\<close>) and checks that they fit their types (\<open>Const_Check\<close>:
  \<^verbatim>\<open>check_expr.cpp\<close>), orders the packages by their imports (\<open>Import_Order\<close>: \<^verbatim>\<open>checker.cpp\<close>), and orders the initialization of global variables (\<open>Dep_Graph\<close>,
  \<open>Init_Order\<close>: \<^verbatim>\<open>checker.cpp\<close>) with a graph kept in pointer sets and maps and a priority queue
  (\<open>Hash_Probe\<close>, \<open>Ptr_Set\<close>, \<open>Ptr_Map\<close>, \<open>Priority_Queue\<close>). \<open>Range_Cache\<close> (\<^verbatim>\<open>range_cache.cpp\<close>) serves the
  check of indices in compound literals. The strings of the compiler are bytes: \<open>Strings\<close> searches and splits them and takes
  file names apart, \<open>Quoting\<close> writes and reads quoted literals (\<^verbatim>\<open>string.cpp\<close>). \<open>Odin_Prelude\<close> holds the arithmetic of \<^verbatim>\<open>common.cpp\<close> and the
  lemmas the components share.

  Conventions. A \<^verbatim>\<open>struct\<close> is a record, an \<^verbatim>\<open>enum\<close> or tagged union a datatype; machine words keep their
  width; a failed assertion or a panic is \<open>None\<close>; a pointer is a number or, for types, the tree it
  points to. Loops are recursive functions; where the code has no bound of its own there is fuel:
  3 probes more than the table has slots for the pointer tables (resizes keep a slot free), the
  number of nodes for the initialization loop, the tokens left and three more for the parser of expressions and each
  of its loops (\<open>binary_expr_ok\<close>), and a depth for the walks over types
  (\<open>layout_stable\<close>: three times the depth of a type is enough). Code outside the repository is an argument:
  the float operations of the C library (\<open>f64_ops\<close>) and the table of Unicode categories; libtommath is used by its
  contract, as arithmetic on the integers. The parsers of types and of operands that are types, directives or procedures
  are arguments of the expression parser (\<open>parsers\<close>); what is asked of them is \<open>others_ok\<close>: like every function of the
  modelled parser they move forward over the same tokens and restore the flags unless they report an error.

  Properties are stated where their component is complete. \<open>Token_Stream\<close>: the tokens of a file are
  all of it, in order, and statements are separated at newlines. \<open>Parser_Properties\<close>: the parser of
  expressions ends, moves forward (over \<open>Parser_Progress\<close>, \<open>Parser_Contract\<close>), and returns the trees of a
  declarative grammar (\<open>Expr_Grammar\<close>, \<open>Expr_Correct\<close>), which leaves out compound literals and what begins with a type. \<open>Init_Order\<close>: the order of
  initialization is the order of declaration. \<open>Ptr_Set\<close> and \<open>Ptr_Map\<close>: the tables refine sets and maps.
  \<open>Utf8\<close>: decoding is canonical and inverts encoding. \<open>Layout_Properties\<close>: sizes, alignments and
  offsets fit together. \<open>Identity_Properties\<close> (over \<open>Identity_Laws\<close>): types the compiler takes for identical
  have the same layout. \<open>Package_Order\<close> (over \<open>Import_Graph\<close>, \<open>Import_Cycles\<close>): packages come behind
  what they import, and cycles and missing packages are reported. \<open>Constant_Properties\<close> (over \<open>Big_Int_Laws\<close>,
  \<open>Const_Bounds\<close>): constants are computed as integers, and which ones a type accepts. \<open>String_Search\<close>: the rolling
  hash finds first occurrences. \<open>Quote_Properties\<close>: quoted text is read back, and when the buffer for it is big enough.

  Not modelled: the parser of statements, declarations and types, the checks of expressions, statements and
  declarations (they work on the whole syntax tree), the LLVM back end (it calls the LLVM C API),
  the driver, linker and documentation output (pure input and output), threads, and the vendored
  libraries.
\<close>

end
